(* ===== verification/GoPrelude.thy ===== *)
theory GoPrelude
  imports Main "HOL-Library.AList" "HOL-Library.Monad_Syntax"
    "HOL-Library.Multiset" "HOL-Library.Word" "HOL-Library.Char_ord"
begin

text \<open>
  What the component theories share: Go maps as association lists with their laws as a
  locale, the order in which a \<open>range\<close> loop visits a map, the \<open>%d\<close> and \<open>%s\<close> verbs of
  \<open>fmt.Sprintf\<close>, \<open>strconv.ParseUint\<close> and \<open>strings.Split\<close>.

  Two conventions hold everywhere. A panic (a nil dereference, an index out of range, an
  explicit \<open>panic\<close>, a failed type assertion) is the value \<^term>\<open>None\<close> of an option, and the
  option monad's \<open>do\<close> blocks propagate it. An \<open>error\<close> result is a value: \<^term>\<open>None\<close> for
  \<open>nil\<close> where only the error is returned, \<^term>\<open>Inl\<close> where a result comes with it.
\<close>

named_theorems go_map "lookups, key lists and well-formedness of Go maps"
named_theorems go_str "formatting and parsing"

type_synonym err = string
type_synonym int32 = "32 word"
type_synonym byte = "8 word"

section \<open>Go maps\<close>

type_synonym ('k, 'v) gomap = "('k \<times> 'v) list"

abbreviation gm_get :: "('k, 'v) gomap \<Rightarrow> 'k \<Rightarrow> 'v option" where
  "gm_get m k \<equiv> map_of m k"

abbreviation gm_put :: "'k \<Rightarrow> 'v \<Rightarrow> ('k, 'v) gomap \<Rightarrow> ('k, 'v) gomap" where
  "gm_put k v m \<equiv> AList.update k v m"

abbreviation gm_del :: "'k \<Rightarrow> ('k, 'v) gomap \<Rightarrow> ('k, 'v) gomap" where
  "gm_del k m \<equiv> AList.delete k m"

abbreviation gm_keys :: "('k, 'v) gomap \<Rightarrow> 'k list" where
  "gm_keys m \<equiv> map fst m"

abbreviation gm_wf :: "('k, 'v) gomap \<Rightarrow> bool" where
  "gm_wf m \<equiv> distinct (gm_keys m)"

text \<open>
  The contract of a map: what a lookup returns after each update, and that the key list
  enumerates the keys without repetition. Everything a client needs about \<open>len\<close> follows.
\<close>

locale go_map_laws =
  fixes empty :: "'m"
    and get :: "'m \<Rightarrow> 'k \<Rightarrow> 'v option"
    and put :: "'k \<Rightarrow> 'v \<Rightarrow> 'm \<Rightarrow> 'm"
    and del :: "'k \<Rightarrow> 'm \<Rightarrow> 'm"
    and keys :: "'m \<Rightarrow> 'k list"
    and wf :: "'m \<Rightarrow> bool"
  assumes get_empty: "get empty k = None"
    and get_put: "wf m \<Longrightarrow> get (put k v m) x = (if x = k then Some v else get m x)"
    and get_del: "wf m \<Longrightarrow> get (del k m) x = (if x = k then None else get m x)"
    and keys_get: "wf m \<Longrightarrow> x \<in> set (keys m) \<longleftrightarrow> get m x \<noteq> None"
    and keys_distinct: "wf m \<Longrightarrow> distinct (keys m)"
    and wf_empty: "wf empty"
    and wf_put: "wf m \<Longrightarrow> wf (put k v m)"
    and wf_del: "wf m \<Longrightarrow> wf (del k m)"
begin

lemma len_keys: "wf m \<Longrightarrow> length (keys m) = card (set (keys m))"
  by (simp add: distinct_card keys_distinct)

lemma set_keys_put: "wf m \<Longrightarrow> set (keys (put k v m)) = insert k (set (keys m))"
  by (auto simp: keys_get wf_put get_put split: if_splits)

lemma set_keys_del: "wf m \<Longrightarrow> set (keys (del k m)) = set (keys m) - {k}"
  by (auto simp: keys_get wf_del get_del split: if_splits)

lemma len_put_new:
  assumes "wf m" and "get m k = None"
  shows "length (keys (put k v m)) = Suc (length (keys m))"
  using assms keys_get [of m k] by (simp add: len_keys wf_put set_keys_put)

lemma len_put_old:
  assumes "wf m" and "get m k \<noteq> None"
  shows "length (keys (put k v m)) = length (keys m)"
proof -
  have "k \<in> set (keys m)"
    using assms keys_get [of m k] by simp
  then show ?thesis
    using assms by (simp add: len_keys wf_put set_keys_put insert_absorb)
qed

lemma len_del_old:
  assumes "wf m" and "get m k \<noteq> None"
  shows "Suc (length (keys (del k m))) = length (keys m)"
proof -
  have "k \<in> set (keys m)"
    using assms keys_get [of m k] by simp
  then have "Suc (card (set (keys m) - {k})) = card (set (keys m))"
    by (intro card_Suc_Diff1) simp_all
  then show ?thesis
    using assms by (simp add: len_keys wf_del set_keys_del)
qed

text \<open>A loop that stores one value per element of a list: the last store of a key wins.\<close>

lemma wf_fold_put: "wf m \<Longrightarrow> wf (fold (\<lambda>x. put (f x) (g x)) xs m)"
  by (induction xs arbitrary: m) (auto intro: wf_put)

lemma get_fold_put:
  "wf m \<Longrightarrow> get (fold (\<lambda>x. put (f x) (g x)) xs m) k =
     (case find (\<lambda>x. f x = k) (rev xs) of Some x \<Rightarrow> Some (g x) | None \<Rightarrow> get m k)"
proof (induction xs rule: rev_induct)
  case Nil
  then show ?case by simp
next
  case (snoc x xs)
  then show ?case
    by (auto simp: get_put wf_fold_put split: option.split)
qed

end

interpretation gm: go_map_laws "[]" map_of AList.update AList.delete "map fst" "\<lambda>m. distinct (map fst m)"
proof unfold_locales
  fix m :: "('a \<times> 'b) list" and k x v
  show "map_of (AList.update k v m) x = (if x = k then Some v else map_of m x)"
    by (simp add: update_conv)
  show "map_of (AList.delete k m) x = (if x = k then None else map_of m x)"
    by (simp add: delete_conv')
  show "x \<in> set (map fst m) \<longleftrightarrow> map_of m x \<noteq> None"
    by (simp add: map_of_eq_None_iff)
  assume "distinct (map fst m)"
  then show "distinct (map fst (AList.update k v m))" "distinct (map fst (AList.delete k m))"
    by (simp_all add: distinct_update distinct_delete)
qed simp_all

lemma gm_get_put [simp, go_map]:
  "gm_get (gm_put k v m) x = (if x = k then Some v else gm_get m x)"
  by (simp add: update_conv)

lemma gm_get_del [simp, go_map]:
  "gm_get (gm_del k m) x = (if x = k then None else gm_get m x)"
  by (simp add: delete_conv')

lemma gm_wf_put [simp, go_map]: "gm_wf m \<Longrightarrow> gm_wf (gm_put k v m)"
  by (rule gm.wf_put)

lemma gm_wf_del [simp, go_map]: "gm_wf m \<Longrightarrow> gm_wf (gm_del k m)"
  by (rule gm.wf_del)

lemma gm_len_put [go_map]:
  "gm_wf m \<Longrightarrow> length (gm_put k v m) = (if gm_get m k = None then Suc (length m) else length m)"
  using gm.len_put_new [of m k v] gm.len_put_old [of m k v] by simp

lemma gm_len_del [go_map]:
  "gm_wf m \<Longrightarrow> gm_get m k \<noteq> None \<Longrightarrow> Suc (length (gm_del k m)) = length m"
  using gm.len_del_old [of m k] by simp

lemma gm_put_subset: "set (gm_put k v m) \<subseteq> insert (k, v) (set m)"
  by (induction m) auto

lemma gm_put_all: "list_all P m \<Longrightarrow> P (k, v) \<Longrightarrow> list_all P (gm_put k v m)"
  using gm_put_subset [of k v m] by (auto simp: list_all_iff)

lemma gm_keys_put [go_map]: "gm_get m k = Some v' \<Longrightarrow> gm_keys (gm_put k v m) = gm_keys m"
  by (induction m) auto

lemma gm_keyset_put [go_map]: "fst ` set (gm_put k v m) = insert k (fst ` set m)"
  by (simp add: dom_update)

lemma gm_get_in: "gm_get m k = Some v \<Longrightarrow> (k, v) \<in> set m"
  by (rule map_of_SomeD)

text \<open>
  Go randomises the order of every \<open>range\<close> over a map. A loop over a map takes the order as
  an argument: a function that permutes the key list. A theorem about such a loop holds for
  every order that satisfies \<open>is_order\<close>.
\<close>

definition is_order :: "('k list \<Rightarrow> 'k list) \<Rightarrow> bool" where
  "is_order ord \<longleftrightarrow> (\<forall>ks. mset (ord ks) = mset ks)"

definition gm_range :: "('k list \<Rightarrow> 'k list) \<Rightarrow> ('k, 'v) gomap \<Rightarrow> ('k \<times> 'v) list" where
  "gm_range ord m = List.map_filter (\<lambda>k. map_option (Pair k) (gm_get m k)) (ord (gm_keys m))"

lemma is_order_set: "is_order ord \<Longrightarrow> set (ord ks) = set ks"
  unfolding is_order_def by (metis set_mset_mset)

lemma is_order_id [simp, intro]: "is_order (\<lambda>ks. ks)" "is_order id" "is_order rev"
  by (simp_all add: is_order_def)

lemma mset_map_filter: "mset xs = mset ys \<Longrightarrow> mset (List.map_filter f xs) = mset (List.map_filter f ys)"
  by (simp add: map_filter_def mset_filter)

lemma map_filter_entries:
  "\<forall>(k, v) \<in> set xs. gm_get m k = Some v \<Longrightarrow>
     List.map_filter (\<lambda>k. map_option (Pair k) (gm_get m k)) (gm_keys xs) = xs"
  by (induction xs) (auto simp: map_filter_def)

lemma gm_range_id: "gm_wf m \<Longrightarrow> gm_range (\<lambda>ks. ks) m = m"
  unfolding gm_range_def by (rule map_filter_entries) (auto intro: map_of_is_SomeI)

lemma mset_gm_range:
  assumes "is_order ord" and "gm_wf m"
  shows "mset (gm_range ord m) = mset m"
proof -
  have "mset (gm_range ord m) = mset (gm_range (\<lambda>ks. ks) m)"
    unfolding gm_range_def using assms(1) by (intro mset_map_filter) (simp add: is_order_def)
  then show ?thesis using assms(2) by (simp add: gm_range_id)
qed

lemma set_gm_range: "is_order ord \<Longrightarrow> gm_wf m \<Longrightarrow> set (gm_range ord m) = set m"
  by (metis mset_gm_range set_mset_mset)

section \<open>Formatting and parsing\<close>

text \<open>The \<open>%d\<close> verb on integers: decimal digits, a minus sign for a negative number.\<close>

fun dec_digits :: "nat \<Rightarrow> nat list" where
  "dec_digits n = (if n < 10 then [n] else dec_digits (n div 10) @ [n mod 10])"

declare dec_digits.simps [simp del]

definition digit_char :: "nat \<Rightarrow> char" where
  "digit_char d = ''0123456789'' ! d"

definition fmt_uint :: "nat \<Rightarrow> string" where
  "fmt_uint n = map digit_char (dec_digits n)"

definition fmt_int :: "int \<Rightarrow> string" where
  "fmt_int i = (if i < 0 then CHR ''-'' # fmt_uint (nat (- i)) else fmt_uint (nat i))"

text \<open>An evaluation of \<open>%d\<close> on binary integers.\<close>

function int_dec :: "int \<Rightarrow> string" where
  "int_dec n = (if n < 10 then [digit_char (nat n)] else int_dec (n div 10) @ [digit_char (nat (n mod 10))])"
  by auto

termination int_dec
  by (relation "measure nat") auto

declare int_dec.simps [simp del]

lemma int_dec_fmt: "0 \<le> n \<Longrightarrow> int_dec n = fmt_uint (nat n)"
proof (induction n rule: int_dec.induct)
  case (1 n)
  show ?case
  proof (cases "n < 10")
    case True
    then have "nat n < 10" by simp
    with True show ?thesis
      by (subst int_dec.simps, subst fmt_uint_def, subst dec_digits.simps) (simp only: if_True list.map)
  next
    case False
    have "int_dec n = int_dec (n div 10) @ [digit_char (nat (n mod 10))]"
      using False by (subst int_dec.simps) (simp only: if_False)
    moreover have "fmt_uint (nat n) = fmt_uint (nat n div 10) @ [digit_char (nat n mod 10)]"
    proof -
      have "\<not> nat n < 10" using False by simp
      then show ?thesis
        unfolding fmt_uint_def by (subst dec_digits.simps) (simp only: if_False map_append list.map)
    qed
    moreover have "int_dec (n div 10) = fmt_uint (nat (n div 10))"
      using 1(1) False 1(2) by simp
    moreover have "nat n div 10 = nat (n div 10)" "nat n mod 10 = nat (n mod 10)"
      using 1(2) by (simp_all add: nat_div_distrib nat_mod_distrib)
    ultimately show ?thesis by (simp only:)
  qed
qed

lemma fmt_int_code [code]: "fmt_int i = (if i < 0 then CHR ''-'' # int_dec (- i) else int_dec i)"
  by (simp add: fmt_int_def int_dec_fmt)

text \<open>Reading a digit and a number back.\<close>

definition char_digit :: "char \<Rightarrow> nat option" where
  "char_digit c = (let n = of_char c in if 48 \<le> n \<and> n \<le> 57 then Some (n - 48) else None)"

fun digits_value :: "nat \<Rightarrow> string \<Rightarrow> nat option" where
  "digits_value acc [] = Some acc"
| "digits_value acc (c # cs) =
     (case char_digit c of None \<Rightarrow> None | Some d \<Rightarrow> digits_value (10 * acc + d) cs)"

text \<open>\<open>strconv.ParseUint(s, 10, bits)\<close>: no digits, a non-digit and a value out of range fail.\<close>

definition ParseUint10 :: "string \<Rightarrow> nat \<Rightarrow> nat option" where
  "ParseUint10 s bits =
     (if s = [] then None
      else case digits_value 0 s of
        None \<Rightarrow> None
      | Some v \<Rightarrow> if v < 2 ^ bits then Some v else None)"

lemma dec_digits_bound: "d \<in> set (dec_digits n) \<Longrightarrow> d < 10"
proof (induction n rule: dec_digits.induct)
  case (1 n)
  then show ?case
    by (subst (asm) dec_digits.simps) (auto split: if_splits)
qed

lemma dec_digits_nonempty [simp]: "dec_digits n \<noteq> []"
  by (subst dec_digits.simps) simp

lemma less_10_cases: "d < (10::nat) \<Longrightarrow> d \<in> {0, 1, 2, 3, 4, 5, 6, 7, 8, 9}"
  by auto

lemma char_digit_digit_char [simp]: "d < 10 \<Longrightarrow> char_digit (digit_char d) = Some d"
  by (drule less_10_cases) (auto simp: digit_char_def char_digit_def)

lemma digits_value_append:
  "digits_value acc (xs @ ys) =
     (case digits_value acc xs of None \<Rightarrow> None | Some a \<Rightarrow> digits_value a ys)"
  by (induction xs arbitrary: acc) (auto split: option.split)

lemma digits_value_dec_digits: "digits_value 0 (map digit_char (dec_digits n)) = Some n"
proof (induction n rule: dec_digits.induct)
  case (1 n)
  show ?case
  proof (cases "n < 10")
    case True
    then show ?thesis by (simp add: dec_digits.simps [of n])
  next
    case False
    with 1 show ?thesis
      by (simp add: dec_digits.simps [of n] digits_value_append)
  qed
qed

lemma ParseUint10_fmt_uint [go_str]: "n < 2 ^ bits \<Longrightarrow> ParseUint10 (fmt_uint n) bits = Some n"
  by (simp add: ParseUint10_def fmt_uint_def digits_value_dec_digits)

lemma fmt_uint_inject [simp, go_str]: "fmt_uint m = fmt_uint n \<longleftrightarrow> m = n"
  by (metis digits_value_dec_digits fmt_uint_def option.inject)

lemma digit_char_not: "d < 10 \<Longrightarrow> digit_char d \<noteq> CHR ''-'' \<and> digit_char d \<noteq> CHR ''_''"
  by (drule less_10_cases) (auto simp: digit_char_def)

lemma fmt_uint_chars: "c \<in> set (fmt_uint n) \<Longrightarrow> c \<noteq> CHR ''-'' \<and> c \<noteq> CHR ''_''"
  using dec_digits_bound digit_char_not by (auto simp: fmt_uint_def)

lemma fmt_uint_nonempty [simp]: "fmt_uint n \<noteq> []"
  by (simp add: fmt_uint_def)

lemma fmt_int_inject [simp, go_str]: "fmt_int i = fmt_int j \<longleftrightarrow> i = j"
proof
  assume eq: "fmt_int i = fmt_int j"
  have minus: "fmt_uint n \<noteq> CHR ''-'' # s" for n s
    using fmt_uint_chars [of "CHR ''-''" n] by (metis list.set_intros(1))
  show "i = j"
    using eq minus minus [symmetric] by (auto simp: fmt_int_def split: if_splits)
qed simp

lemma fmt_int_no_underscore: "CHR ''_'' \<notin> set (fmt_int i)"
  using fmt_uint_chars by (auto simp: fmt_int_def)

text \<open>Two strings without the separator, joined by it, can be told apart.\<close>

lemma sep_inject:
  assumes "c \<notin> set a" and "c \<notin> set b" and "a @ c # r = b @ c # s"
  shows "a = b \<and> r = s"
  using assms
proof (induction a arbitrary: b)
  case Nil
  then show ?case by (cases b) auto
next
  case (Cons x a)
  then show ?case by (cases b) auto
qed

text \<open>\<open>strings.Split\<close> by a one-character separator: always at least one part.\<close>

fun split_char :: "char \<Rightarrow> string \<Rightarrow> string list" where
  "split_char c [] = [[]]"
| "split_char c (x # xs) =
     (if x = c then [] # split_char c xs
      else case split_char c xs of [] \<Rightarrow> [[x]] | p # ps \<Rightarrow> (x # p) # ps)"

text \<open>\<open>strings.Join\<close>.\<close>

fun join_str :: "string \<Rightarrow> string list \<Rightarrow> string" where
  "join_str sep [] = []"
| "join_str sep [p] = p"
| "join_str sep (p # ps) = p @ sep @ join_str sep ps"

lemma split_char_nonempty [simp]: "split_char c s \<noteq> []"
  by (cases s) (auto split: list.split)

lemma split_char_no_sep: "c \<notin> set p \<Longrightarrow> split_char c p = [p]"
  by (induction p) auto

lemma split_char_append:
  "c \<notin> set p \<Longrightarrow> split_char c (p @ c # s) = p # split_char c s"
  by (induction p) auto

lemma split_join [go_str]:
  "ps \<noteq> [] \<Longrightarrow> \<forall>p \<in> set ps. c \<notin> set p \<Longrightarrow> split_char c (join_str [c] ps) = ps"
proof (induction "[c]" ps rule: join_str.induct)
  case (3 p q ps)
  then show ?case by (simp add: split_char_append)
qed (simp_all add: split_char_no_sep)

lemma join_split: "join_str [c] (split_char c s) = s"
proof (induction s)
  case Nil
  then show ?case by simp
next
  case (Cons x s)
  obtain p ps where "split_char c s = p # ps"
    by (cases "split_char c s") auto
  with Cons show ?case
    by (cases ps) (auto simp: Cons)
qed

section \<open>Lists\<close>

lemma find_SomeD: "find P xs = Some x \<Longrightarrow> x \<in> set xs \<and> P x"
  by (auto simp: find_Some_iff)

text \<open>The loop \<open>for i := 0; i < n; i++\<close> that stops at the first index that satisfies a test.\<close>

fun first_index :: "('a \<Rightarrow> bool) \<Rightarrow> 'a list \<Rightarrow> nat option" where
  "first_index P [] = None"
| "first_index P (x # xs) = (if P x then Some 0 else map_option Suc (first_index P xs))"

lemma first_index_Some:
  "first_index P xs = Some i \<Longrightarrow> i < length xs \<and> P (xs ! i) \<and> (\<forall>j < i. \<not> P (xs ! j))"
  by (induction xs arbitrary: i) (auto simp: nth_Cons split: if_splits nat.split)

lemma first_index_None: "first_index P xs = None \<longleftrightarrow> (\<forall>x \<in> set xs. \<not> P x)"
  by (induction xs) auto

lemma first_index_unique:
  assumes "i < length xs" and "P (xs ! i)" and "\<And>j. j < length xs \<Longrightarrow> P (xs ! j) \<Longrightarrow> j = i"
  shows "first_index P xs = Some i"
proof (cases "first_index P xs")
  case None
  then show ?thesis using assms(1,2) by (simp add: first_index_None)
next
  case (Some j)
  with first_index_Some [OF Some] assms(3) show ?thesis by auto
qed

text \<open>How many elements satisfy a test, under a point update.\<close>

definition count_if :: "('a \<Rightarrow> bool) \<Rightarrow> 'a list \<Rightarrow> nat" where
  "count_if P xs = length (filter P xs)"

lemma count_if_simps [simp]:
  "count_if P [] = 0"
  "count_if P (x # xs) = (if P x then Suc (count_if P xs) else count_if P xs)"
  "count_if P (xs @ ys) = count_if P xs + count_if P ys"
  by (simp_all add: count_if_def)

lemma count_if_update:
  "i < length xs \<Longrightarrow>
     count_if P (xs[i := x]) + (if P (xs ! i) then 1 else 0) = count_if P xs + (if P x then 1 else 0)"
proof (induction xs arbitrary: i)
  case (Cons a xs)
  show ?case
  proof (cases i)
    case 0
    then show ?thesis by simp
  next
    case (Suc k)
    then show ?thesis using Cons.IH [of k] Cons.prems by (cases "P a") simp_all
  qed
qed simp

lemma count_if_le: "count_if P xs \<le> length xs"
  by (simp add: count_if_def)

lemma count_if_less: "i < length xs \<Longrightarrow> \<not> P (xs ! i) \<Longrightarrow> count_if P xs < length xs"
  unfolding count_if_def by (metis length_filter_less nth_mem)

lemma count_if_compl: "count_if P xs + count_if (\<lambda>x. \<not> P x) xs = length xs"
  unfolding count_if_def by (rule sum_length_filter_compl)

lemma count_if_pos: "i < length xs \<Longrightarrow> P (xs ! i) \<Longrightarrow> 0 < count_if P xs"
  unfolding count_if_def by (auto simp: filter_empty_conv)

lemma count_if_mono: "(\<And>x. x \<in> set xs \<Longrightarrow> P x \<Longrightarrow> Q x) \<Longrightarrow> count_if P xs \<le> count_if Q xs"
  by (induction xs) auto

text \<open>A loop over a list whose body may panic, and the scan \<open>for ; i >= 0; i--\<close>.\<close>

fun fold_opt :: "('a \<Rightarrow> 's \<Rightarrow> 's option) \<Rightarrow> 'a list \<Rightarrow> 's \<Rightarrow> 's option" where
  "fold_opt f [] s = Some s"
| "fold_opt f (x # xs) s = (case f x s of None \<Rightarrow> None | Some s1 \<Rightarrow> fold_opt f xs s1)"

lemma fold_opt_append:
  "fold_opt f (xs @ ys) s = (case fold_opt f xs s of None \<Rightarrow> None | Some s1 \<Rightarrow> fold_opt f ys s1)"
  by (induction xs arbitrary: s) (auto split: option.splits)

lemma fold_opt_inv:
  assumes "fold_opt f xs s = Some s'" and "P s"
    and "\<And>x s s'. x \<in> set xs \<Longrightarrow> P s \<Longrightarrow> f x s = Some s' \<Longrightarrow> P s'"
  shows "P s'"
  using assms
proof (induction xs arbitrary: s)
  case (Cons x xs)
  then obtain s1 where "f x s = Some s1" "fold_opt f xs s1 = Some s'" by (auto split: option.splits)
  with Cons show ?case by (metis list.set_intros)
qed simp

lemma fold_opt_total:
  assumes "P s" and "\<And>x s. x \<in> set xs \<Longrightarrow> P s \<Longrightarrow> \<exists>s'. f x s = Some s' \<and> P s'"
  shows "\<exists>s'. fold_opt f xs s = Some s' \<and> P s'"
  using assms
proof (induction xs arbitrary: s)
  case (Cons x xs)
  from Cons.prems(2) [of x s] Cons.prems(1) obtain s1 where "f x s = Some s1" "P s1" by auto
  with Cons.IH [of s1] Cons.prems(2) show ?case by auto
qed simp

text \<open>\<open>scan_down f n\<close> looks for the largest \<open>i < n\<close> with \<open>f i\<close>, \<open>scan_up f n i\<close> for the least one from
  \<open>i\<close> on among the next \<open>n\<close>; the test may panic.\<close>

fun scan_down :: "(nat \<Rightarrow> bool option) \<Rightarrow> nat \<Rightarrow> nat option option" where
  "scan_down f 0 = Some None"
| "scan_down f (Suc i) =
     (case f i of None \<Rightarrow> None | Some b \<Rightarrow> if b then Some (Some i) else scan_down f i)"

fun scan_up :: "(nat \<Rightarrow> bool option) \<Rightarrow> nat \<Rightarrow> nat \<Rightarrow> nat option option" where
  "scan_up f 0 i = Some None"
| "scan_up f (Suc n) i =
     (case f i of None \<Rightarrow> None | Some b \<Rightarrow> if b then Some (Some i) else scan_up f n (Suc i))"

lemma scan_down_Some:
  "scan_down f n = Some (Some i) \<Longrightarrow> i < n \<and> f i = Some True \<and> (\<forall>k. i < k \<and> k < n \<longrightarrow> f k = Some False)"
  by (induction n) (auto simp: less_Suc_eq split: option.splits if_splits)

lemma scan_down_None: "scan_down f n = Some None \<longleftrightarrow> (\<forall>k < n. f k = Some False)"
  by (induction n) (auto simp: less_Suc_eq split: option.splits)

lemma scan_down_total: "(\<And>k. k < n \<Longrightarrow> f k \<noteq> None) \<Longrightarrow> \<exists>r. scan_down f n = Some r"
  by (induction n) (auto split: option.splits)

lemma scan_up_Some:
  "scan_up f n i = Some (Some j) \<Longrightarrow> i \<le> j \<and> j < i + n \<and> f j = Some True \<and> (\<forall>k. i \<le> k \<and> k < j \<longrightarrow> f k = Some False)"
proof (induction n arbitrary: i)
  case (Suc n)
  show ?case
  proof (cases "f i = Some True")
    case False
    with Suc.prems have fi: "f i = Some False" and "scan_up f n (Suc i) = Some (Some j)"
      by (auto split: option.splits if_splits)
    with Suc.IH [OF this(2)] show ?thesis
      by (metis Suc_leD Suc_le_eq add_Suc_shift le_neq_implies_less)
  qed (use Suc.prems in auto)
qed simp

lemma scan_up_None: "scan_up f n i = Some None \<longleftrightarrow> (\<forall>k. i \<le> k \<and> k < i + n \<longrightarrow> f k = Some False)"
proof (induction n arbitrary: i)
  case (Suc n)
  have range: "i \<le> k \<and> k < i + Suc n \<longleftrightarrow> k = i \<or> (Suc i \<le> k \<and> k < Suc i + n)" for k by arith
  have rhs: "(\<forall>k. i \<le> k \<and> k < i + Suc n \<longrightarrow> f k = Some False)
      \<longleftrightarrow> f i = Some False \<and> (\<forall>k. Suc i \<le> k \<and> k < Suc i + n \<longrightarrow> f k = Some False)"
    unfolding range by (simp only: imp_disjL all_conj_distrib simp_thms)
  have "scan_up f (Suc n) i = Some None \<longleftrightarrow> f i = Some False \<and> scan_up f n (Suc i) = Some None"
    by (auto split: option.splits)
  then show ?case unfolding rhs Suc.IH .
qed auto

lemma scan_up_total: "(\<And>k. i \<le> k \<Longrightarrow> k < i + n \<Longrightarrow> f k \<noteq> None) \<Longrightarrow> \<exists>r. scan_up f n i = Some r"
  by (induction n arbitrary: i) (auto split: option.splits)

lemma count_if_sum: "int (count_if P (map f xs)) = (\<Sum>x\<leftarrow>xs. of_bool (P (f x)))"
  by (induction xs) auto

lemma count_if_concat: "int (count_if P (concat xss)) = (\<Sum>xs\<leftarrow>xss. int (count_if P xs))"
  by (induction xss) auto

lemma sum_gm_range:
  assumes "is_order ord" and "gm_wf m"
  shows "(\<Sum>x\<leftarrow>gm_range ord m. f x) = (\<Sum>x\<leftarrow>m. f x :: int)"
  using mset_gm_range [OF assms] by (metis mset_map sum_mset_sum_list)

lemma those_map_Some:
  "those (map f xs) = Some ys \<longleftrightarrow> (\<forall>x \<in> set xs. f x \<noteq> None) \<and> ys = map (\<lambda>x. the (f x)) xs"
  by (induction xs arbitrary: ys) (auto split: option.splits)

text \<open>A sum over the entries of a map, as a sum over its keys.\<close>

lemma sum_keys:
  "gm_wf m \<Longrightarrow> (\<Sum>(k, u)\<leftarrow>m. f k (gm_get m k)) = (\<Sum>k\<in>set (gm_keys m). f k (gm_get m k) :: int)"
proof -
  assume "gm_wf m"
  have "(\<Sum>(k, u)\<leftarrow>m. f k (gm_get m k)) = (\<Sum>k\<leftarrow>gm_keys m. f k (gm_get m k))"
    by (simp add: case_prod_unfold comp_def)
  also have "\<dots> = (\<Sum>k\<in>set (gm_keys m). f k (gm_get m k))"
    by (rule sum_list_distinct_conv_sum_set) fact
  finally show ?thesis .
qed

end
