(* ===== verification/Devices.thy ===== *)
theory Devices
  imports GoPrelude
begin

text \<open>
  The network model of kinda-sdn (\<open>model/devices.go\<close>, \<open>model/network.go\<close>,
  \<open>model/utils.go\<close>): links, the four kinds of device behind the \<open>Device\<close> interface, a
  topology as the slice of its devices, and the graph that maps a name to a device.
  \<open>BaseDevice\<close> is embedded in every device struct; the record extension of
  \<open>base_device\<close> is that embedding.
\<close>

type_synonym device_name = string
type_synonym device_type = string

abbreviation NODE :: device_type where "NODE \<equiv> ''node''"
abbreviation INC_SWITCH :: device_type where "INC_SWITCH \<equiv> ''inc-switch''"
abbreviation NET :: device_type where "NET \<equiv> ''net''"
abbreviation EXTERNAL :: device_type where "EXTERNAL \<equiv> ''external''"
abbreviation BMv2 :: string where "BMv2 \<equiv> ''bmv2''"

record link =
  To :: device_name
  MacAddr :: string
  Ipv4 :: string
  Mask :: int

definition NewLink :: "device_name \<Rightarrow> string \<Rightarrow> string \<Rightarrow> int \<Rightarrow> link" where
  "NewLink to mac ipv4 msk = \<lparr>To = to, MacAddr = mac, Ipv4 = ipv4, Mask = msk\<rparr>"

record base_device =
  Name :: device_name
  Links :: "link list"

record inc_switch = base_device +
  Arch :: string
  GrpcUrl :: string
  InstalledProgram :: string
  AllowClientProgrammability :: bool

datatype device =
    IncSwitch inc_switch
  | Host base_device
  | NetDevice base_device
  | ExternalDevice base_device

definition NewIncSwitch ::
  "device_name \<Rightarrow> link list \<Rightarrow> string \<Rightarrow> string \<Rightarrow> string \<Rightarrow> bool \<Rightarrow> inc_switch" where
  "NewIncSwitch name links arch grpcUrl program allow =
     \<lparr>Name = name, Links = links, Arch = arch, GrpcUrl = grpcUrl,
      InstalledProgram = program, AllowClientProgrammability = allow\<rparr>"

definition NewBmv2IncSwitch :: "device_name \<Rightarrow> link list \<Rightarrow> string \<Rightarrow> string \<Rightarrow> device" where
  "NewBmv2IncSwitch name links grpcUrl program =
     IncSwitch (NewIncSwitch name links BMv2 grpcUrl program True)"

section \<open>The methods of a device\<close>

fun GetName :: "device \<Rightarrow> device_name" where
  "GetName (IncSwitch s) = Name s"
| "GetName (Host b) = Name b"
| "GetName (NetDevice b) = Name b"
| "GetName (ExternalDevice b) = Name b"

fun GetLinks :: "device \<Rightarrow> link list" where
  "GetLinks (IncSwitch s) = Links s"
| "GetLinks (Host b) = Links b"
| "GetLinks (NetDevice b) = Links b"
| "GetLinks (ExternalDevice b) = Links b"

fun GetType :: "device \<Rightarrow> device_type" where
  "GetType (IncSwitch s) = INC_SWITCH"
| "GetType (Host b) = NODE"
| "GetType (NetDevice b) = NET"
| "GetType (ExternalDevice b) = EXTERNAL"

fun set_links :: "(link list \<Rightarrow> link list) \<Rightarrow> device \<Rightarrow> device" where
  "set_links f (IncSwitch s) = IncSwitch (s\<lparr>Links := f (Links s)\<rparr>)"
| "set_links f (Host b) = Host (b\<lparr>Links := f (Links b)\<rparr>)"
| "set_links f (NetDevice b) = NetDevice (b\<lparr>Links := f (Links b)\<rparr>)"
| "set_links f (ExternalDevice b) = ExternalDevice (b\<lparr>Links := f (Links b)\<rparr>)"

definition AddLink :: "link \<Rightarrow> device \<Rightarrow> device" where
  "AddLink l d = set_links (\<lambda>ls. ls @ [l]) d"

definition RemoveLink :: "device_name \<Rightarrow> device \<Rightarrow> device" where
  "RemoveLink peer d = set_links (filter (\<lambda>l. \<not> To l = peer)) d"

text \<open>The first link to a name, scanning from port \<open>i\<close>; Go returns \<open>(0, false)\<close> when there is none.\<close>

fun port_scan :: "nat \<Rightarrow> device_name \<Rightarrow> link list \<Rightarrow> nat \<times> bool" where
  "port_scan i name [] = (0, False)"
| "port_scan i name (l # ls) = (if To l = name then (i, True) else port_scan (Suc i) name ls)"

definition GetPortNumberTo :: "device \<Rightarrow> device_name \<Rightarrow> nat \<times> bool" where
  "GetPortNumberTo d name = port_scan 0 name (GetLinks d)"

definition MustGetPortNumberTo :: "device \<Rightarrow> device_name \<Rightarrow> nat option" where
  "MustGetPortNumberTo d name =
     (case GetPortNumberTo d name of (res, ok) \<Rightarrow> if \<not> ok then None else Some res)"

definition MustGetLinkTo :: "device \<Rightarrow> device_name \<Rightarrow> link option" where
  "MustGetLinkTo d name = do {
     p \<leftarrow> MustGetPortNumberTo d name;
     if p < length (GetLinks d) then Some (GetLinks d ! p) else None
   }"

definition Equals :: "device \<Rightarrow> device option \<Rightarrow> bool" where
  "Equals d other = (case other of None \<Rightarrow> False | Some o' \<Rightarrow> GetName d = GetName o')"

section \<open>Topologies and graphs\<close>

record topology =
  Devices :: "device list"

type_synonym graph = "(device_name, device) gomap"

definition TopologyToGraph :: "topology \<Rightarrow> graph" where
  "TopologyToGraph topo = fold (\<lambda>d. gm_put (GetName d) d) (Devices topo) []"

text \<open>
  What the traversals rely on. \<open>graph_named\<close>: a device is stored under its own name;
  \<open>graph_closed\<close>: no link leads out of the graph; \<open>graph_symmetric\<close>: every link has a link
  back.
\<close>

definition graph_named :: "graph \<Rightarrow> bool" where
  "graph_named G = list_all (\<lambda>(u, d). GetName d = u) G"

definition graph_closed :: "graph \<Rightarrow> bool" where
  "graph_closed G = list_all (\<lambda>(u, d). list_all (\<lambda>l. List.member (gm_keys G) (To l)) (GetLinks d)) G"

definition neighbours :: "graph \<Rightarrow> device_name \<Rightarrow> device_name list" where
  "neighbours G u = (case gm_get G u of None \<Rightarrow> [] | Some d \<Rightarrow> map To (GetLinks d))"

definition graph_symmetric :: "graph \<Rightarrow> bool" where
  "graph_symmetric G = list_all (\<lambda>(u, d). list_all (\<lambda>l. List.member (neighbours G (To l)) u) (GetLinks d)) G"

definition edge_rel :: "graph \<Rightarrow> (device_name \<times> device_name) set" where
  "edge_rel G = {(u, v). v \<in> set (neighbours G u)}"

section \<open>Ports and links\<close>

lemma set_links_sel [simp]:
  "GetName (set_links f d) = GetName d"
  "GetType (set_links f d) = GetType d"
  "GetLinks (set_links f d) = f (GetLinks d)"
  by (cases d; simp)+

lemma AddLink_sel [simp]:
  "GetName (AddLink l d) = GetName d"
  "GetType (AddLink l d) = GetType d"
  "GetLinks (AddLink l d) = GetLinks d @ [l]"
  by (simp_all add: AddLink_def)

lemma RemoveLink_sel [simp]:
  "GetName (RemoveLink p d) = GetName d"
  "GetType (RemoveLink p d) = GetType d"
  "GetLinks (RemoveLink p d) = filter (\<lambda>l. To l \<noteq> p) (GetLinks d)"
  by (simp_all add: RemoveLink_def)

lemma port_scan_found:
  "port_scan i name ls = (p, True) \<Longrightarrow>
     i \<le> p \<and> p < i + length ls \<and> To (ls ! (p - i)) = name \<and> (\<forall>k < p - i. To (ls ! k) \<noteq> name)"
proof (induction ls arbitrary: i)
  case (Cons l ls)
  show ?case
  proof (cases "To l = name")
    case False
    with Cons.prems have "port_scan (Suc i) name ls = (p, True)"
      by simp
    from Cons.IH [OF this] have IH: "Suc i \<le> p \<and> p < Suc i + length ls \<and> To (ls ! (p - Suc i)) = name
        \<and> (\<forall>k < p - Suc i. To (ls ! k) \<noteq> name)"
      .
    then have "p - i = Suc (p - Suc i)" by (simp add: Suc_diff_Suc)
    with IH False show ?thesis
      by (auto simp: nth_Cons split: nat.split)
  qed (use Cons.prems in auto)
qed simp

lemma port_scan_ok: "snd (port_scan i name ls) \<longleftrightarrow> name \<in> To ` set ls"
  by (induction ls arbitrary: i) auto

lemma GetPortNumberTo_ok: "snd (GetPortNumberTo d name) \<longleftrightarrow> name \<in> To ` set (GetLinks d)"
  by (simp add: GetPortNumberTo_def port_scan_ok)

lemma MustGetPortNumberTo_Some:
  assumes "MustGetPortNumberTo d name = Some p"
  shows "p < length (GetLinks d) \<and> To (GetLinks d ! p) = name \<and> (\<forall>k < p. To (GetLinks d ! k) \<noteq> name)"
  using assms port_scan_found [of 0 name "GetLinks d" p]
  by (auto simp: MustGetPortNumberTo_def GetPortNumberTo_def split: prod.splits if_splits)

lemma MustGetPortNumberTo_None:
  "MustGetPortNumberTo d name = None \<longleftrightarrow> name \<notin> To ` set (GetLinks d)"
  using GetPortNumberTo_ok [of d name]
  by (auto simp: MustGetPortNumberTo_def split: prod.splits if_splits)

lemma MustGetLinkTo_Some:
  assumes "MustGetLinkTo d name = Some l"
  shows "l \<in> set (GetLinks d) \<and> To l = name"
  using assms MustGetPortNumberTo_Some [of d name]
  by (auto simp: MustGetLinkTo_def split: Option.bind_splits if_splits)

lemma MustGetLinkTo_None: "MustGetLinkTo d name = None \<longleftrightarrow> name \<notin> To ` set (GetLinks d)"
  using MustGetPortNumberTo_Some [of d name] MustGetPortNumberTo_None [of d name]
  by (auto simp: MustGetLinkTo_def split: Option.bind_splits)

text \<open>\<open>MustGetPortNumberTo\<close> returns the lowest-numbered port whose link leads to the
  name, \<open>MustGetLinkTo\<close> returns the link at that port, and both panic exactly when the device
  has no link to the name.\<close>

theorem must_get_link_spec:
  "(case MustGetPortNumberTo d name of
      Some p \<Rightarrow> p < length (GetLinks d) \<and> To (GetLinks d ! p) = name
        \<and> list_all (\<lambda>k. To (GetLinks d ! k) \<noteq> name) [0..<p]
        \<and> MustGetLinkTo d name = Some (GetLinks d ! p)
    | None \<Rightarrow> name \<notin> To ` set (GetLinks d) \<and> MustGetLinkTo d name = None)"
  using MustGetPortNumberTo_Some [of d name] MustGetPortNumberTo_None [of d name]
  by (auto simp: MustGetLinkTo_def list_all_iff split: option.split)

section \<open>The graph of a topology\<close>

lemma TopologyToGraph_wf [simp]: "gm_wf (TopologyToGraph topo)"
  unfolding TopologyToGraph_def
  by (rule gm.wf_fold_put) simp

lemma TopologyToGraph_get:
  "gm_get (TopologyToGraph topo) name = find (\<lambda>d. GetName d = name) (rev (Devices topo))"
  unfolding TopologyToGraph_def
  by (subst gm.get_fold_put) (auto split: option.split)

lemma TopologyToGraph_SomeD:
  "gm_get (TopologyToGraph topo) name = Some d \<Longrightarrow> d \<in> set (Devices topo) \<and> GetName d = name"
  by (auto simp: TopologyToGraph_get dest: find_SomeD)

lemma TopologyToGraph_named: "graph_named (TopologyToGraph topo)"
  unfolding graph_named_def list_all_iff
  using TopologyToGraph_SomeD map_of_is_SomeI [OF TopologyToGraph_wf] by fastforce

lemma graph_namedD: "graph_named G \<Longrightarrow> gm_get G u = Some d \<Longrightarrow> GetName d = u"
  by (auto simp: graph_named_def list_all_iff dest!: gm_get_in)

lemma graph_closedD:
  assumes "graph_closed G" and "gm_get G u = Some d" and "l \<in> set (GetLinks d)"
  shows "\<exists>d'. gm_get G (To l) = Some d'"
proof -
  have "To l \<in> set (gm_keys G)"
    using assms by (fastforce simp: graph_closed_def list_all_iff dest: gm_get_in)
  then show ?thesis
    using map_of_eq_None_iff [of G "To l"] by (metis image_set not_None_eq)
qed

lemma graph_symmetricD:
  assumes "graph_symmetric G" and "gm_get G u = Some d" and "l \<in> set (GetLinks d)"
  shows "u \<in> set (neighbours G (To l))"
  using assms by (fastforce simp: graph_symmetric_def list_all_iff dest: gm_get_in)

lemma neighbours_get: "gm_get G u = Some d \<Longrightarrow> neighbours G u = map To (GetLinks d)"
  by (simp add: neighbours_def)

lemma edge_relE:
  assumes "(u, v) \<in> edge_rel G"
  obtains d l where "gm_get G u = Some d" "l \<in> set (GetLinks d)" "To l = v"
  using assms by (cases "gm_get G u") (auto simp: edge_rel_def neighbours_def)

lemma edge_relI: "gm_get G u = Some d \<Longrightarrow> l \<in> set (GetLinks d) \<Longrightarrow> (u, To l) \<in> edge_rel G"
  by (auto simp: edge_rel_def neighbours_def)

end
