(* ===== verification/Entries.thy ===== *)
theory Entries
  imports Devices
begin

text \<open>
  The entries the controller writes into the switches' match-action tables
  (\<open>telemetry/config.go\<close>, \<open>RawTableEntry\<close> of \<open>p4-connector/connector/flows.go\<close>) and the keys
  under which the telemetry service counts them.
\<close>

record raw_entry =
  TableName :: string
  Match :: "(string, string) gomap"
  ActionName :: string
  ActionParams :: "(string, string) gomap"

abbreviation ANY_PORT :: int where "ANY_PORT \<equiv> - 1"
abbreviation ANY_IPv4 :: string where "ANY_IPv4 \<equiv> ''any''"
abbreviation FULL_TELEMETRY_KEY :: int where "FULL_TELEMETRY_KEY \<equiv> 65280"

record configure_source_key =
  srcAddr :: string
  dstAddr :: string
  srcPort :: int
  dstPort :: int
  tunneled :: bool

text \<open>The implementations of the \<open>MatchKey\<close> interface.\<close>

datatype match_key =
    ConfigureTransitKey
  | ConfigureSinkKey int
  | ReportingKey int
  | ActivateSourceKey int
  | ConfigureSourceKey configure_source_key

type_synonym match_identifier = string

definition source_identifier :: "configure_source_key \<Rightarrow> match_identifier" where
  "source_identifier c =
     (let isTunneled = (if \<not> tunneled c then ''raw'' else ''tun'') in
      srcAddr c @ ''_'' @ dstAddr c @ ''_'' @ fmt_int (srcPort c) @ ''_'' @ fmt_int (dstPort c)
        @ ''_'' @ isTunneled)"

fun ToIdentifier :: "match_key \<Rightarrow> match_identifier" where
  "ToIdentifier ConfigureTransitKey = []"
| "ToIdentifier (ConfigureSinkKey p) = fmt_int p"
| "ToIdentifier (ReportingKey c) = fmt_int c"
| "ToIdentifier (ActivateSourceKey p) = fmt_int p"
| "ToIdentifier (ConfigureSourceKey c) = source_identifier c"

section \<open>Building entries\<close>

definition Forward :: "string \<Rightarrow> string \<Rightarrow> string \<Rightarrow> string \<Rightarrow> raw_entry" where
  "Forward ip srcMac dstMac port =
     \<lparr>TableName = ''ingress.Forward.ipv4_lpm'',
      Match = [(''hdr.ipv4.dstAddr'', ip)],
      ActionName = ''ingress.Forward.ipv4_forward'',
      ActionParams = [(''srcAddr'', srcMac), (''dstAddr'', dstMac), (''port'', port)]\<rparr>"

definition DefaultRoute :: "string \<Rightarrow> string \<Rightarrow> string \<Rightarrow> raw_entry" where
  "DefaultRoute srcMac dstMac port =
     \<lparr>TableName = ''ingress.Forward.ipv4_lpm'',
      Match = [],
      ActionName = ''ingress.Forward.ipv4_forward'',
      ActionParams = [(''srcAddr'', srcMac), (''dstAddr'', dstMac), (''port'', port)]\<rparr>"

definition Arp :: "string \<Rightarrow> string \<Rightarrow> raw_entry" where
  "Arp ip mac =
     \<lparr>TableName = ''ingress.Forward.arp_exact'',
      Match = [(''hdr.arp.dstIp'', ip)],
      ActionName = ''ingress.Forward.reply_arp'',
      ActionParams = [(''targetMac'', mac)]\<rparr>"

definition Transit :: "int \<Rightarrow> int \<Rightarrow> raw_entry" where
  "Transit switchId mtu =
     \<lparr>TableName = ''tb_int_transit'',
      Match = [],
      ActionName = ''configure_transit'',
      ActionParams = [(''switch_id'', fmt_int switchId), (''l3_mtu'', fmt_int mtu)]\<rparr>"

definition ActivateSource :: "int \<Rightarrow> raw_entry" where
  "ActivateSource port =
     \<lparr>TableName = ''tb_activate_source'',
      Match = [(''standard_metadata.ingress_port'', fmt_int port)],
      ActionName = ''activate_source'',
      ActionParams = []\<rparr>"

definition ExactIpv4Ternary :: "string \<Rightarrow> string" where
  "ExactIpv4Ternary ip = ip @ ''&&&0xFFFFFFFF''"

definition ExactPortTernary :: "int \<Rightarrow> string" where
  "ExactPortTernary port = fmt_int port @ ''&&&0xFFFF''"

definition ConfigureSource :: "configure_source_key \<Rightarrow> int \<Rightarrow> int \<Rightarrow> int \<Rightarrow> int \<Rightarrow> int \<Rightarrow> raw_entry" where
  "ConfigureSource key maxHop hopMetadataLen insCnt insMask cid =
     (let ipv4TableName = (if tunneled key then ''nested_ipv4'' else ''ipv4'');
          sourceTableName = (if tunneled key then ''tb_int_source_tunneled'' else ''tb_int_source'');
          m0 = [];
          m1 = (if srcAddr key \<noteq> ANY_IPv4
                then gm_put (''hdr.'' @ ipv4TableName @ ''.srcAddr'') (srcAddr key) m0 else m0);
          m2 = (if dstAddr key \<noteq> ANY_IPv4
                then gm_put (''hdr.'' @ ipv4TableName @ ''.dstAddr'') (dstAddr key) m1 else m1);
          m3 = (if srcPort key \<noteq> ANY_PORT
                then gm_put ''meta.layer34_metadata.l4_src'' (ExactPortTernary (srcPort key)) m2 else m2);
          m4 = (if dstPort key \<noteq> ANY_PORT
                then gm_put ''meta.layer34_metadata.l4_dst'' (ExactPortTernary (dstPort key)) m3 else m3)
      in \<lparr>TableName = sourceTableName,
          Match = m4,
          ActionName = ''configure_source'',
          ActionParams =
            [(''max_hop'', fmt_int maxHop), (''hop_metadata_len'', fmt_int hopMetadataLen),
             (''ins_cnt'', fmt_int insCnt), (''ins_mask'', fmt_int insMask),
             (''collection_id'', fmt_int cid)]\<rparr>)"

definition ConfigureSink :: "int \<Rightarrow> int \<Rightarrow> raw_entry" where
  "ConfigureSink port sinkReportingPort =
     \<lparr>TableName = ''tb_int_sink'',
      Match = [(''standard_metadata.egress_spec'', fmt_int port)],
      ActionName = ''configure_sink'',
      ActionParams = [(''sink_reporting_port'', fmt_int sinkReportingPort)]\<rparr>"

definition Reporting :: "int \<Rightarrow> string \<Rightarrow> string \<Rightarrow> string \<Rightarrow> string \<Rightarrow> int \<Rightarrow> raw_entry" where
  "Reporting cid srcMac srcIp collectorMac collectorIp collectorUdpPort =
     \<lparr>TableName = ''tb_int_reporting'',
      Match = [(''hdr.int_header.collection_id'', fmt_int cid)],
      ActionName = ''send_report'',
      ActionParams =
        [(''dp_mac'', srcMac), (''dp_ip'', srcIp), (''collector_mac'', collectorMac),
         (''collector_ip'', collectorIp), (''collector_port'', fmt_int collectorUdpPort)]\<rparr>"

section \<open>Identifiers tell keys apart\<close>

definition plain_addresses :: "configure_source_key \<Rightarrow> bool" where
  "plain_addresses c \<longleftrightarrow> CHR ''_'' \<notin> set (srcAddr c) \<and> CHR ''_'' \<notin> set (dstAddr c)"

lemma source_identifier_inject:
  assumes "plain_addresses c" and "plain_addresses c'"
    and "source_identifier c = source_identifier c'"
  shows "c = c'"
proof -
  let ?tun = "\<lambda>c. if \<not> tunneled c then ''raw'' else ''tun''"
  let ?port = "\<lambda>c. fmt_int (dstPort c) @ CHR ''_'' # ?tun c"
  let ?ports = "\<lambda>c. fmt_int (srcPort c) @ CHR ''_'' # ?port c"
  have plain: "CHR ''_'' \<notin> set (srcAddr c)" "CHR ''_'' \<notin> set (srcAddr c')"
    "CHR ''_'' \<notin> set (dstAddr c)" "CHR ''_'' \<notin> set (dstAddr c')"
    using assms(1,2) by (simp_all add: plain_addresses_def)
  have "srcAddr c @ CHR ''_'' # dstAddr c @ CHR ''_'' # ?ports c =
        srcAddr c' @ CHR ''_'' # dstAddr c' @ CHR ''_'' # ?ports c'"
    using assms(3) by (simp add: source_identifier_def Let_def)
  from sep_inject [OF plain(1,2) this] have src: "srcAddr c = srcAddr c'"
    and rest: "dstAddr c @ CHR ''_'' # ?ports c = dstAddr c' @ CHR ''_'' # ?ports c'"
    by simp_all
  from sep_inject [OF plain(3,4) rest] have dst: "dstAddr c = dstAddr c'"
    and rest: "?ports c = ?ports c'"
    by simp_all
  from sep_inject [OF fmt_int_no_underscore fmt_int_no_underscore rest]
  have srcp: "srcPort c = srcPort c'" and rest: "?port c = ?port c'"
    by simp_all
  from sep_inject [OF fmt_int_no_underscore fmt_int_no_underscore rest]
  have dstp: "dstPort c = dstPort c'" and "?tun c = ?tun c'"
    by simp_all
  with src dst srcp show ?thesis
    by (cases "tunneled c"; cases "tunneled c'") simp_all
qed

fun same_kind :: "match_key \<Rightarrow> match_key \<Rightarrow> bool" where
  "same_kind ConfigureTransitKey ConfigureTransitKey = True"
| "same_kind (ConfigureSinkKey _) (ConfigureSinkKey _) = True"
| "same_kind (ReportingKey _) (ReportingKey _) = True"
| "same_kind (ActivateSourceKey _) (ActivateSourceKey _) = True"
| "same_kind (ConfigureSourceKey c) (ConfigureSourceKey c') = (plain_addresses c \<and> plain_addresses c')"
| "same_kind _ _ = False"

text \<open>Keys of one kind with equal identifiers are equal, for source keys whose addresses
  hold no underscore (as IPv4 addresses and the wildcard do): the per-device counters, which
  are indexed by identifier, never mix two keys.\<close>

theorem ToIdentifier_inject:
  assumes "same_kind k k'" and "ToIdentifier k = ToIdentifier k'"
  shows "k = k'"
  using assms by (cases k; cases k') (auto dest: source_identifier_inject)

theorem ToIdentifier_inject_witness:
  "ConfigureSourceKey \<lparr>srcAddr = ''10.0.0.1&&&0xFFFFFFFF'', dstAddr = ''any'', srcPort = - 1,
     dstPort = 80, tunneled = True\<rparr> =
   ConfigureSourceKey \<lparr>srcAddr = ''10.0.0.1'' @ ''&&&0xFFFFFFFF'', dstAddr = ANY_IPv4, srcPort = ANY_PORT,
     dstPort = 79 + 1, tunneled = (\<not> False)\<rparr>"
  by (rule ToIdentifier_inject) (simp_all add: plain_addresses_def)

section \<open>A source entry determines its key\<close>

lemma ExactPortTernary_inject [simp]: "ExactPortTernary p = ExactPortTernary q \<longleftrightarrow> p = q"
  by (simp add: ExactPortTernary_def)

lemma ConfigureSource_match:
  "gm_get (Match (ConfigureSource key a b c d e)) f =
    (let t = (if tunneled key then ''nested_ipv4'' else ''ipv4'') in
     if f = ''meta.layer34_metadata.l4_dst'' \<and> dstPort key \<noteq> ANY_PORT then Some (ExactPortTernary (dstPort key))
     else if f = ''meta.layer34_metadata.l4_src'' \<and> srcPort key \<noteq> ANY_PORT then Some (ExactPortTernary (srcPort key))
     else if f = ''hdr.'' @ t @ ''.dstAddr'' \<and> dstAddr key \<noteq> ANY_IPv4 then Some (dstAddr key)
     else if f = ''hdr.'' @ t @ ''.srcAddr'' \<and> srcAddr key \<noteq> ANY_IPv4 then Some (srcAddr key)
     else None)"
  by (simp add: ConfigureSource_def Let_def)

lemma ConfigureSource_match_wf: "gm_wf (Match (ConfigureSource key a b c d e))"
  by (simp add: ConfigureSource_def Let_def)

lemma ConfigureSource_table:
  "TableName (ConfigureSource key a b c d e) =
     (if tunneled key then ''tb_int_source_tunneled'' else ''tb_int_source'')"
  by (simp add: ConfigureSource_def Let_def)

text \<open>Two source keys that give the same table and the same match fields are equal, so
  distinct keys configure distinct entries of the switch's source tables.\<close>

theorem ConfigureSource_inject:
  assumes table: "TableName (ConfigureSource k a b c d e) = TableName (ConfigureSource k' a' b' c' d' e')"
    and matches: "Match (ConfigureSource k a b c d e) = Match (ConfigureSource k' a' b' c' d' e')"
  shows "k = k'"
proof -
  have tun: "tunneled k = tunneled k'"
    using table by (simp add: ConfigureSource_table split: if_splits)
  have get: "gm_get (Match (ConfigureSource k a b c d e)) f =
      gm_get (Match (ConfigureSource k' a' b' c' d' e')) f" for f
    using matches by simp
  let ?t = "if tunneled k then ''nested_ipv4'' else ''ipv4''"
  have "srcAddr k = srcAddr k'"
    using get [of "''hdr.'' @ ?t @ ''.srcAddr''"] tun
    by (simp add: ConfigureSource_match Let_def split: if_splits)
  moreover have "dstAddr k = dstAddr k'"
    using get [of "''hdr.'' @ ?t @ ''.dstAddr''"] tun
    by (simp add: ConfigureSource_match Let_def split: if_splits)
  moreover have "srcPort k = srcPort k'"
    using get [of "''meta.layer34_metadata.l4_src''"]
    by (simp add: ConfigureSource_match Let_def split: if_splits)
  moreover have "dstPort k = dstPort k'"
    using get [of "''meta.layer34_metadata.l4_dst''"]
    by (simp add: ConfigureSource_match Let_def split: if_splits)
  ultimately show ?thesis using tun by simp
qed

theorem ConfigureSource_inject_witness:
  "(\<lparr>srcAddr = ''10.0.0.1'', dstAddr = ''any'', srcPort = 5, dstPort = - 1, tunneled = False\<rparr> :: configure_source_key)
   = \<lparr>srcAddr = ''10.0.0.1'', dstAddr = ANY_IPv4, srcPort = 4 + 1, dstPort = - 1, tunneled = False\<rparr>"
  by (rule ConfigureSource_inject [of _ 6 10 8 FULL_TELEMETRY_KEY 0 _ 6 10 8 FULL_TELEMETRY_KEY 1])
    (simp_all add: ConfigureSource_def)

end
