(* ===== verification/Programs.thy ===== *)
theory Programs
  imports Entries
begin

text \<open>
  P4 programs and their registry (\<open>model/program.go\<close>, \<open>programs/registry.go\<close>,
  \<open>programs/p4delegate.go\<close>). The registry is a \<open>sync.Map\<close> from a program's name to its
  details and its delegate, the object that builds the forwarding entries of the program.
\<close>

record p4_artifacts =
  ArtifactArch :: string
  P4InfoPath :: string
  P4PipelinePath :: string

record p4_program_details =
  ProgramName :: string
  ImplementedInterfaces :: "string list"
  Artifacts :: "p4_artifacts list"

definition NewProgramDetails :: "string \<Rightarrow> string list \<Rightarrow> p4_artifacts list \<Rightarrow> p4_program_details" where
  "NewProgramDetails programName implementedInterfaces artifacts =
     \<lparr>ProgramName = programName, ImplementedInterfaces = implementedInterfaces, Artifacts = artifacts\<rparr>"

fun artifacts_for :: "string \<Rightarrow> p4_artifacts list \<Rightarrow> p4_artifacts option" where
  "artifacts_for arch [] = None"
| "artifacts_for arch (a # as) = (if ArtifactArch a = arch then Some a else artifacts_for arch as)"

definition GetArtifactsFor :: "p4_program_details \<Rightarrow> string \<Rightarrow> p4_artifacts option" where
  "GetArtifactsFor p arch = artifacts_for arch (Artifacts p)"

definition details_Implements :: "p4_program_details \<Rightarrow> string \<Rightarrow> bool" where
  "details_Implements p iface = List.member (ImplementedInterfaces p) iface"

text \<open>The \<open>P4Delegate\<close> interface: the three entry builders.\<close>

record p4_delegate =
  GetArpEntry :: "string \<Rightarrow> string \<Rightarrow> raw_entry"
  GetForwardEntry :: "string \<Rightarrow> string \<Rightarrow> string \<Rightarrow> int \<Rightarrow> raw_entry"
  GetDefaultRouteEntry :: "string \<Rightarrow> string \<Rightarrow> int \<Rightarrow> raw_entry"

text \<open>The telemetry service is the delegate of every registered program.\<close>

definition telemetry_delegate :: p4_delegate where
  "telemetry_delegate =
     \<lparr>GetArpEntry = (\<lambda>reqIp respMac. Arp reqIp respMac),
      GetForwardEntry = (\<lambda>maskedIp srcMac dstMac port. Forward maskedIp srcMac dstMac (fmt_int port)),
      GetDefaultRouteEntry = (\<lambda>srcMac dstMac port. DefaultRoute srcMac dstMac (fmt_int port))\<rparr>"

record registered_program =
  details :: p4_program_details
  delegate :: p4_delegate

type_synonym registry = "(string, registered_program) gomap"

definition NewRegistry :: registry where
  "NewRegistry = []"

definition Register :: "p4_program_details \<Rightarrow> p4_delegate \<Rightarrow> registry \<Rightarrow> registry" where
  "Register d del r = gm_put (ProgramName d) \<lparr>details = d, delegate = del\<rparr> r"

definition Lookup :: "registry \<Rightarrow> string \<Rightarrow> p4_program_details option" where
  "Lookup r programName = (case gm_get r programName of None \<Rightarrow> None | Some p \<Rightarrow> Some (details p))"

text \<open>These two panic when the program is not registered.\<close>

definition MustLookupDetails :: "registry \<Rightarrow> string \<Rightarrow> p4_program_details option" where
  "MustLookupDetails r programName = (case Lookup r programName of Some d \<Rightarrow> Some d | None \<Rightarrow> None)"

definition MustFindDelegate :: "registry \<Rightarrow> string \<Rightarrow> p4_delegate option" where
  "MustFindDelegate r programName = (case gm_get r programName of Some p \<Rightarrow> Some (delegate p) | None \<Rightarrow> None)"

definition Implements :: "registry \<Rightarrow> string \<Rightarrow> string \<Rightarrow> bool" where
  "Implements r programName programInterface =
     (case gm_get r programName of
        None \<Rightarrow> False
      | Some p \<Rightarrow> details_Implements (details p) programInterface)"

section \<open>The registry's contract\<close>

text \<open>What the controller and the telemetry service rely on: the last registration under a
  name is the one every query sees, and other names are unaffected.\<close>

locale program_registry =
  fixes new :: "'r"
    and reg :: "p4_program_details \<Rightarrow> 'd \<Rightarrow> 'r \<Rightarrow> 'r"
    and look :: "'r \<Rightarrow> string \<Rightarrow> p4_program_details option"
    and find_delegate :: "'r \<Rightarrow> string \<Rightarrow> 'd option"
    and implements :: "'r \<Rightarrow> string \<Rightarrow> string \<Rightarrow> bool"
  assumes look_new: "look new n = None"
    and look_reg: "look (reg d del r) n = (if n = ProgramName d then Some d else look r n)"
    and delegate_reg: "find_delegate (reg d del r) n = (if n = ProgramName d then Some del else find_delegate r n)"
    and implements_look: "implements r n i = (case look r n of None \<Rightarrow> False | Some d \<Rightarrow> i \<in> set (ImplementedInterfaces d))"
begin

lemma look_fold:
  "look (fold (\<lambda>(d, del). reg d del) ps r) n =
     (case find (\<lambda>(d, del). ProgramName d = n) (rev ps) of Some (d, _) \<Rightarrow> Some d | None \<Rightarrow> look r n)"
  by (induction ps rule: rev_induct) (auto simp: look_reg split: prod.splits)

lemma delegate_fold:
  "find_delegate (fold (\<lambda>(d, del). reg d del) ps r) n =
     (case find (\<lambda>(d, del). ProgramName d = n) (rev ps) of Some (_, del) \<Rightarrow> Some del | None \<Rightarrow> find_delegate r n)"
  by (induction ps rule: rev_induct) (auto simp: delegate_reg split: prod.splits)

lemma implements_fold:
  "implements (fold (\<lambda>(d, del). reg d del) ps new) n i =
     (case find (\<lambda>(d, del). ProgramName d = n) (rev ps) of
        Some (d, _) \<Rightarrow> i \<in> set (ImplementedInterfaces d) | None \<Rightarrow> False)"
  by (simp add: implements_look look_fold look_new split: option.split prod.split)

end

interpretation reg: program_registry NewRegistry Register Lookup MustFindDelegate Implements
  by unfold_locales
    (auto simp: NewRegistry_def Register_def Lookup_def MustFindDelegate_def Implements_def
       details_Implements_def split: option.splits)

text \<open>After any sequence of registrations, \<open>Lookup\<close>, \<open>MustFindDelegate\<close> and \<open>Implements\<close>
  answer for the last program registered under the name; an unregistered name is not found and
  implements nothing.\<close>

theorem registry_last_registration:
  "let r = fold (\<lambda>(d, del). Register d del) ps NewRegistry in
   (case find (\<lambda>(d, del). ProgramName d = n) (rev ps) of
      Some (d, del) \<Rightarrow> Lookup r n = Some d \<and> MustLookupDetails r n = Some d
        \<and> MustFindDelegate r n = Some del
        \<and> Implements r n i = (i \<in> set (ImplementedInterfaces d))
    | None \<Rightarrow> Lookup r n = None \<and> MustLookupDetails r n = None
        \<and> MustFindDelegate r n = None \<and> \<not> Implements r n i)"
  using reg.look_fold [of ps NewRegistry n] reg.delegate_fold [of ps NewRegistry n]
    reg.implements_fold [of ps n i] reg.look_new [of n]
  by (simp add: MustLookupDetails_def MustFindDelegate_def NewRegistry_def
      split: option.splits prod.splits)

end
