(* ===== verification/Traversals.thy ===== *)
theory Traversals
  imports Devices
begin

text \<open>
  The depth-first search with which the telemetry service finds the path between two devices
  (\<open>runDfs\<close> of \<open>telemetry/traversals.go\<close>). The closure \<open>dfs\<close> and its loop over the links of
  the current device are one recursive function here: \<open>dfs_links\<close> is the loop over the links
  \<open>ls\<close> of \<open>cur\<close>, with the body of the call \<open>dfs(neigh.To)\<close> in place of the call. The captured
  variables \<open>visited\<close> and \<open>reversedPath\<close> are threaded; looking up a missing name in \<open>G\<close> gives a
  nil device, whose method call panics.
\<close>

function (sequential) dfs_links ::
  "graph \<Rightarrow> device_name \<Rightarrow> device_name \<Rightarrow> link list \<Rightarrow> device_name list
     \<Rightarrow> (device_name list \<times> device_name list) option" where
  "dfs_links G target cur [] visited = Some ([], visited)"
| "dfs_links G target cur (neigh # ls) visited =
     (if To neigh \<in> set visited then dfs_links G target cur ls visited
      else if To neigh = target then Some ([To neigh, cur], To neigh # visited)
      else
        (case gm_get G (To neigh) of
           None \<Rightarrow> None
         | Some dev \<Rightarrow>
             (case dfs_links G target (To neigh) (GetLinks dev) (To neigh # visited) of
                None \<Rightarrow> None
              | Some (reversedPath, visited') \<Rightarrow>
                  if reversedPath \<noteq> [] then Some (reversedPath @ [cur], visited')
                  else dfs_links G target cur ls visited')))"
  by pat_completeness auto

lemma dfs_links_visited:
  "dfs_links_dom (G, target, cur, ls, visited) \<Longrightarrow>
     dfs_links G target cur ls visited = Some (p, visited') \<Longrightarrow> set visited \<subseteq> set visited'"
  by (induction arbitrary: p visited' rule: dfs_links.pinduct)
    (fastforce simp: dfs_links.psimps split: if_splits option.splits prod.splits)+

definition unvisited :: "graph \<Rightarrow> device_name list \<Rightarrow> nat" where
  "unvisited G visited = card (set (gm_keys G) - set visited)"

lemma unvisited_mono: "set visited \<subseteq> set visited' \<Longrightarrow> unvisited G visited' \<le> unvisited G visited"
  unfolding unvisited_def by (rule card_mono) auto

lemma unvisited_less:
  assumes "gm_get G u = Some d" and "u \<notin> set visited"
  shows "unvisited G (u # visited) < unvisited G visited"
proof -
  have "u \<in> set (gm_keys G)" using gm_get_in [OF assms(1)] by force
  then show ?thesis
    unfolding unvisited_def using assms(2) by (intro psubset_card_mono) auto
qed

termination dfs_links
proof (relation "measures [\<lambda>(G, target, cur, ls, visited). unvisited G visited, \<lambda>(G, target, cur, ls, visited). length ls]",
    goal_cases)
  case (4 G target cur neigh ls visited dev x reversedPath visited')
  then have "set visited \<subseteq> set visited'"
    using dfs_links_visited [of G target "To neigh" "GetLinks dev" "To neigh # visited"] by auto
  from unvisited_mono [OF this, of G] show ?case by auto
qed (auto intro: unvisited_less)

lemma dfs_links_grows:
  "dfs_links G target cur ls visited = Some (p, visited') \<Longrightarrow> set visited \<subseteq> set visited'"
  by (induction G target cur ls visited arbitrary: p visited' rule: dfs_links.induct)
    (fastforce split: if_splits option.splits prod.splits)+

definition runDfs :: "graph \<Rightarrow> device_name \<Rightarrow> device_name \<Rightarrow> device_name list option" where
  "runDfs G source target =
     (if source = target then Some [source]
      else case gm_get G source of
        None \<Rightarrow> None
      | Some dev \<Rightarrow> map_option fst (dfs_links G target source (GetLinks dev) [source]))"

section \<open>What the search finds\<close>

text \<open>A path from the last to the first name of the list along the links of \<open>G\<close>.\<close>

definition reversed_path :: "graph \<Rightarrow> device_name list \<Rightarrow> bool" where
  "reversed_path G ps \<longleftrightarrow> successively (\<lambda>v u. v \<in> set (neighbours G u)) ps"

lemma reversed_path_snoc:
  "ps \<noteq> [] \<Longrightarrow> reversed_path G (ps @ [u]) \<longleftrightarrow> reversed_path G ps \<and> last ps \<in> set (neighbours G u)"
  by (simp add: reversed_path_def successively_append_iff)

lemma reversed_path_reach:
  "reversed_path G ps \<Longrightarrow> ps \<noteq> [] \<Longrightarrow> (last ps, hd ps) \<in> (edge_rel G)\<^sup>*"
proof (induction ps)
  case (Cons u ps)
  show ?case
  proof (cases ps)
    case (Cons v qs)
    with Cons.IH Cons.prems have "(last ps, v) \<in> (edge_rel G)\<^sup>*" "(v, u) \<in> edge_rel G"
      by (auto simp: reversed_path_def edge_rel_def)
    then have "(last ps, u) \<in> (edge_rel G)\<^sup>*" by (rule rtrancl_into_rtrancl)
    with Cons show ?thesis by simp
  qed simp
qed simp

lemma dfs_links_sound:
  assumes "dfs_links G target cur ls visited = Some (p, visited')"
    and "p \<noteq> []" and "cur \<in> set visited" and "To ` set ls \<subseteq> set (neighbours G cur)"
  shows "hd p = target \<and> last p = cur \<and> 2 \<le> length p \<and> reversed_path G p \<and> distinct p
     \<and> set (butlast p) \<inter> set visited = {} \<and> set p \<subseteq> set visited'"
  using assms
proof (induction G target cur ls visited arbitrary: p visited' rule: dfs_links.induct)
  case (2 G target cur neigh ls visited)
  consider (seen) "To neigh \<in> set visited" | (hit) "To neigh \<notin> set visited" "To neigh = target"
    | (descend) "To neigh \<notin> set visited" "To neigh \<noteq> target" by blast
  then show ?case
  proof cases
    case seen
    with "2.IH"(1) [OF seen, of p visited'] "2.prems" show ?thesis by auto
  next
    case hit
    with "2.prems" show ?thesis by (auto simp: reversed_path_def)
  next
    case descend
    with "2.prems"(1) obtain dev q visited1 where dev: "gm_get G (To neigh) = Some dev"
      and q: "dfs_links G target (To neigh) (GetLinks dev) (To neigh # visited) = Some (q, visited1)"
      by (auto split: option.splits)
    have sub: "set (To neigh # visited) \<subseteq> set visited1"
      by (rule dfs_links_grows [OF q])
    show ?thesis
    proof (cases "q = []")
      case True
      then have "dfs_links G target cur ls visited1 = Some (p, visited')"
        using "2.prems"(1) descend dev q by simp
      moreover from sub "2.prems"(3) have "cur \<in> set visited1" by auto
      ultimately have "hd p = target \<and> last p = cur \<and> 2 \<le> length p \<and> reversed_path G p \<and> distinct p
          \<and> set (butlast p) \<inter> set visited1 = {} \<and> set p \<subseteq> set visited'"
        using "2.IH"(3) [OF descend dev q refl _] True "2.prems"(2,4) by auto
      with sub show ?thesis by auto
    next
      case False
      have IH: "hd q = target \<and> last q = To neigh \<and> 2 \<le> length q \<and> reversed_path G q \<and> distinct q
          \<and> set (butlast q) \<inter> set (To neigh # visited) = {} \<and> set q \<subseteq> set visited1"
        by (rule "2.IH"(2) [OF descend dev q False]) (auto simp: neighbours_get [OF dev])
      have p: "p = q @ [cur]" "visited' = visited1"
        using "2.prems"(1) descend dev q False by auto
      have "set q = insert (To neigh) (set (butlast q))"
        using IH False by (metis Un_insert_right append_butlast_last_id list.simps(15) set_append sup_bot_right empty_set)
      with IH p "2.prems"(3,4) descend sub False show ?thesis
        by (auto simp: reversed_path_snoc)
    qed
  qed
qed simp

lemma dfs_links_complete:
  assumes "dfs_links G target cur ls visited = Some ([], visited')" and "target \<notin> set visited"
  shows "target \<notin> set visited' \<and> To ` set ls \<subseteq> set visited'
     \<and> (\<forall>u \<in> set visited' - set visited. set (neighbours G u) \<subseteq> set visited')"
  using assms
proof (induction G target cur ls visited arbitrary: visited' rule: dfs_links.induct)
  case (2 G target cur neigh ls visited)
  show ?case
  proof (cases "To neigh \<in> set visited")
    case True
    with "2.prems"(1) have rest: "dfs_links G target cur ls visited = Some ([], visited')" by simp
    from "2.IH"(1) [OF True rest "2.prems"(2)] dfs_links_grows [OF rest] True show ?thesis by auto
  next
    case False
    from "2.prems"(1) False obtain dev visited1 where "To neigh \<noteq> target" and dev: "gm_get G (To neigh) = Some dev"
      and q: "dfs_links G target (To neigh) (GetLinks dev) (To neigh # visited) = Some ([], visited1)"
      and rest: "dfs_links G target cur ls visited1 = Some ([], visited')"
      by (auto split: option.splits if_splits)
    note descend = False \<open>To neigh \<noteq> target\<close>
    have 1: "target \<notin> set visited1 \<and> To ` set (GetLinks dev) \<subseteq> set visited1
       \<and> (\<forall>u \<in> set visited1 - set (To neigh # visited). set (neighbours G u) \<subseteq> set visited1)"
      by (rule "2.IH"(2) [OF descend dev q]) (use "2.prems"(2) descend in auto)
    then have 2: "target \<notin> set visited' \<and> To ` set ls \<subseteq> set visited'
       \<and> (\<forall>u \<in> set visited' - set visited1. set (neighbours G u) \<subseteq> set visited')"
      using "2.IH"(3) [OF descend dev q refl _ rest] by simp
    have 3: "insert (To neigh) (set visited) \<subseteq> set visited1" "set visited1 \<subseteq> set visited'"
      using dfs_links_grows [OF q] dfs_links_grows [OF rest] by auto
    have "set (neighbours G u) \<subseteq> set visited'" if u: "u \<in> set visited' - set visited" for u
    proof (cases "u \<in> set visited1")
      case True
      show ?thesis
      proof (cases "u = To neigh")
        case True
        with 1 3 show ?thesis by (auto simp: neighbours_get [OF dev])
      next
        case False
        with True u 1 have "set (neighbours G u) \<subseteq> set visited1" by simp
        with 3 show ?thesis by blast
      qed
    qed (use u 2 in blast)
    with 2 3 show ?thesis by auto
  qed
qed simp

lemma dfs_links_total:
  "graph_closed G \<Longrightarrow> \<forall>l \<in> set ls. gm_get G (To l) \<noteq> None \<Longrightarrow> dfs_links G target cur ls visited \<noteq> None"
proof (induction G target cur ls visited rule: dfs_links.induct)
  case (2 G target cur neigh ls visited)
  show ?case
  proof (cases "To neigh \<in> set visited \<or> To neigh = target")
    case True
    with 2 show ?thesis by auto
  next
    case False
    then have descend: "To neigh \<notin> set visited" "To neigh \<noteq> target" by auto
    from "2.prems"(2) obtain dev where dev: "gm_get G (To neigh) = Some dev" by auto
    then have "\<forall>l \<in> set (GetLinks dev). gm_get G (To l) \<noteq> None"
      using graph_closedD [OF "2.prems"(1) dev] by auto
    from "2.IH"(2) [OF descend dev "2.prems"(1) this] obtain q visited1
      where q: "dfs_links G target (To neigh) (GetLinks dev) (To neigh # visited) = Some (q, visited1)" by auto
    show ?thesis
    proof (cases "q = []")
      case True
      with "2.IH"(3) [OF descend dev q refl _ "2.prems"(1)] "2.prems"(2) descend dev q show ?thesis by simp
    qed (use descend dev q in simp)
  qed
qed simp

lemma runDfs_path:
  assumes "runDfs G source target = Some p" and "p \<noteq> []"
  shows "hd p = target \<and> last p = source \<and> reversed_path G p \<and> distinct p \<and> (source \<noteq> target \<longrightarrow> 2 \<le> length p)"
proof (cases "source = target")
  case True
  with assms show ?thesis by (auto simp: runDfs_def reversed_path_def)
next
  case False
  with assms(1) obtain dev visited' where dev: "gm_get G source = Some dev"
    and "dfs_links G target source (GetLinks dev) [source] = Some (p, visited')"
    by (auto simp: runDfs_def split: option.splits)
  from dfs_links_sound [OF this(2) assms(2)] show ?thesis
    by (simp add: neighbours_get [OF dev])
qed

lemma runDfs_no_path:
  assumes "runDfs G source target = Some []"
  shows "(source, target) \<notin> (edge_rel G)\<^sup>*"
proof -
  from assms obtain dev visited' where ne: "source \<noteq> target" and dev: "gm_get G source = Some dev"
    and d: "dfs_links G target source (GetLinks dev) [source] = Some ([], visited')"
    by (auto simp: runDfs_def split: option.splits if_splits)
  from dfs_links_complete [OF d] ne
  have c: "target \<notin> set visited'" "To ` set (GetLinks dev) \<subseteq> set visited'"
    "\<And>u. u \<in> set visited' \<Longrightarrow> u \<noteq> source \<Longrightarrow> set (neighbours G u) \<subseteq> set visited'" by auto
  have closed: "set (neighbours G u) \<subseteq> set visited'" if "u \<in> set visited'" for u
    using c(2) c(3) [OF that] by (cases "u = source") (auto simp: neighbours_get [OF dev])
  have "source \<in> set visited'" using dfs_links_grows [OF d] by simp
  have "v \<in> set visited'" if "(source, v) \<in> (edge_rel G)\<^sup>*" for v
    using that by (induction rule: rtrancl_induct) (use \<open>source \<in> set visited'\<close> closed in \<open>auto simp: edge_rel_def\<close>)
  with c(1) show ?thesis by blast
qed

lemma runDfs_total:
  assumes "graph_closed G" and "gm_get G source \<noteq> None"
  shows "\<exists>p. runDfs G source target = Some p"
proof -
  from assms(2) obtain dev where dev: "gm_get G source = Some dev" by auto
  have "dfs_links G target source (GetLinks dev) [source] \<noteq> None"
    by (rule dfs_links_total [OF assms(1)]) (use graph_closedD [OF assms(1) dev] in auto)
  with dev show ?thesis by (auto simp: runDfs_def)
qed

section \<open>The contract of a path search\<close>

text \<open>
  What the users of a path search rely on: on a graph without dangling links it returns, what it
  returns is a simple path, and it returns the empty slice only where there is no path.
\<close>

locale path_finder =
  fixes find_path :: "graph \<Rightarrow> device_name \<Rightarrow> device_name \<Rightarrow> device_name list option"
  assumes returns: "graph_closed G \<Longrightarrow> gm_get G s \<noteq> None \<Longrightarrow> gm_get G t \<noteq> None \<Longrightarrow>
        (s, t) \<in> (edge_rel G)\<^sup>* \<Longrightarrow> \<exists>p. find_path G s t = Some p"
    and path: "find_path G s t = Some p \<Longrightarrow> p \<noteq> [] \<Longrightarrow>
        hd p = t \<and> last p = s \<and> reversed_path G p \<and> distinct p"
    and no_path: "find_path G s t = Some [] \<Longrightarrow> (s, t) \<notin> (edge_rel G)\<^sup>*"
begin

lemma nonempty_iff: "find_path G s t = Some p \<Longrightarrow> p \<noteq> [] \<longleftrightarrow> (s, t) \<in> (edge_rel G)\<^sup>*"
  using path [of G s t p] no_path [of G s t] reversed_path_reach [of G p] by (cases "p = []") auto

lemma finds:
  assumes "graph_closed G" "gm_get G s \<noteq> None" "gm_get G t \<noteq> None" "(s, t) \<in> (edge_rel G)\<^sup>*"
  shows "\<exists>p. find_path G s t = Some p \<and> p \<noteq> [] \<and> hd p = t \<and> last p = s \<and> reversed_path G p \<and> distinct p"
  using returns [OF assms] nonempty_iff assms(4) path by blast

lemma consecutive:
  assumes "find_path G s t = Some p" and "Suc i < length p"
  shows "p ! i \<in> set (neighbours G (p ! Suc i))"
proof -
  have "reversed_path G p" using path [OF assms(1)] assms(2) by (cases p) auto
  then show ?thesis using assms(2) by (auto simp: reversed_path_def successively_conv_nth)
qed

lemma long_enough:
  assumes "find_path G s t = Some p" and "p \<noteq> []" and "s \<noteq> t"
  shows "2 \<le> length p"
proof (cases p)
  case (Cons u q)
  with path [OF assms(1,2)] assms(3) show ?thesis by (cases q) auto
qed (use assms in simp)

end

interpretation dfs: path_finder runDfs
  by unfold_locales (use runDfs_total runDfs_path runDfs_no_path in blast)+

text \<open>Connected graphs, and a check by search.\<close>

definition graph_connected :: "graph \<Rightarrow> bool" where
  "graph_connected G \<longleftrightarrow> (\<forall>u v. gm_get G u \<noteq> None \<longrightarrow> gm_get G v \<noteq> None \<longrightarrow> (u, v) \<in> (edge_rel G)\<^sup>*)"

definition all_paths_found :: "graph \<Rightarrow> bool" where
  "all_paths_found G = list_all (\<lambda>u. list_all (\<lambda>v. case runDfs G u v of Some p \<Rightarrow> p \<noteq> [] | None \<Rightarrow> False) (gm_keys G)) (gm_keys G)"

lemma graph_connectedI:
  assumes "all_paths_found G"
  shows "graph_connected G"
  unfolding graph_connected_def
proof (intro allI impI)
  fix u v assume "gm_get G u \<noteq> None" "gm_get G v \<noteq> None"
  then have "u \<in> set (gm_keys G)" "v \<in> set (gm_keys G)" by (auto simp: map_of_eq_None_iff)
  with assms have "case runDfs G u v of Some p \<Rightarrow> p \<noteq> [] | None \<Rightarrow> False"
    unfolding all_paths_found_def list_all_iff by blast
  then obtain p where "runDfs G u v = Some p" "p \<noteq> []" by (auto split: option.splits)
  with dfs.nonempty_iff show "(u, v) \<in> (edge_rel G)\<^sup>*" by blast
qed

lemma runDfs_connected:
  assumes "graph_connected G" and "graph_closed G" and "gm_get G s \<noteq> None" and "gm_get G t \<noteq> None"
  shows "\<exists>p. runDfs G s t = Some p \<and> p \<noteq> [] \<and> hd p = t \<and> last p = s \<and> reversed_path G p \<and> distinct p"
  by (rule dfs.finds) (use assms in \<open>auto simp: graph_connected_def\<close>)

text \<open>Every device on a path except possibly the target is in the graph; on a closed graph the target too.\<close>

lemma path_in_graph:
  assumes "reversed_path G p" and "0 < i" and "i < length p"
  shows "gm_get G (p ! i) \<noteq> None"
proof -
  obtain k where "i = Suc k" using assms(2) by (cases i) auto
  with assms have "p ! k \<in> set (neighbours G (p ! i))"
    by (auto simp: reversed_path_def successively_conv_nth)
  then show ?thesis by (cases "gm_get G (p ! i)") (auto simp: neighbours_def)
qed

lemma path_forward:
  "reversed_path G p \<Longrightarrow> Suc i < length p \<Longrightarrow> p ! i \<in> set (neighbours G (p ! Suc i))"
  by (auto simp: reversed_path_def successively_conv_nth)

lemma path_backward:
  assumes "graph_symmetric G" and "reversed_path G p" and "Suc i < length p"
  shows "p ! Suc i \<in> set (neighbours G (p ! i))"
proof -
  have "(p ! Suc i, p ! i) \<in> edge_rel G" using path_forward [OF assms(2,3)] by (simp add: edge_rel_def)
  then obtain d l where "gm_get G (p ! Suc i) = Some d" "l \<in> set (GetLinks d)" "To l = p ! i"
    by (rule edge_relE)
  with graph_symmetricD [OF assms(1)] show ?thesis by metis
qed

text \<open>C27: on a graph without dangling links the search returns; its result is empty exactly when the
  target cannot be reached, and otherwise a path without repeated devices from the source, the last
  name, along links of the graph to the target, the first name.\<close>

theorem runDfs_correct:
  assumes "graph_closed G" and "gm_get G source \<noteq> None"
  shows "\<exists>p. runDfs G source target = Some p
     \<and> (p = [] \<longleftrightarrow> (source, target) \<notin> (edge_rel G)\<^sup>*)
     \<and> (p \<noteq> [] \<longrightarrow> hd p = target \<and> last p = source \<and> distinct p \<and> reversed_path G p)"
proof -
  from runDfs_total [OF assms, of target] obtain p where p: "runDfs G source target = Some p" by blast
  with dfs.nonempty_iff [OF p] dfs.path [OF p] show ?thesis by blast
qed

definition line_graph :: graph where
  "line_graph = [(''a'', Host \<lparr>Name = ''a'', Links = [NewLink ''b'' [] [] 24]\<rparr>),
     (''b'', NetDevice \<lparr>Name = ''b'', Links = [NewLink ''a'' [] [] 24, NewLink ''c'' [] [] 24]\<rparr>),
     (''c'', Host \<lparr>Name = ''c'', Links = [NewLink ''b'' [] [] 24]\<rparr>)]"

theorem runDfs_correct_witness:
  "runDfs line_graph ''a'' ''c'' = Some [''c'', ''b'', ''a''] \<and> reversed_path line_graph [''c'', ''b'', ''a'']"
proof -
  have "graph_closed line_graph" "gm_get line_graph ''a'' \<noteq> None"
    and r: "runDfs line_graph ''a'' ''c'' = Some [''c'', ''b'', ''a'']" by code_simp+
  with runDfs_correct [of line_graph "''a''" "''c''"] show ?thesis by auto
qed

end
