(* ===== verification/TelemetryEntities.thy ===== *)
theory TelemetryEntities
  imports Entries Programs Traversals
begin

text \<open>
  The entities a telemetry request asks for (\<open>telemetry/util.go\<close> and \<open>telemetry/traversals.go\<close>):
  the source and sink edges and the transit switches on the paths between the request's devices,
  and the difference between the entities of two versions of an intent.
\<close>

record edge =
  from_dev :: device_name
  to_dev :: device_name

record ternary_ip_pair =
  src :: string
  dst :: string

record telemetry_source_config =
  ips :: ternary_ip_pair
  confSrcPort :: int
  confDstPort :: int
  confTunneled :: bool

type_synonym source_map = "(edge, telemetry_source_config list) gomap"

record telemetry_entities =
  Sources :: source_map
  Transits :: "(device_name, unit) gomap"
  Sinks :: "(edge, unit) gomap"

definition newTelemetryEntities :: telemetry_entities where
  "newTelemetryEntities = \<lparr>Sources = [], Transits = [], Sinks = []\<rparr>"

text \<open>The maps of entities are maps: no key twice.\<close>

definition entities_wf :: "telemetry_entities \<Rightarrow> bool" where
  "entities_wf t \<longleftrightarrow> gm_wf (Sources t) \<and> gm_wf (Transits t) \<and> gm_wf (Sinks t)"

definition IsEmpty :: "telemetry_entities \<Rightarrow> bool" where
  "IsEmpty t \<longleftrightarrow> length (Sources t) = 0 \<and> length (Transits t) = 0 \<and> length (Sinks t) = 0"

section \<open>Requests\<close>

text \<open>The messages of \<open>telemetry.proto\<close>; an unset \<open>oneof\<close> has its own constructor.\<close>

record raw_telemetry_entity =
  rawDeviceName :: device_name
  rawPort :: "int32 option"

record tunneled_entity =
  TunneledIp :: string
  tunneledPort :: "int32 option"

datatype request_entities =
    RawEntities "raw_telemetry_entity list"
  | TunneledEntities "(device_name, tunneled_entity list) gomap"
  | UnsetEntities

record configure_telemetry_request =
  IntentId :: string
  CollectionId :: string
  CollectorNodeName :: device_name
  CollectorPort :: int32
  reqSources :: request_entities
  reqTargets :: request_entities

datatype entity_details =
    RawDetails raw_telemetry_entity
  | TunneledDetails "tunneled_entity list"

text \<open>The order of the tunneled map is an argument.\<close>

fun entity_names :: "(device_name list \<Rightarrow> device_name list) \<Rightarrow> request_entities \<Rightarrow> device_name list" where
  "entity_names ord (RawEntities es) = map rawDeviceName es"
| "entity_names ord (TunneledEntities m) = ord (gm_keys m)"
| "entity_names ord UnsetEntities = []"

definition getSourceDeviceNames ::
  "(device_name list \<Rightarrow> device_name list) \<Rightarrow> configure_telemetry_request \<Rightarrow> device_name list" where
  "getSourceDeviceNames ord req = entity_names ord (reqSources req)"

definition getTargetDeviceNames ::
  "(device_name list \<Rightarrow> device_name list) \<Rightarrow> configure_telemetry_request \<Rightarrow> device_name list" where
  "getTargetDeviceNames ord req = entity_names ord (reqTargets req)"

definition requiresTunneling :: "configure_telemetry_request \<Rightarrow> bool" where
  "requiresTunneling req = (case reqSources req of TunneledEntities m \<Rightarrow> True | _ \<Rightarrow> False)"

text \<open>A raw index out of range panics. A missing key of the tunneled map is a nil
  \<open>TunneledEntities\<close>, whose field access panics at its use; both are \<^term>\<open>None\<close>.\<close>

fun entity_details_at :: "request_entities \<Rightarrow> device_name \<Rightarrow> nat \<Rightarrow> entity_details option" where
  "entity_details_at (RawEntities es) name i = (if i < length es then Some (RawDetails (es ! i)) else None)"
| "entity_details_at (TunneledEntities m) name i = map_option TunneledDetails (gm_get m name)"
| "entity_details_at UnsetEntities name i = None"

definition getSourceDetails :: "configure_telemetry_request \<Rightarrow> device_name \<Rightarrow> nat \<Rightarrow> entity_details option" where
  "getSourceDetails req name i = entity_details_at (reqSources req) name i"

definition getTargetDetails :: "configure_telemetry_request \<Rightarrow> device_name \<Rightarrow> nat \<Rightarrow> entity_details option" where
  "getTargetDetails req name i = entity_details_at (reqTargets req) name i"

definition getSwitchIds :: "topology \<Rightarrow> (device_name, int) gomap" where
  "getSwitchIds topo =
     fst (fold (\<lambda>dev (res, counter).
            if GetType dev = INC_SWITCH then (gm_put (GetName dev) counter res, counter + 1) else (res, counter))
          (Devices topo) ([], 0))"

section \<open>Finding the entities\<close>

definition PROGRAM_INTERFACE :: string where
  "PROGRAM_INTERFACE = ''inc.kntp.com/v1alpha1/telemetry''"

definition isCompatible :: "registry \<Rightarrow> device \<Rightarrow> bool" where
  "isCompatible r dev =
     (case dev of IncSwitch s \<Rightarrow> Implements r (InstalledProgram s) PROGRAM_INTERFACE | _ \<Rightarrow> False)"

definition compatible_at :: "registry \<Rightarrow> graph \<Rightarrow> device_name list \<Rightarrow> nat \<Rightarrow> bool option" where
  "compatible_at r G path i =
     (if i < length path then map_option (isCompatible r) (gm_get G (path ! i)) else None)"

definition findPortLeadingToDevice :: "graph \<Rightarrow> device \<Rightarrow> device \<Rightarrow> nat option" where
  "findPortLeadingToDevice G source target = do {
     reversedPath \<leftarrow> runDfs G (GetName source) (GetName target);
     (if length reversedPath < 2 then None
      else (let succesor = reversedPath ! (length reversedPath - 2)
            in first_index (\<lambda>link. To link = succesor) (GetLinks source)))
   }"

record edge_search =
  reversedPath :: "device_name list"
  sourcePathIdx :: nat
  sinkPathIdx :: nat
  foundIncDevicesOnPath :: bool

definition not_found :: "device_name list \<Rightarrow> edge_search" where
  "not_found path = \<lparr>reversedPath = path, sourcePathIdx = 0, sinkPathIdx = 0, foundIncDevicesOnPath = False\<rparr>"

definition fill_transit :: "registry \<Rightarrow> graph \<Rightarrow> device_name list \<Rightarrow> nat \<Rightarrow> telemetry_entities \<Rightarrow> telemetry_entities option" where
  "fill_transit r G path k ents =
     (if k < length path then
        (case gm_get G (path ! k) of
           None \<Rightarrow> None
         | Some dev \<Rightarrow>
             Some (if isCompatible r dev then ents\<lparr>Transits := gm_put (GetName dev) () (Transits ents)\<rparr> else ents))
      else None)"

definition findSourceSinkEdgesAndFillTransit ::
  "registry \<Rightarrow> graph \<Rightarrow> device_name \<Rightarrow> device_name \<Rightarrow> telemetry_entities \<Rightarrow> (edge_search \<times> telemetry_entities) option" where
  "findSourceSinkEdgesAndFillTransit r G sourceDevice targetDevice ents =
     (if sourceDevice = targetDevice then Some (not_found [], ents)
      else do {
        path \<leftarrow> runDfs G sourceDevice targetDevice;
        (if length path = 0 then None
         else do {
           src_scan \<leftarrow> scan_down (compatible_at r G path) (length path - 1);
           (case src_scan of
              None \<Rightarrow> Some (not_found path, ents)
            | Some i \<Rightarrow> do {
                snk_scan \<leftarrow> scan_up (compatible_at r G path) i 1;
                (let j = (case snk_scan of Some j \<Rightarrow> j | None \<Rightarrow> i + 1) in
                 if j = i then Some (not_found path, ents)
                 else do {
                   ents1 \<leftarrow> fold_opt (fill_transit r G path) [j + 1..<i] ents;
                   Some (\<lparr>reversedPath = path, sourcePathIdx = i, sinkPathIdx = j, foundIncDevicesOnPath = True\<rparr>, ents1)
                 })
              })
         })
      })"

definition port_or_any :: "int32 option \<Rightarrow> int" where
  "port_or_any p = (case p of None \<Rightarrow> ANY_PORT | Some v \<Rightarrow> sint v)"

definition ip_or_any :: "string \<Rightarrow> string" where
  "ip_or_any ip = (if ip \<noteq> ANY_IPv4 then ExactIpv4Ternary ip else ANY_IPv4)"

definition createTunneledTelemetryConfigs ::
  "tunneled_entity list \<Rightarrow> tunneled_entity list \<Rightarrow> telemetry_source_config list" where
  "createTunneledTelemetryConfigs sourceDetails targetDetails =
     concat (map (\<lambda>s. map (\<lambda>t.
        \<lparr>ips = \<lparr>src = ip_or_any (TunneledIp s), dst = ip_or_any (TunneledIp t)\<rparr>,
         confSrcPort = port_or_any (tunneledPort s), confDstPort = port_or_any (tunneledPort t),
         confTunneled = True\<rparr>) targetDetails) sourceDetails)"

text \<open>The address of the endpoint's link on the path, unless the endpoint is external.\<close>

definition endpoint_ip :: "graph \<Rightarrow> device_name \<Rightarrow> device_name option \<Rightarrow> string option" where
  "endpoint_ip G name next = do {
     dev \<leftarrow> gm_get G name;
     (if GetType dev = EXTERNAL then Some ANY_IPv4
      else do {
        peer \<leftarrow> next;
        l \<leftarrow> MustGetLinkTo dev peer;
        Some (ExactIpv4Ternary (Ipv4 l))
      })
   }"

definition createRawTelemetryConfig ::
  "graph \<Rightarrow> raw_telemetry_entity \<Rightarrow> raw_telemetry_entity \<Rightarrow> device_name list \<Rightarrow> telemetry_source_config option" where
  "createRawTelemetryConfig G sourceDetails targetDetails path = do {
     srcIp \<leftarrow> endpoint_ip G (rawDeviceName sourceDetails)
                (if 2 \<le> length path then Some (path ! (length path - 2)) else None);
     dstIp \<leftarrow> endpoint_ip G (rawDeviceName targetDetails) (if 1 < length path then Some (path ! 1) else None);
     Some \<lparr>ips = \<lparr>src = srcIp, dst = dstIp\<rparr>, confSrcPort = port_or_any (rawPort sourceDetails),
           confDstPort = port_or_any (rawPort targetDetails), confTunneled = False\<rparr>
   }"

text \<open>The configurations one pair of devices adds; the type assertions on the details panic when
  one side of the request is raw and the other tunneled.\<close>

definition new_configs ::
  "graph \<Rightarrow> configure_telemetry_request \<Rightarrow> entity_details \<Rightarrow> entity_details \<Rightarrow> device_name list \<Rightarrow>
     telemetry_source_config list option" where
  "new_configs G req sd td path =
     (if requiresTunneling req then
        (case (sd, td) of
           (TunneledDetails s, TunneledDetails t) \<Rightarrow> Some (createTunneledTelemetryConfigs s t)
         | _ \<Rightarrow> None)
      else
        (case (sd, td) of
           (RawDetails s, RawDetails t) \<Rightarrow> map_option (\<lambda>c. [c]) (createRawTelemetryConfig G s t path)
         | _ \<Rightarrow> None))"

text \<open>The body of the inner loop of \<open>findTelemetryEntitiesForRequest\<close>.\<close>

definition add_pair ::
  "registry \<Rightarrow> graph \<Rightarrow> configure_telemetry_request \<Rightarrow> nat \<times> device_name \<Rightarrow> nat \<times> device_name \<Rightarrow>
     telemetry_entities \<Rightarrow> telemetry_entities option" where
  "add_pair r G req = (\<lambda>(sourceIdx, source) (targetIdx, target) res.
     if source = target then Some res
     else do {
       (es, res1) \<leftarrow> findSourceSinkEdgesAndFillTransit r G source target res;
       (if \<not> foundIncDevicesOnPath es then Some res1
        else (let path = reversedPath es; i = sourcePathIdx es; j = sinkPathIdx es in
          if \<not> (0 < j \<and> j < length path \<and> i + 1 < length path) then None
          else (let
              sinkEdge = \<lparr>from_dev = path ! j, to_dev = path ! (j - 1)\<rparr>;
              sourceEdge = \<lparr>from_dev = path ! i, to_dev = path ! (i + 1)\<rparr>;
              res2 = res1\<lparr>Sinks := gm_put sinkEdge () (Sinks res1)\<rparr>;
              sourceConf = (case gm_get (Sources res2) sourceEdge of Some c \<Rightarrow> c | None \<Rightarrow> [])
            in do {
              sd \<leftarrow> getSourceDetails req source sourceIdx;
              td \<leftarrow> getTargetDetails req target targetIdx;
              newEntries \<leftarrow> new_configs G req sd td path;
              Some (res2\<lparr>Sources := gm_put sourceEdge (sourceConf @ newEntries) (Sources res2)\<rparr>)
            })))
     })"

text \<open>The request's device names in the order of the two loops: a tunneled target map is ranged
  over again for every source, so its order depends on the source's index.\<close>

record request_orders =
  sourceOrder :: "device_name list \<Rightarrow> device_name list"
  targetOrder :: "nat \<Rightarrow> device_name list \<Rightarrow> device_name list"

definition add_edge_devices :: "telemetry_entities \<Rightarrow> telemetry_entities" where
  "add_edge_devices res =
     res\<lparr>Transits := fold (\<lambda>e. gm_put (from_dev e) ()) (gm_keys (Sinks res))
        (fold (\<lambda>e. gm_put (from_dev e) ()) (gm_keys (Sources res)) (Transits res))\<rparr>"

definition findTelemetryEntitiesForRequest ::
  "registry \<Rightarrow> request_orders \<Rightarrow> configure_telemetry_request \<Rightarrow> graph \<Rightarrow> telemetry_entities option" where
  "findTelemetryEntitiesForRequest r ords req G = do {
     res \<leftarrow> fold_opt (\<lambda>s. fold_opt (add_pair r G req s)
                (List.enumerate 0 (getTargetDeviceNames (targetOrder ords (fst s)) req)))
              (List.enumerate 0 (getSourceDeviceNames (sourceOrder ords) req)) newTelemetryEntities;
     Some (add_edge_devices res)
   }"

end
