(* ===== verification/EntityDiff.thy ===== *)
theory EntityDiff
  imports TelemetryEntities
begin

text \<open>
  The difference between the entities of two versions of an intent (\<open>computeDifferences\<close> of
  \<open>telemetry/util.go\<close>). The loops range over maps and store into maps; the result does not
  depend on the order, which is the stored one here.
\<close>

definition conf_found :: "telemetry_source_config \<Rightarrow> telemetry_source_config list \<Rightarrow> bool" where
  "conf_found c confs = list_ex (\<lambda>x. c = x) confs"

definition missing_confs ::
  "telemetry_source_config list \<Rightarrow> telemetry_source_config list \<Rightarrow> telemetry_source_config list" where
  "missing_confs confs others = filter (\<lambda>c. \<not> conf_found c others) confs"

text \<open>The bodies of the first two loops, on the source maps of \<open>added\<close> and \<open>removed\<close>.\<close>

definition diff_old_source :: "source_map \<Rightarrow> edge \<times> telemetry_source_config list \<Rightarrow>
    source_map \<times> source_map \<Rightarrow> source_map \<times> source_map" where
  "diff_old_source newSources = (\<lambda>(sourceEdge, oldConfs) (added, removed).
     (case gm_get newSources sourceEdge of
        None \<Rightarrow> (added, gm_put sourceEdge oldConfs removed)
      | Some newConfs \<Rightarrow>
          (let addedConfs = missing_confs newConfs oldConfs;
               removedConfs = missing_confs oldConfs newConfs
           in (if 0 < length addedConfs then gm_put sourceEdge addedConfs added else added,
               if 0 < length removedConfs then gm_put sourceEdge removedConfs removed else removed))))"

definition diff_new_source :: "source_map \<Rightarrow> edge \<times> telemetry_source_config list \<Rightarrow> source_map \<Rightarrow> source_map" where
  "diff_new_source oldSources = (\<lambda>(sourceEdge, conf) added.
     (case gm_get oldSources sourceEdge of None \<Rightarrow> gm_put sourceEdge conf added | Some c \<Rightarrow> added))"

definition keys_not_in :: "('k, unit) gomap \<Rightarrow> ('k, unit) gomap \<Rightarrow> ('k, unit) gomap" where
  "keys_not_in m other =
     fold (\<lambda>k acc. case gm_get other k of None \<Rightarrow> gm_put k () acc | Some u \<Rightarrow> acc) (gm_keys m) []"

definition computeDifferences ::
  "telemetry_entities \<Rightarrow> telemetry_entities \<Rightarrow> telemetry_entities \<times> telemetry_entities" where
  "computeDifferences oldEntities newEntities =
     (let (added0, removed) =
            fold (diff_old_source (Sources newEntities)) (Sources oldEntities) ([], []);
          added = fold (diff_new_source (Sources oldEntities)) (Sources newEntities) added0
      in (\<lparr>Sources = added,
           Transits = keys_not_in (Transits newEntities) (Transits oldEntities),
           Sinks = keys_not_in (Sinks newEntities) (Sinks oldEntities)\<rparr>,
          \<lparr>Sources = removed,
           Transits = keys_not_in (Transits oldEntities) (Transits newEntities),
           Sinks = keys_not_in (Sinks oldEntities) (Sinks newEntities)\<rparr>))"

section \<open>What the difference contains\<close>

text \<open>The configurations of an edge, none for an edge that is not there.\<close>

definition confs_of :: "source_map \<Rightarrow> edge \<Rightarrow> telemetry_source_config list" where
  "confs_of m e = (case gm_get m e of None \<Rightarrow> [] | Some c \<Rightarrow> c)"

lemma conf_found_iff [simp]: "conf_found c confs \<longleftrightarrow> c \<in> set confs"
  by (auto simp: conf_found_def list_ex_iff)

lemma set_missing_confs [simp]: "set (missing_confs xs ys) = set xs - set ys"
  by (auto simp: missing_confs_def)

lemma keys_not_in_get: "gm_wf m \<Longrightarrow> gm_get (keys_not_in m other) k = (if gm_get m k \<noteq> None \<and> gm_get other k = None then Some () else None)"
proof -
  have fold: "gm_get (fold (\<lambda>k acc. case gm_get other k of None \<Rightarrow> gm_put k () acc | Some u \<Rightarrow> acc) ks acc) k
        = (if k \<in> set ks \<and> gm_get other k = None then Some () else gm_get acc k)" for ks acc
    by (induction ks arbitrary: acc) (auto split: option.split)
  show ?thesis
    unfolding keys_not_in_def fold by (simp add: map_of_eq_None_iff)
qed

lemma keys_not_in_wf: "gm_wf (keys_not_in m other)"
proof -
  have "gm_wf acc \<Longrightarrow> gm_wf (fold (\<lambda>k acc. case gm_get other k of None \<Rightarrow> gm_put k () acc | Some u \<Rightarrow> acc) ks acc)" for ks acc
    by (induction ks arbitrary: acc) (auto split: option.split)
  then show ?thesis by (simp add: keys_not_in_def)
qed

lemma diff_old_get:
  assumes "distinct (map fst xs)"
  shows "gm_get (fst (fold (diff_old_source new) xs (a, r))) e =
       (case gm_get xs e of None \<Rightarrow> gm_get a e
        | Some oc \<Rightarrow> (case gm_get new e of None \<Rightarrow> gm_get a e
            | Some nc \<Rightarrow> if missing_confs nc oc = [] then gm_get a e else Some (missing_confs nc oc)))
    \<and> gm_get (snd (fold (diff_old_source new) xs (a, r))) e =
       (case gm_get xs e of None \<Rightarrow> gm_get r e
        | Some oc \<Rightarrow> (case gm_get new e of None \<Rightarrow> Some oc
            | Some nc \<Rightarrow> if missing_confs oc nc = [] then gm_get r e else Some (missing_confs oc nc)))"
  using assms
proof (induction xs arbitrary: a r)
  case (Cons x xs)
  obtain f oc where x: "x = (f, oc)" by (cases x)
  obtain a1 r1 where s: "diff_old_source new x (a, r) = (a1, r1)" by (cases "diff_old_source new x (a, r)")
  have fresh: "gm_get xs f = None" using Cons.prems x by (simp add: map_of_eq_None_iff)
  have a1: "gm_get a1 e = (if e = f then (case gm_get new e of None \<Rightarrow> gm_get a e
            | Some nc \<Rightarrow> if missing_confs nc oc = [] then gm_get a e else Some (missing_confs nc oc)) else gm_get a e)"
    and r1: "gm_get r1 e = (if e = f then (case gm_get new e of None \<Rightarrow> Some oc
            | Some nc \<Rightarrow> if missing_confs oc nc = [] then gm_get r e else Some (missing_confs oc nc)) else gm_get r e)"
    using s by (auto simp: x diff_old_source_def Let_def split: option.splits if_splits)
  have "distinct (map fst xs)" using Cons.prems by simp
  from Cons.IH [OF this, of a1 r1] s a1 r1 fresh show ?case
    by (cases "e = f") (simp_all add: x split: option.split)
qed simp

lemma diff_new_get:
  assumes "distinct (map fst xs)"
  shows "gm_get (fold (diff_new_source old) xs a) e =
       (if gm_get old e = None \<and> gm_get xs e \<noteq> None then gm_get xs e else gm_get a e)"
  using assms
proof (induction xs arbitrary: a)
  case (Cons x xs)
  obtain f nc where x: "x = (f, nc)" by (cases x)
  have "gm_get xs f = None" using Cons.prems x by (simp add: map_of_eq_None_iff)
  with Cons show ?case
    by (auto simp: x diff_new_source_def split: option.splits)
qed simp

lemma diff_wf:
  "gm_wf (fst ar) \<Longrightarrow> gm_wf (snd ar) \<Longrightarrow>
     gm_wf (fst (fold (diff_old_source new) xs ar)) \<and> gm_wf (snd (fold (diff_old_source new) xs ar))"
  by (induction xs arbitrary: ar) (auto simp: diff_old_source_def Let_def split: option.splits prod.splits if_splits)

lemma diff_new_wf: "gm_wf a \<Longrightarrow> gm_wf (fold (diff_new_source old) xs a)"
  by (induction xs arbitrary: a) (auto simp: diff_new_source_def split: option.splits prod.splits)

text \<open>The source map of each side of the difference, edge by edge.\<close>

lemma computeDifferences_sources:
  assumes "computeDifferences old new = (added, removed)" and "entities_wf old" and "entities_wf new"
  shows "gm_get (Sources added) e =
      (case gm_get (Sources old) e of None \<Rightarrow> gm_get (Sources new) e
       | Some oc \<Rightarrow> (case gm_get (Sources new) e of None \<Rightarrow> None
           | Some nc \<Rightarrow> if missing_confs nc oc = [] then None else Some (missing_confs nc oc)))"
    and "gm_get (Sources removed) e =
      (case gm_get (Sources new) e of None \<Rightarrow> gm_get (Sources old) e
       | Some nc \<Rightarrow> (case gm_get (Sources old) e of None \<Rightarrow> None
           | Some oc \<Rightarrow> if missing_confs oc nc = [] then None else Some (missing_confs oc nc)))"
proof -
  obtain a0 r0 where f: "fold (diff_old_source (Sources new)) (Sources old) ([], []) = (a0, r0)"
    by (cases "fold (diff_old_source (Sources new)) (Sources old) ([], [])")
  have s: "Sources added = fold (diff_new_source (Sources old)) (Sources new) a0" "Sources removed = r0"
    using assms(1) f by (auto simp: computeDifferences_def Let_def)
  have d: "gm_wf (Sources old)" "gm_wf (Sources new)" using assms(2,3) by (simp_all add: entities_wf_def)
  note 1 = diff_old_get [OF d(1), of "Sources new" "[]" "[]" e, unfolded f, simplified]
  from 1 show "gm_get (Sources added) e =
      (case gm_get (Sources old) e of None \<Rightarrow> gm_get (Sources new) e
       | Some oc \<Rightarrow> (case gm_get (Sources new) e of None \<Rightarrow> None
           | Some nc \<Rightarrow> if missing_confs nc oc = [] then None else Some (missing_confs nc oc)))"
    unfolding s diff_new_get [OF d(2)] by (auto split: option.splits)
  from 1 show "gm_get (Sources removed) e =
      (case gm_get (Sources new) e of None \<Rightarrow> gm_get (Sources old) e
       | Some nc \<Rightarrow> (case gm_get (Sources old) e of None \<Rightarrow> None
           | Some oc \<Rightarrow> if missing_confs oc nc = [] then None else Some (missing_confs oc nc)))"
    unfolding s by (auto split: option.splits)
qed

lemma computeDifferences_wf:
  assumes "computeDifferences old new = (added, removed)"
  shows "entities_wf added" and "entities_wf removed"
proof -
  obtain a0 r0 where f: "fold (diff_old_source (Sources new)) (Sources old) ([], []) = (a0, r0)"
    by (cases "fold (diff_old_source (Sources new)) (Sources old) ([], [])")
  have "gm_wf a0" "gm_wf r0"
    using diff_wf [of "([], [])" "Sources new" "Sources old"] f by auto
  moreover have "added = \<lparr>Sources = fold (diff_new_source (Sources old)) (Sources new) a0,
           Transits = keys_not_in (Transits new) (Transits old), Sinks = keys_not_in (Sinks new) (Sinks old)\<rparr>"
    "removed = \<lparr>Sources = r0,
           Transits = keys_not_in (Transits old) (Transits new), Sinks = keys_not_in (Sinks old) (Sinks new)\<rparr>"
    using assms f by (auto simp: computeDifferences_def Let_def)
  ultimately show "entities_wf added" "entities_wf removed"
    by (simp_all add: entities_wf_def diff_new_wf keys_not_in_wf)
qed

lemma computeDifferences_keys:
  assumes "computeDifferences old new = (added, removed)" and "entities_wf old" and "entities_wf new"
  shows "gm_get (Transits added) t = (if gm_get (Transits new) t \<noteq> None \<and> gm_get (Transits old) t = None then Some () else None)"
    and "gm_get (Transits removed) t = (if gm_get (Transits old) t \<noteq> None \<and> gm_get (Transits new) t = None then Some () else None)"
    and "gm_get (Sinks added) k = (if gm_get (Sinks new) k \<noteq> None \<and> gm_get (Sinks old) k = None then Some () else None)"
    and "gm_get (Sinks removed) k = (if gm_get (Sinks old) k \<noteq> None \<and> gm_get (Sinks new) k = None then Some () else None)"
  using assms by (auto simp: computeDifferences_def entities_wf_def Let_def keys_not_in_get split: prod.splits)

lemma computeDifferences_sets:
  assumes "computeDifferences old new = (added, removed)" and "entities_wf old" and "entities_wf new"
  shows "set (confs_of (Sources added) e) = set (confs_of (Sources new) e) - set (confs_of (Sources old) e)
     \<and> set (confs_of (Sources removed) e) = set (confs_of (Sources old) e) - set (confs_of (Sources new) e)
     \<and> set (gm_keys (Transits added)) = set (gm_keys (Transits new)) - set (gm_keys (Transits old))
     \<and> set (gm_keys (Transits removed)) = set (gm_keys (Transits old)) - set (gm_keys (Transits new))
     \<and> set (gm_keys (Sinks added)) = set (gm_keys (Sinks new)) - set (gm_keys (Sinks old))
     \<and> set (gm_keys (Sinks removed)) = set (gm_keys (Sinks old)) - set (gm_keys (Sinks new))"
proof -
  have keys: "set (gm_keys m) = {k. gm_get m k \<noteq> None}" for m :: "('k, unit) gomap"
    by (auto simp: map_of_eq_None_iff)
  have mis: "missing_confs xs ys = [] \<longleftrightarrow> set xs - set ys = {}" for xs ys
    by (metis set_empty set_missing_confs)
  show ?thesis
    unfolding keys computeDifferences_keys [OF assms]
    by (auto simp: confs_of_def computeDifferences_sources [OF assms] mis split: option.splits)
qed

section \<open>Counting configurations\<close>

text \<open>
  The service counts users, so what matters to it is a sum over the configurations of all
  edges. For maps whose configuration lists have no duplicates, such sums are sums over sets.
\<close>

definition distinct_confs :: "telemetry_entities \<Rightarrow> bool" where
  "distinct_confs t \<longleftrightarrow> list_all (\<lambda>(e, confs). distinct confs) (Sources t)"

definition conf_set :: "source_map \<Rightarrow> (edge \<times> telemetry_source_config) set" where
  "conf_set m = (SIGMA e : set (gm_keys m). set (confs_of m e))"

lemma conf_set_iff: "(e, c) \<in> conf_set m \<longleftrightarrow> c \<in> set (confs_of m e)"
proof -
  have "gm_get m e \<noteq> None" if "c \<in> set (confs_of m e)"
    using that by (cases "gm_get m e") (auto simp: confs_of_def)
  then show ?thesis
    unfolding conf_set_def by (auto simp: map_of_eq_None_iff)
qed

lemma finite_conf_set: "finite (conf_set m)"
  by (simp add: conf_set_def)

lemma sum_confs:
  assumes "gm_wf m" and "list_all (\<lambda>(e, confs). distinct confs) m"
  shows "(\<Sum>(e, confs)\<leftarrow>m. \<Sum>c\<leftarrow>confs. h e c) = (\<Sum>(e, c)\<in>conf_set m. h e c :: int)"
proof -
  have d: "distinct (confs_of m e)" for e
    using assms(2) by (auto simp: confs_of_def list_all_iff split: option.splits dest: gm_get_in)
  have "(\<Sum>(e, confs)\<leftarrow>m. \<Sum>c\<leftarrow>confs. h e c) = (\<Sum>(e, u)\<leftarrow>m. (\<lambda>e co. \<Sum>c\<leftarrow>(case co of None \<Rightarrow> [] | Some cs \<Rightarrow> cs). h e c) e (gm_get m e))"
    using assms(1) by (intro arg_cong [where f = sum_list] map_cong refl) (auto split: prod.splits)
  also have "\<dots> = (\<Sum>e\<in>set (gm_keys m). \<Sum>c\<leftarrow>confs_of m e. h e c)"
    by (subst sum_keys [OF assms(1)]) (simp add: confs_of_def)
  also have "\<dots> = (\<Sum>e\<in>set (gm_keys m). \<Sum>c\<in>set (confs_of m e). h e c)"
    by (simp add: sum_list_distinct_conv_sum_set [OF d])
  also have "\<dots> = (\<Sum>(e, c)\<in>conf_set m. h e c)"
    by (simp add: conf_set_def sum.Sigma)
  finally show ?thesis .
qed

lemma sum_set_diff:
  assumes "finite A" and "finite B"
  shows "sum f A + sum f (B - A) = sum f B + (sum f (A - B) :: int)"
  using sum.union_disjoint [of A "B - A" f] sum.union_disjoint [of B "A - B" f] assms
  by (simp add: Un_commute)

lemma missing_confs_distinct: "distinct xs \<Longrightarrow> distinct (missing_confs xs ys)"
  by (simp add: missing_confs_def)

lemma computeDifferences_distinct:
  assumes "computeDifferences old new = (added, removed)" and "entities_wf old" and "entities_wf new"
    and "distinct_confs old" and "distinct_confs new"
  shows "distinct_confs added" and "distinct_confs removed"
proof -
  have old: "distinct oc" if "gm_get (Sources old) e = Some oc" for e oc
    using assms(4) gm_get_in [OF that] by (auto simp: distinct_confs_def list_all_iff)
  have new: "distinct nc" if "gm_get (Sources new) e = Some nc" for e nc
    using assms(5) gm_get_in [OF that] by (auto simp: distinct_confs_def list_all_iff)
  have wf: "gm_wf (Sources added)" "gm_wf (Sources removed)"
    using computeDifferences_wf [OF assms(1)] by (auto simp: entities_wf_def)
  have a: "distinct cs" if "gm_get (Sources added) e = Some cs" for e cs
    using that old [of e] new [of e] computeDifferences_sources(1) [OF assms(1-3), of e]
    by (auto simp: missing_confs_distinct simp del: map_of_eq_Some_iff split: option.splits if_splits)
  have r: "distinct cs" if "gm_get (Sources removed) e = Some cs" for e cs
    using that old [of e] new [of e] computeDifferences_sources(2) [OF assms(1-3), of e]
    by (auto simp: missing_confs_distinct simp del: map_of_eq_Some_iff split: option.splits if_splits)
  from a r wf show "distinct_confs added" "distinct_confs removed"
    by (auto simp: distinct_confs_def list_all_iff)
qed

text \<open>Any sum over sinks, transits or configurations moves from the old to the new entities by
  adding the added and subtracting the removed ones.\<close>

lemma computeDifferences_sums:
  assumes "computeDifferences old new = (added, removed)" and "entities_wf old" and "entities_wf new"
  shows "(\<Sum>(e, u)\<leftarrow>Sinks new. f e) + (\<Sum>(e, u)\<leftarrow>Sinks removed. f e)
       = (\<Sum>(e, u)\<leftarrow>Sinks old. f e) + (\<Sum>(e, u)\<leftarrow>Sinks added. f e :: int)" (is ?sinks)
    and "(\<Sum>(d, u)\<leftarrow>Transits new. g d) + (\<Sum>(d, u)\<leftarrow>Transits removed. g d)
       = (\<Sum>(d, u)\<leftarrow>Transits old. g d) + (\<Sum>(d, u)\<leftarrow>Transits added. g d :: int)" (is ?transits)
    and "distinct_confs old \<Longrightarrow> distinct_confs new \<Longrightarrow>
       (\<Sum>(e, cs)\<leftarrow>Sources new. \<Sum>c\<leftarrow>cs. h e c) + (\<Sum>(e, cs)\<leftarrow>Sources removed. \<Sum>c\<leftarrow>cs. h e c)
       = (\<Sum>(e, cs)\<leftarrow>Sources old. \<Sum>c\<leftarrow>cs. h e c) + (\<Sum>(e, cs)\<leftarrow>Sources added. \<Sum>c\<leftarrow>cs. h e c :: int)"
proof -
  note sets = computeDifferences_sets [OF assms] and wf = computeDifferences_wf [OF assms(1)] assms(2,3)
  note wf' = wf [unfolded entities_wf_def]
  show ?sinks
    using sum_set_diff [of "set (gm_keys (Sinks new))" "set (gm_keys (Sinks old))" f] sets wf'
    by (simp add: sum_keys [of _ "\<lambda>e _. f e"])
  show ?transits
    using sum_set_diff [of "set (gm_keys (Transits new))" "set (gm_keys (Transits old))" g] sets wf'
    by (simp add: sum_keys [of _ "\<lambda>d _. g d"])
  assume d: "distinct_confs old" "distinct_confs new"
  have "conf_set (Sources added) = conf_set (Sources new) - conf_set (Sources old)"
    "conf_set (Sources removed) = conf_set (Sources old) - conf_set (Sources new)"
    using sets by (auto simp: conf_set_iff)
  then show "(\<Sum>(e, cs)\<leftarrow>Sources new. \<Sum>c\<leftarrow>cs. h e c) + (\<Sum>(e, cs)\<leftarrow>Sources removed. \<Sum>c\<leftarrow>cs. h e c)
       = (\<Sum>(e, cs)\<leftarrow>Sources old. \<Sum>c\<leftarrow>cs. h e c) + (\<Sum>(e, cs)\<leftarrow>Sources added. \<Sum>c\<leftarrow>cs. h e c)"
    using sum_set_diff [OF finite_conf_set finite_conf_set, of "\<lambda>(e, c). h e c" "Sources new" "Sources old"]
      wf' d computeDifferences_distinct [OF assms d]
    by (simp add: sum_confs distinct_confs_def)
qed

text \<open>C28: \<open>computeDifferences\<close> computes set differences: the transits, the sinks and the
  configurations of every source edge that are new but not old, and those that are old but not
  new.\<close>

theorem computeDifferences_spec:
  assumes "computeDifferences old new = (added, removed)" and "entities_wf old" and "entities_wf new"
  shows "set (confs_of (Sources added) e) = set (confs_of (Sources new) e) - set (confs_of (Sources old) e)
     \<and> set (confs_of (Sources removed) e) = set (confs_of (Sources old) e) - set (confs_of (Sources new) e)
     \<and> set (gm_keys (Transits added)) = set (gm_keys (Transits new)) - set (gm_keys (Transits old))
     \<and> set (gm_keys (Transits removed)) = set (gm_keys (Transits old)) - set (gm_keys (Transits new))
     \<and> set (gm_keys (Sinks added)) = set (gm_keys (Sinks new)) - set (gm_keys (Sinks old))
     \<and> set (gm_keys (Sinks removed)) = set (gm_keys (Sinks old)) - set (gm_keys (Sinks new))"
  by (rule computeDifferences_sets [OF assms])

text \<open>The first and second sample of the repository's unit test.\<close>

definition test_conf :: "string \<Rightarrow> int \<Rightarrow> int \<Rightarrow> telemetry_source_config" where
  "test_conf s sp dp = \<lparr>ips = \<lparr>src = s, dst = ''y''\<rparr>, confSrcPort = sp, confDstPort = dp, confTunneled = False\<rparr>"

definition test_entities1 :: telemetry_entities where
  "test_entities1 = \<lparr>Sources =
       [(\<lparr>from_dev = ''a'', to_dev = ''b''\<rparr>, [test_conf ''x'' 1 2, test_conf ''x'' 1 2, test_conf ''x'' 5 2]),
        (\<lparr>from_dev = ''x'', to_dev = ''y''\<rparr>, [test_conf ''x'' 5 2])],
     Transits = [(''b'', ()), (''y'', ()), (''v'', ()), (''g1'', ()), (''g3'', ())],
     Sinks = [(\<lparr>from_dev = ''g1'', to_dev = ''g2''\<rparr>, ()), (\<lparr>from_dev = ''g4'', to_dev = ''g5''\<rparr>, ())]\<rparr>"

definition test_entities2 :: telemetry_entities where
  "test_entities2 = \<lparr>Sources =
       [(\<lparr>from_dev = ''a'', to_dev = ''b''\<rparr>, [test_conf ''x'' 1 2, test_conf ''x'' 1 2]),
        (\<lparr>from_dev = ''q1'', to_dev = ''q2''\<rparr>, [test_conf ''a'' 5 8])],
     Transits = [(''b'', ()), (''y'', ()), (''g6'', ())],
     Sinks = [(\<lparr>from_dev = ''g1'', to_dev = ''g2''\<rparr>, ()), (\<lparr>from_dev = ''g3'', to_dev = ''g4''\<rparr>, ())]\<rparr>"

theorem computeDifferences_spec_witness:
  "set (gm_keys (Transits (fst (computeDifferences test_entities1 test_entities2)))) = {''g6''}
   \<and> set (gm_keys (Transits (snd (computeDifferences test_entities1 test_entities2)))) = {''v'', ''g1'', ''g3''}"
proof -
  have "entities_wf test_entities1" "entities_wf test_entities2" by code_simp+
  from computeDifferences_spec [OF prod.collapse [symmetric] this] show ?thesis
    by (auto simp: test_entities1_def test_entities2_def)
qed

end
