(* ===== verification/EntityPaths.thy ===== *)
theory EntityPaths
  imports TelemetryEntities
begin

text \<open>
  Correctness of the search of \<open>TelemetryEntities\<close>: on a network without dangling or one-way
  links the entities of a request are edges of telemetry switches, so that the entries built
  from them have ports to refer to, and the search does not panic.
\<close>

definition compatible_dev :: "registry \<Rightarrow> graph \<Rightarrow> device_name \<Rightarrow> bool" where
  "compatible_dev r G u = (case gm_get G u of None \<Rightarrow> False | Some d \<Rightarrow> isCompatible r d)"

definition switch_edge :: "registry \<Rightarrow> graph \<Rightarrow> edge \<Rightarrow> bool" where
  "switch_edge r G e \<longleftrightarrow> compatible_dev r G (from_dev e) \<and> to_dev e \<in> set (neighbours G (from_dev e))"

definition entities_ok :: "registry \<Rightarrow> graph \<Rightarrow> telemetry_entities \<Rightarrow> bool" where
  "entities_ok r G ents \<longleftrightarrow>
     entities_wf ents
     \<and> list_all (switch_edge r G) (gm_keys (Sources ents))
     \<and> list_all (compatible_dev r G) (gm_keys (Transits ents))
     \<and> list_all (switch_edge r G) (gm_keys (Sinks ents))"

definition graph_ok :: "graph \<Rightarrow> bool" where
  "graph_ok G \<longleftrightarrow> graph_named G \<and> graph_closed G \<and> graph_symmetric G"

lemma compatible_at_iff:
  assumes "reversed_path G p" and "gm_get G (hd p) \<noteq> None" and "i < length p"
  shows "compatible_at r G p i = Some (compatible_dev r G (p ! i))"
proof -
  have "gm_get G (p ! i) \<noteq> None"
    using assms path_in_graph by (cases "i = 0") (auto simp: hd_conv_nth)
  then show ?thesis using assms(3) by (auto simp: compatible_at_def compatible_dev_def)
qed

lemma keys_put_all:
  "list_all P (gm_keys m) \<Longrightarrow> P k \<Longrightarrow> list_all P (gm_keys (gm_put k v m))"
  using gm_put_subset [of k v m] by (fastforce simp: list_all_iff)

lemma fill_transit_ok:
  assumes "fill_transit r G path k ents = Some ents1" and "graph_named G" and "entities_ok r G ents"
  shows "entities_ok r G ents1 \<and> Sources ents1 = Sources ents \<and> Sinks ents1 = Sinks ents"
  using assms graph_namedD [OF assms(2)]
  by (auto simp: fill_transit_def entities_ok_def entities_wf_def compatible_dev_def
      split: option.splits if_splits intro!: keys_put_all)

lemma fill_transits_ok:
  assumes "fold_opt (fill_transit r G path) ks ents = Some ents1" and "graph_named G" and "entities_ok r G ents"
  shows "entities_ok r G ents1 \<and> Sources ents1 = Sources ents \<and> Sinks ents1 = Sinks ents"
  by (rule fold_opt_inv [OF assms(1), where P = "\<lambda>e. entities_ok r G e \<and> Sources e = Sources ents \<and> Sinks e = Sinks ents"])
    (use assms(3) fill_transit_ok [OF _ assms(2)] in auto)

lemma fill_transits_total:
  assumes "reversed_path G path" and "\<forall>k \<in> set ks. 0 < k \<and> k < length path"
  shows "\<exists>ents1. fold_opt (fill_transit r G path) ks ents = Some ents1"
proof -
  have "\<exists>s'. fill_transit r G path k s = Some s'" if "k \<in> set ks" for k s
    using that assms path_in_graph [OF assms(1), of k] by (auto simp: fill_transit_def)
  then show ?thesis using fold_opt_total [of "\<lambda>_. True" ents ks "fill_transit r G path"] by auto
qed

text \<open>What a successful search returns, when the target is not itself a telemetry switch: the
  source switch \<open>i\<close> is the one nearest to the source device, the sink switch \<open>j\<close> the one nearest
  to the target.\<close>

lemma search_found:
  assumes "findSourceSinkEdgesAndFillTransit r G s t ents = Some (es, ents1)" and "foundIncDevicesOnPath es"
    and "gm_get G t \<noteq> None" and "\<not> compatible_dev r G t"
  defines "p \<equiv> reversedPath es" and "i \<equiv> sourcePathIdx es" and "j \<equiv> sinkPathIdx es"
  shows "runDfs G s t = Some p \<and> reversed_path G p \<and> distinct p \<and> hd p = t \<and> last p = s
     \<and> 0 < j \<and> j < i \<and> i + 1 < length p
     \<and> compatible_dev r G (p ! i) \<and> compatible_dev r G (p ! j)
     \<and> (\<forall>k. i < k \<and> k < length p - 1 \<longrightarrow> \<not> compatible_dev r G (p ! k))
     \<and> (\<forall>k < j. \<not> compatible_dev r G (p ! k))
     \<and> fold_opt (fill_transit r G p) [j + 1..<i] ents = Some ents1"
proof -
  from assms(1,2) obtain path i0 snk where ne: "s \<noteq> t" and dfs: "runDfs G s t = Some path" and pne: "path \<noteq> []"
    and down: "scan_down (compatible_at r G path) (length path - 1) = Some (Some i0)"
    and up: "scan_up (compatible_at r G path) i0 1 = Some snk"
    and j0: "(case snk of Some j \<Rightarrow> j | None \<Rightarrow> i0 + 1) \<noteq> i0"
    and fill: "fold_opt (fill_transit r G path) [(case snk of Some j \<Rightarrow> j | None \<Rightarrow> i0 + 1) + 1..<i0] ents = Some ents1"
    and es: "es = \<lparr>reversedPath = path, sourcePathIdx = i0,
        sinkPathIdx = (case snk of Some j \<Rightarrow> j | None \<Rightarrow> i0 + 1), foundIncDevicesOnPath = True\<rparr>"
    unfolding findSourceSinkEdgesAndFillTransit_def Let_def not_found_def
    by (auto split: if_splits Option.bind_splits option.splits)
  note path = runDfs_path [OF dfs pne]
  have c: "compatible_at r G path k = Some (compatible_dev r G (path ! k))" if "k < length path" for k
    by (rule compatible_at_iff) (use path assms(3) that in auto)
  note d = scan_down_Some [OF down]
  have "i0 \<noteq> 0"
  proof
    assume "i0 = 0"
    with d c [of 0] assms(4) path pne show False by (simp add: hd_conv_nth)
  qed
  have sj: "snk = Some j0 \<and> 0 < j0 \<and> j0 < i0 \<and> compatible_dev r G (path ! j0)
      \<and> (\<forall>k. 1 \<le> k \<and> k < j0 \<longrightarrow> \<not> compatible_dev r G (path ! k))" if "j0 = (case snk of Some j \<Rightarrow> j | None \<Rightarrow> i0 + 1)" for j0
  proof (cases snk)
    case None
    then have "\<forall>k. 1 \<le> k \<and> k < 1 + i0 \<longrightarrow> compatible_at r G path k = Some False"
      using up scan_up_None [of "compatible_at r G path" i0 1] by simp
    with d \<open>i0 \<noteq> 0\<close> show ?thesis by auto
  next
    case (Some j1)
    with up have u: "1 \<le> j1 \<and> j1 < 1 + i0 \<and> compatible_at r G path j1 = Some True
        \<and> (\<forall>k. 1 \<le> k \<and> k < j1 \<longrightarrow> compatible_at r G path k = Some False)"
      using scan_up_Some [of "compatible_at r G path" i0 1 j1] by simp
    have "i0 < length path - 1" using d by blast
    then have len: "k < length path" if "k \<le> i0" for k using that by linarith
    have "j1 \<noteq> i0" using j0 Some by simp
    moreover have "compatible_dev r G (path ! j1)" using u c [of j1] len [of j1] by simp
    moreover have "\<not> compatible_dev r G (path ! k)" if "1 \<le> k \<and> k < j1" for k
    proof -
      have "compatible_at r G path k = Some False" using u that by blast
      then show ?thesis using c [of k] u that len [of k] by simp
    qed
    ultimately show ?thesis using Some u that by simp
  qed
  from sj obtain j1 where j1: "snk = Some j1" "0 < j1" "j1 < i0" "compatible_dev r G (path ! j1)"
    "\<forall>k. 1 \<le> k \<and> k < j1 \<longrightarrow> \<not> compatible_dev r G (path ! k)" by blast
  have "\<not> compatible_dev r G (path ! k)" if "k < j1" for k
    using j1(5) that assms(4) path pne by (cases "k = 0") (auto simp: hd_conv_nth)
  moreover have "\<not> compatible_dev r G (path ! k)" if "i0 < k" "k < length path - 1" for k
    using d c [of k] that by auto
  moreover have "compatible_dev r G (path ! i0)" using d c [of i0] by auto
  ultimately show ?thesis
    using dfs path d j1 fill by (auto simp: p_def i_def j_def es)
qed

lemma search_total:
  assumes "graph_ok G" and "graph_connected G" and "gm_get G s \<noteq> None" and "gm_get G t \<noteq> None"
  shows "\<exists>r'. findSourceSinkEdgesAndFillTransit r G s t ents = Some r'"
proof (cases "s = t")
  case False
  from runDfs_connected [OF assms(2)] assms obtain path where dfs: "runDfs G s t = Some path" and pne: "path \<noteq> []"
    and path: "hd path = t" "reversed_path G path" by (auto simp: graph_ok_def)
  have c: "compatible_at r G path k \<noteq> None" if "k < length path" for k
    using compatible_at_iff [OF path(2) _ that] path(1) assms(4) by simp
  obtain a where a: "scan_down (compatible_at r G path) (length path - 1) = Some a"
    using scan_down_total [of "length path - 1" "compatible_at r G path"] c by fastforce
  show ?thesis
  proof (cases a)
    case None
    with a dfs pne False show ?thesis by (simp add: findSourceSinkEdgesAndFillTransit_def)
  next
    case (Some i)
    with a scan_down_Some have i: "i < length path - 1" by blast
    obtain b where b: "scan_up (compatible_at r G path) i 1 = Some b"
      using scan_up_total [of 1 i "compatible_at r G path"] c i by fastforce
    have "\<exists>e. fold_opt (fill_transit r G path) [Suc j..<i] ents = Some e" for j
      by (rule fill_transits_total [OF path(2)]) (use i in auto)
    then obtain e where "fold_opt (fill_transit r G path)
        [(case b of Some j \<Rightarrow> j | None \<Rightarrow> i + 1) + 1..<i] ents = Some e" by fastforce
    with a b dfs pne False Some show ?thesis
      by (simp add: findSourceSinkEdgesAndFillTransit_def Let_def)
  qed
qed (simp add: findSourceSinkEdgesAndFillTransit_def)

section \<open>The entities of a request\<close>

text \<open>
  The requests the search is meant for: both sides raw or both tunneled, every device in the
  graph, no target that is itself a telemetry switch.
\<close>

fun names_of :: "request_entities \<Rightarrow> device_name set" where
  "names_of (RawEntities es) = rawDeviceName ` set es"
| "names_of (TunneledEntities m) = set (gm_keys m)"
| "names_of UnsetEntities = {}"

fun same_mode :: "request_entities \<Rightarrow> request_entities \<Rightarrow> bool" where
  "same_mode (RawEntities a) (RawEntities b) \<longleftrightarrow> True"
| "same_mode (TunneledEntities a) (TunneledEntities b) \<longleftrightarrow> True"
| "same_mode _ _ \<longleftrightarrow> False"

definition request_ok :: "registry \<Rightarrow> graph \<Rightarrow> configure_telemetry_request \<Rightarrow> bool" where
  "request_ok r G req \<longleftrightarrow>
     same_mode (reqSources req) (reqTargets req)
     \<and> (\<forall>u \<in> names_of (reqSources req). gm_get G u \<noteq> None)
     \<and> (\<forall>u \<in> names_of (reqTargets req). gm_get G u \<noteq> None \<and> \<not> compatible_dev r G u)"

definition orders_ok :: "request_orders \<Rightarrow> bool" where
  "orders_ok ords \<longleftrightarrow> is_order (sourceOrder ords) \<and> (\<forall>i. is_order (targetOrder ords i))"

lemma entity_names_details:
  assumes "is_order ord" and "(i, u) \<in> set (List.enumerate 0 (entity_names ord re))"
  shows "u \<in> names_of re \<and> (\<exists>d. entity_details_at re u i = Some d
     \<and> (case re of RawEntities es \<Rightarrow> \<exists>x. d = RawDetails x \<and> rawDeviceName x = u
         | TunneledEntities m \<Rightarrow> \<exists>x. d = TunneledDetails x | UnsetEntities \<Rightarrow> False))"
proof (cases re)
  case (RawEntities es)
  with assms(2) show ?thesis by (auto simp: in_set_enumerate_eq)
next
  case (TunneledEntities m)
  have "u \<in> set (ord (gm_keys m))"
    using assms(2) TunneledEntities by (auto simp: in_set_enumerate_eq)
  then have "u \<in> set (gm_keys m)" using is_order_set [OF assms(1)] by metis
  moreover from this obtain x where "gm_get m u = Some x"
    using map_of_eq_None_iff [of m u] by auto
  ultimately show ?thesis using TunneledEntities by simp
next
  case UnsetEntities
  with assms(2) show ?thesis by (simp add: in_set_enumerate_eq)
qed

lemma endpoint_ip_total:
  assumes "gm_get G u \<noteq> None" and "v \<in> set (neighbours G u)"
  shows "\<exists>ip. endpoint_ip G u (Some v) = Some ip"
proof -
  from assms(1) obtain d where d: "gm_get G u = Some d" by auto
  then have "MustGetLinkTo d v \<noteq> None"
    using assms(2) MustGetLinkTo_None [of d v] by (auto simp: neighbours_get)
  with d show ?thesis by (auto simp: endpoint_ip_def)
qed

lemma new_configs_total:
  assumes "graph_symmetric G" and "reversed_path G p" and "hd p = t" and "last p = s" and "2 \<le> length p"
    and "gm_get G s \<noteq> None" and "gm_get G t \<noteq> None"
    and "same_mode (reqSources req) (reqTargets req)"
    and "case reqSources req of RawEntities es \<Rightarrow> \<exists>x. sd = RawDetails x \<and> rawDeviceName x = s
         | TunneledEntities m \<Rightarrow> \<exists>x. sd = TunneledDetails x | UnsetEntities \<Rightarrow> False"
    and "case reqTargets req of RawEntities es \<Rightarrow> \<exists>x. td = RawDetails x \<and> rawDeviceName x = t
         | TunneledEntities m \<Rightarrow> \<exists>x. td = TunneledDetails x | UnsetEntities \<Rightarrow> False"
  shows "\<exists>c. new_configs G req sd td p = Some c"
proof (cases "requiresTunneling req")
  case True
  with assms(8-10) show ?thesis
    by (auto simp: new_configs_def requiresTunneling_def split: request_entities.splits)
next
  case False
  then obtain x y where xy: "sd = RawDetails x" "rawDeviceName x = s" "td = RawDetails y" "rawDeviceName y = t"
    using assms(8-10) by (cases "reqSources req"; cases "reqTargets req") (auto simp: requiresTunneling_def)
  have "Suc (length p - 2) = length p - 1" using assms(5) by simp
  moreover have "p ! (length p - 1) = s" using last_conv_nth [of p] assms(4,5) by (cases p) auto
  ultimately have 1: "p ! (length p - 2) \<in> set (neighbours G s)"
    using path_forward [OF assms(2), of "length p - 2"] assms(5) by simp
  have 2: "p ! 1 \<in> set (neighbours G t)"
    using path_backward [OF assms(1,2), of 0] assms(3,5) hd_conv_nth [of p] by (cases "p = []") auto
  from endpoint_ip_total [OF assms(6) 1] endpoint_ip_total [OF assms(7) 2] assms(5) xy False
  show ?thesis by (auto simp: new_configs_def createRawTelemetryConfig_def)
qed

lemma switch_edges_of_search:
  assumes "graph_symmetric G" and "reversed_path G p" and "compatible_dev r G (p ! i)" and "compatible_dev r G (p ! j)"
    and "0 < j" and "j < length p" and "i + 1 < length p"
  shows "switch_edge r G \<lparr>from_dev = p ! j, to_dev = p ! (j - 1)\<rparr>"
    and "switch_edge r G \<lparr>from_dev = p ! i, to_dev = p ! (i + 1)\<rparr>"
  using assms path_forward [OF assms(2), of "j - 1"] path_backward [OF assms(1,2), of i]
  by (auto simp: switch_edge_def)

lemma add_pair_ok:
  assumes G: "graph_ok G" "graph_connected G" and req: "request_ok r G req" and ok: "entities_ok r G res"
    and ordS: "is_order ordS" and s: "(i, s) \<in> set (List.enumerate 0 (getSourceDeviceNames ordS req))"
    and ordT: "is_order ordT" and t: "(k, t) \<in> set (List.enumerate 0 (getTargetDeviceNames ordT req))"
  shows "\<exists>res'. add_pair r G req (i, s) (k, t) res = Some res' \<and> entities_ok r G res'"
proof -
  from entity_names_details [OF ordS s [unfolded getSourceDeviceNames_def]] obtain sd
    where sd: "s \<in> names_of (reqSources req)" "getSourceDetails req s i = Some sd"
      "case reqSources req of RawEntities es \<Rightarrow> \<exists>x. sd = RawDetails x \<and> rawDeviceName x = s
         | TunneledEntities m \<Rightarrow> \<exists>x. sd = TunneledDetails x | UnsetEntities \<Rightarrow> False"
    by (auto simp: getSourceDetails_def)
  from entity_names_details [OF ordT t [unfolded getTargetDeviceNames_def]] obtain td
    where td: "t \<in> names_of (reqTargets req)" "getTargetDetails req t k = Some td"
      "case reqTargets req of RawEntities es \<Rightarrow> \<exists>x. td = RawDetails x \<and> rawDeviceName x = t
         | TunneledEntities m \<Rightarrow> \<exists>x. td = TunneledDetails x | UnsetEntities \<Rightarrow> False"
    by (auto simp: getTargetDetails_def)
  from req sd(1) td(1) have mode: "same_mode (reqSources req) (reqTargets req)"
    and sG: "gm_get G s \<noteq> None" and tG: "gm_get G t \<noteq> None" "\<not> compatible_dev r G t"
    by (auto simp: request_ok_def)
  have sym: "graph_symmetric G" "graph_named G" using G(1) by (auto simp: graph_ok_def)
  from search_total [OF G sG tG(1), of r res] obtain es res1
    where search: "findSourceSinkEdgesAndFillTransit r G s t res = Some (es, res1)" by auto
  show ?thesis
  proof (cases "s = t \<or> \<not> foundIncDevicesOnPath es")
    case True
    have "entities_ok r G res1" if "\<not> foundIncDevicesOnPath es" "s \<noteq> t"
      using search that ok unfolding findSourceSinkEdgesAndFillTransit_def Let_def not_found_def
      by (auto split: if_splits Option.bind_splits option.splits)
    with True search ok show ?thesis by (auto simp: add_pair_def)
  next
    case False
    let ?p = "reversedPath es" and ?i = "sourcePathIdx es" and ?j = "sinkPathIdx es"
    note found = search_found [OF search _ tG] and run = search_found [OF search _ tG, THEN conjunct1]
    have f: "reversed_path G ?p" "hd ?p = t" "last ?p = s" "0 < ?j" "?j < ?i" "?i + 1 < length ?p"
      "compatible_dev r G (?p ! ?i)" "compatible_dev r G (?p ! ?j)"
      and fill: "fold_opt (fill_transit r G ?p) [?j + 1..<?i] res = Some res1"
      using found False by auto
    from fill_transits_ok [OF fill sym(2) ok] have ok1: "entities_ok r G res1" by simp
    obtain c where c: "new_configs G req sd td ?p = Some c"
      using new_configs_total [OF sym(1) f(1-3) _ sG tG(1) mode sd(3) td(3)] f(6) by auto
    note edges = switch_edges_of_search [OF sym(1) f(1,7,8,4) _ f(6)]
    let ?snk = "\<lparr>from_dev = ?p ! ?j, to_dev = ?p ! (?j - 1)\<rparr>"
    let ?src = "\<lparr>from_dev = ?p ! ?i, to_dev = ?p ! (?i + 1)\<rparr>"
    let ?conf = "case gm_get (Sources res1) ?src of Some c \<Rightarrow> c | None \<Rightarrow> []"
    let ?res = "res1\<lparr>Sinks := gm_put ?snk () (Sinks res1), Sources := gm_put ?src (?conf @ c) (Sources res1)\<rparr>"
    have "add_pair r G req (i, s) (k, t) res = Some ?res"
      using False search f sd(2) td(2) c by (simp add: add_pair_def Let_def)
    moreover have "entities_ok r G ?res"
      using ok1 edges f(5,6) by (auto simp: entities_ok_def entities_wf_def intro!: keys_put_all)
    ultimately show ?thesis by blast
  qed
qed

lemma fold_put_keys:
  "list_all P (gm_keys m) \<Longrightarrow> list_all (\<lambda>x. P (f x)) xs \<Longrightarrow>
     list_all P (gm_keys (fold (\<lambda>x. gm_put (f x) ()) xs m))"
  by (induction xs arbitrary: m) (auto intro!: keys_put_all)

lemma add_edge_devices_ok:
  assumes "entities_ok r G res"
  shows "entities_ok r G (add_edge_devices res)"
proof -
  have from_dev: "list_all (\<lambda>e. compatible_dev r G (from_dev e)) es" if "list_all (switch_edge r G) es" for es
    using that by (auto simp: list_all_iff switch_edge_def)
  have "list_all (compatible_dev r G) (gm_keys (Transits (add_edge_devices res)))"
    using assms by (simp add: add_edge_devices_def entities_ok_def fold_put_keys from_dev)
  moreover have "gm_wf (Transits (add_edge_devices res))"
    using assms by (simp add: add_edge_devices_def entities_ok_def entities_wf_def gm.wf_fold_put)
  ultimately show ?thesis
    using assms by (simp add: entities_ok_def entities_wf_def add_edge_devices_def)
qed

lemma find_entities_ok:
  assumes G: "graph_ok G" "graph_connected G" and req: "request_ok r G req" and ord: "orders_ok ords"
  shows "\<exists>ents. findTelemetryEntitiesForRequest r ords req G = Some ents \<and> entities_ok r G ents"
proof -
  have inner: "\<exists>res'. fold_opt (add_pair r G req s)
        (List.enumerate 0 (getTargetDeviceNames (targetOrder ords (fst s)) req)) res = Some res' \<and> entities_ok r G res'"
    if "s \<in> set (List.enumerate 0 (getSourceDeviceNames (sourceOrder ords) req))" "entities_ok r G res" for s res
  proof (rule fold_opt_total [where P = "entities_ok r G"], rule that(2))
    fix t res1
    assume "t \<in> set (List.enumerate 0 (getTargetDeviceNames (targetOrder ords (fst s)) req))" "entities_ok r G res1"
    with that(1) add_pair_ok [OF G req, of res1 "sourceOrder ords" "fst s" "snd s" "targetOrder ords (fst s)" "fst t" "snd t"] ord
    show "\<exists>s'. add_pair r G req s t res1 = Some s' \<and> entities_ok r G s'"
      by (simp add: orders_ok_def)
  qed
  have "entities_ok r G newTelemetryEntities"
    by (simp add: newTelemetryEntities_def entities_ok_def entities_wf_def)
  then have "\<exists>res. fold_opt (\<lambda>s. fold_opt (add_pair r G req s)
        (List.enumerate 0 (getTargetDeviceNames (targetOrder ords (fst s)) req)))
      (List.enumerate 0 (getSourceDeviceNames (sourceOrder ords) req)) newTelemetryEntities = Some res
      \<and> entities_ok r G res"
    by (rule fold_opt_total) (rule inner)
  then obtain res where "fold_opt (\<lambda>s. fold_opt (add_pair r G req s)
        (List.enumerate 0 (getTargetDeviceNames (targetOrder ords (fst s)) req)))
      (List.enumerate 0 (getSourceDeviceNames (sourceOrder ords) req)) newTelemetryEntities = Some res"
      "entities_ok r G res" by blast
  with add_edge_devices_ok show ?thesis by (simp add: findTelemetryEntitiesForRequest_def)
qed

end
