(* ===== verification/Counter.thy ===== *)
theory Counter
  imports Entries
begin

text \<open>
  Reference counting of switch entries (\<open>telemetry/counter.go\<close>): per device a table from the
  key's identifier to a counter and the entry that was written first. The operations run with
  the device's lock held, so each is one atomic step on the table. The action to run on a
  transition (\<open>runnable\<close>) is an argument that acts on a world \<open>'w\<close>, which stands for the
  switches: it returns an error or \<open>nil\<close>, or panics.
\<close>

record table_state =
  counter :: int
  entry :: raw_entry

record device_state =
  tableState :: "(match_identifier, table_state) gomap"
  numEntries :: int32

type_synonym state_counter = "(device_name, device_state) gomap"

definition newStateCounter :: state_counter where
  "newStateCounter = []"

definition AddDevice :: "device_name \<Rightarrow> state_counter \<Rightarrow> state_counter" where
  "AddDevice devName s = gm_put devName \<lparr>tableState = [], numEntries = 0\<rparr> s"

definition TakePerDeviceNumberOfEntriesSnapshot :: "state_counter \<Rightarrow> (device_name, int32) gomap" where
  "TakePerDeviceNumberOfEntriesSnapshot s = map (\<lambda>(k, v). (k, numEntries v)) s"

definition IncrementAndRunOnTransitionToOne ::
  "device_name \<Rightarrow> match_key \<Rightarrow> raw_entry \<Rightarrow> ('w \<Rightarrow> (err option \<times> 'w) option) \<Rightarrow>
     state_counter \<Rightarrow> 'w \<Rightarrow> (err option \<times> state_counter \<times> 'w) option" where
  "IncrementAndRunOnTransitionToOne devName key val runnable s w =
     (case gm_get s devName of
        None \<Rightarrow> None
      | Some state \<Rightarrow>
          (let ident = ToIdentifier key;
               (ts, state1) =
                 (case gm_get (tableState state) ident of
                    Some ts \<Rightarrow> (ts, state)
                  | None \<Rightarrow> (\<lparr>counter = 0, entry = val\<rparr>, state\<lparr>numEntries := numEntries state + 1\<rparr>))
           in do {
             (e, w1) \<leftarrow> (if counter ts = 0 then runnable w else Some (None, w));
             (case e of
                Some er \<Rightarrow> Some (Some er, gm_put devName state1 s, w1)
              | None \<Rightarrow>
                  (let ts1 = ts\<lparr>counter := counter ts + 1\<rparr>;
                       state2 = state1\<lparr>tableState := gm_put ident ts1 (tableState state1)\<rparr>
                   in Some (None, gm_put devName state2 s, w1)))
           }))"

definition decrement_error :: err where
  "decrement_error = ''attempted to decrement counter for non-existing entry''"

definition DecrementAndRunOnTransitionToZero ::
  "device_name \<Rightarrow> match_key \<Rightarrow> (raw_entry \<Rightarrow> 'w \<Rightarrow> (err option \<times> 'w) option) \<Rightarrow>
     state_counter \<Rightarrow> 'w \<Rightarrow> (err option \<times> state_counter \<times> 'w) option" where
  "DecrementAndRunOnTransitionToZero devName key runnable s w =
     (case gm_get s devName of
        None \<Rightarrow> None
      | Some state \<Rightarrow>
          (let ident = ToIdentifier key in
           case gm_get (tableState state) ident of
             None \<Rightarrow> Some (Some decrement_error, s, w)
           | Some ts \<Rightarrow>
               if counter ts = 1 then do {
                 (e, w1) \<leftarrow> runnable (entry ts) w;
                 (case e of
                    Some er \<Rightarrow> Some (Some er, s, w1)
                  | None \<Rightarrow>
                      Some (None,
                        gm_put devName
                          (state\<lparr>numEntries := numEntries state - 1,
                                 tableState := gm_del ident (tableState state)\<rparr>) s, w1))
               }
               else
                 Some (None,
                   gm_put devName
                     (state\<lparr>tableState := gm_put ident (ts\<lparr>counter := counter ts - 1\<rparr>) (tableState state)\<rparr>) s,
                   w)))"

section \<open>The abstract counter\<close>

text \<open>What the tables mean: how many users hold the entry of a key on a device, and which entry
  is installed for it.\<close>

definition slot :: "state_counter \<Rightarrow> device_name \<times> match_identifier \<Rightarrow> table_state option" where
  "slot s = (\<lambda>(dev, ident). case gm_get s dev of None \<Rightarrow> None | Some st \<Rightarrow> gm_get (tableState st) ident)"

definition users :: "state_counter \<Rightarrow> device_name \<times> match_identifier \<Rightarrow> nat" where
  "users s k = (case slot s k of None \<Rightarrow> 0 | Some t \<Rightarrow> nat (counter t))"

definition installed :: "state_counter \<Rightarrow> device_name \<times> match_identifier \<Rightarrow> raw_entry option" where
  "installed s k = map_option entry (slot s k)"

definition counter_inv :: "state_counter \<Rightarrow> bool" where
  "counter_inv s \<longleftrightarrow> gm_wf s \<and>
     list_all (\<lambda>(dev, st). gm_wf (tableState st) \<and> list_all (\<lambda>(i, t). 1 \<le> counter t) (tableState st)) s"

text \<open>The entry gauge agrees with the table.\<close>

definition gauge_exact :: "state_counter \<Rightarrow> bool" where
  "gauge_exact s \<longleftrightarrow> list_all (\<lambda>(dev, st). numEntries st = of_nat (length (tableState st))) s"

lemma counter_inv_get:
  assumes "counter_inv s" and "gm_get s dev = Some st"
  shows "gm_wf (tableState st)" and "gm_get (tableState st) i = Some t \<Longrightarrow> 1 \<le> counter t"
  using assms gm_get_in [of s dev st] gm_get_in [of "tableState st" i t]
  by (fastforce simp: counter_inv_def list_all_iff)+

lemma counter_inv_put:
  assumes "counter_inv s" and "gm_wf (tableState st)"
    and "\<And>i t. gm_get (tableState st) i = Some t \<Longrightarrow> 1 \<le> counter t"
  shows "counter_inv (gm_put dev st s)"
proof -
  have "list_all (\<lambda>(i, t). 1 \<le> counter t) (tableState st)"
    using assms(2,3) by (auto simp: list_all_iff)
  then show ?thesis
    using assms(1,2) by (auto simp: counter_inv_def intro!: gm_put_all)
qed

lemma gauge_put:
  "gauge_exact s \<Longrightarrow> numEntries st = of_nat (length (tableState st)) \<Longrightarrow> gauge_exact (gm_put dev st s)"
  by (auto simp: gauge_exact_def intro!: gm_put_all)

lemma gauge_get: "gauge_exact s \<Longrightarrow> gm_get s dev = Some st \<Longrightarrow> numEntries st = of_nat (length (tableState st))"
  unfolding gauge_exact_def list_all_iff by (auto dest!: gm_get_in)

lemma slot_put:
  "slot (gm_put dev st s) (d, i) = (if d = dev then gm_get (tableState st) i else slot s (d, i))"
  by (simp add: slot_def)

lemma slot_get: "gm_get s dev = Some st \<Longrightarrow> slot s (dev, i) = gm_get (tableState st) i"
  by (simp add: slot_def)

lemma users_zero_iff:
  assumes "counter_inv s"
  shows "users s k = 0 \<longleftrightarrow> slot s k = None"
proof (cases k)
  case (Pair dev i)
  show ?thesis
    using counter_inv_get(2) [OF assms, of dev _ i]
    by (fastforce simp: Pair users_def slot_def split: option.splits)
qed

lemma newStateCounter_inv: "counter_inv newStateCounter" "gauge_exact newStateCounter"
  by (simp_all add: newStateCounter_def counter_inv_def gauge_exact_def)

lemma AddDevice_inv: "counter_inv s \<Longrightarrow> counter_inv (AddDevice dev s)"
  unfolding AddDevice_def by (rule counter_inv_put) auto

lemma AddDevice_gauge: "gauge_exact s \<Longrightarrow> gauge_exact (AddDevice dev s)"
  unfolding AddDevice_def by (rule gauge_put) auto

lemma AddDevice_get: "gm_get (AddDevice dev s) d = (if d = dev then Some \<lparr>tableState = [], numEntries = 0\<rparr> else gm_get s d)"
  by (simp add: AddDevice_def)

section \<open>Increment\<close>

text \<open>One lemma per outcome of an increment; \<open>k\<close> is the slot it addresses.\<close>

lemma increment_ok:
  assumes inv: "counter_inv s"
    and step: "IncrementAndRunOnTransitionToOne dev key val run s w = Some (None, s', w')"
  shows "counter_inv s'"
    and "users s' = (users s)((dev, ToIdentifier key) := Suc (users s (dev, ToIdentifier key)))"
    and "installed s' = (installed s)((dev, ToIdentifier key) :=
           Some (case installed s (dev, ToIdentifier key) of None \<Rightarrow> val | Some e \<Rightarrow> e))"
    and "if users s (dev, ToIdentifier key) = 0 then run w = Some (None, w') else w' = w"
    and "gauge_exact s \<Longrightarrow> gauge_exact s'"
    and "gm_keys s' = gm_keys s"
proof -
  let ?i = "ToIdentifier key"
  obtain st where st: "gm_get s dev = Some st"
    using step by (auto simp: IncrementAndRunOnTransitionToOne_def split: option.splits)
  note wf = counter_inv_get(1) [OF inv st]
  note pos = counter_inv_get(2) [OF inv st]
  obtain ts st1 where pick: "(ts, st1) = (case gm_get (tableState st) ?i of
        Some ts \<Rightarrow> (ts, st)
      | None \<Rightarrow> (\<lparr>counter = 0, entry = val\<rparr>, st\<lparr>numEntries := numEntries st + 1\<rparr>))"
    by (metis surj_pair)
  have tab1: "tableState st1 = tableState st"
    using pick by (auto split: option.splits)
  define st2 where "st2 = st1\<lparr>tableState := gm_put ?i (ts\<lparr>counter := counter ts + 1\<rparr>) (tableState st1)\<rparr>"
  have run: "(if counter ts = 0 then run w else Some (None, w)) = Some (None, w')"
    and s': "s' = gm_put dev st2 s"
    using step pick unfolding st2_def
    by (auto simp: IncrementAndRunOnTransitionToOne_def st Let_def
        split: option.splits Option.bind_splits prod.splits if_splits)
  have tab2: "tableState st2 = gm_put ?i (ts\<lparr>counter := counter ts + 1\<rparr>) (tableState st)"
    by (simp add: st2_def tab1)
  have ts0: "0 \<le> counter ts"
    using pick pos [of ?i] by (force split: option.splits)
  show "counter_inv s'"
    unfolding s' by (rule counter_inv_put [OF inv]) (use wf pos ts0 in \<open>auto simp: tab2 split: if_splits\<close>)
  have slots: "slot s' = (slot s)((dev, ?i) := Some (ts\<lparr>counter := counter ts + 1\<rparr>))"
    by (auto simp: s' slot_put tab2 slot_get [OF st])
  have us: "users s (dev, ?i) = nat (counter ts)"
    using pick by (auto simp: users_def slot_get [OF st] split: option.splits)
  show "users s' = (users s)((dev, ?i) := Suc (users s (dev, ?i)))"
    using ts0 by (auto simp: fun_eq_iff us) (simp_all add: users_def slots nat_add_distrib)
  show "installed s' = (installed s)((dev, ?i) :=
      Some (case installed s (dev, ?i) of None \<Rightarrow> val | Some e \<Rightarrow> e))"
    using pick by (auto simp: fun_eq_iff installed_def slots slot_get [OF st] split: option.splits)
  show "if users s (dev, ?i) = 0 then run w = Some (None, w') else w' = w"
    using run ts0 by (auto simp: us split: if_splits)
  show "gauge_exact s'" if "gauge_exact s"
    unfolding s'
    by (rule gauge_put [OF that])
      (use pick gauge_get [OF that st] wf in \<open>auto simp: tab2 gm_len_put st2_def split: option.splits\<close>)
  show "gm_keys s' = gm_keys s"
    by (simp add: s' gm_keys_put [OF st])
qed

lemma increment_err:
  assumes inv: "counter_inv s"
    and step: "IncrementAndRunOnTransitionToOne dev key val run s w = Some (Some e, s', w')"
  shows "counter_inv s'" and "slot s' = slot s"
    and "users s (dev, ToIdentifier key) = 0" and "run w = Some (Some e, w')"
    and "gm_keys s' = gm_keys s"
    and "\<exists>st st'. gm_get s dev = Some st \<and> s' = gm_put dev st' s \<and> tableState st' = tableState st
           \<and> numEntries st' = numEntries st + 1"
proof -
  let ?i = "ToIdentifier key"
  obtain st where st: "gm_get s dev = Some st"
    using step by (auto simp: IncrementAndRunOnTransitionToOne_def split: option.splits)
  note wf = counter_inv_get(1) [OF inv st]
  note pos = counter_inv_get(2) [OF inv st]
  have fresh: "gm_get (tableState st) ?i = None" and run: "run w = Some (Some e, w')"
    and s': "s' = gm_put dev (st\<lparr>numEntries := numEntries st + 1\<rparr>) s"
    using step pos [of ?i]
    by (auto simp: IncrementAndRunOnTransitionToOne_def st Let_def
        split: option.splits Option.bind_splits prod.splits if_splits)
  show "counter_inv s'"
    unfolding s' by (rule counter_inv_put [OF inv]) (use wf pos in auto)
  show "slot s' = slot s"
    by (auto simp: s' slot_put slot_get [OF st])
  show "users s (dev, ?i) = 0"
    by (simp add: users_def slot_get [OF st] fresh)
  show "run w = Some (Some e, w')" by (rule run)
  show "gm_keys s' = gm_keys s"
    by (simp add: s' gm_keys_put [OF st])
  show "\<exists>st st'. gm_get s dev = Some st \<and> s' = gm_put dev st' s \<and> tableState st' = tableState st
           \<and> numEntries st' = numEntries st + 1"
    using st s' by fastforce
qed

lemma increment_panic:
  assumes "counter_inv s"
  shows "IncrementAndRunOnTransitionToOne dev key val run s w = None \<longleftrightarrow>
     gm_get s dev = None \<or> (users s (dev, ToIdentifier key) = 0 \<and> run w = None)"
proof (cases "gm_get s dev")
  case None
  then show ?thesis by (simp add: IncrementAndRunOnTransitionToOne_def)
next
  case (Some st)
  show ?thesis
    using counter_inv_get(2) [OF assms Some, of "ToIdentifier key"]
    by (fastforce simp: IncrementAndRunOnTransitionToOne_def Some users_def slot_get Let_def
        split: option.splits Option.bind_splits prod.splits if_splits)
qed

section \<open>Decrement\<close>

lemma decrement_ok:
  assumes inv: "counter_inv s"
    and step: "DecrementAndRunOnTransitionToZero dev key run s w = Some (None, s', w')"
  shows "counter_inv s'"
    and "0 < users s (dev, ToIdentifier key)"
    and "users s' = (users s)((dev, ToIdentifier key) := users s (dev, ToIdentifier key) - 1)"
    and "installed s' = (installed s)((dev, ToIdentifier key) :=
           (if users s (dev, ToIdentifier key) = 1 then None else installed s (dev, ToIdentifier key)))"
    and "if users s (dev, ToIdentifier key) = 1
         then run (the (installed s (dev, ToIdentifier key))) w = Some (None, w') else w' = w"
    and "gauge_exact s \<Longrightarrow> gauge_exact s'"
    and "gm_keys s' = gm_keys s"
proof -
  let ?i = "ToIdentifier key"
  obtain st where st: "gm_get s dev = Some st"
    using step by (auto simp: DecrementAndRunOnTransitionToZero_def split: option.splits)
  obtain ts where ts: "gm_get (tableState st) ?i = Some ts"
    using step by (cases "gm_get (tableState st) ?i")
      (auto simp: DecrementAndRunOnTransitionToZero_def st Let_def)
  note wf = counter_inv_get(1) [OF inv st]
  note pos = counter_inv_get(2) [OF inv st]
  have ts1: "1 \<le> counter ts" using pos [OF ts] .
  define st' where "st' = (if counter ts = 1
      then st\<lparr>numEntries := numEntries st - 1, tableState := gm_del ?i (tableState st)\<rparr>
      else st\<lparr>tableState := gm_put ?i (ts\<lparr>counter := counter ts - 1\<rparr>) (tableState st)\<rparr>)"
  have s': "s' = gm_put dev st' s"
    and run: "if counter ts = 1 then run (entry ts) w = Some (None, w') else w' = w"
    using step unfolding st'_def
    by (auto simp: DecrementAndRunOnTransitionToZero_def st ts Let_def
        split: option.splits Option.bind_splits prod.splits if_splits)
  have us: "users s (dev, ?i) = nat (counter ts)"
    by (simp add: users_def slot_get [OF st] ts)
  show "counter_inv s'"
    unfolding s' by (rule counter_inv_put [OF inv])
      (use wf pos ts1 in \<open>auto simp: st'_def simp del: map_of_eq_Some_iff split: if_splits\<close>)
  show "0 < users s (dev, ?i)" using us ts1 by simp
  have slots: "slot s' = (slot s)((dev, ?i) :=
      (if counter ts = 1 then None else Some (ts\<lparr>counter := counter ts - 1\<rparr>)))"
    by (auto simp: s' slot_put st'_def slot_get [OF st])
  show "users s' = (users s)((dev, ?i) := users s (dev, ?i) - 1)"
    using ts1 by (auto simp: fun_eq_iff us) (simp_all add: users_def slots nat_diff_distrib)
  have one: "users s (dev, ?i) = 1 \<longleftrightarrow> counter ts = 1"
    using us ts1 by auto
  show "installed s' = (installed s)((dev, ?i) :=
      (if users s (dev, ?i) = 1 then None else installed s (dev, ?i)))"
    unfolding one by (auto simp: fun_eq_iff installed_def slots slot_get [OF st] ts)
  show "if users s (dev, ?i) = 1 then run (the (installed s (dev, ?i))) w = Some (None, w') else w' = w"
    unfolding one using run by (simp add: installed_def slot_get [OF st] ts)
  show "gauge_exact s'" if "gauge_exact s"
  proof -
    have "Suc (length (gm_del ?i (tableState st))) = length (tableState st)"
      by (rule gm_len_del [OF wf]) (simp add: ts)
    then have "(of_nat (length (tableState st)) :: int32) = of_nat (length (gm_del ?i (tableState st))) + 1"
      by (metis of_nat_Suc add.commute)
    then have "numEntries st' = of_nat (length (tableState st'))"
      using gauge_get [OF that st] wf by (simp add: st'_def gm_len_put ts)
    then show ?thesis unfolding s' by (rule gauge_put [OF that])
  qed
  show "gm_keys s' = gm_keys s"
    by (simp add: s' gm_keys_put [OF st])
qed

lemma decrement_err:
  assumes "DecrementAndRunOnTransitionToZero dev key run s w = Some (Some e, s', w')"
  shows "s' = s"
    and "users s (dev, ToIdentifier key) = 0 \<and> w' = w \<and> e = decrement_error
         \<or> users s (dev, ToIdentifier key) = 1
             \<and> run (the (installed s (dev, ToIdentifier key))) w = Some (Some e, w')"
  using assms
  by (auto simp: DecrementAndRunOnTransitionToZero_def users_def installed_def slot_def Let_def
      split: option.splits Option.bind_splits prod.splits if_splits)

lemma decrement_panic:
  assumes "counter_inv s"
  shows "DecrementAndRunOnTransitionToZero dev key run s w = None \<longleftrightarrow>
     gm_get s dev = None \<or>
     (users s (dev, ToIdentifier key) = 1 \<and> run (the (installed s (dev, ToIdentifier key))) w = None)"
  using counter_inv_get(2) [OF assms, of dev _ "ToIdentifier key"]
  by (fastforce simp: DecrementAndRunOnTransitionToZero_def users_def installed_def slot_def Let_def
      split: option.splits Option.bind_splits prod.splits if_splits)

section \<open>What the operations guarantee\<close>

text \<open>C29: an increment adds one user to exactly its slot. It runs the write action only when
  the slot had no user, records the first writer's entry, and keeps that entry for later
  users. When the write fails its error is returned and no slot changes. It panics only on a
  device that was never added or when the write itself panics.\<close>

theorem increment_functional:
  assumes "counter_inv s"
  shows "case IncrementAndRunOnTransitionToOne dev key val run s w of
      None \<Rightarrow> gm_get s dev = None \<or> (users s (dev, ToIdentifier key) = 0 \<and> run w = None)
    | Some (Some e, s', w') \<Rightarrow>
        counter_inv s' \<and> slot s' = slot s
        \<and> users s (dev, ToIdentifier key) = 0 \<and> run w = Some (Some e, w')
    | Some (None, s', w') \<Rightarrow>
        counter_inv s'
        \<and> users s' = (users s)((dev, ToIdentifier key) := Suc (users s (dev, ToIdentifier key)))
        \<and> installed s' = (installed s)((dev, ToIdentifier key) :=
             Some (case installed s (dev, ToIdentifier key) of None \<Rightarrow> val | Some e \<Rightarrow> e))
        \<and> (if users s (dev, ToIdentifier key) = 0 then run w = Some (None, w') else w' = w)"
proof (cases "IncrementAndRunOnTransitionToOne dev key val run s w")
  case None
  then show ?thesis
    using increment_panic [OF assms, of dev key val run w] by simp
next
  case (Some r)
  obtain e s' w' where r: "r = (e, s', w')" by (metis surj_pair)
  show ?thesis
  proof (cases e)
    case None
    note step = increment_ok [OF assms Some [unfolded r None]]
    show ?thesis
      unfolding Some r None option.case prod.case by (intro conjI step)
  next
    case (Some er)
    note step = increment_err [OF assms \<open>_ = Some r\<close> [unfolded r Some]]
    show ?thesis
      unfolding \<open>_ = Some r\<close> r Some option.case prod.case by (intro conjI step)
  qed
qed

text \<open>A decrement fails with an error and changes nothing when the slot has no user.
  Otherwise it removes one user from exactly its slot; the last user's removal runs the delete
  action on the entry that was installed and frees the slot, and if that action fails the
  table keeps the entry.\<close>

theorem decrement_functional:
  assumes "counter_inv s"
  shows "case DecrementAndRunOnTransitionToZero dev key run s w of
      None \<Rightarrow> gm_get s dev = None \<or> (users s (dev, ToIdentifier key) = 1
                \<and> run (the (installed s (dev, ToIdentifier key))) w = None)
    | Some (Some e, s', w') \<Rightarrow>
        s' = s \<and> (users s (dev, ToIdentifier key) = 0 \<and> w' = w \<and> e = decrement_error
          \<or> users s (dev, ToIdentifier key) = 1
              \<and> run (the (installed s (dev, ToIdentifier key))) w = Some (Some e, w'))
    | Some (None, s', w') \<Rightarrow>
        counter_inv s' \<and> 0 < users s (dev, ToIdentifier key)
        \<and> users s' = (users s)((dev, ToIdentifier key) := users s (dev, ToIdentifier key) - 1)
        \<and> installed s' = (installed s)((dev, ToIdentifier key) :=
             (if users s (dev, ToIdentifier key) = 1 then None else installed s (dev, ToIdentifier key)))
        \<and> (if users s (dev, ToIdentifier key) = 1
            then run (the (installed s (dev, ToIdentifier key))) w = Some (None, w') else w' = w)"
proof (cases "DecrementAndRunOnTransitionToZero dev key run s w")
  case None
  then show ?thesis
    using decrement_panic [OF assms, of dev key run w] by simp
next
  case (Some r)
  obtain e s' w' where r: "r = (e, s', w')" by (metis surj_pair)
  show ?thesis
  proof (cases e)
    case None
    note step = decrement_ok [OF assms Some [unfolded r None]]
    show ?thesis
      unfolding Some r None option.case prod.case by (intro conjI step)
  next
    case (Some er)
    note step = decrement_err [OF \<open>_ = Some r\<close> [unfolded r Some]]
    show ?thesis
      unfolding \<open>_ = Some r\<close> r Some option.case prod.case by (intro conjI step)
  qed
qed

text \<open>A concrete counter: one device, one sink key held by two users.\<close>

definition sample_counter :: state_counter where
  "sample_counter =
     [(''r1'', \<lparr>tableState = [(''2'', \<lparr>counter = 2, entry = ConfigureSink 2 1\<rparr>)], numEntries = 1\<rparr>)]"

lemma sample_counter_inv: "counter_inv sample_counter" "gauge_exact sample_counter"
  by (simp_all add: sample_counter_def counter_inv_def gauge_exact_def)

theorem increment_functional_witness:
  "users (fst (snd (the (IncrementAndRunOnTransitionToOne ''r1'' (ConfigureSinkKey 2) (ConfigureSink 2 1)
     (\<lambda>w. Some (None, Suc w)) sample_counter (0::nat))))) (''r1'', ''2'') = 3"
proof -
  have id2: "ToIdentifier (ConfigureSinkKey 2) = ''2''"
    by (simp add: fmt_int_def fmt_uint_def dec_digits.simps digit_char_def)
  have two: "users sample_counter (''r1'', ''2'') = 2"
    by (simp add: sample_counter_def users_def slot_def)
  show ?thesis
    using increment_functional [OF sample_counter_inv(1), where dev = "''r1''" and key = "ConfigureSinkKey 2"
        and val = "ConfigureSink 2 1" and run = "\<lambda>w. Some (None, Suc w)" and w = "0::nat"]
    unfolding id2 two by (auto simp: sample_counter_def split: option.splits)
qed

theorem decrement_functional_witness:
  "users (fst (snd (the (DecrementAndRunOnTransitionToZero ''r1'' (ConfigureSinkKey 2)
     (\<lambda>e w. Some (None, Suc w)) sample_counter (0::nat))))) (''r1'', ''2'') = 1"
proof -
  have id2: "ToIdentifier (ConfigureSinkKey 2) = ''2''"
    by (simp add: fmt_int_def fmt_uint_def dec_digits.simps digit_char_def)
  have two: "users sample_counter (''r1'', ''2'') = 2"
    by (simp add: sample_counter_def users_def slot_def)
  show ?thesis
    using decrement_functional [OF sample_counter_inv(1), where dev = "''r1''" and key = "ConfigureSinkKey 2"
        and run = "\<lambda>e w. Some (None, Suc w)" and w = "0::nat"]
    unfolding id2 two by (auto simp: sample_counter_def split: option.splits)
qed

text \<open>A first increment whose write fails leaves the table as it was but has already added
  one to the device's entry gauge, and nothing takes it back: the gauge no longer counts the
  table's entries, and each failed retry adds one more.\<close>

theorem failed_increment_leaks_gauge:
  assumes "gm_get s dev = Some st" and "gm_get (tableState st) (ToIdentifier key) = None"
    and "run w = Some (Some e, w')"
  shows "IncrementAndRunOnTransitionToOne dev key val run s w =
     Some (Some e, gm_put dev (st\<lparr>numEntries := numEntries st + 1\<rparr>) s, w')"
  using assms by (simp add: IncrementAndRunOnTransitionToOne_def Let_def)

theorem failed_increment_leaks_gauge_witness:
  "\<exists>s' w'. IncrementAndRunOnTransitionToOne ''r1'' ConfigureTransitKey (Transit 0 1500)
       (\<lambda>w. Some (Some ''timeout'', w)) (AddDevice ''r1'' newStateCounter) (0::nat) = Some (Some ''timeout'', s', w')
     \<and> slot s' = slot (AddDevice ''r1'' newStateCounter)
     \<and> \<not> gauge_exact s' \<and> TakePerDeviceNumberOfEntriesSnapshot s' = [(''r1'', 1)]"
proof -
  let ?s = "AddDevice ''r1'' newStateCounter"
  have "gm_get ?s ''r1'' = Some \<lparr>tableState = [], numEntries = 0\<rparr>"
    by (simp add: AddDevice_get)
  from failed_increment_leaks_gauge [OF this, of ConfigureTransitKey "\<lambda>w. Some (Some ''timeout'', w)" "0::nat"]
  show ?thesis
    by (auto simp: AddDevice_def newStateCounter_def gauge_exact_def fun_eq_iff slot_def
        TakePerDeviceNumberOfEntriesSnapshot_def)
qed

end
