(* ===== verification/ChangeLog.thy ===== *)
theory ChangeLog
  imports Counter
begin

text \<open>
  The change log of the telemetry service (\<open>telemetry/changelog.go\<close>): a list of counter
  actions that is committed in order and, after a failure, rolled back in reverse. The applier
  is an argument; \<open>applier_laws\<close> is what a commit relies on, and the service's applier is
  shown to satisfy it in theory \<open>Service\<close>.
\<close>

text \<open>The service's five counters; an action points to one of them.\<close>

datatype counter_ref =
    TransitStateCounter
  | SinkStateCounter
  | RaportingStateCounter
  | ActivateSourceCounter
  | ConfigureSourceCounter

record state_change_action =
  deviceName :: device_name
  actionKey :: match_key
  actionEntry :: raw_entry
  actionCounter :: counter_ref
  delta :: int
  isCreate :: bool

definition Reverse :: "state_change_action \<Rightarrow> state_change_action" where
  "Reverse s =
     \<lparr>deviceName = deviceName s, actionKey = actionKey s, actionEntry = actionEntry s,
      actionCounter = actionCounter s, delta = - delta s, isCreate = (\<not> isCreate s)\<rparr>"

definition newCreateAction ::
  "device_name \<Rightarrow> match_key \<Rightarrow> raw_entry \<Rightarrow> counter_ref \<Rightarrow> state_change_action" where
  "newCreateAction dev key e c =
     \<lparr>deviceName = dev, actionKey = key, actionEntry = e, actionCounter = c,
      delta = 1, isCreate = True\<rparr>"

definition newDeleteAction ::
  "device_name \<Rightarrow> match_key \<Rightarrow> raw_entry \<Rightarrow> counter_ref \<Rightarrow> state_change_action" where
  "newDeleteAction dev key e c =
     \<lparr>deviceName = dev, actionKey = key, actionEntry = e, actionCounter = c,
      delta = - 1, isCreate = False\<rparr>"

record change_log =
  actions :: "state_change_action list"
  doneCounter :: int

definition newChangeLog :: change_log where
  "newChangeLog = \<lparr>actions = [], doneCounter = - 1\<rparr>"

text \<open>Panics unless both logs are uncommitted.\<close>

definition ExtendFrom :: "change_log \<Rightarrow> change_log \<Rightarrow> change_log option" where
  "ExtendFrom c other =
     (if doneCounter c \<noteq> - 1 \<or> doneCounter other \<noteq> - 1 then None
      else Some (c\<lparr>actions := actions c @ actions other\<rparr>))"

definition AddAction :: "state_change_action \<Rightarrow> change_log \<Rightarrow> change_log" where
  "AddAction action c = c\<lparr>actions := actions c @ [action]\<rparr>"

type_synonym 'st applier = "state_change_action \<Rightarrow> 'st \<Rightarrow> (err option \<times> 'st) option"

fun commit_loop :: "'st applier \<Rightarrow> state_change_action list \<Rightarrow> int \<Rightarrow> 'st \<Rightarrow> (err option \<times> int \<times> 'st) option" where
  "commit_loop applier [] d st = Some (None, d, st)"
| "commit_loop applier (action # as) d st = do {
     (e, st1) \<leftarrow> applier action st;
     (case e of
        Some er \<Rightarrow> Some (Some er, d, st1)
      | None \<Rightarrow> commit_loop applier as (d + 1) st1)
   }"

definition Commit :: "'st applier \<Rightarrow> change_log \<Rightarrow> 'st \<Rightarrow> (err option \<times> change_log \<times> 'st) option" where
  "Commit applier c st = do {
     (e, d, st1) \<leftarrow> commit_loop applier (actions c) (doneCounter c) st;
     Some (e, c\<lparr>doneCounter := d\<rparr>, st1)
   }"

text \<open>The loop \<open>for i := doneCounter; i >= 0; i--\<close>; the argument is \<open>i + 1\<close>.\<close>

fun rollback_loop ::
  "'st applier \<Rightarrow> state_change_action list \<Rightarrow> nat \<Rightarrow> state_change_action list \<Rightarrow> 'st \<Rightarrow>
     (state_change_action list \<times> 'st) option" where
  "rollback_loop applier as 0 undoFailed st = Some (undoFailed, st)"
| "rollback_loop applier as (Suc i) undoFailed st =
     (if i < length as then do {
        (e, st1) \<leftarrow> applier (Reverse (as ! i)) st;
        rollback_loop applier as i (if e \<noteq> None then undoFailed @ [as ! i] else undoFailed) st1
      } else None)"

definition Rollback ::
  "'st applier \<Rightarrow> change_log \<Rightarrow> 'st \<Rightarrow> (state_change_action list \<times> change_log \<times> 'st) option" where
  "Rollback applier c st = do {
     (failed, st1) \<leftarrow> rollback_loop applier (actions c) (nat (doneCounter c + 1)) [] st;
     Some (failed, c\<lparr>doneCounter := min (doneCounter c) (- 1)\<rparr>, st1)
   }"

text \<open>What every application preserves, a commit and a rollback preserve.\<close>

lemma commit_loop_preserves:
  assumes "commit_loop applier as d st = Some (e, d', st')" and "P st"
    and "\<And>a st e st'. P st \<Longrightarrow> applier a st = Some (e, st') \<Longrightarrow> P st'"
  shows "P st'"
  using assms(1,2)
proof (induction as arbitrary: d st)
  case (Cons a as)
  then obtain e1 st1 where a: "applier a st = Some (e1, st1)" by (auto split: Option.bind_splits)
  have "P st1" by (rule assms(3) [OF Cons.prems(2) a])
  with a Cons show ?case by (cases e1) auto
qed simp

lemma rollback_loop_preserves:
  assumes "rollback_loop applier as n failed st = Some (failed', st')" and "P st"
    and "\<And>a st e st'. P st \<Longrightarrow> applier a st = Some (e, st') \<Longrightarrow> P st'"
  shows "P st'"
  using assms(1,2)
proof (induction n arbitrary: failed st)
  case (Suc n)
  then obtain e1 st1 where a: "applier (Reverse (as ! n)) st = Some (e1, st1)"
    and r: "rollback_loop applier as n (if e1 \<noteq> None then failed @ [as ! n] else failed) st1 = Some (failed', st')"
    by (auto split: Option.bind_splits if_splits)
  have "P st1" by (rule assms(3) [OF Suc.prems(2) a])
  with Suc.IH [OF r] show ?case .
qed simp

section \<open>The contract of an applier\<close>

type_synonym slot_key = "counter_ref \<times> device_name \<times> match_identifier"

definition action_slot :: "state_change_action \<Rightarrow> slot_key" where
  "action_slot a = (actionCounter a, deviceName a, ToIdentifier (actionKey a))"

text \<open>The change an action makes to the number of users of a slot, and the sum over a list.\<close>

definition effect :: "state_change_action \<Rightarrow> slot_key \<Rightarrow> int" where
  "effect a k = (if action_slot a = k then if isCreate a then 1 else - 1 else 0)"

definition effects :: "state_change_action list \<Rightarrow> slot_key \<Rightarrow> int" where
  "effects as k = sum_list (map (\<lambda>a. effect a k) as)"

lemma effects_simps [simp]:
  "effects [] k = 0"
  "effects (a # as) k = effect a k + effects as k"
  "effects (as @ bs) k = effects as k + effects bs k"
  by (simp_all add: effects_def)

lemma action_slot_Reverse [simp]: "action_slot (Reverse a) = action_slot a"
  by (simp add: action_slot_def Reverse_def)

lemma effect_Reverse [simp]: "effect (Reverse a) k = - effect a k"
  by (simp add: effect_def) (simp add: Reverse_def)

lemma Reverse_Reverse: "Reverse (Reverse a) = a"
  by (simp add: Reverse_def)

lemma effects_mset: "mset as = mset bs \<Longrightarrow> effects as k = effects bs k"
  unfolding effects_def by (metis mset_map sum_mset_sum_list)

text \<open>
  An applier changes the user counts by the action's effect when it succeeds and not at all
  when it fails, keeps the invariant, and panics on no action of the set it is meant for
  (\<open>ok\<close>, closed under reversal).
\<close>

locale applier_laws =
  fixes applier :: "'st applier"
    and inv :: "'st \<Rightarrow> bool"
    and count :: "'st \<Rightarrow> slot_key \<Rightarrow> nat"
    and ok :: "'st \<Rightarrow> state_change_action \<Rightarrow> bool"
  assumes apply_total: "inv st \<Longrightarrow> ok st a \<Longrightarrow> \<exists>r. applier a st = Some r"
    and apply_inv: "inv st \<Longrightarrow> applier a st = Some (e, st') \<Longrightarrow> inv st'"
    and apply_ok: "inv st \<Longrightarrow> applier a st = Some (None, st') \<Longrightarrow>
        int (count st' k) = int (count st k) + effect a k"
    and apply_err: "inv st \<Longrightarrow> applier a st = Some (Some er, st') \<Longrightarrow> count st' = count st"
    and ok_stable: "inv st \<Longrightarrow> applier a st = Some (e, st') \<Longrightarrow> ok st' b = ok st b"
    and ok_Reverse: "ok st (Reverse a) = ok st a"
begin

text \<open>A commit applies a prefix of the actions; \<open>d\<close> counts it.\<close>

lemma commit_loop_effect:
  assumes "inv st" and "commit_loop applier as d st = Some (e, d', st')"
  shows "inv st' \<and> (\<forall>b. ok st' b = ok st b) \<and>
     (\<exists>n \<le> length as. d' = d + int n \<and> (e = None \<longrightarrow> n = length as) \<and> (e \<noteq> None \<longrightarrow> n < length as)
        \<and> (\<forall>k. int (count st' k) = int (count st k) + effects (take n as) k))"
  using assms
proof (induction as arbitrary: d st)
  case Nil
  then show ?case by simp
next
  case (Cons a as)
  obtain e1 st1 where a: "applier a st = Some (e1, st1)"
    using Cons.prems(2) by (auto split: Option.bind_splits)
  note inv1 = apply_inv [OF Cons.prems(1) a] and stable = ok_stable [OF Cons.prems(1) a]
  show ?case
  proof (cases e1)
    case (Some er)
    then have "e = Some er" "d' = d" "st' = st1"
      using Cons.prems(2) a by auto
    then show ?thesis
      using inv1 stable apply_err [OF Cons.prems(1) a [unfolded Some]]
      by (auto intro!: exI [where x = 0])
  next
    case None
    then have "commit_loop applier as (d + 1) st1 = Some (e, d', st')"
      using Cons.prems(2) a by simp
    from Cons.IH [OF inv1 this] obtain n where n: "inv st'" "\<forall>b. ok st' b = ok st1 b"
      "n \<le> length as" "d' = d + 1 + int n" "e = None \<longrightarrow> n = length as" "e \<noteq> None \<longrightarrow> n < length as"
      "\<forall>k. int (count st' k) = int (count st1 k) + effects (take n as) k"
      by blast
    with stable apply_ok [OF Cons.prems(1) a [unfolded None]] show ?thesis
      by (auto intro!: exI [where x = "Suc n"])
  qed
qed

lemma commit_loop_total:
  assumes "inv st" and "list_all (ok st) as"
  shows "\<exists>r. commit_loop applier as d st = Some r"
  using assms
proof (induction as arbitrary: d st)
  case Nil
  then show ?case by simp
next
  case (Cons a as)
  obtain e1 st1 where a: "applier a st = Some (e1, st1)"
    using apply_total [OF Cons.prems(1)] Cons.prems(2) by fastforce
  have "list_all (ok st1) as"
    using Cons.prems(2) ok_stable [OF Cons.prems(1) a] by (simp add: list_all_iff)
  with Cons.IH [OF apply_inv [OF Cons.prems(1) a]] a show ?case
    by (cases e1) auto
qed

text \<open>A rollback takes back the effects of the prefix, except those it reports as failed.\<close>

lemma rollback_loop_effect:
  assumes "inv st" and "rollback_loop applier as n failed st = Some (failed', st')"
  shows "inv st' \<and> n \<le> length as \<and> (\<exists>new. failed' = failed @ new \<and> set new \<subseteq> set (take n as)
     \<and> (\<forall>k. int (count st' k) = int (count st k) - effects (take n as) k + effects new k))"
  using assms
proof (induction n arbitrary: failed st)
  case 0
  then show ?case by simp
next
  case (Suc n)
  have n: "n < length as"
    using Suc.prems(2) by (simp split: if_splits)
  obtain e st1 where a: "applier (Reverse (as ! n)) st = Some (e, st1)"
    and rest: "rollback_loop applier as n (if e \<noteq> None then failed @ [as ! n] else failed) st1 = Some (failed', st')"
    using Suc.prems(2) n by (auto split: Option.bind_splits)
  note inv1 = apply_inv [OF Suc.prems(1) a]
  have tk: "take (Suc n) as = take n as @ [as ! n]"
    using n by (rule take_Suc_conv_app_nth)
  from Suc.IH [OF inv1 rest] obtain new where new:
    "inv st'" "failed' = (if e \<noteq> None then failed @ [as ! n] else failed) @ new" "set new \<subseteq> set (take n as)"
    "\<forall>k. int (count st' k) = int (count st1 k) - effects (take n as) k + effects new k"
    by blast
  show ?case
  proof (cases e)
    case None
    with new n apply_ok [OF Suc.prems(1) a [unfolded None]] show ?thesis
      by (auto simp: tk)
  next
    case (Some er)
    with new n apply_err [OF Suc.prems(1) a [unfolded Some]] show ?thesis
      by (auto simp: tk intro!: exI [where x = "as ! n # new"])
  qed
qed

lemma rollback_loop_total:
  assumes "inv st" and "list_all (ok st) as" and "n \<le> length as"
  shows "\<exists>r. rollback_loop applier as n failed st = Some r"
  using assms
proof (induction n arbitrary: failed st)
  case 0
  then show ?case by simp
next
  case (Suc n)
  have "ok st (Reverse (as ! n))"
    using Suc.prems(2,3) ok_Reverse by (simp add: list_all_length)
  then obtain e st1 where a: "applier (Reverse (as ! n)) st = Some (e, st1)"
    using apply_total [OF Suc.prems(1)] by fastforce
  have "list_all (ok st1) as"
    using Suc.prems(2) ok_stable [OF Suc.prems(1) a] by (simp add: list_all_iff)
  with Suc.IH [OF apply_inv [OF Suc.prems(1) a]] Suc.prems(3) a show ?case
    by auto
qed

text \<open>Commit, and Rollback when it fails: all of the log or none of it, up to the undo actions
  that failed themselves.\<close>

lemma commit_success:
  assumes "inv st" and "doneCounter c = - 1" and "Commit applier c st = Some (None, c', st')"
  shows "inv st' \<and> (\<forall>k. int (count st' k) = int (count st k) + effects (actions c) k)"
  using assms commit_loop_effect [OF assms(1), of "actions c" "doneCounter c"]
  by (fastforce simp: Commit_def split: Option.bind_splits prod.splits)

lemma commit_rollback:
  assumes "inv st" and "doneCounter c = - 1"
    and commit: "Commit applier c st = Some (Some er, c1, st1)"
    and roll: "Rollback applier c1 st1 = Some (failed, c2, st2)"
  shows "inv st2 \<and> doneCounter c2 = - 1 \<and> actions c2 = actions c \<and> set failed \<subseteq> set (actions c)
     \<and> (\<forall>k. int (count st2 k) = int (count st k) + effects failed k)"
proof -
  obtain d where d: "commit_loop applier (actions c) (- 1) st = Some (Some er, d, st1)"
    and c1: "c1 = c\<lparr>doneCounter := d\<rparr>"
    using commit assms(2) by (auto simp: Commit_def split: Option.bind_splits)
  from commit_loop_effect [OF assms(1) d] obtain n where
    "inv st1" and n: "d = - 1 + int n"
    and eff: "\<forall>k. int (count st1 k) = int (count st k) + effects (take n (actions c)) k"
    by blast
  have "nat (doneCounter c1 + 1) = n"
    using n c1 by simp
  with roll c1 have loop: "rollback_loop applier (actions c) n [] st1 = Some (failed, st2)"
    and c2: "c2 = c\<lparr>doneCounter := - 1\<rparr>"
    using n by (auto simp: Rollback_def split: Option.bind_splits)
  from rollback_loop_effect [OF \<open>inv st1\<close> loop] eff c2 show ?thesis
    by (auto dest: in_set_takeD)
qed

lemma commit_rollback_total:
  assumes "inv st" and "doneCounter c = - 1" and "list_all (ok st) (actions c)"
  shows "\<exists>e c1 st1. Commit applier c st = Some (e, c1, st1) \<and>
     (e \<noteq> None \<longrightarrow> (\<exists>r. Rollback applier c1 st1 = Some r))"
proof -
  obtain e d st1 where d: "commit_loop applier (actions c) (- 1) st = Some (e, d, st1)"
    using commit_loop_total [OF assms(1,3)] by (metis surj_pair)
  from commit_loop_effect [OF assms(1) d] obtain n where
    "inv st1" "\<forall>b. ok st1 b = ok st b" "n \<le> length (actions c)" "d = - 1 + int n"
    by blast
  moreover from this assms(3) have "list_all (ok st1) (actions c)"
    by (simp add: list_all_iff)
  ultimately have "\<exists>r. rollback_loop applier (actions c) n [] st1 = Some r"
    by (intro rollback_loop_total)
  with d \<open>d = _\<close> assms(2) show ?thesis
    by (auto simp: Commit_def Rollback_def)
qed

end

text \<open>
  When taking back a creation cannot fail, the rollback of a log of creations leaves nothing
  behind.
\<close>

locale undoable_laws = applier_laws +
  assumes undo_create: "\<lbrakk>inv st; isCreate a; 0 < count st (action_slot a); applier (Reverse a) st = Some (e, st')\<rbrakk> \<Longrightarrow> e = None"
begin

lemma effects_creates: "list_all isCreate as \<Longrightarrow> 0 \<le> effects as k"
  by (induction as) (auto simp: effect_def)

lemma rollback_creates:
  assumes "inv st" and "rollback_loop applier as n failed st = Some (failed', st')" and "list_all isCreate as"
    and "\<forall>k. effects (take n as) k \<le> int (count st k)"
  shows "failed' = failed"
  using assms(1,2,4)
proof (induction n arbitrary: failed st)
  case (Suc n)
  have n: "n < length as"
    using Suc.prems(2) by (simp split: if_splits)
  have tk: "take (Suc n) as = take n as @ [as ! n]"
    using n by (rule take_Suc_conv_app_nth)
  have create: "isCreate (as ! n)" using assms(3) n by (simp add: list_all_length)
  have "list_all isCreate (take n as)" using assms(3) by (auto simp: list_all_iff dest: in_set_takeD)
  note nonneg = effects_creates [OF this]
  have "1 \<le> effects (take (Suc n) as) (action_slot (as ! n))"
    using nonneg [of "action_slot (as ! n)"] create by (simp add: tk effect_def)
  with Suc.prems(3) have pos: "0 < count st (action_slot (as ! n))"
    by (metis (no_types, lifting) int_one_le_iff_zero_less of_nat_0_less_iff order.trans zero_less_one_class.zero_less_one order_less_le_trans)
  obtain e st1 where a: "applier (Reverse (as ! n)) st = Some (e, st1)"
    and rest: "rollback_loop applier as n (if e \<noteq> None then failed @ [as ! n] else failed) st1 = Some (failed', st')"
    using Suc.prems(2) n by (auto split: Option.bind_splits)
  have e: "e = None" by (rule undo_create [OF Suc.prems(1) create pos a])
  have "effects (take n as) k \<le> int (count st1 k)" for k
    using apply_ok [OF Suc.prems(1) a [unfolded e], of k] Suc.prems(3) [rule_format, of k] by (simp add: tk)
  with Suc.IH [OF apply_inv [OF Suc.prems(1) a]] rest e show ?case by simp
qed simp

lemma commit_creates_clean:
  assumes "inv st" and "doneCounter c = - 1" and "list_all isCreate (actions c)"
    and commit: "Commit applier c st = Some (Some er, c1, st1)"
    and roll: "Rollback applier c1 st1 = Some (failed, c2, st2)"
  shows "failed = [] \<and> (\<forall>k. count st2 k = count st k)"
proof -
  obtain d where d: "commit_loop applier (actions c) (- 1) st = Some (Some er, d, st1)"
    and c1: "c1 = c\<lparr>doneCounter := d\<rparr>"
    using commit assms(2) by (auto simp: Commit_def split: Option.bind_splits)
  from commit_loop_effect [OF assms(1) d] obtain n where "inv st1" "d = - 1 + int n"
    and eff: "\<forall>k. int (count st1 k) = int (count st k) + effects (take n (actions c)) k"
    by blast
  then have loop: "rollback_loop applier (actions c) n [] st1 = Some (failed, st2)"
    using roll by (auto simp: Rollback_def c1 split: Option.bind_splits)
  have "failed = []"
    by (rule rollback_creates [OF \<open>inv st1\<close> loop assms(3)]) (simp add: eff)
  with commit_rollback [OF assms(1,2) commit roll] show ?thesis by simp
qed

end

end
