(* ===== verification/Pool.thy ===== *)
theory Pool
  imports GoPrelude
begin

text \<open>
  The pool of collection identifiers (\<open>telemetry/pool.go\<close>): it gives each collection id in
  use a number below the pool's size, the number that travels in the telemetry header. Several
  intents may share a collection id. This theory has the operations as they run without
  interference; theory \<open>PoolConcurrent\<close> has their interleavings.
\<close>

record pool_item =
  itemCollectionId :: string
  intents :: "string list"

record id_pool =
  maxSize :: nat
  pool :: "pool_item list"
  allocCounter :: int

definition free_item :: pool_item where
  "free_item = \<lparr>itemCollectionId = [], intents = []\<rparr>"

definition newPool :: "nat \<Rightarrow> id_pool" where
  "newPool n = \<lparr>maxSize = n, pool = replicate n free_item, allocCounter = 0\<rparr>"

text \<open>What each operation does to one item while it holds the item's lock.\<close>

definition item_join :: "string \<Rightarrow> pool_item \<Rightarrow> pool_item" where
  "item_join intentId it =
     (if intentId \<notin> set (intents it) then it\<lparr>intents := intents it @ [intentId]\<rparr> else it)"

definition item_take :: "string \<Rightarrow> string \<Rightarrow> pool_item \<Rightarrow> pool_item" where
  "item_take intentId collectionId it =
     it\<lparr>itemCollectionId := collectionId, intents := intents it @ [intentId]\<rparr>"

definition item_owned :: "string \<Rightarrow> string \<Rightarrow> pool_item \<Rightarrow> bool" where
  "item_owned intentId collectionId it \<longleftrightarrow>
     intentId \<in> set (intents it) \<and> itemCollectionId it = collectionId"

definition item_leave :: "string \<Rightarrow> pool_item \<Rightarrow> pool_item" where
  "item_leave intentId it =
     (let it1 = it\<lparr>intents := removeAll intentId (intents it)\<rparr>
      in if intents it1 = [] then it1\<lparr>itemCollectionId := []\<rparr> else it1)"

definition pool_full :: err where
  "pool_full = ''can't reserve more keys, pool is full''"

definition AllocOrGet :: "string \<Rightarrow> string \<Rightarrow> id_pool \<Rightarrow> ((err + nat) \<times> id_pool) option" where
  "AllocOrGet intentId collectionId p =
     (case first_index (\<lambda>it. itemCollectionId it = collectionId) (pool p) of
        Some i \<Rightarrow> Some (Inr i, p\<lparr>pool := (pool p)[i := item_join intentId (pool p ! i)]\<rparr>)
      | None \<Rightarrow>
          if int (maxSize p) \<le> allocCounter p then Some (Inl pool_full, p)
          else
            (let p1 = p\<lparr>allocCounter := allocCounter p + 1\<rparr> in
             case first_index (\<lambda>it. intents it = []) (pool p1) of
               Some i \<Rightarrow>
                 Some (Inr i, p1\<lparr>pool := (pool p1)[i := item_take intentId collectionId (pool p1 ! i)]\<rparr>)
             | None \<Rightarrow> None))"

definition GetIfAllocated :: "string \<Rightarrow> string \<Rightarrow> id_pool \<Rightarrow> nat option" where
  "GetIfAllocated intentId collectionId p = first_index (item_owned intentId collectionId) (pool p)"

definition GetIfAnyAllocated :: "string \<Rightarrow> id_pool \<Rightarrow> nat option" where
  "GetIfAnyAllocated collectionId p =
     first_index (\<lambda>it. 0 < length (intents it) \<and> itemCollectionId it = collectionId) (pool p)"

definition Free :: "string \<Rightarrow> string \<Rightarrow> id_pool \<Rightarrow> id_pool" where
  "Free intentId collectionId p =
     (case first_index (item_owned intentId collectionId) (pool p) of
        None \<Rightarrow> p
      | Some i \<Rightarrow>
          (let it1 = item_leave intentId (pool p ! i);
               p1 = p\<lparr>pool := (pool p)[i := it1]\<rparr>
           in if intents it1 = [] then p1\<lparr>allocCounter := allocCounter p1 - 1\<rparr> else p1))"

section \<open>The invariant\<close>

definition item_ok :: "pool_item \<Rightarrow> bool" where
  "item_ok it \<longleftrightarrow> (intents it = [] \<longleftrightarrow> itemCollectionId it = [])"

definition occupied :: "pool_item \<Rightarrow> bool" where
  "occupied it \<longleftrightarrow> intents it \<noteq> []"

definition pool_inv :: "id_pool \<Rightarrow> bool" where
  "pool_inv p \<longleftrightarrow>
     length (pool p) = maxSize p
     \<and> list_all item_ok (pool p)
     \<and> allocCounter p = int (count_if occupied (pool p))
     \<and> distinct (map itemCollectionId (filter occupied (pool p)))"

lemma item_ok_ops:
  "collectionId \<noteq> [] \<Longrightarrow> item_ok (item_take intentId collectionId it)"
  "item_ok it \<Longrightarrow> itemCollectionId it \<noteq> [] \<Longrightarrow> item_ok (item_join intentId it)"
  "item_ok it \<Longrightarrow> item_ok (item_leave intentId it)"
  by (auto simp: item_ok_def item_take_def item_join_def item_leave_def Let_def)

lemma intents_leave [simp]: "intents (item_leave i it) = removeAll i (intents it)"
  by (simp add: item_leave_def Let_def)

lemma occupied_ops [simp]:
  "occupied (item_take intentId collectionId it)"
  "occupied (item_join intentId it) \<longleftrightarrow> True"
  "itemCollectionId (item_take intentId collectionId it) = collectionId"
  "itemCollectionId (item_join intentId it) = itemCollectionId it"
  by (auto simp: occupied_def item_take_def item_join_def)

text \<open>Two occupied items with one collection id are the same item.\<close>

definition ids_unique :: "pool_item list \<Rightarrow> bool" where
  "ids_unique its \<longleftrightarrow> (\<forall>i < length its. \<forall>j < length its. occupied (its ! i) \<longrightarrow> occupied (its ! j) \<longrightarrow>
     itemCollectionId (its ! i) = itemCollectionId (its ! j) \<longrightarrow> i = j)"

lemma distinct_occupied_iff:
  "distinct (map itemCollectionId (filter occupied its)) \<longleftrightarrow> ids_unique its"
proof (induction its)
  case Nil
  then show ?case by (simp add: ids_unique_def)
next
  case (Cons it its)
  have "ids_unique (it # its) \<longleftrightarrow>
      ids_unique its \<and> (occupied it \<longrightarrow> (\<forall>x \<in> set its. occupied x \<longrightarrow> itemCollectionId x \<noteq> itemCollectionId it))"
    unfolding ids_unique_def
    by (auto simp: nth_Cons all_set_conv_all_nth All_less_Suc2 split: nat.splits)
  with Cons show ?case by (auto simp: image_iff)
qed

lemma newPool_inv: "pool_inv (newPool n)"
  by (simp add: pool_inv_def newPool_def list_all_iff item_ok_def free_item_def occupied_def count_if_def)

section \<open>The pool as a partial map\<close>

text \<open>
  What the pool promises its clients: each collection id in use has a number and the set of
  intents that hold it.
\<close>

type_synonym allocations = "string \<Rightarrow> (nat \<times> string set) option"

definition allocations_of :: "id_pool \<Rightarrow> allocations" where
  "allocations_of p c =
     map_option (\<lambda>k. (k, set (intents (pool p ! k)))) (GetIfAnyAllocated c p)"

definition slot_of :: "pool_item list \<Rightarrow> string \<Rightarrow> nat \<Rightarrow> string set \<Rightarrow> bool" where
  "slot_of its c k S \<longleftrightarrow>
     k < length its \<and> occupied (its ! k) \<and> itemCollectionId (its ! k) = c \<and> S = set (intents (its ! k))"

lemma pool_inv_unique: "pool_inv p \<Longrightarrow> ids_unique (pool p)"
  by (simp add: pool_inv_def distinct_occupied_iff)

lemma GetIfAnyAllocated_iff:
  assumes "ids_unique (pool p)"
  shows "GetIfAnyAllocated c p = Some k \<longleftrightarrow>
           k < length (pool p) \<and> occupied (pool p ! k) \<and> itemCollectionId (pool p ! k) = c"
proof
  assume "GetIfAnyAllocated c p = Some k"
  then show "k < length (pool p) \<and> occupied (pool p ! k) \<and> itemCollectionId (pool p ! k) = c"
    unfolding GetIfAnyAllocated_def using first_index_Some by (fastforce simp: occupied_def)
next
  assume k: "k < length (pool p) \<and> occupied (pool p ! k) \<and> itemCollectionId (pool p ! k) = c"
  show "GetIfAnyAllocated c p = Some k"
    unfolding GetIfAnyAllocated_def
    by (rule first_index_unique) (use assms k in \<open>auto simp: ids_unique_def occupied_def\<close>)
qed

lemma allocations_of_iff:
  "ids_unique (pool p) \<Longrightarrow> allocations_of p c = Some (k, S) \<longleftrightarrow> slot_of (pool p) c k S"
  by (auto simp: allocations_of_def slot_of_def GetIfAnyAllocated_iff)

lemma option_pair_eqI: "(\<And>k S. x = Some (k, S) \<longleftrightarrow> y = Some (k, S)) \<Longrightarrow> x = y"
  by (cases x; cases y) auto

lemma item_of_id:
  assumes "pool_inv p" and "k < length (pool p)" and "itemCollectionId (pool p ! k) = c" and "c \<noteq> []"
  shows "occupied (pool p ! k)"
proof -
  have "item_ok (pool p ! k)"
    using assms(1,2) by (simp add: pool_inv_def list_all_length)
  with assms(3,4) show ?thesis by (auto simp: item_ok_def occupied_def)
qed

lemma first_match_iff:
  assumes "pool_inv p" and "c \<noteq> []"
  shows "first_index (\<lambda>it. itemCollectionId it = c) (pool p) = GetIfAnyAllocated c p"
proof (cases "GetIfAnyAllocated c p")
  case None
  have "itemCollectionId it \<noteq> c" if "it \<in> set (pool p)" for it
  proof
    assume "itemCollectionId it = c"
    moreover from that obtain k where "k < length (pool p)" "it = pool p ! k"
      by (auto simp: in_set_conv_nth)
    ultimately have "GetIfAnyAllocated c p = Some k"
      using item_of_id [OF assms(1)] assms(2) GetIfAnyAllocated_iff [OF pool_inv_unique [OF assms(1)]] by auto
    with None show False by simp
  qed
  with None show ?thesis by (simp add: first_index_None)
next
  case (Some k)
  then have k: "k < length (pool p) \<and> occupied (pool p ! k) \<and> itemCollectionId (pool p ! k) = c"
    by (simp add: GetIfAnyAllocated_iff [OF pool_inv_unique [OF assms(1)]])
  have "first_index (\<lambda>it. itemCollectionId it = c) (pool p) = Some k"
  proof (rule first_index_unique)
    fix j assume "j < length (pool p)" and "itemCollectionId (pool p ! j) = c"
    with k item_of_id [OF assms(1)] pool_inv_unique [OF assms(1)] assms(2) show "j = k"
      by (auto simp: ids_unique_def)
  qed (use k in auto)
  with Some show ?thesis by simp
qed

text \<open>An item replaced by one that keeps the invariant.\<close>

lemma pool_inv_update:
  assumes "pool_inv p" and "k < length (pool p)" and "item_ok it"
    and "n = allocCounter p + (if occupied it then 1 else 0) - (if occupied (pool p ! k) then 1 else 0)"
    and "\<And>j. \<lbrakk>j < length (pool p); j \<noteq> k; occupied (pool p ! j); occupied it\<rbrakk>
           \<Longrightarrow> itemCollectionId (pool p ! j) \<noteq> itemCollectionId it"
  shows "pool_inv (p\<lparr>pool := (pool p)[k := it], allocCounter := n\<rparr>)"
proof -
  have "int (count_if occupied ((pool p)[k := it])) = n"
    using count_if_update [OF assms(2), of occupied it] assms(1,4)
    by (auto simp: pool_inv_def split: if_splits)
  moreover have "ids_unique ((pool p)[k := it])"
    using assms(2,5) pool_inv_unique [OF assms(1)] unfolding ids_unique_def
    by (auto simp: nth_list_update) (metis assms(5))+
  moreover have "list_all item_ok ((pool p)[k := it])"
    using assms(1-3) by (auto simp: pool_inv_def list_all_length nth_list_update)
  ultimately show ?thesis
    using assms(1) by (simp add: pool_inv_def distinct_occupied_iff)
qed

lemma allocations_update:
  assumes "ids_unique (pool p)" and "ids_unique ((pool p)[k := it])" and "k < length (pool p)"
    and "occupied it" and "itemCollectionId it = c"
    and "\<not> occupied (pool p ! k) \<or> itemCollectionId (pool p ! k) = c"
  shows "allocations_of (p\<lparr>pool := (pool p)[k := it], allocCounter := n\<rparr>) = (allocations_of p)(c \<mapsto> (k, set (intents it)))"
proof
  fix d
  let ?p = "p\<lparr>pool := (pool p)[k := it], allocCounter := n\<rparr>"
  have u: "ids_unique (pool ?p)" using assms(2) by simp
  show "allocations_of ?p d = ((allocations_of p)(c \<mapsto> (k, set (intents it)))) d"
  proof (rule option_pair_eqI)
    fix j S
    show "allocations_of ?p d = Some (j, S) \<longleftrightarrow> ((allocations_of p)(c \<mapsto> (k, set (intents it)))) d = Some (j, S)"
    proof (cases "d = c")
      case True
      have "slot_of ((pool p)[k := it]) c k (set (intents it))"
        using assms(3-5) by (simp add: slot_of_def)
      then have "allocations_of ?p c = Some (k, set (intents it))"
        using allocations_of_iff [OF u] by simp
      with True show ?thesis by simp
    next
      case False
      then show ?thesis
        using assms(3-6) by (auto simp: allocations_of_iff [OF u] allocations_of_iff [OF assms(1)]
            slot_of_def nth_list_update)
    qed
  qed
qed

lemma allocations_remove:
  assumes "ids_unique (pool p)" and "ids_unique ((pool p)[k := it])" and "k < length (pool p)"
    and "\<not> occupied it" and "occupied (pool p ! k)" and "itemCollectionId (pool p ! k) = c"
  shows "allocations_of (p\<lparr>pool := (pool p)[k := it], allocCounter := n\<rparr>) = (allocations_of p)(c := None)"
proof
  fix d
  let ?p = "p\<lparr>pool := (pool p)[k := it], allocCounter := n\<rparr>"
  have u: "ids_unique (pool ?p)" using assms(2) by simp
  show "allocations_of ?p d = ((allocations_of p)(c := None)) d"
  proof (rule option_pair_eqI)
    fix j S
    show "allocations_of ?p d = Some (j, S) \<longleftrightarrow> ((allocations_of p)(c := None)) d = Some (j, S)"
      using assms(1,3-6) by (auto simp: allocations_of_iff [OF u] allocations_of_iff [OF assms(1)]
            slot_of_def nth_list_update ids_unique_def)
  qed
qed

text \<open>The four outcomes of an allocation and the three of a release.\<close>

lemma pool_same_counter: "p\<lparr>pool := its, allocCounter := allocCounter p\<rparr> = p\<lparr>pool := its\<rparr>"
  by (cases p) simp

lemma AllocOrGet_shared:
  assumes "pool_inv p" and "c \<noteq> []" and "allocations_of p c = Some (k, S)"
  shows "\<exists>p'. AllocOrGet i c p = Some (Inr k, p') \<and> pool_inv p'
           \<and> allocations_of p' = (allocations_of p)(c \<mapsto> (k, insert i S))"
proof -
  note u = pool_inv_unique [OF assms(1)]
  let ?it = "item_join i (pool p ! k)"
  have s: "slot_of (pool p) c k S" using assms(3) by (simp add: allocations_of_iff [OF u])
  have k: "first_index (\<lambda>it. itemCollectionId it = c) (pool p) = Some k"
    using assms by (simp add: first_match_iff allocations_of_def split: option.splits)
  have ok: "item_ok ?it"
    using assms(1,2) s item_ok_ops(2) by (auto simp: slot_of_def pool_inv_def list_all_length)
  have inv: "pool_inv (p\<lparr>pool := (pool p)[k := ?it], allocCounter := allocCounter p\<rparr>)"
    by (rule pool_inv_update) (use assms(1) ok s u in \<open>auto simp: slot_of_def ids_unique_def\<close>)
  have "set (intents ?it) = insert i S"
    using s by (auto simp: item_join_def slot_of_def)
  then have "allocations_of (p\<lparr>pool := (pool p)[k := ?it], allocCounter := allocCounter p\<rparr>)
        = (allocations_of p)(c \<mapsto> (k, insert i S))"
    using allocations_update [OF u, of k ?it c "allocCounter p"] pool_inv_unique [OF inv] s
    by (simp add: slot_of_def)
  with inv k show ?thesis by (simp add: AllocOrGet_def pool_same_counter)
qed

lemma alloc_none_iff:
  assumes "pool_inv p" and "c \<noteq> []"
  shows "first_index (\<lambda>it. itemCollectionId it = c) (pool p) = None \<longleftrightarrow> allocations_of p c = None"
  using assms by (simp add: first_match_iff allocations_of_def)

lemma AllocOrGet_full:
  assumes "pool_inv p" and "c \<noteq> []" and "allocations_of p c = None" and "int (maxSize p) \<le> allocCounter p"
  shows "AllocOrGet i c p = Some (Inl pool_full, p)"
  using assms alloc_none_iff [OF assms(1,2)] by (simp add: AllocOrGet_def)

lemma AllocOrGet_fresh:
  assumes "pool_inv p" and "c \<noteq> []" and "allocations_of p c = None" and "allocCounter p < int (maxSize p)"
  shows "\<exists>k p'. AllocOrGet i c p = Some (Inr k, p') \<and> pool_inv p' \<and> k < maxSize p \<and> \<not> occupied (pool p ! k)
           \<and> allocations_of p' = (allocations_of p)(c \<mapsto> (k, {i}))"
proof -
  note u = pool_inv_unique [OF assms(1)]
  have none: "first_index (\<lambda>it. itemCollectionId it = c) (pool p) = None"
    using alloc_none_iff [OF assms(1,2)] assms(3) by simp
  have "count_if occupied (pool p) < length (pool p)"
    using assms(1,4) by (simp add: pool_inv_def)
  then have "\<exists>it \<in> set (pool p). intents it = []"
    unfolding count_if_def occupied_def by (metis (mono_tags, lifting) filter_True less_irrefl)
  then obtain k where k: "first_index (\<lambda>it. intents it = []) (pool p) = Some k"
    by (cases "first_index (\<lambda>it. intents it = []) (pool p)") (auto simp: first_index_None)
  note free = first_index_Some [OF k]
  let ?it = "item_take i c (pool p ! k)"
  have other: "itemCollectionId (pool p ! j) \<noteq> c" if "j < length (pool p)" for j
    using none that by (auto simp: first_index_None)
  have inv: "pool_inv (p\<lparr>pool := (pool p)[k := ?it], allocCounter := allocCounter p + 1\<rparr>)"
    by (rule pool_inv_update)
      (use assms(1,2) free other in \<open>auto simp: occupied_def [of "pool p ! k"] item_ok_ops(1)\<close>)
  have "allocations_of (p\<lparr>pool := (pool p)[k := ?it], allocCounter := allocCounter p + 1\<rparr>)
        = (allocations_of p)(c \<mapsto> (k, set (intents ?it)))"
    by (rule allocations_update)
      (use u pool_inv_unique [OF inv] free in \<open>auto simp: occupied_def [of "pool p ! k"]\<close>)
  moreover have "set (intents ?it) = {i}" using free by (simp add: item_take_def)
  moreover have "AllocOrGet i c p = Some (Inr k, p\<lparr>pool := (pool p)[k := ?it], allocCounter := allocCounter p + 1\<rparr>)"
    using none k assms(4) by (simp add: AllocOrGet_def)
  moreover have "k < maxSize p" "\<not> occupied (pool p ! k)"
    using free assms(1) by (auto simp: pool_inv_def occupied_def)
  ultimately show ?thesis using inv by simp
qed

lemma owned_index:
  assumes "pool_inv p"
  shows "first_index (item_owned i c) (pool p) = Some k \<longleftrightarrow> (\<exists>S. allocations_of p c = Some (k, S) \<and> i \<in> S)"
proof
  note u = pool_inv_unique [OF assms]
  assume "first_index (item_owned i c) (pool p) = Some k"
  from first_index_Some [OF this] show "\<exists>S. allocations_of p c = Some (k, S) \<and> i \<in> S"
    by (auto simp: allocations_of_iff [OF u] slot_of_def item_owned_def occupied_def)
next
  note u = pool_inv_unique [OF assms]
  assume "\<exists>S. allocations_of p c = Some (k, S) \<and> i \<in> S"
  then have k: "slot_of (pool p) c k (set (intents (pool p ! k)))" "i \<in> set (intents (pool p ! k))"
    by (auto simp: allocations_of_iff [OF u] slot_of_def)
  show "first_index (item_owned i c) (pool p) = Some k"
  proof (rule first_index_unique)
    fix j assume j: "j < length (pool p)" "item_owned i c (pool p ! j)"
    then have "occupied (pool p ! j)"
      by (auto simp: item_owned_def occupied_def)
    with j k u show "j = k" by (auto simp: ids_unique_def slot_of_def item_owned_def)
  qed (use k in \<open>auto simp: slot_of_def item_owned_def\<close>)
qed

definition released :: "string \<Rightarrow> string \<Rightarrow> allocations \<Rightarrow> allocations" where
  "released i c m =
     (case m c of
        Some (k, S) \<Rightarrow> if i \<notin> S then m else if S = {i} then m(c := None) else m(c \<mapsto> (k, S - {i}))
      | None \<Rightarrow> m)"

lemma Free_noop:
  assumes "pool_inv p" and "\<And>k S. allocations_of p c = Some (k, S) \<Longrightarrow> i \<notin> S"
  shows "Free i c p = p"
  using owned_index [OF assms(1)] assms(2) unfolding Free_def
  by (cases "first_index (item_owned i c) (pool p)") auto

lemma Free_owned:
  assumes "pool_inv p" and a: "allocations_of p c = Some (k, S)" "i \<in> S"
  shows "pool_inv (Free i c p) \<and> allocations_of (Free i c p) = released i c (allocations_of p)"
proof -
  note u = pool_inv_unique [OF assms(1)]
  let ?it = "item_leave i (pool p ! k)"
  let ?n = "if intents ?it = [] then allocCounter p - 1 else allocCounter p"
  have s: "slot_of (pool p) c k S" using a by (simp add: allocations_of_iff [OF u])
  have Free: "Free i c p = p\<lparr>pool := (pool p)[k := ?it], allocCounter := ?n\<rparr>"
    using owned_index [OF assms(1), of i c k] a by (auto simp: Free_def Let_def pool_same_counter)
  have ok: "item_ok ?it"
    using assms(1) s item_ok_ops(3) by (auto simp: slot_of_def pool_inv_def list_all_length)
  have left: "set (intents ?it) = S - {i}"
    using s by (simp add: slot_of_def)
  then have occ: "occupied ?it \<longleftrightarrow> S - {i} \<noteq> {}"
    by (metis occupied_def set_empty)
  have id: "itemCollectionId ?it = c" if "occupied ?it"
    using that s by (auto simp: item_leave_def slot_of_def occupied_def Let_def)
  have inv: "pool_inv (Free i c p)"
    unfolding Free
    by (rule pool_inv_update) (use assms(1) ok s u id in \<open>auto simp: slot_of_def occupied_def ids_unique_def\<close>)
  have "allocations_of (Free i c p) = released i c (allocations_of p)"
  proof (cases "occupied ?it")
    case True
    then have "S \<noteq> {i}" using occ by blast
    moreover have "allocations_of (Free i c p) = (allocations_of p)(c \<mapsto> (k, set (intents ?it)))"
      unfolding Free
      by (rule allocations_update) (use u pool_inv_unique [OF inv] Free s id True in \<open>auto simp: slot_of_def\<close>)
    ultimately show ?thesis using a left by (simp add: released_def)
  next
    case False
    then have "S = {i}" using occ a by blast
    moreover have "allocations_of (Free i c p) = (allocations_of p)(c := None)"
      unfolding Free
      by (rule allocations_remove) (use u pool_inv_unique [OF inv] Free s False in \<open>auto simp: slot_of_def\<close>)
    ultimately show ?thesis using a by (simp add: released_def)
  qed
  with inv show ?thesis by simp
qed

lemma Free_refines:
  assumes "pool_inv p"
  shows "pool_inv (Free i c p)" and "allocations_of (Free i c p) = released i c (allocations_of p)"
proof -
  have "pool_inv (Free i c p) \<and> allocations_of (Free i c p) = released i c (allocations_of p)"
  proof (cases "\<exists>k S. allocations_of p c = Some (k, S) \<and> i \<in> S")
    case True
    then show ?thesis using Free_owned [OF assms] by blast
  next
    case False
    then have "Free i c p = p" using Free_noop [OF assms] by blast
    with False assms show ?thesis by (auto simp: released_def split: option.splits)
  qed
  then show "pool_inv (Free i c p)" "allocations_of (Free i c p) = released i c (allocations_of p)" by auto
qed

section \<open>The contract of a pool of shared identifiers\<close>

datatype pool_op = OpAlloc string string | OpFree string string

fun op_valid :: "pool_op \<Rightarrow> bool" where
  "op_valid (OpAlloc i c) \<longleftrightarrow> c \<noteq> []"
| "op_valid (OpFree i c) \<longleftrightarrow> True"

fun run_ops :: "(string \<Rightarrow> string \<Rightarrow> 'p \<Rightarrow> ((err + nat) \<times> 'p) option) \<Rightarrow> (string \<Rightarrow> string \<Rightarrow> 'p \<Rightarrow> 'p) \<Rightarrow>
    pool_op list \<Rightarrow> 'p \<Rightarrow> 'p option" where
  "run_ops acquire release [] p = Some p"
| "run_ops acquire release (OpAlloc i c # ops) p =
     (case acquire i c p of None \<Rightarrow> None | Some (r, p1) \<Rightarrow> run_ops acquire release ops p1)"
| "run_ops acquire release (OpFree i c # ops) p = run_ops acquire release ops (release i c p)"

locale shared_ids =
  fixes inv :: "'p \<Rightarrow> bool"
    and held :: "'p \<Rightarrow> allocations"
    and capacity :: "'p \<Rightarrow> nat"
    and acquire :: "string \<Rightarrow> string \<Rightarrow> 'p \<Rightarrow> ((err + nat) \<times> 'p) option"
    and release :: "string \<Rightarrow> string \<Rightarrow> 'p \<Rightarrow> 'p"
  assumes acquire_shared: "\<lbrakk>inv p; c \<noteq> []; held p c = Some (k, S)\<rbrakk> \<Longrightarrow>
        \<exists>p'. acquire i c p = Some (Inr k, p') \<and> inv p' \<and> capacity p' = capacity p
             \<and> held p' = (held p)(c \<mapsto> (k, insert i S))"
    and acquire_new: "\<lbrakk>inv p; c \<noteq> []; held p c = None\<rbrakk> \<Longrightarrow>
        (\<exists>e. acquire i c p = Some (Inl e, p) \<and> (\<forall>k < capacity p. \<exists>d S. held p d = Some (k, S)))
        \<or> (\<exists>k p'. acquire i c p = Some (Inr k, p') \<and> inv p' \<and> capacity p' = capacity p
             \<and> held p' = (held p)(c \<mapsto> (k, {i})) \<and> (\<forall>d S. held p d \<noteq> Some (k, S)))"
    and release_inv: "inv p \<Longrightarrow> inv (release i c p) \<and> capacity (release i c p) = capacity p"
    and release_held: "inv p \<Longrightarrow> held (release i c p) = released i c (held p)"
    and held_bounds: "\<lbrakk>inv p; held p c = Some (k, S)\<rbrakk> \<Longrightarrow> k < capacity p \<and> S \<noteq> {}"
    and held_injective: "\<lbrakk>inv p; held p c = Some (k, S); held p d = Some (k, T)\<rbrakk> \<Longrightarrow> c = d"
begin

lemma acquire_cases:
  assumes "inv p" and "c \<noteq> []"
  obtains
    (shared) k S p' where "held p c = Some (k, S)" "acquire i c p = Some (Inr k, p')" "inv p'"
      "capacity p' = capacity p" "held p' = (held p)(c \<mapsto> (k, insert i S))"
  | (full) e where "held p c = None" "acquire i c p = Some (Inl e, p)"
      "\<forall>k < capacity p. \<exists>d S. held p d = Some (k, S)"
  | (fresh) k p' where "held p c = None" "acquire i c p = Some (Inr k, p')" "inv p'"
      "capacity p' = capacity p" "held p' = (held p)(c \<mapsto> (k, {i}))" "\<forall>d S. held p d \<noteq> Some (k, S)"
proof (cases "held p c")
  case None
  from acquire_new [OF assms None, of i] show thesis
  proof (elim disjE exE conjE)
    fix e assume "acquire i c p = Some (Inl e, p)" "\<forall>k < capacity p. \<exists>d S. held p d = Some (k, S)"
    with None show thesis by (rule full)
  next
    fix k p'
    assume "acquire i c p = Some (Inr k, p')" "inv p'" "capacity p' = capacity p"
      "held p' = (held p)(c \<mapsto> (k, {i}))" "\<forall>d S. held p d \<noteq> Some (k, S)"
    with None show thesis by (rule fresh)
  qed
next
  case (Some a)
  then obtain k S where a: "held p c = Some (k, S)" by (cases a) auto
  from acquire_shared [OF assms this, of i] a show thesis by (auto intro: shared)
qed

lemma acquire_total:
  assumes "inv p" and "c \<noteq> []"
  shows "\<exists>r p'. acquire i c p = Some (r, p') \<and> inv p' \<and> capacity p' = capacity p"
  by (rule acquire_cases [OF assms, of i]) (use assms in auto)

lemma acquire_ok:
  assumes "inv p" and "c \<noteq> []" and "acquire i c p = Some (Inr k, p')"
  shows "\<exists>S. held p' c = Some (k, S) \<and> i \<in> S"
  by (rule acquire_cases [OF assms(1,2), of i]) (use assms(3) in auto)

lemma acquire_error:
  assumes "inv p" and "c \<noteq> []" and "acquire i c p = Some (Inl e, p')"
  shows "p' = p \<and> held p c = None \<and> (\<forall>k < capacity p. \<exists>d S. held p d = Some (k, S))"
  by (rule acquire_cases [OF assms(1,2), of i]) (use assms(3) in auto)

lemma acquire_frame:
  assumes "inv p" and "c \<noteq> []" and "acquire i c p = Some (r, p')"
    and "held p d = Some (k, S)" and "j \<in> S"
  shows "\<exists>S'. held p' d = Some (k, S') \<and> j \<in> S'"
  by (rule acquire_cases [OF assms(1,2), of i]) (use assms(3-5) in auto)

lemma release_frame:
  assumes "inv p" and "held p d = Some (k, S)" and "j \<in> S" and "(j, d) \<noteq> (i, c)"
  shows "\<exists>S'. held (release i c p) d = Some (k, S') \<and> j \<in> S'"
  using assms by (auto simp: release_held released_def split: option.splits)

lemma run_total:
  "\<lbrakk>inv p; list_all op_valid ops\<rbrakk> \<Longrightarrow> \<exists>p'. run_ops acquire release ops p = Some p' \<and> inv p' \<and> capacity p' = capacity p"
proof (induction ops arbitrary: p)
  case (Cons op ops)
  show ?case
  proof (cases op)
    case (OpAlloc i c)
    with Cons.prems acquire_total [of p c i] obtain r p1
      where "acquire i c p = Some (r, p1)" "inv p1" "capacity p1 = capacity p" by auto
    with Cons OpAlloc show ?thesis by fastforce
  next
    case (OpFree i c)
    with Cons.IH [of "release i c p"] Cons.prems release_inv [of p i c] show ?thesis by auto
  qed
qed simp

lemma run_keeps:
  assumes "inv p" and "list_all op_valid ops" and "run_ops acquire release ops p = Some p'"
    and "held p c = Some (k, S)" and "i \<in> S" and "OpFree i c \<notin> set ops"
  shows "\<exists>S'. held p' c = Some (k, S') \<and> i \<in> S'"
  using assms
proof (induction ops arbitrary: p S)
  case (Cons op ops)
  show ?case
  proof (cases op)
    case (OpAlloc j d)
    with Cons.prems acquire_total [of p d j] obtain r p1
      where 1: "acquire j d p = Some (r, p1)" "inv p1" by auto
    with acquire_frame [of p d j r p1 c k S i] Cons.prems OpAlloc obtain S'
      where "held p1 c = Some (k, S')" "i \<in> S'" by auto
    with Cons.IH [of p1 S'] Cons.prems 1 OpAlloc show ?thesis by auto
  next
    case (OpFree j d)
    with Cons.prems have "(i, c) \<noteq> (j, d)" by auto
    with release_frame [of p c k S i j d] Cons.prems obtain S'
      where "held (release j d p) c = Some (k, S')" "i \<in> S'" by auto
    with Cons.IH [of "release j d p" S'] Cons.prems release_inv [of p j d] OpFree show ?thesis by auto
  qed
qed auto

lemma acquire_release:
  assumes "inv p" and "c \<noteq> []" and "acquire i c p = Some (Inr k, p')"
    and "\<And>n S. held p c = Some (n, S) \<Longrightarrow> i \<notin> S"
  shows "held (release i c p') = held p"
proof (cases "held p c")
  case None
  have "inv p' \<and> held p' = (held p)(c \<mapsto> (k, {i}))"
    by (rule acquire_cases [OF assms(1,2), of i]) (use None assms(3) in auto)
  with None show ?thesis by (auto simp: release_held released_def)
next
  case (Some nS)
  obtain n S where nS: "held p c = Some (n, S)" using Some by (cases nS) auto
  with acquire_shared [OF assms(1,2) nS, of i] assms(3)
  have "inv p'" "held p' = (held p)(c \<mapsto> (k, insert i S))" "n = k" by auto
  moreover have "i \<notin> S" "S \<noteq> {}" using assms(4) nS held_bounds [OF assms(1) nS] by auto
  ultimately show ?thesis using nS by (auto simp: release_held released_def fun_eq_iff)
qed

end

lemma full_pool:
  assumes "pool_inv p" and "int (maxSize p) \<le> allocCounter p" and "k < maxSize p"
  shows "\<exists>d S. allocations_of p d = Some (k, S)"
proof -
  have "\<not> count_if occupied (pool p) < length (pool p)" using assms(1,2) by (simp add: pool_inv_def)
  then have "occupied (pool p ! k)"
    using count_if_less [of k "pool p" occupied] assms(1,3) by (auto simp: pool_inv_def)
  with assms(1,3) show ?thesis
    by (auto simp: allocations_of_iff [OF pool_inv_unique] slot_of_def pool_inv_def)
qed

lemma maxSize_const:
  "AllocOrGet i c p = Some (r, p') \<Longrightarrow> maxSize p' = maxSize p"
  "maxSize (Free i c p) = maxSize p"
  by (auto simp: AllocOrGet_def Free_def Let_def split: option.splits if_splits)

interpretation ids: shared_ids pool_inv allocations_of maxSize AllocOrGet Free
proof
  fix p and c i :: string assume p: "pool_inv p" "c \<noteq> []"
  {
    fix k S assume "allocations_of p c = Some (k, S)"
    from AllocOrGet_shared [OF p this, of i] maxSize_const
    show "\<exists>p'. AllocOrGet i c p = Some (Inr k, p') \<and> pool_inv p' \<and> maxSize p' = maxSize p
      \<and> allocations_of p' = (allocations_of p)(c \<mapsto> (k, insert i S))" by blast
  next
    assume none: "allocations_of p c = None"
    show "(\<exists>e. AllocOrGet i c p = Some (Inl e, p) \<and> (\<forall>k < maxSize p. \<exists>d S. allocations_of p d = Some (k, S)))
        \<or> (\<exists>k p'. AllocOrGet i c p = Some (Inr k, p') \<and> pool_inv p' \<and> maxSize p' = maxSize p
             \<and> allocations_of p' = (allocations_of p)(c \<mapsto> (k, {i})) \<and> (\<forall>d S. allocations_of p d \<noteq> Some (k, S)))"
    proof (cases "int (maxSize p) \<le> allocCounter p")
      case True
      with AllocOrGet_full [OF p none] full_pool [OF p(1)] show ?thesis by blast
    next
      case False
      with AllocOrGet_fresh [OF p none, of i] obtain k p'
        where new: "AllocOrGet i c p = Some (Inr k, p')" "pool_inv p'" "\<not> occupied (pool p ! k)"
          "allocations_of p' = (allocations_of p)(c \<mapsto> (k, {i}))" by auto
      moreover have "allocations_of p d \<noteq> Some (k, S)" for d S
        using new(3) allocations_of_iff [OF pool_inv_unique [OF p(1)]] by (simp add: slot_of_def)
      ultimately show ?thesis using maxSize_const by blast
    qed
  }
next
  fix p i c assume "pool_inv p"
  with Free_refines maxSize_const
  show "pool_inv (Free i c p) \<and> maxSize (Free i c p) = maxSize p"
    and "allocations_of (Free i c p) = released i c (allocations_of p)" by auto
next
  fix p c k S assume p: "pool_inv p" and h: "allocations_of p c = Some (k, S)"
  then show "k < maxSize p \<and> S \<noteq> {}"
    by (auto simp: allocations_of_iff [OF pool_inv_unique] slot_of_def occupied_def pool_inv_def)
  fix d T assume "allocations_of p d = Some (k, T)"
  with p h show "c = d"
    by (auto simp: allocations_of_iff [OF pool_inv_unique] slot_of_def)
qed

section \<open>Properties\<close>

text \<open>C7: any sequence of \<open>AllocOrGet\<close> and \<open>Free\<close> calls with non-empty collection ids, on a
  new pool, returns: the panic at the end of \<open>AllocOrGet\<close> is unreachable. Afterwards the
  allocation counter equals the number of occupied slots and no two slots have one id.\<close>

theorem pool_never_panics:
  assumes "list_all op_valid ops"
  shows "\<exists>p. run_ops AllocOrGet Free ops (newPool n) = Some p \<and> maxSize p = n \<and> length (pool p) = n
     \<and> allocCounter p = int (length (filter occupied (pool p)))
     \<and> distinct (map itemCollectionId (filter occupied (pool p)))"
proof -
  from ids.run_total [OF newPool_inv assms] obtain p
    where "run_ops AllocOrGet Free ops (newPool n) = Some p" "pool_inv p" "maxSize p = n"
    by (auto simp: newPool_def)
  then show ?thesis by (auto simp: pool_inv_def count_if_def)
qed

definition demo_ops :: "pool_op list" where
  "demo_ops = [OpAlloc ''a'' ''x'', OpAlloc ''b'' ''y'', OpFree ''a'' ''x'', OpAlloc ''c'' ''z'']"

theorem pool_never_panics_witness:
  "\<exists>p. run_ops AllocOrGet Free demo_ops (newPool 2) = Some p \<and> maxSize p = 2"
  using pool_never_panics [of demo_ops 2] by (auto simp: demo_ops_def)

text \<open>An intent keeps the number it was given: whatever sequence of calls follows, as long as
  it does not free that allocation, \<open>GetIfAllocated\<close> and \<open>GetIfAnyAllocated\<close> still return the
  number \<open>AllocOrGet\<close> returned.\<close>

theorem allocation_is_stable:
  assumes "pool_inv p" and "c \<noteq> []" and "AllocOrGet i c p = Some (Inr k, p1)"
    and "list_all op_valid ops" and "OpFree i c \<notin> set ops"
    and "run_ops AllocOrGet Free ops p1 = Some p2"
  shows "GetIfAllocated i c p2 = Some k \<and> GetIfAnyAllocated c p2 = Some k \<and> k < maxSize p"
proof -
  from ids.acquire_ok [OF assms(1-3)] obtain S where S: "allocations_of p1 c = Some (k, S)" "i \<in> S" by auto
  from ids.acquire_total [OF assms(1,2), of i] assms(3)
  have p1: "pool_inv p1" "maxSize p1 = maxSize p" by auto
  from ids.run_keeps [OF p1(1) assms(4,6) S assms(5)] obtain S'
    where S': "allocations_of p2 c = Some (k, S')" "i \<in> S'" by auto
  have "pool_inv p2" using ids.run_total [OF p1(1) assms(4)] assms(6) by auto
  then have "GetIfAllocated i c p2 = Some k"
    using owned_index S' by (auto simp: GetIfAllocated_def)
  then show ?thesis
    using S' ids.held_bounds [OF p1(1) S(1)] p1(2) by (auto simp: allocations_of_def)
qed

theorem allocation_is_stable_witness:
  "\<exists>p1 p2. AllocOrGet ''a'' ''x'' (newPool 2) = Some (Inr 0, p1)
     \<and> run_ops AllocOrGet Free [OpAlloc ''b'' ''y'', OpFree ''b'' ''x''] p1 = Some p2
     \<and> GetIfAllocated ''a'' ''x'' p2 = Some 0"
proof -
  obtain p1 where 1: "AllocOrGet ''a'' ''x'' (newPool 2) = Some (Inr 0, p1)"
    and 2: "\<exists>p2. run_ops AllocOrGet Free [OpAlloc ''b'' ''y'', OpFree ''b'' ''x''] p1 = Some p2"
    by (simp add: AllocOrGet_def newPool_def free_item_def numeral_2_eq_2 item_take_def)
  from 2 obtain p2 where 3: "run_ops AllocOrGet Free [OpAlloc ''b'' ''y'', OpFree ''b'' ''x''] p1 = Some p2" ..
  from allocation_is_stable [OF newPool_inv _ 1 _ _ 3] 1 3 show ?thesis by auto
qed

text \<open>\<open>AllocOrGet\<close> reports a full pool only when the collection id has no slot and every slot
  is held by another one, and then changes nothing.\<close>

theorem pool_full_is_full:
  assumes "pool_inv p" and "c \<noteq> []" and "AllocOrGet i c p = Some (Inl e, p')"
  shows "p' = p \<and> GetIfAnyAllocated c p = None
     \<and> (\<forall>k < maxSize p. \<exists>d. d \<noteq> c \<and> GetIfAnyAllocated d p = Some k)"
proof -
  from ids.acquire_error [OF assms] have 1: "p' = p" "allocations_of p c = None"
    "\<forall>k < maxSize p. \<exists>d S. allocations_of p d = Some (k, S)" by auto
  have "\<exists>d. d \<noteq> c \<and> GetIfAnyAllocated d p = Some k" if "k < maxSize p" for k
  proof -
    from 1(3) that obtain d S where "allocations_of p d = Some (k, S)" by blast
    then have "GetIfAnyAllocated d p = Some k" by (auto simp: allocations_of_def)
    moreover from this 1(2) have "d \<noteq> c" by (auto simp: allocations_of_def)
    ultimately show ?thesis by blast
  qed
  with 1 show ?thesis by (auto simp: allocations_of_def)
qed

theorem pool_full_is_full_witness:
  "\<exists>p. GetIfAnyAllocated ''y'' p = None \<and> GetIfAnyAllocated ''x'' p = Some 0 \<and> maxSize p = 1
     \<and> AllocOrGet ''b'' ''y'' p = Some (Inl pool_full, p)"
proof -
  obtain p where 1: "AllocOrGet ''a'' ''x'' (newPool 1) = Some (Inr 0, p)"
    and 2: "AllocOrGet ''b'' ''y'' p = Some (Inl pool_full, p)"
    and 3: "GetIfAnyAllocated ''x'' p = Some 0" "maxSize p = 1"
    by (simp add: AllocOrGet_def newPool_def free_item_def item_take_def GetIfAnyAllocated_def)
  from ids.acquire_total [OF newPool_inv, of "''x''" "''a''" 1] 1 have "pool_inv p" by auto
  from pool_full_is_full [OF this _ 2] 2 3 show ?thesis by auto
qed

text \<open>Freeing what was just allocated restores the pool's assignment of numbers and holders.\<close>

theorem alloc_free_roundtrip:
  assumes "pool_inv p" and "c \<noteq> []" and "AllocOrGet i c p = Some (Inr k, p')" and "GetIfAllocated i c p = None"
  shows "allocations_of (Free i c p') = allocations_of p"
proof (rule ids.acquire_release [OF assms(1-3)])
  fix n S assume "allocations_of p c = Some (n, S)"
  with assms(4) owned_index [OF assms(1), of i c n] show "i \<notin> S" by (auto simp: GetIfAllocated_def)
qed

theorem alloc_free_roundtrip_witness:
  "\<exists>p'. AllocOrGet ''a'' ''x'' (newPool 1) = Some (Inr 0, p')
      \<and> allocations_of (Free ''a'' ''x'' p') = allocations_of (newPool 1)"
proof -
  obtain p' where 1: "AllocOrGet ''a'' ''x'' (newPool 1) = Some (Inr 0, p')"
    and 2: "GetIfAllocated ''a'' ''x'' (newPool 1) = None"
    by (simp add: AllocOrGet_def newPool_def free_item_def item_take_def GetIfAllocated_def item_owned_def)
  from alloc_free_roundtrip [OF newPool_inv _ 1 2] 1 show ?thesis by auto
qed

text \<open>The empty collection id, which a request may carry, matches a free slot: the slot is
  taken without being counted, and a later allocation of a new id reaches the panic.\<close>

theorem empty_id_reaches_panic:
  "run_ops AllocOrGet Free [OpAlloc ''a'' [], OpAlloc ''b'' ''x''] (newPool 1) = None"
  by (simp add: AllocOrGet_def newPool_def free_item_def item_join_def)

end
