(* ===== verification/CapabilityMonitor.thy ===== *)
theory CapabilityMonitor
  imports GoPrelude
begin

text \<open>
  The monitor that forwards capability updates to observers
  (\<open>telemetry/sourcecapabilitymonitor.go\<close>). Its queue is a channel of capacity one. The list of
  observers holds pointers, so an observer is an identifier and the store holds what is behind
  it: what was sent on its unbuffered downstream channel, and its stop channel.
\<close>

record 'u observer =
  downstreamChan :: "'u list"
  downstreamClosed :: bool
  stopPending :: nat
  stopClosed :: bool

record 'u monitor =
  updatesQueue :: "'u option"
  downstreamObservers :: "nat list"
  observerStore :: "nat \<Rightarrow> 'u observer"

definition newSourceCapabilityMonitor :: "(nat \<Rightarrow> 'u observer) \<Rightarrow> 'u monitor" where
  "newSourceCapabilityMonitor st = \<lparr>updatesQueue = None, downstreamObservers = [], observerStore = st\<rparr>"

text \<open>
  \<open>NotifyChanged\<close>: one round of the loop tries to send; when the queue is full it receives the
  older value, unless the consumer took it first (\<open>taken\<close> says in which rounds it did). The
  caller holds \<open>queueLock\<close>, so nobody else sends. The first argument bounds the rounds.
\<close>

fun notify_rounds :: "nat \<Rightarrow> (nat \<Rightarrow> bool) \<Rightarrow> 'u \<Rightarrow> 'u monitor \<Rightarrow> 'u monitor option" where
  "notify_rounds 0 taken update m = None"
| "notify_rounds (Suc fuel) taken update m =
     (case updatesQueue m of
        None \<Rightarrow> Some (m\<lparr>updatesQueue := Some update\<rparr>)
      | Some older \<Rightarrow>
          (let m1 = (if taken fuel then m\<lparr>updatesQueue := None\<rparr> else m);
               m2 = (case updatesQueue m1 of Some v \<Rightarrow> m1\<lparr>updatesQueue := None\<rparr> | None \<Rightarrow> m1)
           in notify_rounds fuel taken update m2))"

definition NotifyChanged :: "'u \<Rightarrow> 'u monitor \<Rightarrow> 'u monitor option" where
  "NotifyChanged update m = notify_rounds 2 (\<lambda>_. False) update m"

definition RegisterDownstreamObserver :: "nat \<Rightarrow> 'u monitor \<Rightarrow> 'u monitor" where
  "RegisterDownstreamObserver obs m = m\<lparr>downstreamObservers := downstreamObservers m @ [obs]\<rparr>"

text \<open>
  The \<open>select\<close> on one observer: a closed stop channel removes the observer and closes its
  downstream channel; a value on the stop channel is consumed and the update dropped;
  otherwise the update is sent. Closing a closed channel and sending on one panic.
\<close>

definition notify_observer ::
  "'u \<Rightarrow> nat \<times> nat \<Rightarrow> (nat \<Rightarrow> 'u observer) \<times> nat list \<Rightarrow> ((nat \<Rightarrow> 'u observer) \<times> nat list) option" where
  "notify_observer update = (\<lambda>(i, obs) (st, removed).
     (let o1 = st obs in
      if 0 < stopPending o1 then Some (st(obs := o1\<lparr>stopPending := stopPending o1 - 1\<rparr>), removed)
      else if stopClosed o1 then
        (if downstreamClosed o1 then None
         else Some (st(obs := o1\<lparr>downstreamClosed := True\<rparr>), removed @ [i]))
      else if downstreamClosed o1 then None
      else Some (st(obs := o1\<lparr>downstreamChan := downstreamChan o1 @ [update]\<rparr>), removed)))"

fun remaining_observers :: "nat \<Rightarrow> nat list \<Rightarrow> nat list \<Rightarrow> nat list" where
  "remaining_observers i removed [] = []"
| "remaining_observers i removed (obs # rest) =
     (case removed of
        r # rs \<Rightarrow> if i = r then remaining_observers (Suc i) rs rest
                  else obs # remaining_observers (Suc i) removed rest
      | [] \<Rightarrow> obs # remaining_observers (Suc i) [] rest)"

text \<open>One iteration of \<open>run\<close> on a received update; \<open>late\<close> are the observers registered after the
  shallow copy was taken.\<close>

definition run_iteration :: "'u \<Rightarrow> nat list \<Rightarrow> 'u monitor \<Rightarrow> 'u monitor option" where
  "run_iteration update late m =
     (let copy = downstreamObservers m in
      case fold_opt (notify_observer update) (List.enumerate 0 copy) (observerStore m, []) of
        None \<Rightarrow> None
      | Some (st, removed) \<Rightarrow>
          (let m1 = fold RegisterDownstreamObserver late (m\<lparr>observerStore := st\<rparr>) in
           if length removed = 0 then Some m1
           else Some (m1\<lparr>downstreamObservers :=
             remaining_observers 0 removed copy @ drop (length copy) (downstreamObservers m1)\<rparr>)))"

section \<open>What a notification and an iteration do\<close>

lemma notify_rounds_latest:
  "2 \<le> fuel \<Longrightarrow> notify_rounds fuel taken update m = Some (m\<lparr>updatesQueue := Some update\<rparr>)"
  by (cases fuel; cases "fuel - 1"; cases "updatesQueue m") (auto simp: Let_def split: option.split)

lemma NotifyChanged_eq: "NotifyChanged update m = Some (m\<lparr>updatesQueue := Some update\<rparr>)"
  by (simp add: NotifyChanged_def notify_rounds_latest)

definition visited_observer :: "'u \<Rightarrow> 'u observer \<Rightarrow> 'u observer" where
  "visited_observer update o1 =
     (if 0 < stopPending o1 then o1\<lparr>stopPending := stopPending o1 - 1\<rparr>
      else if stopClosed o1 then o1\<lparr>downstreamClosed := True\<rparr>
      else o1\<lparr>downstreamChan := downstreamChan o1 @ [update]\<rparr>)"

definition leaves :: "'u observer \<Rightarrow> bool" where
  "leaves o1 \<longleftrightarrow> stopPending o1 = 0 \<and> stopClosed o1"

lemma notify_all:
  assumes "distinct copy" and "\<forall>obs \<in> set copy. \<not> downstreamClosed (st obs)"
  shows "fold_opt (notify_observer update) (List.enumerate n copy) (st, removed) =
     Some (\<lambda>obs. if obs \<in> set copy then visited_observer update (st obs) else st obs,
           removed @ map fst (filter (\<lambda>(i, obs). leaves (st obs)) (List.enumerate n copy)))"
  using assms
proof (induction copy arbitrary: n st removed)
  case (Cons a copy)
  define st1 where "st1 = st(a := visited_observer update (st a))"
  have step: "notify_observer update (n, a) (st, removed)
      = Some (st1, removed @ (if leaves (st a) then [n] else []))"
    using Cons.prems by (auto simp: notify_observer_def Let_def st1_def visited_observer_def leaves_def)
  have same: "filter (\<lambda>(i, obs). leaves (st1 obs)) (List.enumerate (Suc n) copy)
      = filter (\<lambda>(i, obs). leaves (st obs)) (List.enumerate (Suc n) copy)"
    by (rule filter_cong) (use Cons.prems in \<open>auto simp: st1_def in_set_enumerate_eq\<close>)
  have rest: "\<forall>obs \<in> set copy. \<not> downstreamClosed (st1 obs)"
    using Cons.prems by (auto simp: st1_def)
  have fe: "(\<lambda>obs. if obs \<in> set copy then visited_observer update (st1 obs) else st1 obs)
      = (\<lambda>obs. if obs \<in> set (a # copy) then visited_observer update (st obs) else st obs)"
    using Cons.prems(1) by (auto simp: st1_def fun_eq_iff)
  show ?case
    using Cons.IH [of st1 "Suc n"] Cons.prems(1) rest step same fe by simp
qed simp

lemma remaining_observers_filter:
  "remaining_observers n (map fst (filter (\<lambda>(i, obs). P obs) (List.enumerate n copy))) copy
     = filter (\<lambda>obs. \<not> P obs) copy"
proof (induction copy arbitrary: n)
  case (Cons a copy)
  show ?case
  proof (cases "P a")
    case False
    have "n \<noteq> r" if "map fst (filter (\<lambda>(i, obs). P obs) (List.enumerate (Suc n) copy)) = r # rs" for r rs
    proof -
      have "r \<in> set (map fst (filter (\<lambda>(i, obs). P obs) (List.enumerate (Suc n) copy)))"
        using that by (metis list.set_intros(1))
      then show ?thesis by (auto simp: in_set_enumerate_eq)
    qed
    with False Cons.IH [of "Suc n"] show ?thesis
      by (auto split: list.split)
  qed (use Cons.IH [of "Suc n"] in simp)
qed simp

lemma remaining_observers_none: "remaining_observers n [] copy = copy"
  by (induction copy arbitrary: n) simp_all

text \<open>When the monitor handles an update, every observer whose stop channel is open and quiet
  receives it exactly once, an observer with a closed stop channel is closed and removed, and
  nobody else is: observers registered while the updates are being sent stay in the list.\<close>

theorem monitor_iteration:
  assumes "distinct (downstreamObservers m)"
    and "\<forall>obs \<in> set (downstreamObservers m). \<not> downstreamClosed (observerStore m obs)"
  shows "\<exists>m'. run_iteration update late m = Some m'
     \<and> downstreamObservers m' =
         filter (\<lambda>obs. \<not> leaves (observerStore m obs)) (downstreamObservers m) @ late
     \<and> (\<forall>obs. observerStore m' obs =
          (if obs \<in> set (downstreamObservers m) then visited_observer update (observerStore m obs)
           else observerStore m obs))"
proof -
  have late: "fold RegisterDownstreamObserver late m1 = m1\<lparr>downstreamObservers := downstreamObservers m1 @ late\<rparr>"
    for m1 :: "'a monitor"
    by (induction late arbitrary: m1) (simp_all add: RegisterDownstreamObserver_def)
  let ?P = "\<lambda>obs. leaves (observerStore m obs)"
  let ?rem = "map fst (filter (\<lambda>(i, obs). ?P obs) (List.enumerate 0 (downstreamObservers m)))"
  have "filter (\<lambda>obs. \<not> ?P obs) (downstreamObservers m) = downstreamObservers m" if "?rem = []"
    using remaining_observers_filter [of 0 ?P "downstreamObservers m", unfolded that remaining_observers_none] by simp
  then show ?thesis
    using notify_all [OF assms, of update 0 "[]"] remaining_observers_filter [of 0 ?P "downstreamObservers m"]
    by (auto simp: run_iteration_def late Let_def)
qed

definition sample_monitor :: "nat monitor" where
  "sample_monitor = \<lparr>updatesQueue = None, downstreamObservers = [4, 6],
     observerStore = (\<lambda>_. \<lparr>downstreamChan = [], downstreamClosed = False, stopPending = 0, stopClosed = False\<rparr>)
       (6 := \<lparr>downstreamChan = [1], downstreamClosed = False, stopPending = 0, stopClosed = True\<rparr>)\<rparr>"

theorem monitor_iteration_witness:
  "\<exists>m'. run_iteration 7 [9] sample_monitor = Some m' \<and> downstreamObservers m' = [4, 9]
     \<and> downstreamChan (observerStore m' 4) = [7] \<and> downstreamClosed (observerStore m' 6)"
proof -
  have "distinct (downstreamObservers sample_monitor)"
    and "\<forall>obs \<in> set (downstreamObservers sample_monitor). \<not> downstreamClosed (observerStore sample_monitor obs)"
    by (simp_all add: sample_monitor_def)
  from monitor_iteration [OF this, of 7 "[9]"] show ?thesis
    by (auto simp: sample_monitor_def leaves_def visited_observer_def)
qed

end
