(* ===== verification/Service.thy ===== *)
theory Service
  imports EntityDiff EntityPaths ChangeLog Pool CapabilityMonitor
begin

text \<open>
  The telemetry service (\<open>telemetry/service.go\<close>): configuring and disabling an intent. The
  switches are a world \<open>'w\<close>; \<open>device_ops\<close> are the operations of the devices that the
  \<open>DeviceProvider\<close> returns. An intent's mutex in \<open>intentLocks\<close> is a flag, true while it is
  locked. \<open>intentMapLock\<close> makes each of the four lock operations atomic.
\<close>

record 'w device_ops =
  WriteEntry :: "device_name \<Rightarrow> raw_entry \<Rightarrow> 'w \<Rightarrow> (err option \<times> 'w) option"
  DeleteEntry :: "device_name \<Rightarrow> raw_entry \<Rightarrow> 'w \<Rightarrow> (err option \<times> 'w) option"

record intent_state =
  stEntities :: telemetry_entities
  stCollectionId :: string
  stCollectorNodeName :: device_name
  stCollectorPort :: int

type_synonym capability_update = "(device_name, int32) gomap"

record telemetry_service =
  intentLocks :: "(string, bool) gomap"
  svcRegistry :: registry
  counters :: "counter_ref \<Rightarrow> state_counter"
  collectionIdPool :: id_pool
  intentState :: "(string, intent_state) gomap"
  capabilityMonitor :: "capability_update monitor"

abbreviation TELEMETRY_MTU :: int where "TELEMETRY_MTU \<equiv> 1500"
abbreviation COLLECTION_ID_POOL_SIZE :: nat where "COLLECTION_ID_POOL_SIZE \<equiv> 128"
abbreviation CAPACITY :: int32 where "CAPACITY \<equiv> 127"

definition NewService :: "registry \<Rightarrow> (nat \<Rightarrow> capability_update observer) \<Rightarrow> telemetry_service" where
  "NewService r st =
     \<lparr>intentLocks = [], svcRegistry = r, counters = (\<lambda>_. newStateCounter),
      collectionIdPool = newPool COLLECTION_ID_POOL_SIZE, intentState = [],
      capabilityMonitor = newSourceCapabilityMonitor st\<rparr>"

text \<open>\<open>InitDevices\<close> adds every switch to each of the five counters.\<close>

definition InitDevices :: "topology \<Rightarrow> telemetry_service \<Rightarrow> telemetry_service" where
  "InitDevices topo t =
     fold (\<lambda>switchName s. s\<lparr>counters := (\<lambda>c. AddDevice switchName (counters s c))\<rparr>)
       (gm_keys (getSwitchIds topo)) t"

section \<open>The intents' locks\<close>

definition lockIntent :: "string \<Rightarrow> telemetry_service \<Rightarrow> bool \<times> telemetry_service" where
  "lockIntent intentId t =
     (case gm_get (intentLocks t) intentId of
        Some locked \<Rightarrow> if locked then (False, t) else (True, t\<lparr>intentLocks := gm_put intentId True (intentLocks t)\<rparr>)
      | None \<Rightarrow> (True, t\<lparr>intentLocks := gm_put intentId True (intentLocks t)\<rparr>))"

definition tryLockIntentIfExists :: "string \<Rightarrow> telemetry_service \<Rightarrow> bool \<times> bool \<times> telemetry_service" where
  "tryLockIntentIfExists intentId t =
     (case gm_get (intentLocks t) intentId of
        Some locked \<Rightarrow> if locked then (True, False, t)
          else (True, True, t\<lparr>intentLocks := gm_put intentId True (intentLocks t)\<rparr>)
      | None \<Rightarrow> (False, True, t))"

text \<open>Unlocking a mutex that is missing or not locked crashes the program.\<close>

definition unlockIntent :: "string \<Rightarrow> telemetry_service \<Rightarrow> telemetry_service option" where
  "unlockIntent intentId t =
     (case gm_get (intentLocks t) intentId of
        None \<Rightarrow> None
      | Some locked \<Rightarrow> if locked then Some (t\<lparr>intentLocks := gm_put intentId False (intentLocks t)\<rparr>) else None)"

definition deleteIntentLock :: "string \<Rightarrow> telemetry_service \<Rightarrow> telemetry_service" where
  "deleteIntentLock intentId t = t\<lparr>intentLocks := gm_del intentId (intentLocks t)\<rparr>"

section \<open>From entities to entries\<close>

record config_entry =
  cfgDeviceName :: device_name
  cfgKey :: match_key
  cfgEntry :: raw_entry

record config_entries =
  ActivateSourceEntries :: "config_entry list"
  ConfigureSourceEntries :: "config_entry list"
  ConfigureTransitEntries :: "config_entry list"
  ConfigureSinkEntries :: "config_entry list"
  ConfigureReportingEntry :: "config_entry list"

text \<open>The type assertion \<open>G[name].(*model.IncSwitch)\<close>.\<close>

definition as_inc_switch :: "graph \<Rightarrow> device_name \<Rightarrow> inc_switch option" where
  "as_inc_switch G name = (case gm_get G name of Some (IncSwitch s) \<Rightarrow> Some s | _ \<Rightarrow> None)"

text \<open>The body of the loop over the sinks: the sink entry and the reporting entry.\<close>

definition sink_config :: "graph \<Rightarrow> device_name \<Rightarrow> int \<Rightarrow> int \<Rightarrow> edge \<Rightarrow> (config_entry \<times> config_entry) option" where
  "sink_config G collectorNodeName collectorPort collectionIdNum sink = do {
     deviceMeta \<leftarrow> as_inc_switch G (from_dev sink);
     portNumber \<leftarrow> MustGetPortNumberTo (IncSwitch deviceMeta) (to_dev sink);
     collector \<leftarrow> gm_get G collectorNodeName;
     portToCollector \<leftarrow> findPortLeadingToDevice G (IncSwitch deviceMeta) collector;
     nextHopToCollector \<leftarrow> gm_get G (To (Links deviceMeta ! portToCollector));
     nextHopLink \<leftarrow> MustGetLinkTo nextHopToCollector (Name deviceMeta);
     portToSink \<leftarrow> findPortLeadingToDevice G collector (IncSwitch deviceMeta);
     Some
       (\<lparr>cfgDeviceName = from_dev sink, cfgKey = ConfigureSinkKey (int portNumber + 1),
         cfgEntry = ConfigureSink (int portNumber + 1) (int portToCollector + 1)\<rparr>,
        \<lparr>cfgDeviceName = from_dev sink, cfgKey = ReportingKey collectionIdNum,
         cfgEntry = Reporting collectionIdNum
           (MacAddr (Links deviceMeta ! portToCollector)) (Ipv4 (Links deviceMeta ! portToCollector))
           (MacAddr nextHopLink) (Ipv4 (GetLinks collector ! portToSink)) collectorPort\<rparr>)
   }"

definition transit_config :: "(device_name, int) gomap \<Rightarrow> device_name \<Rightarrow> config_entry" where
  "transit_config switchIds transit =
     \<lparr>cfgDeviceName = transit, cfgKey = ConfigureTransitKey,
      cfgEntry = Transit (case gm_get switchIds transit of Some i \<Rightarrow> i | None \<Rightarrow> 0) TELEMETRY_MTU\<rparr>"

definition activate_config :: "graph \<Rightarrow> edge \<Rightarrow> config_entry option" where
  "activate_config G source = do {
     deviceMeta \<leftarrow> as_inc_switch G (from_dev source);
     portToActivate \<leftarrow> MustGetPortNumberTo (IncSwitch deviceMeta) (to_dev source);
     Some \<lparr>cfgDeviceName = from_dev source, cfgKey = ActivateSourceKey (int portToActivate + 1),
           cfgEntry = ActivateSource (int portToActivate + 1)\<rparr>
   }"

definition source_config :: "int \<Rightarrow> edge \<Rightarrow> telemetry_source_config \<Rightarrow> config_entry" where
  "source_config collectionIdNum source config =
     (let key = \<lparr>srcAddr = src (ips config), dstAddr = dst (ips config), srcPort = confSrcPort config,
                 dstPort = confDstPort config, tunneled = confTunneled config\<rparr>
      in \<lparr>cfgDeviceName = from_dev source, cfgKey = ConfigureSourceKey key,
          cfgEntry = ConfigureSource key 6 10 8 FULL_TELEMETRY_KEY collectionIdNum\<rparr>)"

record entry_orders =
  sinkOrder :: "edge list \<Rightarrow> edge list"
  transitOrder :: "device_name list \<Rightarrow> device_name list"
  sourceMapOrder :: "edge list \<Rightarrow> edge list"

definition getEntriesForTelemetryEntities ::
  "entry_orders \<Rightarrow> graph \<Rightarrow> (device_name, int) gomap \<Rightarrow> telemetry_entities \<Rightarrow> device_name \<Rightarrow> int \<Rightarrow> int \<Rightarrow>
     config_entries option" where
  "getEntriesForTelemetryEntities ords G switchIds ents collectorNodeName collectorPort collectionIdNum = do {
     sinks \<leftarrow> those (map (\<lambda>(sink, _). sink_config G collectorNodeName collectorPort collectionIdNum sink)
                (gm_range (sinkOrder ords) (Sinks ents)));
     activates \<leftarrow> those (map (\<lambda>(source, _). activate_config G source) (gm_range (sourceMapOrder ords) (Sources ents)));
     Some
       \<lparr>ActivateSourceEntries = activates,
        ConfigureSourceEntries = concat (map (\<lambda>(source, confs). map (source_config collectionIdNum source) confs)
          (gm_range (sourceMapOrder ords) (Sources ents))),
        ConfigureTransitEntries = map (\<lambda>(transit, _). transit_config switchIds transit)
          (gm_range (transitOrder ords) (Transits ents)),
        ConfigureSinkEntries = map fst sinks,
        ConfigureReportingEntry = map snd sinks\<rparr>
   }"

definition add_actions ::
  "(device_name \<Rightarrow> match_key \<Rightarrow> raw_entry \<Rightarrow> counter_ref \<Rightarrow> state_change_action) \<Rightarrow> counter_ref \<Rightarrow>
     config_entry list \<Rightarrow> change_log \<Rightarrow> change_log" where
  "add_actions newAction c es changelog =
     fold (\<lambda>e. AddAction (newAction (cfgDeviceName e) (cfgKey e) (cfgEntry e) c)) es changelog"

definition makeApplyChangelog :: "config_entries \<Rightarrow> change_log" where
  "makeApplyChangelog es =
     add_actions newCreateAction ConfigureSourceCounter (ConfigureSourceEntries es)
     (add_actions newCreateAction ActivateSourceCounter (ActivateSourceEntries es)
     (add_actions newCreateAction TransitStateCounter (ConfigureTransitEntries es)
     (add_actions newCreateAction RaportingStateCounter (ConfigureReportingEntry es)
     (add_actions newCreateAction SinkStateCounter (ConfigureSinkEntries es) newChangeLog))))"

definition makeDeleteChangelog :: "config_entries \<Rightarrow> change_log" where
  "makeDeleteChangelog es =
     add_actions newDeleteAction SinkStateCounter (ConfigureSinkEntries es)
     (add_actions newDeleteAction RaportingStateCounter (ConfigureReportingEntry es)
     (add_actions newDeleteAction TransitStateCounter (ConfigureTransitEntries es)
     (add_actions newDeleteAction ActivateSourceCounter (ActivateSourceEntries es)
     (add_actions newDeleteAction ConfigureSourceCounter (ConfigureSourceEntries es) newChangeLog))))"

section \<open>Committing a change log\<close>

definition writeEntry :: "'w device_ops \<Rightarrow> device_name \<Rightarrow> raw_entry \<Rightarrow> 'w \<Rightarrow> (err option \<times> 'w) option" where
  "writeEntry ops dev e w = do {
     (er, w1) \<leftarrow> WriteEntry ops dev e w;
     (case er of Some x \<Rightarrow> Some (Some x, w1) | None \<Rightarrow> Some (None, w1))
   }"

definition deleteEntry :: "'w device_ops \<Rightarrow> device_name \<Rightarrow> raw_entry \<Rightarrow> 'w \<Rightarrow> (err option \<times> 'w) option" where
  "deleteEntry ops dev e w = do {
     (er, w1) \<leftarrow> DeleteEntry ops dev e w;
     (case er of Some x \<Rightarrow> Some (Some x, w1) | None \<Rightarrow> Some (None, w1))
   }"

text \<open>The closure \<open>applyChange\<close> of \<open>commit\<close>, on the counters and the world.\<close>

type_synonym 'w apply_state = "(counter_ref \<Rightarrow> state_counter) \<times> 'w"

definition applyChange :: "'w device_ops \<Rightarrow> state_change_action \<Rightarrow> 'w apply_state \<Rightarrow> (err option \<times> 'w apply_state) option" where
  "applyChange ops action = (\<lambda>(cs, w).
     (let c = actionCounter action in do {
        (er, s1, w1) \<leftarrow>
          (if isCreate action
           then IncrementAndRunOnTransitionToOne (deviceName action) (actionKey action) (actionEntry action)
                  (writeEntry ops (deviceName action) (actionEntry action)) (cs c) w
           else DecrementAndRunOnTransitionToZero (deviceName action) (actionKey action)
                  (\<lambda>e. deleteEntry ops (deviceName action) e) (cs c) w);
        Some (er, cs(c := s1), w1)
      }))"

definition createCapabilityUpdate :: "telemetry_service \<Rightarrow> capability_update" where
  "createCapabilityUpdate t =
     map (\<lambda>(devName, takenCount). (devName, CAPACITY - takenCount))
       (TakePerDeviceNumberOfEntriesSnapshot (counters t ConfigureSourceCounter))"

definition commit :: "'w device_ops \<Rightarrow> change_log \<Rightarrow> telemetry_service \<Rightarrow> 'w \<Rightarrow>
    (err option \<times> telemetry_service \<times> 'w) option" where
  "commit ops changelog t w = do {
     (er, changelog1, st1) \<leftarrow> Commit (applyChange ops) changelog (counters t, w);
     (cs2, w2) \<leftarrow> (if er \<noteq> None
        then map_option (\<lambda>(failedActions, changelog2, st2). st2) (Rollback (applyChange ops) changelog1 st1)
        else Some st1);
     (let t2 = t\<lparr>counters := cs2\<rparr> in do {
        m2 \<leftarrow> NotifyChanged (createCapabilityUpdate t2) (capabilityMonitor t2);
        Some (er, t2\<lparr>capabilityMonitor := m2\<rparr>, w2)
      })
   }"

section \<open>Configuring and disabling telemetry\<close>

datatype telemetry_code = TelemetryOK | InProgress | Failed

record configure_response =
  telemetryState :: telemetry_code
  Description :: "string option"

definition configure_failed :: "string \<Rightarrow> configure_response" where
  "configure_failed description = \<lparr>telemetryState = Failed, Description = Some description\<rparr>"

text \<open>The nil pointer \<open>changelog\<close> is \<^term>\<open>None :: change_log option\<close>.\<close>

definition plan_changes ::
  "entry_orders \<Rightarrow> entry_orders \<Rightarrow> graph \<Rightarrow> (device_name, int) gomap \<Rightarrow> configure_telemetry_request \<Rightarrow> int \<Rightarrow>
     telemetry_entities \<Rightarrow> telemetry_entities \<Rightarrow> change_log option option" where
  "plan_changes ordA ordR G switchIds req cid entriesToAdd entriesToRemove = do {
     c1 \<leftarrow> (if \<not> IsEmpty entriesToAdd then do {
              es \<leftarrow> getEntriesForTelemetryEntities ordA G switchIds entriesToAdd
                      (CollectorNodeName req) (sint (CollectorPort req)) cid;
              Some (Some (makeApplyChangelog es))
            } else Some None);
     (if \<not> IsEmpty entriesToRemove then do {
        es \<leftarrow> getEntriesForTelemetryEntities ordR G switchIds entriesToRemove
                (CollectorNodeName req) (sint (CollectorPort req)) cid;
        (let deleteChangeLog = makeDeleteChangelog es in
         case c1 of
           None \<Rightarrow> Some (Some deleteChangeLog)
         | Some changelog \<Rightarrow> map_option Some (ExtendFrom changelog deleteChangeLog))
      } else Some c1)
   }"

definition ConfigureTelemetry ::
  "'w device_ops \<Rightarrow> request_orders \<Rightarrow> entry_orders \<Rightarrow> entry_orders \<Rightarrow> configure_telemetry_request \<Rightarrow> topology \<Rightarrow>
     telemetry_service \<Rightarrow> 'w \<Rightarrow> (configure_response \<times> telemetry_service \<times> 'w) option" where
  "ConfigureTelemetry ops ords ordA ordR req topo t0 w =
     (case lockIntent (IntentId req) t0 of
        (False, t) \<Rightarrow> Some (\<lparr>telemetryState = InProgress, Description = Some ''Already handling intent''\<rparr>, t, w)
      | (True, t) \<Rightarrow>
          (let switchIds = getSwitchIds topo;
               G = TopologyToGraph topo;
               currentIntentState = gm_get (intentState t) (IntentId req);
               hasCurrentState = (currentIntentState \<noteq> None)
           in do {
             desiredEntities \<leftarrow> findTelemetryEntitiesForRequest (svcRegistry t) ords req G;
             (if (case currentIntentState of Some cur \<Rightarrow> stCollectionId cur \<noteq> CollectionId req | None \<Rightarrow> False)
              then do {
                t1 \<leftarrow> unlockIntent (IntentId req) t;
                Some (configure_failed ''Changing collection id is unsupported'', t1, w)
              }
              else
                (let (entriesToAdd, entriesToRemove) =
                       (case currentIntentState of
                          Some cur \<Rightarrow> computeDifferences (stEntities cur) desiredEntities
                        | None \<Rightarrow> (desiredEntities, newTelemetryEntities))
                 in do {
                   (alloc, pool1) \<leftarrow> AllocOrGet (IntentId req) (CollectionId req) (collectionIdPool t);
                   (let t1 = t\<lparr>collectionIdPool := pool1\<rparr> in
                    case alloc of
                      Inl er \<Rightarrow> do {
                        t2 \<leftarrow> (if hasCurrentState then unlockIntent (IntentId req) t1
                               else Some (deleteIntentLock (IntentId req) t1));
                        Some (configure_failed ''Resources exhausted, use different collection id'', t2, w)
                      }
                    | Inr collectionid \<Rightarrow> do {
                        changelog \<leftarrow> plan_changes ordA ordR G switchIds req (int collectionid) entriesToAdd entriesToRemove;
                        (er, t2, w2) \<leftarrow> (case changelog of
                            Some log \<Rightarrow> commit ops log t1 w
                          | None \<Rightarrow> Some (None, t1, w));
                        (case er of
                           Some e \<Rightarrow> do {
                             t3 \<leftarrow> (if hasCurrentState then unlockIntent (IntentId req) t2
                                    else Some (deleteIntentLock (IntentId req)
                                      (t2\<lparr>collectionIdPool := Free (IntentId req) (CollectionId req) (collectionIdPool t2)\<rparr>)));
                             Some (configure_failed ''Failed to configure telemetry, couldn't apply some of required changes, retrying may help'', t3, w2)
                           }
                         | None \<Rightarrow> do {
                             t3 \<leftarrow> unlockIntent (IntentId req) (t2\<lparr>intentState :=
                                 gm_put (IntentId req)
                                   \<lparr>stEntities = desiredEntities, stCollectionId = CollectionId req,
                                    stCollectorNodeName = CollectorNodeName req,
                                    stCollectorPort = sint (CollectorPort req)\<rparr> (intentState t2)\<rparr>);
                             Some (\<lparr>telemetryState = TelemetryOK, Description = None\<rparr>, t3, w2)
                           })
                      })
                 }))
           }))"

text \<open>\<open>DisableTelemetry\<close> answers at once; the last component says whether it started the goroutine,
  which is \<open>disable_background\<close>.\<close>

definition DisableTelemetry :: "string \<Rightarrow> telemetry_service \<Rightarrow> bool \<times> telemetry_service \<times> bool" where
  "DisableTelemetry intentId t =
     (case tryLockIntentIfExists intentId t of
        (exists, locked, t1) \<Rightarrow>
          if \<not> exists then (False, t1, False)
          else if \<not> locked then (True, t1, False)
          else (False, t1, True))"

definition disable_background ::
  "'w device_ops \<Rightarrow> entry_orders \<Rightarrow> string \<Rightarrow> topology \<Rightarrow> telemetry_service \<Rightarrow> 'w \<Rightarrow> (telemetry_service \<times> 'w) option" where
  "disable_background ops ords intentId topo t w =
     (case gm_get (intentState t) intentId of
        None \<Rightarrow> Some (t, w)
      | Some cur \<Rightarrow>
          (let G = TopologyToGraph topo in do {
             collectionIdNum \<leftarrow> GetIfAllocated intentId (stCollectionId cur) (collectionIdPool t);
             entities \<leftarrow> getEntriesForTelemetryEntities ords G (getSwitchIds topo) (stEntities cur)
                (stCollectorNodeName cur) (stCollectorPort cur) (int collectionIdNum);
             (er, t1, w1) \<leftarrow> commit ops (makeDeleteChangelog entities) t w;
             (case er of
                Some e \<Rightarrow> do { t2 \<leftarrow> unlockIntent intentId t1; Some (t2, w1) }
              | None \<Rightarrow>
                  Some (deleteIntentLock intentId
                    (t1\<lparr>intentState := gm_del intentId (intentState t1),
                        collectionIdPool := Free intentId (stCollectionId cur) (collectionIdPool t1)\<rparr>), w1))
           }))"

definition ObserveSourceCapabilityUpdates :: "nat \<Rightarrow> telemetry_service \<Rightarrow> telemetry_service" where
  "ObserveSourceCapabilityUpdates obs t = t\<lparr>capabilityMonitor := RegisterDownstreamObserver obs (capabilityMonitor t)\<rparr>"

definition GetSourceCapabilities :: "telemetry_service \<Rightarrow> capability_update" where
  "GetSourceCapabilities t = createCapabilityUpdate t"

definition GetCollectionIdNum :: "string \<Rightarrow> telemetry_service \<Rightarrow> nat option" where
  "GetCollectionIdNum c t = GetIfAnyAllocated c (collectionIdPool t)"

end
