(* ===== verification/ServiceProofs.thy ===== *)
theory ServiceProofs
  imports Service
begin

text \<open>
  Correctness of the telemetry service: its applier satisfies the contract of a change log, so a
  commit adds the log's demand to the user counts or takes everything back; the demand of the
  entries built from a set of entities does not depend on map orders; hence disabling an intent
  restores what configuring it changed.
\<close>

section \<open>The applier\<close>

definition counters_inv :: "(counter_ref \<Rightarrow> state_counter) \<Rightarrow> bool" where
  "counters_inv cs \<longleftrightarrow> (\<forall>c. counter_inv (cs c))"

fun slot_users :: "(counter_ref \<Rightarrow> state_counter) \<Rightarrow> slot_key \<Rightarrow> nat" where
  "slot_users cs (c, k) = users (cs c) k"

definition ops_total :: "'w device_ops \<Rightarrow> bool" where
  "ops_total ops \<longleftrightarrow> (\<forall>d e w. WriteEntry ops d e w \<noteq> None \<and> DeleteEntry ops d e w \<noteq> None)"

definition action_known :: "'w device_ops \<Rightarrow> 'w apply_state \<Rightarrow> state_change_action \<Rightarrow> bool" where
  "action_known ops = (\<lambda>(cs, w) a. ops_total ops \<and> deviceName a \<in> set (gm_keys (cs (actionCounter a))))"

lemma writeEntry_eq: "writeEntry ops d e w = WriteEntry ops d e w"
  by (auto simp: writeEntry_def split: Option.bind_splits option.splits)

lemma deleteEntry_eq: "deleteEntry ops d e w = DeleteEntry ops d e w"
  by (auto simp: deleteEntry_def split: Option.bind_splits option.splits)

lemma applyChange_Some:
  "applyChange ops a (cs, w) = Some (e, st) \<longleftrightarrow>
     (\<exists>s1 w1. st = (cs(actionCounter a := s1), w1)
        \<and> (if isCreate a
           then IncrementAndRunOnTransitionToOne (deviceName a) (actionKey a) (actionEntry a)
                  (writeEntry ops (deviceName a) (actionEntry a)) (cs (actionCounter a)) w = Some (e, s1, w1)
           else DecrementAndRunOnTransitionToZero (deviceName a) (actionKey a)
                  (\<lambda>e. deleteEntry ops (deviceName a) e) (cs (actionCounter a)) w = Some (e, s1, w1)))"
  by (auto simp: applyChange_def Let_def split: Option.bind_splits if_splits)

lemma applyChange_ok:
  assumes "counters_inv cs" and "applyChange ops a (cs, w) = Some (None, cs', w')"
  shows "counters_inv cs' \<and> int (slot_users cs' k) = int (slot_users cs k) + effect a k
     \<and> (\<forall>c. gm_keys (cs' c) = gm_keys (cs c))"
proof -
  obtain c i where k: "k = (c, i)" by (cases k)
  let ?s = "cs (actionCounter a)"
  have inv: "counter_inv ?s" using assms(1) by (simp add: counters_inv_def)
  from assms(2) obtain s1 where cs': "cs' = cs(actionCounter a := s1)"
    and step: "if isCreate a
           then IncrementAndRunOnTransitionToOne (deviceName a) (actionKey a) (actionEntry a)
                  (writeEntry ops (deviceName a) (actionEntry a)) ?s w = Some (None, s1, w')
           else DecrementAndRunOnTransitionToZero (deviceName a) (actionKey a)
                  (\<lambda>e. deleteEntry ops (deviceName a) e) ?s w = Some (None, s1, w')"
    by (auto simp: applyChange_Some)
  show ?thesis
  proof (cases "isCreate a")
    case True
    note i = increment_ok [OF inv step [simplified True if_True]]
    show ?thesis
      using i(1,2,6) assms(1) True
      by (auto simp: cs' k counters_inv_def effect_def action_slot_def)
  next
    case False
    note d = decrement_ok [OF inv step [simplified False if_False]]
    show ?thesis
      using d(1,2,3,7) assms(1) False
      by (auto simp: cs' k counters_inv_def effect_def action_slot_def)
  qed
qed

lemma applyChange_err:
  assumes "counters_inv cs" and "applyChange ops a (cs, w) = Some (Some er, cs', w')"
  shows "counters_inv cs' \<and> slot_users cs' = slot_users cs \<and> (\<forall>c. gm_keys (cs' c) = gm_keys (cs c))"
proof -
  let ?s = "cs (actionCounter a)"
  have inv: "counter_inv ?s" using assms(1) by (simp add: counters_inv_def)
  from assms(2) obtain s1 where cs': "cs' = cs(actionCounter a := s1)"
    and step: "if isCreate a
           then IncrementAndRunOnTransitionToOne (deviceName a) (actionKey a) (actionEntry a)
                  (writeEntry ops (deviceName a) (actionEntry a)) ?s w = Some (Some er, s1, w')
           else DecrementAndRunOnTransitionToZero (deviceName a) (actionKey a)
                  (\<lambda>e. deleteEntry ops (deviceName a) e) ?s w = Some (Some er, s1, w')"
    by (auto simp: applyChange_Some)
  have "counter_inv s1 \<and> slot s1 = slot ?s \<and> gm_keys s1 = gm_keys ?s"
  proof (cases "isCreate a")
    case True
    note i = increment_err [OF inv step [simplified True if_True]]
    from i(1,2,5) show ?thesis by simp
  next
    case False
    note d = decrement_err [OF step [simplified False if_False]]
    from d(1) inv show ?thesis by simp
  qed
  then show ?thesis
    using assms(1) by (auto simp: cs' counters_inv_def users_def fun_eq_iff)
qed

lemma applyChange_total:
  assumes "counters_inv cs" and "action_known ops (cs, w) a"
  shows "\<exists>r. applyChange ops a (cs, w) = Some r"
proof -
  let ?s = "cs (actionCounter a)"
  have inv: "counter_inv ?s" using assms(1) by (simp add: counters_inv_def)
  have dev: "gm_get ?s (deviceName a) \<noteq> None" and ops: "ops_total ops"
    using assms(2) map_of_eq_None_iff [of ?s "deviceName a"] by (auto simp: action_known_def)
  have wr: "\<not> writeEntry ops d e w = None" and del: "\<not> deleteEntry ops d e w = None" for d e
    using ops unfolding writeEntry_eq deleteEntry_eq ops_total_def by blast+
  show ?thesis
  proof (cases "isCreate a")
    case True
    have "\<not> IncrementAndRunOnTransitionToOne (deviceName a) (actionKey a) (actionEntry a)
        (writeEntry ops (deviceName a) (actionEntry a)) ?s w = None"
      unfolding increment_panic [OF inv] using dev wr by blast
    then show ?thesis using True by (auto simp: applyChange_def)
  next
    case False
    have "\<not> DecrementAndRunOnTransitionToZero (deviceName a) (actionKey a)
        (\<lambda>e. deleteEntry ops (deviceName a) e) ?s w = None"
      unfolding decrement_panic [OF inv] using dev del by blast
    then show ?thesis using False by (auto simp: applyChange_def)
  qed
qed

interpretation applier: applier_laws "applyChange ops" "\<lambda>(cs, w). counters_inv cs" "\<lambda>(cs, w). slot_users cs" "action_known ops"
  for ops :: "'w device_ops"
proof (unfold_locales, goal_cases)
  case (1 st a)
  then show ?case using applyChange_total by (cases st) auto
next
  case (2 st a e st')
  then show ?case
    using applyChange_ok applyChange_err by (cases st; cases st'; cases e) (fastforce)+
next
  case (3 st a st' k)
  then show ?case using applyChange_ok [of _ ops a _ _ _ k] by (cases st; cases st') simp
next
  case (4 st a er st')
  then show ?case by (cases st; cases st') (auto dest: applyChange_err)
next
  case (5 st a e st' b)
  obtain cs w cs' w' where st: "st = (cs, w)" "st' = (cs', w')" by (cases st; cases st')
  have "\<forall>c. gm_keys (cs' c) = gm_keys (cs c)"
    using applyChange_ok [of cs ops a w cs' w'] applyChange_err [of cs ops a w _ cs' w'] 5
    by (cases e) (auto simp: st)
  then show ?case unfolding st action_known_def by (metis case_prod_conv)
next
  case (6 st a)
  then show ?case by (cases st) (simp add: action_known_def Reverse_def)
qed

text \<open>Switches that may refuse an entry but never fail to delete one.\<close>

definition reliable_delete :: "(device_name \<Rightarrow> raw_entry \<Rightarrow> 'w \<Rightarrow> (err option \<times> 'w) option) \<Rightarrow>
    (device_name \<Rightarrow> raw_entry \<Rightarrow> 'w \<Rightarrow> 'w) \<Rightarrow> 'w device_ops" where
  "reliable_delete wr del = \<lparr>WriteEntry = wr, DeleteEntry = (\<lambda>d e w. Some (None, del d e w))\<rparr>"

lemma reliable_undo:
  assumes "isCreate a" and "0 < slot_users cs (action_slot a)"
    and step: "applyChange (reliable_delete wr del) (Reverse a) (cs, w) = Some (e, st')"
  shows "e = None"
proof (cases e)
  case (Some er)
  have "\<exists>s1 w1. DecrementAndRunOnTransitionToZero (deviceName a) (actionKey a)
      (\<lambda>e. deleteEntry (reliable_delete wr del) (deviceName a) e) (cs (actionCounter a)) w = Some (Some er, s1, w1)"
    using step assms(1) Some by (auto simp: applyChange_Some Reverse_def)
  then obtain s1 w1 where "DecrementAndRunOnTransitionToZero (deviceName a) (actionKey a)
      (\<lambda>e. deleteEntry (reliable_delete wr del) (deviceName a) e) (cs (actionCounter a)) w = Some (Some er, s1, w1)" by blast
  from decrement_err(2) [OF this] assms(2) show ?thesis
    by (auto simp: action_slot_def deleteEntry_eq reliable_delete_def)
qed

interpretation undo: undoable_laws "applyChange (reliable_delete wr del)" "\<lambda>(cs, w). counters_inv cs"
    "\<lambda>(cs, w). slot_users cs" "action_known (reliable_delete wr del)"
  for wr :: "device_name \<Rightarrow> raw_entry \<Rightarrow> 'w \<Rightarrow> (err option \<times> 'w) option" and del
proof (unfold_locales, goal_cases)
  case (1 st a e st')
  then show ?case using reliable_undo [of a _ wr del _ e st'] by (cases st) simp
qed

section \<open>Commits\<close>

definition svc_users :: "telemetry_service \<Rightarrow> slot_key \<Rightarrow> nat" where
  "svc_users t = slot_users (counters t)"

text \<open>The fields a commit leaves alone.\<close>

definition same_books :: "telemetry_service \<Rightarrow> telemetry_service \<Rightarrow> bool" where
  "same_books t t' \<longleftrightarrow> intentLocks t' = intentLocks t \<and> svcRegistry t' = svcRegistry t
     \<and> collectionIdPool t' = collectionIdPool t \<and> intentState t' = intentState t"

text \<open>The devices the counters know; every counter has the same ones.\<close>

definition known_devices :: "telemetry_service \<Rightarrow> device_name set \<Rightarrow> bool" where
  "known_devices t devs \<longleftrightarrow> (\<forall>c. set (gm_keys (counters t c)) = devs)"

definition same_keys :: "telemetry_service \<Rightarrow> telemetry_service \<Rightarrow> bool" where
  "same_keys t t' \<longleftrightarrow> (\<forall>c. gm_keys (counters t' c) = gm_keys (counters t c))"

lemma known_devices_keys: "same_keys t t' \<Longrightarrow> known_devices t devs \<Longrightarrow> known_devices t' devs"
  by (simp add: same_keys_def known_devices_def)

lemma commit_keys:
  assumes "counters_inv (counters t)" and "commit ops log t w = Some (er, t', w')"
  shows "same_keys t t'"
proof -
  define P where "P = (\<lambda>st :: 'a apply_state. counters_inv (fst st) \<and> (\<forall>c. gm_keys (fst st c) = gm_keys (counters t c)))"
  have start: "P (counters t, w)" using assms(1) by (simp add: P_def)
  have pres: "P st'" if "P st" "applyChange ops a st = Some (e, st')" for a st e st'
    using applyChange_ok [of "fst st" ops a "snd st" "fst st'" "snd st'"]
      applyChange_err [of "fst st" ops a "snd st" _ "fst st'" "snd st'"] that
    by (cases e) (auto simp: P_def)
  from assms(2) obtain log1 st1 st2 where c: "Commit (applyChange ops) log (counters t, w) = Some (er, log1, st1)"
    and r: "er \<noteq> None \<longrightarrow> (\<exists>f l. Rollback (applyChange ops) log1 st1 = Some (f, l, st2))"
    and s: "er = None \<longrightarrow> st2 = st1" and t': "counters t' = fst st2"
    by (auto simp: commit_def NotifyChanged_eq Let_def split: Option.bind_splits if_splits)
  from c obtain d where cl: "commit_loop (applyChange ops) (actions log) (doneCounter log) (counters t, w) = Some (er, d, st1)"
    by (auto simp: Commit_def split: Option.bind_splits)
  have P1: "P st1" by (rule commit_loop_preserves [OF cl, of P, OF start pres])
  have "P st2"
  proof (cases "er = None")
    case False
    with r obtain f where rl: "rollback_loop (applyChange ops) (actions log1) (nat (doneCounter log1 + 1)) [] st1 = Some (f, st2)"
      by (auto simp: Rollback_def split: Option.bind_splits)
    show ?thesis by (rule rollback_loop_preserves [OF rl, of P, OF P1 pres])
  qed (use s P1 in simp)
  then show ?thesis by (simp add: same_keys_def P_def t')
qed

lemma commit_ok:
  assumes inv: "counters_inv (counters t)" and new: "doneCounter log = - 1"
    and step: "commit ops log t w = Some (None, t', w')"
  shows "same_books t t'" and "counters_inv (counters t')"
    and "int (svc_users t' k) = int (svc_users t k) + effects (actions log) k"
proof -
  from step obtain log1 where c: "Commit (applyChange ops) log (counters t, w) = Some (None, log1, (counters t', w'))"
    and "same_books t t'"
    by (auto simp: commit_def same_books_def NotifyChanged_eq Let_def split: Option.bind_splits if_splits)
  then show "same_books t t'" by blast
  from applier.commit_success [of "(counters t, w)", OF _ new c] inv
  show "counters_inv (counters t')" "int (svc_users t' k) = int (svc_users t k) + effects (actions log) k"
    by (cases k; simp add: svc_users_def)+
qed

lemma commit_err:
  assumes inv: "counters_inv (counters t)" and new: "doneCounter log = - 1"
    and step: "commit ops log t w = Some (Some er, t', w')"
  shows "same_books t t'" and "counters_inv (counters t')"
    and "\<exists>failed. set failed \<subseteq> set (actions log)
           \<and> (\<forall>k. int (svc_users t' k) = int (svc_users t k) + effects failed k)"
proof -
  from step obtain log1 st1 failed log2 where
    c: "Commit (applyChange ops) log (counters t, w) = Some (Some er, log1, st1)"
    and r: "Rollback (applyChange ops) log1 st1 = Some (failed, log2, (counters t', w'))"
    and "same_books t t'"
    by (auto simp: commit_def same_books_def NotifyChanged_eq Let_def split: Option.bind_splits if_splits)
  then show "same_books t t'" by blast
  from applier.commit_rollback [of "(counters t, w)", OF _ new c r] inv
  show "counters_inv (counters t')"
    and "\<exists>failed. set failed \<subseteq> set (actions log)
           \<and> (\<forall>k. int (svc_users t' k) = int (svc_users t k) + effects failed k)"
    by (auto simp: svc_users_def)
qed

lemma commit_total:
  assumes "counters_inv (counters t)" and "doneCounter log = - 1" and "ops_total ops"
    and "known_devices t devs" and "\<forall>a \<in> set (actions log). deviceName a \<in> devs"
  shows "\<exists>r. commit ops log t w = Some r"
proof -
  have "list_all (action_known ops (counters t, w)) (actions log)"
    using assms(3-5) by (auto simp: list_all_iff action_known_def known_devices_def)
  with applier.commit_rollback_total [of "(counters t, w)" log ops] assms(1,2) obtain er log1 st1
    where c: "Commit (applyChange ops) log (counters t, w) = Some (er, log1, st1)"
      and r: "er \<noteq> None \<longrightarrow> (\<exists>r. Rollback (applyChange ops) log1 st1 = Some r)" by auto
  show ?thesis
  proof (cases er)
    case None
    with c show ?thesis by (cases st1) (simp add: commit_def NotifyChanged_eq Let_def)
  next
    case (Some x)
    with r obtain f l cs w2 where "Rollback (applyChange ops) log1 st1 = Some (f, l, (cs, w2))" by auto
    with c Some show ?thesis by (simp add: commit_def NotifyChanged_eq Let_def)
  qed
qed

lemma commit_creates:
  assumes inv: "counters_inv (counters t)" and new: "doneCounter log = - 1" and "list_all isCreate (actions log)"
    and step: "commit (reliable_delete wr del) log t w = Some (Some er, t', w')"
  shows "svc_users t' = svc_users t"
proof -
  from step obtain log1 st1 failed log2 where
    c: "Commit (applyChange (reliable_delete wr del)) log (counters t, w) = Some (Some er, log1, st1)"
    and r: "Rollback (applyChange (reliable_delete wr del)) log1 st1 = Some (failed, log2, (counters t', w'))"
    by (auto simp: commit_def NotifyChanged_eq Let_def split: Option.bind_splits if_splits)
  from undo.commit_creates_clean [of "(counters t, w)", OF _ new assms(3) c r] inv
  have "slot_users (counters t') k = slot_users (counters t) k" for k
    by (cases k) simp
  then show ?thesis by (simp add: svc_users_def fun_eq_iff)
qed

section \<open>The demand of a set of entries\<close>

definition entry_slot :: "counter_ref \<Rightarrow> config_entry \<Rightarrow> slot_key" where
  "entry_slot c e = (c, cfgDeviceName e, ToIdentifier (cfgKey e))"

definition entries_at :: "config_entries \<Rightarrow> counter_ref \<Rightarrow> config_entry list" where
  "entries_at es c = (case c of
       TransitStateCounter \<Rightarrow> ConfigureTransitEntries es | SinkStateCounter \<Rightarrow> ConfigureSinkEntries es
     | RaportingStateCounter \<Rightarrow> ConfigureReportingEntry es | ActivateSourceCounter \<Rightarrow> ActivateSourceEntries es
     | ConfigureSourceCounter \<Rightarrow> ConfigureSourceEntries es)"

text \<open>How many of the entries go to a slot.\<close>

definition demand :: "config_entries \<Rightarrow> slot_key \<Rightarrow> int" where
  "demand es k = int (count_if (\<lambda>e. entry_slot (fst k) e = k) (entries_at es (fst k)))"

lemma add_actions_sel [simp]:
  "actions (add_actions new c es log) = actions log @ map (\<lambda>e. new (cfgDeviceName e) (cfgKey e) (cfgEntry e) c) es"
  "doneCounter (add_actions new c es log) = doneCounter log"
  unfolding add_actions_def by (induction es arbitrary: log) (simp_all add: AddAction_def)

lemma changelog_done [simp]:
  "doneCounter (makeApplyChangelog es) = - 1" "doneCounter (makeDeleteChangelog es) = - 1"
  by (simp_all add: makeApplyChangelog_def makeDeleteChangelog_def newChangeLog_def)

lemma effects_create:
  "effects (map (\<lambda>e. newCreateAction (cfgDeviceName e) (cfgKey e) (cfgEntry e) c) es) k
     = (if fst k = c then int (count_if (\<lambda>e. entry_slot c e = k) es) else 0)"
  by (induction es) (auto simp: effect_def action_slot_def newCreateAction_def entry_slot_def)

lemma effects_delete:
  "effects (map (\<lambda>e. newDeleteAction (cfgDeviceName e) (cfgKey e) (cfgEntry e) c) es) k
     = (if fst k = c then - int (count_if (\<lambda>e. entry_slot c e = k) es) else 0)"
  by (induction es) (auto simp: effect_def action_slot_def newDeleteAction_def entry_slot_def)

lemma effects_apply: "effects (actions (makeApplyChangelog es)) k = demand es k"
  by (cases "fst k") (simp_all add: makeApplyChangelog_def newChangeLog_def effects_create demand_def entries_at_def)

lemma effects_remove: "effects (actions (makeDeleteChangelog es)) k = - demand es k"
  by (cases "fst k") (simp_all add: makeDeleteChangelog_def newChangeLog_def effects_delete demand_def entries_at_def)

section \<open>The demand of a set of entities\<close>

text \<open>
  The slots a set of entities asks for, each as often as the entries for it are built. They
  depend neither on the collector nor on the order in which the maps are ranged over.
\<close>

definition port_of :: "graph \<Rightarrow> edge \<Rightarrow> int" where
  "port_of G e = (case gm_get G (from_dev e) of None \<Rightarrow> 0 | Some d \<Rightarrow> int (fst (GetPortNumberTo d (to_dev e))))"

definition conf_key :: "telemetry_source_config \<Rightarrow> configure_source_key" where
  "conf_key config = \<lparr>srcAddr = src (ips config), dstAddr = dst (ips config), srcPort = confSrcPort config,
     dstPort = confDstPort config, tunneled = confTunneled config\<rparr>"

definition edge_demand :: "graph \<Rightarrow> int \<Rightarrow> slot_key \<Rightarrow> edge \<Rightarrow> int" where
  "edge_demand G cid k e = of_bool (k = (fst k, from_dev e,
     case fst k of SinkStateCounter \<Rightarrow> ToIdentifier (ConfigureSinkKey (port_of G e + 1))
     | RaportingStateCounter \<Rightarrow> ToIdentifier (ReportingKey cid)
     | _ \<Rightarrow> ToIdentifier (ActivateSourceKey (port_of G e + 1))))"

definition conf_demand :: "slot_key \<Rightarrow> edge \<Rightarrow> telemetry_source_config \<Rightarrow> int" where
  "conf_demand k e c = of_bool (k = (ConfigureSourceCounter, from_dev e, ToIdentifier (ConfigureSourceKey (conf_key c))))"

definition entities_demand :: "graph \<Rightarrow> int \<Rightarrow> telemetry_entities \<Rightarrow> slot_key \<Rightarrow> int" where
  "entities_demand G cid ents k =
     (case fst k of
        TransitStateCounter \<Rightarrow> (\<Sum>(d, u)\<leftarrow>Transits ents. of_bool (k = (TransitStateCounter, d, ToIdentifier ConfigureTransitKey)))
      | SinkStateCounter \<Rightarrow> (\<Sum>(e, u)\<leftarrow>Sinks ents. edge_demand G cid k e)
      | RaportingStateCounter \<Rightarrow> (\<Sum>(e, u)\<leftarrow>Sinks ents. edge_demand G cid k e)
      | ActivateSourceCounter \<Rightarrow> (\<Sum>(e, u)\<leftarrow>Sources ents. edge_demand G cid k e)
      | ConfigureSourceCounter \<Rightarrow> (\<Sum>(e, confs)\<leftarrow>Sources ents. \<Sum>c\<leftarrow>confs. conf_demand k e c))"

definition entry_orders_ok :: "entry_orders \<Rightarrow> bool" where
  "entry_orders_ok ords \<longleftrightarrow> is_order (sinkOrder ords) \<and> is_order (transitOrder ords) \<and> is_order (sourceMapOrder ords)"

lemma as_inc_switch_Some: "as_inc_switch G u = Some s \<longleftrightarrow> gm_get G u = Some (IncSwitch s)"
  by (auto simp: as_inc_switch_def split: option.splits device.splits)

lemma port_of_eq:
  assumes "as_inc_switch G (from_dev e) = Some s" and "MustGetPortNumberTo (IncSwitch s) (to_dev e) = Some p"
  shows "port_of G e = int p"
  using assms by (auto simp: as_inc_switch_Some port_of_def MustGetPortNumberTo_def split: prod.splits if_splits)

lemma sink_config_slots:
  assumes "sink_config G coll port cid sink = Some (s, rep)"
  shows "entry_slot SinkStateCounter s = (SinkStateCounter, from_dev sink, ToIdentifier (ConfigureSinkKey (port_of G sink + 1)))"
    and "entry_slot RaportingStateCounter rep = (RaportingStateCounter, from_dev sink, ToIdentifier (ReportingKey cid))"
  using assms port_of_eq [of G sink]
  by (auto simp: sink_config_def entry_slot_def split: Option.bind_splits)

lemma activate_config_slot:
  assumes "activate_config G e = Some a"
  shows "entry_slot ActivateSourceCounter a = (ActivateSourceCounter, from_dev e, ToIdentifier (ActivateSourceKey (port_of G e + 1)))"
  using assms port_of_eq [of G e]
  by (auto simp: activate_config_def entry_slot_def split: Option.bind_splits)

lemma source_config_slot:
  "entry_slot ConfigureSourceCounter (source_config cid e c)
     = (ConfigureSourceCounter, from_dev e, ToIdentifier (ConfigureSourceKey (conf_key c)))"
  by (simp add: source_config_def entry_slot_def conf_key_def Let_def)

lemma conf_demand_tuple:
  "conf_demand (c, d, i) e = (\<lambda>x. of_bool (c = ConfigureSourceCounter \<and> from_dev e = d
     \<and> ToIdentifier (ConfigureSourceKey (conf_key x)) = i))"
  by (auto simp: conf_demand_def fun_eq_iff)

lemma sum_list_cong_set: "(\<And>x. x \<in> set xs \<Longrightarrow> f x = g x) \<Longrightarrow> (\<Sum>x\<leftarrow>xs. f x) = (\<Sum>x\<leftarrow>xs. g x :: int)"
  by (metis map_eq_conv)

lemma demand_entities:
  assumes get: "getEntriesForTelemetryEntities ords G ids ents coll port cid = Some es"
    and ords: "entry_orders_ok ords" and wf: "entities_wf ents"
  shows "demand es k = entities_demand G cid ents k"
proof -
  obtain c d i where k: "k = (c, d, i)" by (cases k)
  note range = sum_gm_range [of "sinkOrder ords" "Sinks ents"] sum_gm_range [of "transitOrder ords" "Transits ents"]
    sum_gm_range [of "sourceMapOrder ords" "Sources ents"]
  have o: "is_order (sinkOrder ords)" "is_order (transitOrder ords)" "is_order (sourceMapOrder ords)"
    "gm_wf (Sinks ents)" "gm_wf (Transits ents)" "gm_wf (Sources ents)"
    using ords wf by (auto simp: entry_orders_ok_def entities_wf_def)
  from get have snk: "\<forall>x \<in> set (gm_range (sinkOrder ords) (Sinks ents)). sink_config G coll port cid (fst x) \<noteq> None"
    and act: "\<forall>x \<in> set (gm_range (sourceMapOrder ords) (Sources ents)). activate_config G (fst x) \<noteq> None"
    and es: "ConfigureSinkEntries es = map (\<lambda>x. fst (the (sink_config G coll port cid (fst x)))) (gm_range (sinkOrder ords) (Sinks ents))"
      "ConfigureReportingEntry es = map (\<lambda>x. snd (the (sink_config G coll port cid (fst x)))) (gm_range (sinkOrder ords) (Sinks ents))"
      "ActivateSourceEntries es = map (\<lambda>x. the (activate_config G (fst x))) (gm_range (sourceMapOrder ords) (Sources ents))"
      "ConfigureSourceEntries es = concat (map (\<lambda>(e, confs). map (source_config cid e) confs) (gm_range (sourceMapOrder ords) (Sources ents)))"
      "ConfigureTransitEntries es = map (\<lambda>(tr, _). transit_config ids tr) (gm_range (transitOrder ords) (Transits ents))"
    by (auto simp: getEntriesForTelemetryEntities_def those_map_Some case_prod_unfold comp_def split: Option.bind_splits)
  show ?thesis
  proof (cases c)
    case TransitStateCounter
    then show ?thesis
      by (simp add: k demand_def entries_at_def es entities_demand_def count_if_sum case_prod_unfold
          entry_slot_def transit_config_def range(2) [OF o(2,5)] eq_commute [of d] eq_commute [of i])
  next
    case SinkStateCounter
    have "demand es k = (\<Sum>x\<leftarrow>gm_range (sinkOrder ords) (Sinks ents). edge_demand G cid k (fst x))"
      unfolding demand_def
      by (simp add: k SinkStateCounter entries_at_def es count_if_sum)
        (rule sum_list_cong_set, use snk sink_config_slots in \<open>fastforce simp: edge_demand_def\<close>)
    then show ?thesis
      by (simp add: range(1) [OF o(1,4)] entities_demand_def k SinkStateCounter case_prod_unfold)
  next
    case RaportingStateCounter
    have "demand es k = (\<Sum>x\<leftarrow>gm_range (sinkOrder ords) (Sinks ents). edge_demand G cid k (fst x))"
      unfolding demand_def
      by (simp add: k RaportingStateCounter entries_at_def es count_if_sum)
        (rule sum_list_cong_set, use snk sink_config_slots in \<open>fastforce simp: edge_demand_def\<close>)
    then show ?thesis
      by (simp add: range(1) [OF o(1,4)] entities_demand_def k RaportingStateCounter case_prod_unfold)
  next
    case ActivateSourceCounter
    have "demand es k = (\<Sum>x\<leftarrow>gm_range (sourceMapOrder ords) (Sources ents). edge_demand G cid k (fst x))"
      unfolding demand_def
      by (simp add: k ActivateSourceCounter entries_at_def es count_if_sum)
        (rule sum_list_cong_set, use act activate_config_slot in \<open>fastforce simp: edge_demand_def\<close>)
    then show ?thesis
      by (simp add: range(3) [OF o(3,6)] entities_demand_def k ActivateSourceCounter case_prod_unfold)
  next
    case ConfigureSourceCounter
    then show ?thesis
      by (simp add: k demand_def entries_at_def es entities_demand_def count_if_concat comp_def case_prod_unfold
          count_if_sum source_config_slot range(3) [OF o(3,6)] conf_demand_tuple)
  qed
qed

section \<open>Configuring an intent\<close>

text \<open>The entities found for a request are maps, whatever the graph.\<close>

lemma fill_transit_wf:
  "fill_transit r G path k ents = Some ents1 \<Longrightarrow> entities_wf ents \<Longrightarrow> entities_wf ents1"
  by (auto simp: fill_transit_def entities_wf_def split: option.splits if_splits)

lemma search_wf:
  assumes "findSourceSinkEdgesAndFillTransit r G s t ents = Some (es, ents1)" and "entities_wf ents"
  shows "entities_wf ents1"
proof -
  have "ents1 = ents \<or> (\<exists>p ks. fold_opt (fill_transit r G p) ks ents = Some ents1)"
    using assms(1) unfolding findSourceSinkEdgesAndFillTransit_def Let_def
    by (auto split: if_splits Option.bind_splits option.splits)
  then show ?thesis
  proof (elim disjE exE)
    fix p ks assume f: "fold_opt (fill_transit r G p) ks ents = Some ents1"
    show ?thesis by (rule fold_opt_inv [where P = entities_wf, OF f assms(2)]) (rule fill_transit_wf)
  qed (use assms(2) in simp)
qed

lemma add_pair_wf:
  assumes "add_pair r G req s t ents = Some ents'" and "entities_wf ents"
  shows "entities_wf ents'"
proof -
  obtain i a k b where st: "s = (i, a)" "t = (k, b)" by (cases s; cases t)
  show ?thesis
  proof (cases "a = b")
    case False
    then obtain es ents1 where s: "findSourceSinkEdgesAndFillTransit r G a b ents = Some (es, ents1)"
      using assms(1) by (auto simp: st add_pair_def split: Option.bind_splits)
    from search_wf [OF this assms(2)] have "entities_wf ents1" .
    then show ?thesis
      using assms(1) False s
      by (auto simp: st add_pair_def entities_wf_def Let_def split: Option.bind_splits if_splits)
  qed (use assms in \<open>simp add: st add_pair_def\<close>)
qed

lemma find_entities_wf:
  assumes "findTelemetryEntitiesForRequest r ords req G = Some ents"
  shows "entities_wf ents"
proof -
  from assms obtain res where f: "fold_opt (\<lambda>s. fold_opt (add_pair r G req s)
        (List.enumerate 0 (getTargetDeviceNames (targetOrder ords (fst s)) req)))
      (List.enumerate 0 (getSourceDeviceNames (sourceOrder ords) req)) newTelemetryEntities = Some res"
    and ents: "ents = add_edge_devices res"
    by (auto simp: findTelemetryEntitiesForRequest_def split: Option.bind_splits)
  have "entities_wf res"
  proof (rule fold_opt_inv [where P = entities_wf, OF f])
    fix s e e'
    assume e: "entities_wf e" and s: "fold_opt (add_pair r G req s)
        (List.enumerate 0 (getTargetDeviceNames (targetOrder ords (fst s)) req)) e = Some e'"
    show "entities_wf e'" by (rule fold_opt_inv [where P = entities_wf, OF s e]) (rule add_pair_wf)
  qed (simp add: newTelemetryEntities_def entities_wf_def)
  then show ?thesis
    by (simp add: ents add_edge_devices_def entities_wf_def gm.wf_fold_put)
qed

lemma demand_empty: "IsEmpty ents \<Longrightarrow> entities_demand G cid ents k = 0"
  by (cases "fst k") (simp_all add: IsEmpty_def entities_demand_def)

lemma plan_changes_effects:
  assumes "plan_changes ordA ordR G ids req cid added removed = Some log"
    and "entry_orders_ok ordA" and "entry_orders_ok ordR" and "entities_wf added" and "entities_wf removed"
  shows "case log of
      None \<Rightarrow> entities_demand G cid added k = 0 \<and> entities_demand G cid removed k = 0
    | Some l \<Rightarrow> doneCounter l = - 1
        \<and> effects (actions l) k = entities_demand G cid added k - entities_demand G cid removed k"
proof -
  note demA = demand_entities [OF _ assms(2,4)] and demR = demand_entities [OF _ assms(3,5)]
  show ?thesis
    using assms(1)
    by (auto simp: plan_changes_def demand_empty effects_apply effects_remove demA demR ExtendFrom_def Let_def
        split: Option.bind_splits if_splits option.splits)
qed

text \<open>The two halves of what \<open>ConfigureTelemetry\<close> sets out to do.\<close>

definition planned_changes :: "telemetry_service \<Rightarrow> string \<Rightarrow> telemetry_entities \<Rightarrow> telemetry_entities \<times> telemetry_entities" where
  "planned_changes t intentId desired = (case gm_get (intentState t) intentId of
      Some cur \<Rightarrow> computeDifferences (stEntities cur) desired
    | None \<Rightarrow> (desired, newTelemetryEntities))"

lemma planned_changes_wf:
  "entities_wf desired \<Longrightarrow> planned_changes t i desired = (added, removed) \<Longrightarrow> entities_wf added \<and> entities_wf removed"
  using computeDifferences_wf
  by (auto simp: planned_changes_def newTelemetryEntities_def entities_wf_def split: option.splits)

definition requested_state :: "configure_telemetry_request \<Rightarrow> telemetry_entities \<Rightarrow> intent_state" where
  "requested_state req desired =
     \<lparr>stEntities = desired, stCollectionId = CollectionId req,
      stCollectorNodeName = CollectorNodeName req, stCollectorPort = sint (CollectorPort req)\<rparr>"

lemma configure_ok:
  assumes inv: "counters_inv (counters t)" and ords: "entry_orders_ok ordA" "entry_orders_ok ordR"
    and step: "ConfigureTelemetry ops ords ordA ordR req topo t w = Some (resp, t', w')"
    and ok: "telemetryState resp = TelemetryOK"
  obtains desired cid pool1 added removed where
    "findTelemetryEntitiesForRequest (svcRegistry t) ords req (TopologyToGraph topo) = Some desired"
    "entities_wf desired"
    "AllocOrGet (IntentId req) (CollectionId req) (collectionIdPool t) = Some (Inr cid, pool1)"
    "planned_changes t (IntentId req) desired = (added, removed)"
    "collectionIdPool t' = pool1" "counters_inv (counters t')" "svcRegistry t' = svcRegistry t" "same_keys t t'"
    "\<And>k. int (svc_users t' k) = int (svc_users t k)
        + entities_demand (TopologyToGraph topo) (int cid) added k
        - entities_demand (TopologyToGraph topo) (int cid) removed k"
    "intentState t' = gm_put (IntentId req) (requested_state req desired) (intentState t)"
    "gm_get (intentLocks t) (IntentId req) \<noteq> Some True"
    "gm_get (intentLocks t') = (gm_get (intentLocks t))(IntentId req \<mapsto> False)"
    "\<And>cur. gm_get (intentState t) (IntentId req) = Some cur \<Longrightarrow> stCollectionId cur = CollectionId req"
proof -
  let ?G = "TopologyToGraph topo" and ?i = "IntentId req"
  obtain b t0 where lock: "lockIntent ?i t = (b, t0)" by (cases "lockIntent ?i t")
  have b: b using step ok by (cases b) (auto simp: ConfigureTelemetry_def lock)
  have t0: "t0 = t\<lparr>intentLocks := gm_put ?i True (intentLocks t)\<rparr>" "gm_get (intentLocks t) ?i \<noteq> Some True"
    using lock b by (auto simp: lockIntent_def split: option.splits if_splits)
  from step b lock obtain desired where desired: "findTelemetryEntitiesForRequest (svcRegistry t) ords req ?G = Some desired"
    by (auto simp: ConfigureTelemetry_def Let_def t0(1) split: Option.bind_splits)
  have same: "\<not> (case gm_get (intentState t) ?i of Some cur \<Rightarrow> stCollectionId cur \<noteq> CollectionId req | None \<Rightarrow> False)"
    using step ok b desired
    by (auto simp: ConfigureTelemetry_def Let_def lock t0(1) configure_failed_def split: Option.bind_splits if_splits)
  obtain added removed where plan: "planned_changes t ?i desired = (added, removed)"
    by (cases "planned_changes t ?i desired")
  obtain cid pool1 log where alloc: "AllocOrGet ?i (CollectionId req) (collectionIdPool t) = Some (Inr cid, pool1)"
    and log: "plan_changes ordA ordR ?G (getSwitchIds topo) req (int cid) added removed = Some log"
    and t1: "\<exists>t2. (case log of Some l \<Rightarrow> commit ops l (t0\<lparr>collectionIdPool := pool1\<rparr>) w
              | None \<Rightarrow> Some (None, t0\<lparr>collectionIdPool := pool1\<rparr>, w)) = Some (None, t2, w')
            \<and> unlockIntent ?i (t2\<lparr>intentState := gm_put ?i (requested_state req desired) (intentState t2)\<rparr>) = Some t'"
    using step ok b desired same plan
    by (auto simp: ConfigureTelemetry_def Let_def lock t0(1) configure_failed_def planned_changes_def requested_state_def
        split: Option.bind_splits if_splits sum.splits option.splits prod.splits)
  from t1 obtain t2 where c: "(case log of Some l \<Rightarrow> commit ops l (t0\<lparr>collectionIdPool := pool1\<rparr>) w
              | None \<Rightarrow> Some (None, t0\<lparr>collectionIdPool := pool1\<rparr>, w)) = Some (None, t2, w')"
    and u: "unlockIntent ?i (t2\<lparr>intentState := gm_put ?i (requested_state req desired) (intentState t2)\<rparr>) = Some t'"
    by blast
  note wf = find_entities_wf [OF desired]
  note eff = plan_changes_effects [OF log ords planned_changes_wf [OF wf plan, THEN conjunct1] planned_changes_wf [OF wf plan, THEN conjunct2]]
  let ?t1 = "t0\<lparr>collectionIdPool := pool1\<rparr>"
  have inv1: "counters_inv (counters ?t1)" using inv t0 by simp
  have "same_books ?t1 t2 \<and> counters_inv (counters t2) \<and> same_keys ?t1 t2 \<and> (\<forall>k. int (svc_users t2 k) = int (svc_users t k)
        + entities_demand ?G (int cid) added k - entities_demand ?G (int cid) removed k)"
  proof (cases log)
    case None
    with c eff inv1 show ?thesis by (auto simp: same_books_def same_keys_def svc_users_def t0)
  next
    case (Some l)
    with c have c': "commit ops l ?t1 w = Some (None, t2, w')" by simp
    have "doneCounter l = - 1" using eff Some by simp
    note c_ok = commit_ok [OF inv1 this c']
    have "svc_users ?t1 = svc_users t" by (simp add: svc_users_def t0 fun_eq_iff)
    with c_ok(1-3) commit_keys [OF inv1 c'] eff Some show ?thesis by simp
  qed
  moreover have "t' = t2\<lparr>intentState := gm_put ?i (requested_state req desired) (intentState t2),
      intentLocks := gm_put ?i False (intentLocks t2)\<rparr>"
    using u by (auto simp: unlockIntent_def split: option.splits if_splits)
  ultimately show thesis
    using that [OF desired wf alloc plan] t0 same
    by (auto simp: same_books_def same_keys_def svc_users_def fun_eq_iff split: option.splits)
qed

text \<open>The other outcomes. An answer that is not OK leaves the intents' states alone; the lock of the
  intent is free again, or gone when the intent has no state.\<close>

definition lock_released :: "telemetry_service \<Rightarrow> string \<Rightarrow> telemetry_service \<Rightarrow> bool" where
  "lock_released t i t' \<longleftrightarrow>
     gm_get (intentLocks t) i \<noteq> Some True
     \<and> gm_get (intentLocks t') = (gm_get (intentLocks t))(i :=
         (if gm_get (intentState t) i = None then None else Some False))
     \<and> intentState t' = intentState t \<and> svcRegistry t' = svcRegistry t"

lemma finish_failed:
  assumes "lockIntent i t = (True, t0)" and "(if gm_get (intentState t) i \<noteq> None then unlockIntent i t2
             else Some (deleteIntentLock i (t2\<lparr>collectionIdPool := pool2\<rparr>))) = Some t3"
    and "intentLocks t2 = intentLocks t0" and "intentState t2 = intentState t0" and "svcRegistry t2 = svcRegistry t0"
  shows "lock_released t i t3 \<and> counters t3 = counters t2
     \<and> collectionIdPool t3 = (if gm_get (intentState t) i = None then pool2 else collectionIdPool t2)"
  using assms
  by (auto simp: lockIntent_def unlockIntent_def deleteIntentLock_def lock_released_def fun_eq_iff
      split: option.splits if_splits)

lemma configure_not_ok:
  assumes inv: "counters_inv (counters t)" and ords: "entry_orders_ok ordA" "entry_orders_ok ordR"
    and step: "ConfigureTelemetry ops ords ordA ordR req topo t w = Some (resp, t', w')"
    and ok: "telemetryState resp \<noteq> TelemetryOK"
  obtains
    (busy) "telemetryState resp = InProgress" "gm_get (intentLocks t) (IntentId req) = Some True" "t' = t" "w' = w"
  | (rejected) "telemetryState resp = Failed" "lock_released t (IntentId req) t'" "counters t' = counters t" "w' = w"
      "collectionIdPool t' = collectionIdPool t"
      "(\<exists>cur. gm_get (intentState t) (IntentId req) = Some cur \<and> stCollectionId cur \<noteq> CollectionId req)
       \<or> (\<exists>er. AllocOrGet (IntentId req) (CollectionId req) (collectionIdPool t) = Some (Inl er, collectionIdPool t))"
  | (undone) desired added removed cid pool1 log undone where
      "telemetryState resp = Failed" "lock_released t (IntentId req) t'" "counters_inv (counters t')" "same_keys t t'"
      "findTelemetryEntitiesForRequest (svcRegistry t) ords req (TopologyToGraph topo) = Some desired"
      "planned_changes t (IntentId req) desired = (added, removed)"
      "AllocOrGet (IntentId req) (CollectionId req) (collectionIdPool t) = Some (Inr cid, pool1)"
      "plan_changes ordA ordR (TopologyToGraph topo) (getSwitchIds topo) req (int cid) added removed = Some (Some log)"
      "\<And>cur. gm_get (intentState t) (IntentId req) = Some cur \<Longrightarrow> stCollectionId cur = CollectionId req"
      "collectionIdPool t' = (if gm_get (intentState t) (IntentId req) = None
         then Free (IntentId req) (CollectionId req) pool1 else pool1)"
      "set undone \<subseteq> set (actions log)" "\<And>k. int (svc_users t' k) = int (svc_users t k) + effects undone k"
      "\<And>wr del. ops = reliable_delete wr del \<Longrightarrow> list_all isCreate (actions log) \<Longrightarrow> svc_users t' = svc_users t"
proof -
  let ?G = "TopologyToGraph topo" and ?i = "IntentId req"
  obtain b t0 where lock: "lockIntent ?i t = (b, t0)" by (cases "lockIntent ?i t")
  show thesis
  proof (cases b)
    case False
    with step lock have "t' = t0" "w' = w" "telemetryState resp = InProgress"
      by (auto simp: ConfigureTelemetry_def)
    moreover have "t0 = t" "gm_get (intentLocks t) ?i = Some True"
      using lock False by (auto simp: lockIntent_def split: option.splits if_splits)
    ultimately show thesis using busy by simp
  next
    case True
    with lock have lock: "lockIntent ?i t = (True, t0)" by simp
    have t0: "t0 = t\<lparr>intentLocks := gm_put ?i True (intentLocks t)\<rparr>"
      using lock by (auto simp: lockIntent_def split: option.splits if_splits)
    from step lock obtain desired where desired: "findTelemetryEntitiesForRequest (svcRegistry t) ords req ?G = Some desired"
      by (auto simp: ConfigureTelemetry_def Let_def t0 split: Option.bind_splits)
    show thesis
    proof (cases "\<exists>cur. gm_get (intentState t) ?i = Some cur \<and> stCollectionId cur \<noteq> CollectionId req")
      case True
      with step lock desired have u: "unlockIntent ?i t0 = Some t'" "w' = w" "telemetryState resp = Failed"
        by (auto simp: ConfigureTelemetry_def Let_def t0 configure_failed_def split: Option.bind_splits)
      have "lock_released t ?i t' \<and> counters t' = counters t0 \<and> collectionIdPool t' = collectionIdPool t0"
        using finish_failed [OF lock, of t0 undefined t'] u True by auto
      with True u t0 show thesis by (intro rejected) auto
    next
      case False
      then have same: "\<And>cur. gm_get (intentState t) ?i = Some cur \<Longrightarrow> stCollectionId cur = CollectionId req" by blast
      have nodiff: "\<not> (case gm_get (intentState t) ?i of Some cur \<Rightarrow> stCollectionId cur \<noteq> CollectionId req | None \<Rightarrow> False)"
        using same by (auto split: option.splits)
      obtain added removed where plan: "planned_changes t ?i desired = (added, removed)"
        by (cases "planned_changes t ?i desired")
      obtain alloc pool1 where alloc: "AllocOrGet ?i (CollectionId req) (collectionIdPool t) = Some (alloc, pool1)"
        using step lock desired nodiff plan
        by (auto simp: ConfigureTelemetry_def Let_def t0 planned_changes_def split: Option.bind_splits)
      let ?t1 = "t0\<lparr>collectionIdPool := pool1\<rparr>"
      show thesis
      proof (cases alloc)
        case (Inl er)
        have p1: "pool1 = collectionIdPool t"
          using alloc Inl by (auto simp: AllocOrGet_def Let_def split: option.splits if_splits)
        have u: "(if gm_get (intentState t) ?i \<noteq> None then unlockIntent ?i ?t1
             else Some (deleteIntentLock ?i (?t1\<lparr>collectionIdPool := pool1\<rparr>))) = Some t'" "w' = w" "telemetryState resp = Failed"
          using step lock desired nodiff plan alloc Inl
          by (auto simp: ConfigureTelemetry_def Let_def t0 planned_changes_def configure_failed_def split: Option.bind_splits)
        from finish_failed [OF lock u(1)] t0 p1 u alloc Inl show thesis
          by (intro rejected) auto
      next
        case (Inr cid)
        obtain log0 where log0: "plan_changes ordA ordR ?G (getSwitchIds topo) req (int cid) added removed = Some log0"
          using step lock desired nodiff plan alloc Inr
          by (auto simp: ConfigureTelemetry_def Let_def t0 planned_changes_def split: Option.bind_splits)
        have c0: "\<exists>er t2. (case log0 of Some l \<Rightarrow> commit ops l ?t1 w | None \<Rightarrow> Some (None, ?t1, w)) = Some (Some er, t2, w')
            \<and> (if gm_get (intentState t) ?i \<noteq> None then unlockIntent ?i t2
               else Some (deleteIntentLock ?i (t2\<lparr>collectionIdPool := Free ?i (CollectionId req) (collectionIdPool t2)\<rparr>))) = Some t'
            \<and> telemetryState resp = Failed"
          using step ok lock desired nodiff plan alloc Inr log0
          by (auto simp: ConfigureTelemetry_def Let_def t0 planned_changes_def configure_failed_def
              split: Option.bind_splits option.splits)
        then obtain er t2 log where log: "log0 = Some log" and c: "commit ops log ?t1 w = Some (Some er, t2, w')"
          and u: "(if gm_get (intentState t) ?i \<noteq> None then unlockIntent ?i t2
               else Some (deleteIntentLock ?i (t2\<lparr>collectionIdPool := Free ?i (CollectionId req) (collectionIdPool t2)\<rparr>))) = Some t'"
          and f: "telemetryState resp = Failed"
          by (cases log0) auto
        have inv1: "counters_inv (counters ?t1)" using inv t0 by simp
        note wf = planned_changes_wf [OF find_entities_wf [OF desired] plan]
        have "doneCounter log = - 1"
          using plan_changes_effects [OF log0 ords wf [THEN conjunct1] wf [THEN conjunct2]] log by simp
        note e = commit_err [OF inv1 this c]
        from e(3) obtain undone where undo: "set undone \<subseteq> set (actions log)"
          "\<And>k. int (svc_users t2 k) = int (svc_users ?t1 k) + effects undone k" by blast
        have users: "svc_users ?t1 = svc_users t" by (simp add: svc_users_def t0 fun_eq_iff)
        note r = finish_failed [OF lock u]
        have "lock_released t ?i t' \<and> counters t' = counters t2
            \<and> collectionIdPool t' = (if gm_get (intentState t) ?i = None then Free ?i (CollectionId req) (collectionIdPool t2) else collectionIdPool t2)"
          by (rule r) (use e(1) in \<open>auto simp: same_books_def\<close>)
        moreover have "svc_users t' = svc_users t2" using calculation by (simp add: svc_users_def)
        moreover have "svc_users t2 = svc_users t"
          if "ops = reliable_delete wr del" "list_all isCreate (actions log)" for wr del
          using commit_creates [OF inv1 _ that(2) c [unfolded that(1)]] \<open>doneCounter log = - 1\<close> users by simp
        ultimately show thesis
          using e(1,2) undo users log log0 commit_keys [OF inv1 c]
          by (intro undone [OF f _ _ _ desired plan _ _ same]) (auto simp: same_books_def same_keys_def t0 alloc Inr)
      qed
    qed
  qed
qed

lemma makeApply_creates: "list_all isCreate (actions (makeApplyChangelog es))"
  by (auto simp: makeApplyChangelog_def newChangeLog_def newCreateAction_def list_all_iff)

lemma plan_new_creates:
  assumes "plan_changes ordA ordR G ids req cid added newTelemetryEntities = Some (Some log)"
  shows "list_all isCreate (actions log)"
  using assms makeApply_creates
  by (auto simp: plan_changes_def IsEmpty_def newTelemetryEntities_def split: Option.bind_splits if_splits)

end
