(* ===== verification/ServiceSystem.thy ===== *)
theory ServiceSystem
  imports ServiceProofs
begin

text \<open>
  The telemetry service as a system of steps: configure and disable calls, and the goroutines that
  disable calls start, which run later and between which other calls may come. The invariant ties
  together the intents' locks, their stored states, the collection id pool and the pending
  goroutines.
\<close>

section \<open>Who holds a collection id\<close>

definition holds_id :: "id_pool \<Rightarrow> string \<Rightarrow> string \<Rightarrow> bool" where
  "holds_id p i c \<longleftrightarrow> GetIfAllocated i c p \<noteq> None"

lemma holds_id_iff:
  "pool_inv p \<Longrightarrow> holds_id p i c \<longleftrightarrow> (\<exists>k S. allocations_of p c = Some (k, S) \<and> i \<in> S)"
  using owned_index [of p i c] by (auto simp: holds_id_def GetIfAllocated_def)

lemma holds_id_alloc:
  assumes "pool_inv p" and "c \<noteq> []" and "AllocOrGet i c p = Some (Inr k, p')"
  shows "pool_inv p' \<and> (\<forall>j d. holds_id p' j d \<longleftrightarrow> holds_id p j d \<or> (j = i \<and> d = c)) \<and> GetIfAllocated i c p' = Some k"
proof -
  have "pool_inv p' \<and> (\<forall>j d. holds_id p' j d \<longleftrightarrow> holds_id p j d \<or> (j = i \<and> d = c))"
    by (rule ids.acquire_cases [OF assms(1,2), of i]) (use assms in \<open>auto simp: holds_id_iff\<close>)
  moreover have "GetIfAllocated i c p' = Some k"
    using ids.acquire_ok [OF assms] calculation owned_index [of p' i c k] by (simp add: GetIfAllocated_def)
  ultimately show ?thesis by blast
qed

lemma holds_id_free:
  assumes "pool_inv p"
  shows "pool_inv (Free i c p) \<and> (\<forall>j d. holds_id (Free i c p) j d \<longleftrightarrow> holds_id p j d \<and> \<not> (j = i \<and> d = c))"
  using Free_refines [OF assms, of i c] assms
  by (auto simp: holds_id_iff released_def split: option.splits if_splits)

lemma holds_id_newPool: "\<not> holds_id (newPool n) i c"
proof -
  have "GetIfAllocated i c (newPool n) = None"
    by (auto simp: GetIfAllocated_def first_index_None newPool_def item_owned_def free_item_def)
  then show ?thesis by (simp add: holds_id_def)
qed

section \<open>The goroutine of a disable call\<close>

lemma background_cases:
  assumes step: "disable_background ops ords i topo t w = Some (t', w')"
    and inv: "counters_inv (counters t)" and ords: "entry_orders_ok ords"
    and cur: "gm_get (intentState t) i = Some cur" and wf: "entities_wf (stEntities cur)"
  obtains
    (kept) "intentState t' = intentState t" "collectionIdPool t' = collectionIdPool t" "counters_inv (counters t')"
      "gm_get (intentLocks t) i = Some True"
      "gm_get (intentLocks t') = (gm_get (intentLocks t))(i \<mapsto> False)" "svcRegistry t' = svcRegistry t" "same_keys t t'"
  | (removed) cid where "GetIfAllocated i (stCollectionId cur) (collectionIdPool t) = Some cid"
      "intentState t' = gm_del i (intentState t)"
      "collectionIdPool t' = Free i (stCollectionId cur) (collectionIdPool t)" "counters_inv (counters t')"
      "gm_get (intentLocks t') = (gm_get (intentLocks t))(i := None)" "svcRegistry t' = svcRegistry t" "same_keys t t'"
      "\<And>k. int (svc_users t' k) = int (svc_users t k)
         - entities_demand (TopologyToGraph topo) (int cid) (stEntities cur) k"
proof -
  let ?G = "TopologyToGraph topo"
  from step cur obtain cid es er t1 where cid: "GetIfAllocated i (stCollectionId cur) (collectionIdPool t) = Some cid"
    and es: "getEntriesForTelemetryEntities ords ?G (getSwitchIds topo) (stEntities cur)
        (stCollectorNodeName cur) (stCollectorPort cur) (int cid) = Some es"
    and c: "commit ops (makeDeleteChangelog es) t w = Some (er, t1, w')"
    and rest: "(case er of Some e \<Rightarrow> unlockIntent i t1
        | None \<Rightarrow> Some (deleteIntentLock i (t1\<lparr>intentState := gm_del i (intentState t1),
            collectionIdPool := Free i (stCollectionId cur) (collectionIdPool t1)\<rparr>))) = Some t'"
    by (auto simp: disable_background_def Let_def split: Option.bind_splits option.splits)
  have keys: "same_keys t t1" by (rule commit_keys [OF inv c])
  show thesis
  proof (cases er)
    case None
    note ok = commit_ok [OF inv _ c [unfolded None]]
    have books: "same_books t t1" "counters_inv (counters t1)"
      and users: "\<And>k. int (svc_users t1 k) = int (svc_users t k) - demand es k"
      using ok by (simp_all add: effects_remove)
    have "t' = deleteIntentLock i (t1\<lparr>intentState := gm_del i (intentState t1),
            collectionIdPool := Free i (stCollectionId cur) (collectionIdPool t1)\<rparr>)"
      using rest None by simp
    then show thesis
      using books users demand_entities [OF es ords wf] keys
      by (intro removed [OF cid]) (auto simp: deleteIntentLock_def same_books_def same_keys_def svc_users_def fun_eq_iff)
  next
    case (Some e)
    note err = commit_err [OF inv _ c [unfolded Some]]
    have "same_books t t1" "counters_inv (counters t1)" using err by simp_all
    moreover have "unlockIntent i t1 = Some t'" using rest Some by simp
    ultimately show thesis
      using keys by (intro kept) (auto simp: unlockIntent_def same_books_def same_keys_def fun_eq_iff split: option.splits if_splits)
  qed
qed

section \<open>Steps and the invariant\<close>

text \<open>
  The calls and the goroutines run one at a time here, each as one step from its beginning to its
  end. The code only locks the intent that a call works on, so calls for different intents may
  overlap there; theory \<open>PoolConcurrent\<close> has what that means for the pool. An action names the
  call, with its request, or the goroutine. Nothing is assumed of a request: a theorem about runs
  says in its hypotheses which requests it allows.
\<close>

type_synonym 'w svc_state = "telemetry_service \<times> 'w \<times> string list"

datatype svc_action =
  SvcConfigure configure_telemetry_request
| SvcDisable string
| SvcBackground string

inductive svc_step :: "'w device_ops \<Rightarrow> svc_action \<Rightarrow> 'w svc_state \<Rightarrow> 'w svc_state \<Rightarrow> bool" for ops where
  configure: "\<lbrakk>entry_orders_ok ordA; entry_orders_ok ordR;
      ConfigureTelemetry ops ords ordA ordR req topo t w = Some (resp, t', w')\<rbrakk>
    \<Longrightarrow> svc_step ops (SvcConfigure req) (t, w, pending) (t', w', pending)"
| disable: "DisableTelemetry i t = (retry, t', spawned)
    \<Longrightarrow> svc_step ops (SvcDisable i) (t, w, pending) (t', w, if spawned then i # pending else pending)"
| background: "\<lbrakk>i \<in> set pending; entry_orders_ok ords; disable_background ops ords i topo t w = Some (t', w')\<rbrakk>
    \<Longrightarrow> svc_step ops (SvcBackground i) (t, w, pending) (t', w', remove1 i pending)"

inductive_cases svc_stepE: "svc_step ops a s s'"

definition svc_start :: "registry \<Rightarrow> (nat \<Rightarrow> capability_update observer) \<Rightarrow> topology \<Rightarrow> 'w \<Rightarrow> 'w svc_state" where
  "svc_start r st topo w = (InitDevices topo (NewService r st), w, [])"

text \<open>A run: the actions in the order they are taken.\<close>

inductive svc_run :: "'w device_ops \<Rightarrow> 'w svc_state \<Rightarrow> svc_action list \<Rightarrow> 'w svc_state \<Rightarrow> bool" for ops s0 where
  start: "svc_run ops s0 [] s0"
| step: "\<lbrakk>svc_run ops s0 acts s; svc_step ops a s s'\<rbrakk> \<Longrightarrow> svc_run ops s0 (acts @ [a]) s'"

definition service_inv :: "telemetry_service \<Rightarrow> string list \<Rightarrow> bool" where
  "service_inv t pending \<longleftrightarrow>
     counters_inv (counters t) \<and> pool_inv (collectionIdPool t) \<and> distinct pending
     \<and> (\<forall>i. gm_get (intentLocks t) i = Some True \<longleftrightarrow> i \<in> set pending)
     \<and> (\<forall>i. gm_get (intentLocks t) i = None \<longleftrightarrow> gm_get (intentState t) i = None)
     \<and> (\<forall>i cur. gm_get (intentState t) i = Some cur \<longrightarrow> stCollectionId cur \<noteq> [] \<and> entities_wf (stEntities cur))
     \<and> (\<forall>i c. holds_id (collectionIdPool t) i c \<longleftrightarrow> (\<exists>cur. gm_get (intentState t) i = Some cur \<and> stCollectionId cur = c))"

lemma InitDevices_fields:
  "intentLocks (InitDevices topo t) = intentLocks t \<and> intentState (InitDevices topo t) = intentState t
   \<and> collectionIdPool (InitDevices topo t) = collectionIdPool t \<and> svcRegistry (InitDevices topo t) = svcRegistry t
   \<and> counters (InitDevices topo t) = (\<lambda>c. fold AddDevice (gm_keys (getSwitchIds topo)) (counters t c))"
proof -
  have "intentLocks (fold (\<lambda>n s. s\<lparr>counters := (\<lambda>c. AddDevice n (counters s c))\<rparr>) ns t) = intentLocks t
   \<and> intentState (fold (\<lambda>n s. s\<lparr>counters := (\<lambda>c. AddDevice n (counters s c))\<rparr>) ns t) = intentState t
   \<and> collectionIdPool (fold (\<lambda>n s. s\<lparr>counters := (\<lambda>c. AddDevice n (counters s c))\<rparr>) ns t) = collectionIdPool t
   \<and> svcRegistry (fold (\<lambda>n s. s\<lparr>counters := (\<lambda>c. AddDevice n (counters s c))\<rparr>) ns t) = svcRegistry t
   \<and> counters (fold (\<lambda>n s. s\<lparr>counters := (\<lambda>c. AddDevice n (counters s c))\<rparr>) ns t) = (\<lambda>c. fold AddDevice ns (counters t c))" for ns
    by (induction ns arbitrary: t) simp_all
  then show ?thesis by (simp add: InitDevices_def)
qed

lemma fold_AddDevice_inv: "counter_inv s \<Longrightarrow> counter_inv (fold AddDevice ns s)"
  by (induction ns arbitrary: s) (simp_all add: AddDevice_inv)

lemma service_inv_start: "service_inv (InitDevices topo (NewService r st)) []"
  using InitDevices_fields [of topo "NewService r st"] holds_id_newPool [of 128]
  by (simp add: service_inv_def NewService_def counters_inv_def fold_AddDevice_inv newStateCounter_inv newPool_inv)

lemma service_inv_configure:
  assumes inv: "service_inv t pending" and cid: "CollectionId req \<noteq> []"
    and ords: "entry_orders_ok ordA" "entry_orders_ok ordR"
    and step: "ConfigureTelemetry ops ords ordA ordR req topo t w = Some (resp, t', w')"
  shows "service_inv t' pending"
proof -
  note i = inv [unfolded service_inv_def]
  have ci: "counters_inv (counters t)" and pi: "pool_inv (collectionIdPool t)" using i by auto
  show ?thesis
  proof (cases "telemetryState resp = TelemetryOK")
    case True
    from configure_ok [OF ci ords step True] obtain desired cid pool1 added removed where
      ok: "entities_wf desired" "AllocOrGet (IntentId req) (CollectionId req) (collectionIdPool t) = Some (Inr cid, pool1)"
      "collectionIdPool t' = pool1" "counters_inv (counters t')"
      "intentState t' = gm_put (IntentId req) (requested_state req desired) (intentState t)"
      "gm_get (intentLocks t) (IntentId req) \<noteq> Some True"
      "gm_get (intentLocks t') = (gm_get (intentLocks t))(IntentId req \<mapsto> False)"
      "\<And>cur. gm_get (intentState t) (IntentId req) = Some cur \<Longrightarrow> stCollectionId cur = CollectionId req"
      by metis
    from holds_id_alloc [OF pi assms(2) ok(2)] i ok assms(2) show ?thesis
      unfolding service_inv_def by (auto simp: requested_state_def)
  next
    case False
    show ?thesis
    proof (cases rule: configure_not_ok [OF ci ords step False, case_names busy rejected undone])
      case busy
      with inv show ?thesis by simp
    next
      case rejected
      with i show ?thesis unfolding service_inv_def lock_released_def by auto
    next
      case (undone desired added removed cid pool1 log undone)
      note h = holds_id_alloc [OF pi assms(2) undone(7)]
      show ?thesis
      proof (cases "gm_get (intentState t) (IntentId req)")
        case None
        note f = holds_id_free [OF h [THEN conjunct1], of "IntentId req" "CollectionId req"]
        from None i have "\<not> holds_id (collectionIdPool t) (IntentId req) (CollectionId req)" by auto
        with None undone(2,3,10) h f i show ?thesis
          unfolding service_inv_def lock_released_def by auto
      next
        case (Some cur)
        with undone(9) i have "holds_id (collectionIdPool t) (IntentId req) (CollectionId req)" by blast
        with Some undone(2,3,10) h i show ?thesis
          unfolding service_inv_def lock_released_def by auto
      qed
    qed
  qed
qed

lemma service_inv_disable:
  assumes inv: "service_inv t pending" and step: "DisableTelemetry i t = (retry, t', spawned)"
  shows "service_inv t' (if spawned then i # pending else pending)"
proof (cases "gm_get (intentLocks t) i = Some False")
  case True
  with inv have "i \<notin> set pending" "gm_get (intentState t) i \<noteq> None"
    unfolding service_inv_def by (metis option.inject, metis option.distinct(1))
  with True assms show ?thesis
    unfolding service_inv_def DisableTelemetry_def tryLockIntentIfExists_def by (auto split: if_splits)
next
  case False
  then have "t' = t" "\<not> spawned"
    using step unfolding DisableTelemetry_def tryLockIntentIfExists_def
    by (auto split: option.splits if_splits)
  with inv show ?thesis by simp
qed

lemma service_inv_background:
  assumes inv: "service_inv t pending" and i: "i \<in> set pending" and ords: "entry_orders_ok ords"
    and step: "disable_background ops ords i topo t w = Some (t', w')"
  shows "service_inv t' (remove1 i pending)"
proof -
  note inv' = inv [unfolded service_inv_def]
  from inv' i obtain cur where cur: "gm_get (intentState t) i = Some cur" and wf: "entities_wf (stEntities cur)"
    by (metis option.distinct(1) option.exhaust)
  have ci: "counters_inv (counters t)" and pi: "pool_inv (collectionIdPool t)" using inv' by auto
  show ?thesis
  proof (cases rule: background_cases [OF step ci ords cur wf, case_names kept removed])
    case kept
    with inv' cur show ?thesis unfolding service_inv_def by auto
  next
    case (removed cid)
    note f = holds_id_free [OF pi, of i "stCollectionId cur"]
    from removed f inv' cur show ?thesis unfolding service_inv_def by auto
  qed
qed

lemma svc_step_inv:
  assumes "svc_step ops a (t, w, pending) (t', w', pending')" and "service_inv t pending"
    and "\<And>req. a = SvcConfigure req \<Longrightarrow> CollectionId req \<noteq> []"
  shows "service_inv t' pending'"
  using assms(1)
proof (cases rule: svc_step.cases)
  case (configure ordA ordR ords req topo resp)
  then show ?thesis using service_inv_configure [OF assms(2)] assms(3) by metis
next
  case (disable i retry spawned)
  then show ?thesis using service_inv_disable [OF assms(2)] by metis
next
  case (background i ords topo)
  then show ?thesis using service_inv_background [OF assms(2)] by metis
qed

lemma svc_run_inv:
  "\<lbrakk>svc_run ops s0 acts s; \<And>req. SvcConfigure req \<in> set acts \<Longrightarrow> CollectionId req \<noteq> [];
     service_inv (fst s0) (snd (snd s0))\<rbrakk> \<Longrightarrow> service_inv (fst s) (snd (snd s))"
proof (induction rule: svc_run.induct)
  case (step acts s a s')
  obtain t w pending where s: "s = (t, w, pending)" by (cases s)
  obtain t' w' pending' where s': "s' = (t', w', pending')" by (cases s')
  have named: "CollectionId req \<noteq> []" if "SvcConfigure req \<in> set (acts @ [a])" for req
    using step.prems(1) that by blast
  have "service_inv t pending" using step.IH step.prems(2) named s by simp
  then have "service_inv t' pending'"
    using svc_step_inv [OF step.hyps(2) [unfolded s s']] named by simp
  then show ?case using s' by simp
qed simp

section \<open>Round trip and update\<close>

lemma entities_demand_moves:
  assumes "computeDifferences old new = (added, removed)" and "entities_wf old" and "entities_wf new"
    and "fst k \<noteq> ActivateSourceCounter"
    and "fst k = ConfigureSourceCounter \<Longrightarrow> distinct_confs old \<and> distinct_confs new"
  shows "entities_demand G cid added k - entities_demand G cid removed k
       = entities_demand G cid new k - entities_demand G cid old k"
proof -
  note sums = computeDifferences_sums [OF assms(1-3)]
  have h: "(\<Sum>(e, cs)\<leftarrow>Sources new. \<Sum>c\<leftarrow>cs. conf_demand k e c) + (\<Sum>(e, cs)\<leftarrow>Sources removed. \<Sum>c\<leftarrow>cs. conf_demand k e c)
       = (\<Sum>(e, cs)\<leftarrow>Sources old. \<Sum>c\<leftarrow>cs. conf_demand k e c) + (\<Sum>(e, cs)\<leftarrow>Sources added. \<Sum>c\<leftarrow>cs. conf_demand k e c)"
    if "fst k = ConfigureSourceCounter"
    using sums(3) assms(5) [OF that] by blast
  show ?thesis
    using sums(1) [of "edge_demand G cid k"]
      sums(2) [of "\<lambda>d. of_bool (k = (TransitStateCounter, d, ToIdentifier ConfigureTransitKey))"] h assms(4)
    by (cases "fst k") (simp_all add: entities_demand_def)
qed

lemma disable_unlocked:
  assumes "DisableTelemetry i t = (retry, t', True)"
  shows "gm_get (intentLocks t) i = Some False \<and> \<not> retry
     \<and> t' = t\<lparr>intentLocks := gm_put i True (intentLocks t)\<rparr>"
  using assms by (auto simp: DisableTelemetry_def tryLockIntentIfExists_def split: option.splits if_splits)

lemma configure_then_disable:
  assumes inv: "service_inv t pending" and cid: "CollectionId req \<noteq> []"
    and fresh: "gm_get (intentState t) (IntentId req) = None"
    and ords: "entry_orders_ok ordA" "entry_orders_ok ordR" "entry_orders_ok ordD"
    and conf: "ConfigureTelemetry ops ords ordA ordR req topo t w = Some (resp, t1, w1)"
      "telemetryState resp = TelemetryOK"
    and dis: "DisableTelemetry (IntentId req) t1 = (retry, t2, True)"
    and bg: "disable_background ops ordD (IntentId req) topo t2 w1 = Some (t3, w3)"
      "gm_get (intentState t3) (IntentId req) = None"
  shows "svc_users t3 = svc_users t \<and> gm_get (intentState t3) = gm_get (intentState t)
     \<and> gm_get (intentLocks t3) = gm_get (intentLocks t)
     \<and> allocations_of (collectionIdPool t3) = allocations_of (collectionIdPool t)"
proof -
  let ?i = "IntentId req" and ?G = "TopologyToGraph topo"
  note i = inv [unfolded service_inv_def]
  have ci: "counters_inv (counters t)" and pi: "pool_inv (collectionIdPool t)" using i by auto
  from configure_ok [OF ci ords(1,2) conf] obtain desired n pool1 added removed where
    ok: "entities_wf desired" "AllocOrGet ?i (CollectionId req) (collectionIdPool t) = Some (Inr n, pool1)"
      "planned_changes t ?i desired = (added, removed)" "collectionIdPool t1 = pool1" "counters_inv (counters t1)"
      "\<And>k. int (svc_users t1 k) = int (svc_users t k) + entities_demand ?G (int n) added k - entities_demand ?G (int n) removed k"
      "intentState t1 = gm_put ?i (requested_state req desired) (intentState t)"
      "gm_get (intentLocks t1) = (gm_get (intentLocks t))(?i \<mapsto> False)"
    by metis
  have added: "added = desired" "removed = newTelemetryEntities"
    using ok(3) fresh by (auto simp: planned_changes_def)
  have users1: "int (svc_users t1 k) = int (svc_users t k) + entities_demand ?G (int n) desired k" for k
    using ok(6) [of k] demand_empty [of newTelemetryEntities ?G "int n" k]
    by (simp add: added IsEmpty_def newTelemetryEntities_def)
  have t2: "t2 = t1\<lparr>intentLocks := gm_put ?i True (intentLocks t1)\<rparr>"
    using disable_unlocked [OF dis] by simp
  let ?cur = "requested_state req desired"
  have cur: "gm_get (intentState t2) ?i = Some ?cur" and ci2: "counters_inv (counters t2)"
    and wf: "entities_wf (stEntities ?cur)"
    using ok by (simp_all add: t2 requested_state_def)
  note alloc = holds_id_alloc [OF pi cid ok(2)]
  have notheld: "GetIfAllocated ?i (CollectionId req) (collectionIdPool t) = None"
  proof -
    have "\<not> holds_id (collectionIdPool t) ?i (CollectionId req)" using i fresh by simp
    then show ?thesis by (simp add: holds_id_def)
  qed
  have locks: "gm_get (intentLocks t) ?i = None" using i fresh by blast
  have users2: "svc_users t2 = svc_users t1" by (simp add: t2 svc_users_def fun_eq_iff)
  show ?thesis
  proof (cases rule: background_cases [OF bg(1) ci2 ords(3) cur wf, case_names kept removed])
    case kept
    with cur bg(2) show ?thesis by simp
  next
    case (removed m)
    have "m = n" using removed(1) alloc ok(4) by (simp add: t2 requested_state_def)
    have "svc_users t3 k = svc_users t k" for k
      using removed(8) [of k] users1 [of k] by (simp add: users2 \<open>m = n\<close> requested_state_def)
    moreover have "allocations_of (collectionIdPool t3) = allocations_of (collectionIdPool t)"
      using ids.acquire_release [OF pi cid ok(2)] owned_index [OF pi, of ?i "CollectionId req"] notheld removed(3) ok(4)
      by (simp add: t2 requested_state_def GetIfAllocated_def)
    moreover have "gm_get (intentState t3) = gm_get (intentState t)"
      using removed(2) ok(7) fresh by (auto simp: t2 fun_eq_iff)
    moreover have "gm_get (intentLocks t3) = gm_get (intentLocks t)"
      using removed(5) ok(8) locks by (auto simp: t2 fun_eq_iff)
    ultimately show ?thesis by blast
  qed
qed

lemma configure_update:
  assumes inv: "service_inv t pending" and cid: "CollectionId req \<noteq> []"
    and cur: "gm_get (intentState t) (IntentId req) = Some cur"
    and ords: "entry_orders_ok ordA" "entry_orders_ok ordR"
    and conf: "ConfigureTelemetry ops ords ordA ordR req topo t w = Some (resp, t', w')"
      "telemetryState resp = TelemetryOK"
  obtains desired n where
    "findTelemetryEntitiesForRequest (svcRegistry t) ords req (TopologyToGraph topo) = Some desired"
    "gm_get (intentState t') (IntentId req) = Some (requested_state req desired)"
    "GetIfAllocated (IntentId req) (stCollectionId cur) (collectionIdPool t) = Some n"
    "\<And>k. fst k \<noteq> ActivateSourceCounter \<Longrightarrow>
       (fst k = ConfigureSourceCounter \<Longrightarrow> distinct_confs (stEntities cur) \<and> distinct_confs desired) \<Longrightarrow>
       int (svc_users t' k) = int (svc_users t k)
         + entities_demand (TopologyToGraph topo) (int n) desired k
         - entities_demand (TopologyToGraph topo) (int n) (stEntities cur) k"
proof -
  let ?i = "IntentId req" and ?G = "TopologyToGraph topo"
  note i = inv [unfolded service_inv_def]
  have ci: "counters_inv (counters t)" and pi: "pool_inv (collectionIdPool t)" using i by auto
  from configure_ok [OF ci ords conf] obtain desired n pool1 added removed where
    ok: "findTelemetryEntitiesForRequest (svcRegistry t) ords req ?G = Some desired" "entities_wf desired"
      "AllocOrGet ?i (CollectionId req) (collectionIdPool t) = Some (Inr n, pool1)"
      "planned_changes t ?i desired = (added, removed)"
      "\<And>k. int (svc_users t' k) = int (svc_users t k) + entities_demand ?G (int n) added k - entities_demand ?G (int n) removed k"
      "intentState t' = gm_put ?i (requested_state req desired) (intentState t)"
      "stCollectionId cur = CollectionId req"
    using cur by metis
  have diff: "computeDifferences (stEntities cur) desired = (added, removed)"
    using ok(4) cur by (simp add: planned_changes_def)
  have wf: "entities_wf (stEntities cur)" using i cur by blast
  have "holds_id (collectionIdPool t) ?i (CollectionId req)" using i cur ok(7) by blast
  then obtain S m where S: "allocations_of (collectionIdPool t) (CollectionId req) = Some (m, S)" "?i \<in> S"
    by (auto simp: holds_id_iff [OF pi])
  have "m = n"
    using ids.acquire_shared [OF pi cid S(1), of ?i] ok(3) by auto
  then have "GetIfAllocated ?i (stCollectionId cur) (collectionIdPool t) = Some n"
    using S owned_index [OF pi] ok(7) by (simp add: GetIfAllocated_def)
  then show thesis
    using that [OF ok(1)] entities_demand_moves [OF diff wf ok(2)] ok(5,6) by auto
qed

end
