(* ===== verification/SampleNetwork.thy ===== *)
theory SampleNetwork
  imports ServiceSystem
begin

text \<open>
  A small network on which the theorems about the telemetry service are instantiated: two
  telemetry switches \<open>s1\<close> and \<open>s2\<close> in a row, the host \<open>h1\<close> on the first and the hosts \<open>h2\<close>, \<open>h3\<close> and
  the collector \<open>c\<close> on the second. Its devices accept every entry.
\<close>

definition sample_link :: "device_name \<Rightarrow> string \<Rightarrow> link" where
  "sample_link to ip = NewLink to ''00:00:00:00:00:01'' ip 24"

definition sample_topo :: topology where
  "sample_topo = \<lparr>Devices =
     [Host \<lparr>Name = ''h1'', Links = [sample_link ''s1'' ''10.0.0.1'']\<rparr>,
      NewBmv2IncSwitch ''s1'' [sample_link ''h1'' ''10.0.0.2'', sample_link ''s2'' ''10.0.1.1''] ''s1:9559'' ''telemetry'',
      NewBmv2IncSwitch ''s2'' [sample_link ''s1'' ''10.0.1.2'', sample_link ''h2'' ''10.0.2.1'',
        sample_link ''h3'' ''10.0.3.1'', sample_link ''c'' ''10.0.4.1''] ''s2:9559'' ''telemetry'',
      Host \<lparr>Name = ''h2'', Links = [sample_link ''s2'' ''10.0.2.2'']\<rparr>,
      Host \<lparr>Name = ''h3'', Links = [sample_link ''s2'' ''10.0.3.2'']\<rparr>,
      Host \<lparr>Name = ''c'', Links = [sample_link ''s2'' ''10.0.4.2'']\<rparr>]\<rparr>"

definition sample_registry :: registry where
  "sample_registry = Register (NewProgramDetails ''telemetry'' [PROGRAM_INTERFACE] []) telemetry_delegate NewRegistry"

definition sample_ops :: "unit device_ops" where
  "sample_ops = \<lparr>WriteEntry = (\<lambda>d e w. Some (None, w)), DeleteEntry = (\<lambda>d e w. Some (None, w))\<rparr>"

definition sample_request :: "device_name list \<Rightarrow> configure_telemetry_request" where
  "sample_request targets =
     \<lparr>IntentId = ''intent'', CollectionId = ''col'', CollectorNodeName = ''c'', CollectorPort = 6000,
      reqSources = RawEntities [\<lparr>rawDeviceName = ''h1'', rawPort = None\<rparr>],
      reqTargets = RawEntities (map (\<lambda>t. \<lparr>rawDeviceName = t, rawPort = None\<rparr>) targets)\<rparr>"

definition sample_request_orders :: request_orders where
  "sample_request_orders = \<lparr>sourceOrder = (\<lambda>ks. ks), targetOrder = (\<lambda>i ks. ks)\<rparr>"

definition sample_orders :: entry_orders where
  "sample_orders = \<lparr>sinkOrder = (\<lambda>ks. ks), transitOrder = (\<lambda>ks. ks), sourceMapOrder = (\<lambda>ks. ks)\<rparr>"

definition quiet_observers :: "nat \<Rightarrow> capability_update observer" where
  "quiet_observers = (\<lambda>_. \<lparr>downstreamChan = [], downstreamClosed = False, stopPending = 0, stopClosed = False\<rparr>)"

definition sample_service :: telemetry_service where
  "sample_service = InitDevices sample_topo (NewService sample_registry quiet_observers)"

definition sample_configure ::
  "device_name list \<Rightarrow> telemetry_service \<Rightarrow> (configure_response \<times> telemetry_service \<times> unit) option" where
  "sample_configure targets t = ConfigureTelemetry sample_ops sample_request_orders sample_orders sample_orders
     (sample_request targets) sample_topo t ()"

lemma sample_orders_ok: "entry_orders_ok sample_orders" "orders_ok sample_request_orders"
  by (simp_all add: entry_orders_ok_def orders_ok_def sample_orders_def sample_request_orders_def)

lemma sample_service_inv: "service_inv sample_service []"
  unfolding sample_service_def by (rule service_inv_start)

lemma sample_graph: "TopologyToGraph sample_topo = map (\<lambda>d. (GetName d, d)) (Devices sample_topo)"
  by code_simp

end
