(* ===== verification/ServiceTotal.thy ===== *)
theory ServiceTotal
  imports ServiceSystem
begin

text \<open>
  The telemetry service does not panic on a sound network: connected, without dangling or one-way
  links, with the collector attached to it and no telemetry switch as target or collector.
\<close>

section \<open>Building entries\<close>

lemma find_port_total:
  assumes "graph_ok G" and "graph_connected G" and "gm_get G u = Some d" and "gm_get G v = Some e" and "u \<noteq> v"
  shows "\<exists>p. findPortLeadingToDevice G d e = Some p \<and> p < length (GetLinks d)"
proof -
  have names: "GetName d = u" "GetName e = v"
    using assms graph_namedD by (auto simp: graph_ok_def)
  from runDfs_connected [of G u v] assms obtain path where path: "runDfs G u v = Some path" "path \<noteq> []"
    "last path = u" "reversed_path G path" by (auto simp: graph_ok_def)
  then have len: "2 \<le> length path" using dfs.long_enough assms(5) by blast
  then have Suc: "Suc (length path - 2) = length path - 1" by simp
  have "path ! (length path - 1) = u" using path(2,3) by (simp add: last_conv_nth)
  then have "path ! (length path - 2) \<in> set (neighbours G u)"
    using path_forward [OF path(4), of "length path - 2"] Suc len by simp
  then have "\<exists>l \<in> set (GetLinks d). To l = path ! (length path - 2)"
    by (auto simp: neighbours_get [OF assms(3)])
  then obtain p where "first_index (\<lambda>l. To l = path ! (length path - 2)) (GetLinks d) = Some p"
    by (cases "first_index (\<lambda>l. To l = path ! (length path - 2)) (GetLinks d)") (auto simp: first_index_None)
  moreover from first_index_Some [OF this] have "p < length (GetLinks d)" by blast
  ultimately show ?thesis using path(1) len by (simp add: findPortLeadingToDevice_def names)
qed

lemma switch_edge_port:
  assumes "switch_edge r G e"
  shows "\<exists>s p. as_inc_switch G (from_dev e) = Some s \<and> MustGetPortNumberTo (IncSwitch s) (to_dev e) = Some p"
proof -
  from assms obtain d where d: "gm_get G (from_dev e) = Some d" "isCompatible r d"
    and n: "to_dev e \<in> set (neighbours G (from_dev e))"
    by (auto simp: switch_edge_def compatible_dev_def split: option.splits)
  then obtain s where s: "d = IncSwitch s" by (cases d) (auto simp: isCompatible_def)
  have "MustGetPortNumberTo (IncSwitch s) (to_dev e) \<noteq> None"
    using n MustGetPortNumberTo_None [of "IncSwitch s" "to_dev e"] by (auto simp: neighbours_get [OF d(1)] s)
  with d s show ?thesis by (auto simp: as_inc_switch_Some)
qed

lemma sink_config_total:
  assumes G: "graph_ok G" "graph_connected G" and e: "switch_edge r G e"
    and coll: "gm_get G coll \<noteq> None" "\<not> compatible_dev r G coll"
  shows "\<exists>x. sink_config G coll port cid e = Some x"
proof -
  from switch_edge_port [OF e] obtain s p where s: "as_inc_switch G (from_dev e) = Some s"
    and p: "MustGetPortNumberTo (IncSwitch s) (to_dev e) = Some p" by blast
  from coll(1) obtain c where c: "gm_get G coll = Some c" by auto
  have dev: "gm_get G (from_dev e) = Some (IncSwitch s)" using s by (simp add: as_inc_switch_Some)
  have ne: "from_dev e \<noteq> coll" using e coll(2) by (auto simp: switch_edge_def)
  from find_port_total [OF G dev c ne] obtain q where q: "findPortLeadingToDevice G (IncSwitch s) c = Some q"
    "q < length (Links s)" by auto
  from find_port_total [OF G c dev] ne obtain q' where q': "findPortLeadingToDevice G c (IncSwitch s) = Some q'"
    by metis
  let ?l = "Links s ! q"
  have l: "?l \<in> set (GetLinks (IncSwitch s))" using q(2) by simp
  have "graph_closed G" "graph_symmetric G" "graph_named G" using G(1) by (auto simp: graph_ok_def)
  from graph_closedD [OF this(1) dev l] obtain n where n: "gm_get G (To ?l) = Some n" by auto
  have "Name s = from_dev e" using graph_namedD [OF \<open>graph_named G\<close> dev] by simp
  moreover have "from_dev e \<in> set (neighbours G (To ?l))" using graph_symmetricD [OF \<open>graph_symmetric G\<close> dev l] .
  ultimately have "MustGetLinkTo n (Name s) \<noteq> None"
    using MustGetLinkTo_None [of n "Name s"] by (auto simp: neighbours_get [OF n])
  then obtain nl where "MustGetLinkTo n (Name s) = Some nl" by auto
  with s p c q q' n show ?thesis by (simp add: sink_config_def)
qed

lemma getEntries_total:
  assumes G: "graph_ok G" "graph_connected G" and ents: "entities_ok r G ents"
    and coll: "gm_get G coll \<noteq> None" "\<not> compatible_dev r G coll" and ords: "entry_orders_ok ords"
  shows "\<exists>es. getEntriesForTelemetryEntities ords G ids ents coll port cid = Some es
     \<and> (\<forall>c. \<forall>x \<in> set (entries_at es c). compatible_dev r G (cfgDeviceName x))"
proof -
  have wf: "gm_wf (Sinks ents)" "gm_wf (Transits ents)" "gm_wf (Sources ents)"
    and ok: "\<forall>e \<in> set (gm_keys (Sinks ents)). switch_edge r G e"
      "\<forall>d \<in> set (gm_keys (Transits ents)). compatible_dev r G d"
      "\<forall>e \<in> set (gm_keys (Sources ents)). switch_edge r G e"
    using ents by (auto simp: entities_ok_def entities_wf_def list_all_iff)
  have sets: "set (gm_range (sinkOrder ords) (Sinks ents)) = set (Sinks ents)"
    "set (gm_range (transitOrder ords) (Transits ents)) = set (Transits ents)"
    "set (gm_range (sourceMapOrder ords) (Sources ents)) = set (Sources ents)"
    using ords wf set_gm_range by (auto simp: entry_orders_ok_def)
  have snk: "\<exists>x. sink_config G coll port cid (fst e) = Some x" if "e \<in> set (Sinks ents)" for e
    using sink_config_total [OF G _ coll] ok(1) that by auto
  have act: "\<exists>x. activate_config G (fst e) = Some x" if "e \<in> set (Sources ents)" for e
  proof -
    have "switch_edge r G (fst e)" using ok(3) that by auto
    from switch_edge_port [OF this] show ?thesis by (auto simp: activate_config_def)
  qed
  obtain sinks where sinks: "those (map (\<lambda>(sink, _). sink_config G coll port cid sink) (gm_range (sinkOrder ords) (Sinks ents))) = Some sinks"
    using those_map_Some [of "\<lambda>(sink, _). sink_config G coll port cid sink" "gm_range (sinkOrder ords) (Sinks ents)"] snk sets(1)
    by (force simp: case_prod_unfold)
  obtain acts where acts: "those (map (\<lambda>(source, _). activate_config G source) (gm_range (sourceMapOrder ords) (Sources ents))) = Some acts"
    using those_map_Some [of "\<lambda>(source, _). activate_config G source" "gm_range (sourceMapOrder ords) (Sources ents)"] act sets(3)
    by (force simp: case_prod_unfold)
  obtain es where es: "getEntriesForTelemetryEntities ords G ids ents coll port cid = Some es"
    using sinks acts by (simp add: getEntriesForTelemetryEntities_def)
  have dev_s: "cfgDeviceName (fst x) = from_dev e \<and> cfgDeviceName (snd x) = from_dev e" if "sink_config G coll port cid e = Some x" for x e
    using that by (auto simp: sink_config_def split: Option.bind_splits)
  have dev_a: "cfgDeviceName x = from_dev e" if "activate_config G e = Some x" for x e
    using that by (auto simp: activate_config_def split: Option.bind_splits)
  have sinks_ok: "compatible_dev r G (cfgDeviceName (fst x)) \<and> compatible_dev r G (cfgDeviceName (snd x))" if "x \<in> set sinks" for x
  proof -
    from that sinks obtain e where "e \<in> set (gm_range (sinkOrder ords) (Sinks ents))" "x = the (sink_config G coll port cid (fst e))"
      by (auto simp: those_map_Some case_prod_unfold)
    moreover from this sets(1) have "switch_edge r G (fst e)" using ok(1) by auto
    moreover from calculation(1) sets(1) obtain y where "sink_config G coll port cid (fst e) = Some y" using snk by blast
    ultimately show ?thesis using dev_s [of "fst e" y] by (simp add: switch_edge_def)
  qed
  have acts_ok: "compatible_dev r G (cfgDeviceName x)" if "x \<in> set acts" for x
  proof -
    from that acts obtain e where "e \<in> set (gm_range (sourceMapOrder ords) (Sources ents))" "x = the (activate_config G (fst e))"
      by (auto simp: those_map_Some case_prod_unfold)
    moreover from this sets(3) have "switch_edge r G (fst e)" using ok(3) by auto
    moreover from calculation(1) sets(3) obtain y where "activate_config G (fst e) = Some y" using act by blast
    ultimately show ?thesis using dev_a [of "fst e" y] by (simp add: switch_edge_def)
  qed
  have trans_ok: "compatible_dev r G (cfgDeviceName (transit_config ids (fst x)))" if "x \<in> set (Transits ents)" for x
    using ok(2) that by (simp add: transit_config_def)
  have src_ok: "compatible_dev r G (cfgDeviceName (source_config cid (fst x) c))" if "x \<in> set (Sources ents)" for x c
    using ok(3) that by (simp add: source_config_def switch_edge_def Let_def)
  have fields: "ActivateSourceEntries es = acts" "ConfigureSinkEntries es = map fst sinks"
    "ConfigureReportingEntry es = map snd sinks"
    "ConfigureTransitEntries es = map (\<lambda>x. transit_config ids (fst x)) (gm_range (transitOrder ords) (Transits ents))"
    "ConfigureSourceEntries es = concat (map (\<lambda>x. map (source_config cid (fst x)) (snd x)) (gm_range (sourceMapOrder ords) (Sources ents)))"
    using es sinks acts by (auto simp: getEntriesForTelemetryEntities_def case_prod_unfold)
  have "\<forall>x \<in> set (entries_at es c). compatible_dev r G (cfgDeviceName x)" for c
  proof (cases c)
    case TransitStateCounter
    then show ?thesis using trans_ok sets(2) by (simp add: entries_at_def fields)
  next
    case ConfigureSourceCounter
    then show ?thesis using src_ok sets(3) by (simp add: entries_at_def fields)
  qed (use sinks_ok acts_ok in \<open>simp_all add: entries_at_def fields\<close>)
  with es show ?thesis by blast
qed

lemma changelog_devices:
  assumes "\<forall>c. \<forall>x \<in> set (entries_at es c). P (cfgDeviceName x)"
  shows "\<forall>a \<in> set (actions (makeApplyChangelog es)). P (deviceName a)"
    and "\<forall>a \<in> set (actions (makeDeleteChangelog es)). P (deviceName a)"
  using assms [rule_format, of _ TransitStateCounter] assms [rule_format, of _ SinkStateCounter]
    assms [rule_format, of _ RaportingStateCounter] assms [rule_format, of _ ActivateSourceCounter]
    assms [rule_format, of _ ConfigureSourceCounter]
  by (auto simp: makeApplyChangelog_def makeDeleteChangelog_def newChangeLog_def entries_at_def
      newCreateAction_def newDeleteAction_def)

lemma plan_changes_total:
  assumes G: "graph_ok G" "graph_connected G" and ents: "entities_ok r G added" "entities_ok r G removed"
    and coll: "gm_get G (CollectorNodeName req) \<noteq> None" "\<not> compatible_dev r G (CollectorNodeName req)"
    and ords: "entry_orders_ok ordA" "entry_orders_ok ordR"
  shows "\<exists>log. plan_changes ordA ordR G ids req cid added removed = Some log
     \<and> (\<forall>l. log = Some l \<longrightarrow> doneCounter l = - 1 \<and> (\<forall>a \<in> set (actions l). compatible_dev r G (deviceName a)))"
proof -
  from getEntries_total [OF G ents(1) coll ords(1), of ids "sint (CollectorPort req)" cid] obtain esA where
    A: "getEntriesForTelemetryEntities ordA G ids added (CollectorNodeName req) (sint (CollectorPort req)) cid = Some esA"
      "\<forall>c. \<forall>x \<in> set (entries_at esA c). compatible_dev r G (cfgDeviceName x)" by blast
  from getEntries_total [OF G ents(2) coll ords(2), of ids "sint (CollectorPort req)" cid] obtain esR where
    R: "getEntriesForTelemetryEntities ordR G ids removed (CollectorNodeName req) (sint (CollectorPort req)) cid = Some esR"
      "\<forall>c. \<forall>x \<in> set (entries_at esR c). compatible_dev r G (cfgDeviceName x)" by blast
  from A(1) R(1) changelog_devices [OF A(2)] changelog_devices [OF R(2)] show ?thesis
    by (auto simp: plan_changes_def ExtendFrom_def Let_def)
qed

section \<open>Configure and disable calls return\<close>

lemma subset_keys_ok: "list_all P ks \<Longrightarrow> set ks' \<subseteq> set ks \<Longrightarrow> list_all P ks'"
  by (auto simp: list_all_iff)

lemma computeDifferences_ok:
  assumes d: "computeDifferences old new = (added, removed)" and ok: "entities_ok r G old" "entities_ok r G new"
  shows "entities_ok r G added \<and> entities_ok r G removed"
proof -
  have wf: "entities_wf old" "entities_wf new" using ok by (auto simp: entities_ok_def)
  note sets = computeDifferences_sets [OF d wf]
  have a: "set (gm_keys (Sources added)) \<subseteq> set (gm_keys (Sources new))"
  proof
    fix e assume "e \<in> set (gm_keys (Sources added))"
    then have "gm_get (Sources added) e \<noteq> None" by (simp add: map_of_eq_None_iff)
    then have "gm_get (Sources new) e \<noteq> None"
      unfolding computeDifferences_sources(1) [OF d wf] by (auto split: option.splits)
    then show "e \<in> set (gm_keys (Sources new))" by (simp add: map_of_eq_None_iff)
  qed
  have r: "set (gm_keys (Sources removed)) \<subseteq> set (gm_keys (Sources old))"
  proof
    fix e assume "e \<in> set (gm_keys (Sources removed))"
    then have "gm_get (Sources removed) e \<noteq> None" by (simp add: map_of_eq_None_iff)
    then have "gm_get (Sources old) e \<noteq> None"
      unfolding computeDifferences_sources(2) [OF d wf] by (auto split: option.splits)
    then show "e \<in> set (gm_keys (Sources old))" by (simp add: map_of_eq_None_iff)
  qed
  have "set (gm_keys (Transits added)) \<subseteq> set (gm_keys (Transits new))" "set (gm_keys (Sinks added)) \<subseteq> set (gm_keys (Sinks new))"
    "set (gm_keys (Transits removed)) \<subseteq> set (gm_keys (Transits old))" "set (gm_keys (Sinks removed)) \<subseteq> set (gm_keys (Sinks old))"
    using sets by blast+
  with ok a r computeDifferences_wf [OF d] show ?thesis
    unfolding entities_ok_def by (blast intro: subset_keys_ok)
qed

lemma commit_step_total:
  assumes "counters_inv (counters t)" and "ops_total ops" and "known_devices t devs"
    and "\<forall>l. log = Some l \<longrightarrow> doneCounter l = - 1 \<and> (\<forall>a \<in> set (actions l). deviceName a \<in> devs)"
  shows "\<exists>er t' w'. (case log of Some l \<Rightarrow> commit ops l t w | None \<Rightarrow> Some (None, t, w)) = Some (er, t', w') \<and> same_books t t'"
proof (cases log)
  case None
  then show ?thesis by (simp add: same_books_def)
next
  case (Some l)
  have new: "doneCounter l = - 1" and devs: "\<forall>a \<in> set (actions l). deviceName a \<in> devs" using assms(4) Some by auto
  obtain er t' w' where c: "commit ops l t w = Some (er, t', w')"
    using commit_total [OF assms(1) new assms(2,3) devs] by (metis surj_pair)
  have "same_books t t'"
    using commit_ok(1) [OF assms(1) new] commit_err(1) [OF assms(1) new] c by (cases er) auto
  with c Some show ?thesis by simp
qed

lemma configure_total:
  assumes inv: "service_inv t pending" and cid: "CollectionId req \<noteq> []" and ops: "ops_total ops"
    and devs: "known_devices t devs" "\<And>u. compatible_dev (svcRegistry t) (TopologyToGraph topo) u \<Longrightarrow> u \<in> devs"
    and G: "graph_ok (TopologyToGraph topo)" "graph_connected (TopologyToGraph topo)"
    and req: "request_ok (svcRegistry t) (TopologyToGraph topo) req"
    and coll: "gm_get (TopologyToGraph topo) (CollectorNodeName req) \<noteq> None"
      "\<not> compatible_dev (svcRegistry t) (TopologyToGraph topo) (CollectorNodeName req)"
    and cur: "\<And>cur. gm_get (intentState t) (IntentId req) = Some cur \<Longrightarrow>
       entities_ok (svcRegistry t) (TopologyToGraph topo) (stEntities cur)"
    and ords: "orders_ok ords" "entry_orders_ok ordA" "entry_orders_ok ordR"
  shows "\<exists>r. ConfigureTelemetry ops ords ordA ordR req topo t w = Some r"
proof -
  let ?G = "TopologyToGraph topo" and ?i = "IntentId req" and ?r = "svcRegistry t"
  have ci: "counters_inv (counters t)" and pi: "pool_inv (collectionIdPool t)"
    using inv by (auto simp: service_inv_def)
  show ?thesis
  proof (cases "gm_get (intentLocks t) ?i = Some True")
    case True
    then show ?thesis by (simp add: ConfigureTelemetry_def lockIntent_def)
  next
    case False
    let ?t0 = "t\<lparr>intentLocks := gm_put ?i True (intentLocks t)\<rparr>"
    have lock: "lockIntent ?i t = (True, ?t0)"
      using False by (auto simp: lockIntent_def split: option.splits)
    from find_entities_ok [OF G req ords(1)] obtain desired where
      desired: "findTelemetryEntitiesForRequest ?r ords req ?G = Some desired" "entities_ok ?r ?G desired" by blast
    obtain added removed where plan: "planned_changes t ?i desired = (added, removed)"
      by (cases "planned_changes t ?i desired")
    have parts: "entities_ok ?r ?G added" "entities_ok ?r ?G removed"
      using plan desired(2) cur computeDifferences_ok
      by (auto simp: planned_changes_def newTelemetryEntities_def entities_ok_def entities_wf_def split: option.splits)
    from ids.acquire_total [OF pi cid, of ?i] obtain alloc pool1 where
      alloc: "AllocOrGet ?i (CollectionId req) (collectionIdPool t) = Some (alloc, pool1)" by blast
    let ?t1 = "?t0\<lparr>collectionIdPool := pool1\<rparr>"
    have unlock: "\<exists>t3. unlockIntent ?i t2 = Some t3" if "intentLocks t2 = intentLocks ?t0" for t2
      using that by (simp add: unlockIntent_def)
    have commit_done: "\<exists>x. (case log of Some l \<Rightarrow> commit ops l ?t1 w | None \<Rightarrow> Some (None, ?t1, w)) = Some x
        \<and> intentLocks (fst (snd x)) = intentLocks ?t0" if "plan_changes ordA ordR ?G (getSwitchIds topo) req n added removed = Some log" for log n
    proof -
      from plan_changes_total [OF G parts coll ords(2,3), of "getSwitchIds topo" n] that devs(2)
      have "\<forall>l. log = Some l \<longrightarrow> doneCounter l = - 1 \<and> (\<forall>a \<in> set (actions l). deviceName a \<in> devs)" by auto
      with commit_step_total [of ?t1 ops devs log w] ci ops devs(1) show ?thesis
        by (fastforce simp: known_devices_def same_books_def)
    qed
    obtain log where log: "\<And>n. alloc = Inr n \<Longrightarrow>
        plan_changes ordA ordR ?G (getSwitchIds topo) req (int n) added removed = Some log"
      using plan_changes_total [OF G parts coll ords(2,3)] by (cases alloc) (simp, metis sum.inject(2))
    from plan have plan': "(case gm_get (intentState t) ?i of
        Some cur \<Rightarrow> computeDifferences (stEntities cur) desired | None \<Rightarrow> (desired, newTelemetryEntities)) = (added, removed)"
      by (simp add: planned_changes_def)
    show ?thesis
    proof (cases alloc)
      case (Inl e)
      have "\<exists>t3. unlockIntent ?i ?t0 = Some t3" "\<exists>t3. unlockIntent ?i ?t1 = Some t3" by (rule unlock, simp)+
      with Inl lock desired(1) plan' alloc show ?thesis
        by (auto simp: ConfigureTelemetry_def Let_def split: option.split)
    next
      case (Inr n)
      from log [OF Inr] have log': "plan_changes ordA ordR ?G (getSwitchIds topo) req (int n) added removed = Some log" .
      from commit_done [OF this] obtain er t2 w2 where
        c: "(case log of Some l \<Rightarrow> commit ops l ?t1 w | None \<Rightarrow> Some (None, ?t1, w)) = Some (er, t2, w2)"
        and l2: "intentLocks t2 = intentLocks ?t0" by auto
      have u: "\<exists>t3. unlockIntent ?i ?t0 = Some t3" "\<exists>t3. unlockIntent ?i t2 = Some t3"
        "\<And>st. \<exists>t3. unlockIntent ?i (t2\<lparr>intentState := st\<rparr>) = Some t3"
        using unlock [of ?t0] unlock [of t2] unlock [of "t2\<lparr>intentState := st\<rparr>" for st] l2 by auto
      from u(3) obtain t3 where u3: "unlockIntent ?i (t2\<lparr>intentState := gm_put ?i
          \<lparr>stEntities = desired, stCollectionId = CollectionId req, stCollectorNodeName = CollectorNodeName req,
           stCollectorPort = sint (CollectorPort req)\<rparr> (intentState t2)\<rparr>) = Some t3" by blast
      from u(1,2) u3 Inr lock desired(1) plan' alloc log' c show ?thesis
        by (cases er) (auto simp: ConfigureTelemetry_def Let_def split: option.split)
    qed
  qed
qed

lemma background_total:
  assumes inv: "service_inv t pending" and i: "i \<in> set pending" and ops: "ops_total ops"
    and devs: "known_devices t devs" "\<And>u. compatible_dev (svcRegistry t) (TopologyToGraph topo) u \<Longrightarrow> u \<in> devs"
    and G: "graph_ok (TopologyToGraph topo)" "graph_connected (TopologyToGraph topo)"
    and cur: "\<And>cur. gm_get (intentState t) i = Some cur \<Longrightarrow>
       entities_ok (svcRegistry t) (TopologyToGraph topo) (stEntities cur)
       \<and> gm_get (TopologyToGraph topo) (stCollectorNodeName cur) \<noteq> None
       \<and> \<not> compatible_dev (svcRegistry t) (TopologyToGraph topo) (stCollectorNodeName cur)"
    and ords: "entry_orders_ok ords"
  shows "\<exists>r. disable_background ops ords i topo t w = Some r"
proof -
  let ?G = "TopologyToGraph topo" and ?r = "svcRegistry t"
  note inv' = inv [unfolded service_inv_def]
  have ci: "counters_inv (counters t)" using inv' by blast
  have locked: "gm_get (intentLocks t) i = Some True" using inv' i by blast
  with inv' obtain c where c: "gm_get (intentState t) i = Some c" by (metis option.distinct(1) option.exhaust)
  then have "holds_id (collectionIdPool t) i (stCollectionId c)" using inv' by blast
  then obtain n where n: "GetIfAllocated i (stCollectionId c) (collectionIdPool t) = Some n"
    by (auto simp: holds_id_def)
  from getEntries_total [OF G cur [OF c, THEN conjunct1] cur [OF c, THEN conjunct2, THEN conjunct1] cur [OF c, THEN conjunct2, THEN conjunct2] ords]
  obtain es where es: "getEntriesForTelemetryEntities ords ?G (getSwitchIds topo) (stEntities c) (stCollectorNodeName c)
      (stCollectorPort c) (int n) = Some es" "\<forall>c. \<forall>x \<in> set (entries_at es c). compatible_dev ?r ?G (cfgDeviceName x)" by blast
  have "\<forall>a \<in> set (actions (makeDeleteChangelog es)). deviceName a \<in> devs"
    using changelog_devices(2) [OF es(2)] devs(2) by blast
  then obtain er t1 w1 where k: "commit ops (makeDeleteChangelog es) t w = Some (er, t1, w1)" and b: "same_books t t1"
    using commit_step_total [OF ci ops devs(1), of "Some (makeDeleteChangelog es)" w] by auto
  have "\<exists>t2. unlockIntent i t1 = Some t2" using b locked by (simp add: unlockIntent_def same_books_def)
  with c n es(1) k show ?thesis
    by (cases er) (auto simp: disable_background_def Let_def)
qed

section \<open>A service on a fixed network\<close>

definition sound_network :: "topology \<Rightarrow> bool" where
  "sound_network topo \<longleftrightarrow> graph_ok (TopologyToGraph topo) \<and> graph_connected (TopologyToGraph topo)"

definition sound_collector :: "registry \<Rightarrow> topology \<Rightarrow> device_name \<Rightarrow> bool" where
  "sound_collector r topo c \<longleftrightarrow> gm_get (TopologyToGraph topo) c \<noteq> None \<and> \<not> compatible_dev r (TopologyToGraph topo) c"

definition sound_request :: "registry \<Rightarrow> topology \<Rightarrow> configure_telemetry_request \<Rightarrow> bool" where
  "sound_request r topo req \<longleftrightarrow> CollectionId req \<noteq> [] \<and> request_ok r (TopologyToGraph topo) req
     \<and> sound_collector r topo (CollectorNodeName req)"

definition all_orders_ok :: "request_orders \<Rightarrow> entry_orders \<Rightarrow> entry_orders \<Rightarrow> bool" where
  "all_orders_ok ords ordA ordR \<longleftrightarrow> orders_ok ords \<and> entry_orders_ok ordA \<and> entry_orders_ok ordR"

inductive net_step :: "'w device_ops \<Rightarrow> registry \<Rightarrow> topology \<Rightarrow> 'w svc_state \<Rightarrow> 'w svc_state \<Rightarrow> bool" for ops r topo where
  net_configure: "\<lbrakk>sound_request r topo req; all_orders_ok ords ordA ordR;
      ConfigureTelemetry ops ords ordA ordR req topo t w = Some (resp, t', w')\<rbrakk>
    \<Longrightarrow> net_step ops r topo (t, w, pending) (t', w', pending)"
| net_disable: "DisableTelemetry i t = (retry, t', spawned)
    \<Longrightarrow> net_step ops r topo (t, w, pending) (t', w, if spawned then i # pending else pending)"
| net_background: "\<lbrakk>i \<in> set pending; entry_orders_ok ords; disable_background ops ords i topo t w = Some (t', w')\<rbrakk>
    \<Longrightarrow> net_step ops r topo (t, w, pending) (t', w', remove1 i pending)"

inductive net_reachable :: "'w device_ops \<Rightarrow> registry \<Rightarrow> topology \<Rightarrow> 'w svc_state \<Rightarrow> 'w svc_state \<Rightarrow> bool" for ops r topo s0 where
  net_start: "net_reachable ops r topo s0 s0"
| net_next: "\<lbrakk>net_reachable ops r topo s0 s; net_step ops r topo s s'\<rbrakk> \<Longrightarrow> net_reachable ops r topo s0 s'"

inductive_cases net_stepE: "net_step ops r topo s s'"

definition net_inv :: "registry \<Rightarrow> topology \<Rightarrow> telemetry_service \<Rightarrow> string list \<Rightarrow> bool" where
  "net_inv r topo t pending \<longleftrightarrow> service_inv t pending \<and> svcRegistry t = r
     \<and> known_devices t (set (gm_keys (getSwitchIds topo)))
     \<and> (\<forall>i cur. gm_get (intentState t) i = Some cur \<longrightarrow>
          entities_ok r (TopologyToGraph topo) (stEntities cur) \<and> sound_collector r topo (stCollectorNodeName cur))"

lemma getSwitchIds_keys:
  "set (gm_keys (getSwitchIds topo)) = GetName ` {d \<in> set (Devices topo). GetType d = INC_SWITCH}"
proof -
  have "fst ` set (fst (fold (\<lambda>dev (res, counter).
            if GetType dev = INC_SWITCH then (gm_put (GetName dev) counter res, counter + 1) else (res, counter))
          ds (res, n))) = fst ` set res \<union> GetName ` {d \<in> set ds. GetType d = INC_SWITCH}" for ds res and n :: int
  proof (induction ds arbitrary: res n)
    case (Cons d ds)
    have "fst ` set (gm_put (GetName d) n res) = insert (GetName d) (fst ` set res)"
      by (rule gm_keyset_put)
    with Cons [of "gm_put (GetName d) n res" "n + 1"] Cons [of res n] show ?case by auto
  qed simp
  from this [of "Devices topo" "[]" 0] show ?thesis by (simp add: getSwitchIds_def)
qed

lemma compatible_known:
  assumes "compatible_dev r (TopologyToGraph topo) u"
  shows "u \<in> set (gm_keys (getSwitchIds topo))"
proof -
  from assms obtain d where d: "gm_get (TopologyToGraph topo) u = Some d" and c: "isCompatible r d"
    by (cases "gm_get (TopologyToGraph topo) u") (simp_all add: compatible_dev_def)
  have "GetType d = INC_SWITCH" using c by (cases d) (simp_all add: isCompatible_def)
  with TopologyToGraph_SomeD [OF d] show ?thesis unfolding getSwitchIds_keys by blast
qed

lemma AddDevice_keys: "set (gm_keys (fold AddDevice ns s)) = set (gm_keys s) \<union> set ns"
proof (induction ns arbitrary: s)
  case (Cons n ns)
  have "set (gm_keys (AddDevice n s)) = insert n (set (gm_keys s))"
    unfolding AddDevice_def set_map by (rule gm_keyset_put)
  with Cons [of "AddDevice n s"] show ?case by simp
qed simp

lemma net_inv_start: "net_inv r topo (InitDevices topo (NewService r st)) []"
proof -
  have "set (gm_keys (fold AddDevice (gm_keys (getSwitchIds topo)) newStateCounter)) = set (gm_keys (getSwitchIds topo))"
    unfolding AddDevice_keys by (simp add: newStateCounter_def)
  then show ?thesis
    using service_inv_start [of topo r st] InitDevices_fields [of topo "NewService r st"]
    by (simp add: net_inv_def known_devices_def NewService_def)
qed

lemma net_step_inv:
  assumes inv: "net_inv r topo t pending" and net: "sound_network topo"
    and step: "net_step ops r topo (t, w, pending) (t', w', pending')"
  shows "net_inv r topo t' pending'"
proof -
  note inv' = inv [unfolded net_inv_def]
  have si: "service_inv t pending" and ci: "counters_inv (counters t)" using inv' by (auto simp: service_inv_def)
  from step show ?thesis
  proof (cases rule: net_step.cases)
    case (net_configure req ords ordA ordR resp)
    have "CollectionId req \<noteq> []" and o: "entry_orders_ok ordA" "entry_orders_ok ordR" "orders_ok ords"
      using net_configure by (auto simp: sound_request_def all_orders_ok_def)
    with service_inv_configure [OF si _ o(1,2) net_configure(4)] net_configure(1) have si': "service_inv t' pending'" by simp
    show ?thesis
    proof (cases "telemetryState resp = TelemetryOK")
      case True
      from configure_ok [OF ci o(1,2) net_configure(4) True] obtain desired where
        d: "findTelemetryEntitiesForRequest (svcRegistry t) ords req (TopologyToGraph topo) = Some desired"
          "svcRegistry t' = svcRegistry t" "same_keys t t'"
          "intentState t' = gm_put (IntentId req) (requested_state req desired) (intentState t)" by metis
      have "entities_ok r (TopologyToGraph topo) desired"
        using find_entities_ok [of "TopologyToGraph topo" r req ords] net d(1) inv' net_configure(2) o(3)
        by (auto simp: sound_network_def sound_request_def)
      with d si' inv' net_configure(2) show ?thesis
        by (auto simp: net_inv_def requested_state_def sound_request_def known_devices_keys)
    next
      case False
      show ?thesis
      proof (cases rule: configure_not_ok [OF ci o(1,2) net_configure(4) False, case_names busy rejected undone])
        case busy
        with inv net_configure(1) show ?thesis by simp
      next
        case rejected
        with si' inv' show ?thesis by (auto simp: net_inv_def lock_released_def known_devices_def)
      next
        case (undone desired added removed cid pool1 log undone)
        with si' inv' show ?thesis by (auto simp: net_inv_def lock_released_def known_devices_keys)
      qed
    qed
  next
    case (net_disable i retry spawned)
    have "service_inv t' pending'" using service_inv_disable [OF si net_disable(3)] net_disable(2) by simp
    moreover have "intentState t' = intentState t" "svcRegistry t' = svcRegistry t" "counters t' = counters t"
      using net_disable(3) by (auto simp: DisableTelemetry_def tryLockIntentIfExists_def split: option.splits if_splits)
    ultimately show ?thesis using inv' by (simp add: net_inv_def known_devices_def)
  next
    case (net_background i ords)
    have si': "service_inv t' pending'"
      using service_inv_background [OF si net_background(2-4)] net_background(1) by simp
    from si net_background(2) obtain cur where cur: "gm_get (intentState t) i = Some cur" and wf: "entities_wf (stEntities cur)"
      unfolding service_inv_def by (metis option.distinct(1) option.exhaust)
    show ?thesis
    proof (cases rule: background_cases [OF net_background(4) ci net_background(3) cur wf, case_names kept removed])
      case kept
      with si' inv' show ?thesis by (auto simp: net_inv_def known_devices_keys)
    next
      case (removed cid)
      with si' inv' show ?thesis by (auto simp: net_inv_def known_devices_keys split: if_splits)
    qed
  qed
qed

lemma net_reachable_inv:
  assumes "net_reachable ops r topo s0 s" and "sound_network topo" and "net_inv r topo (fst s0) (snd (snd s0))"
  shows "net_inv r topo (fst s) (snd (snd s))"
  using assms(1,3)
proof (induction rule: net_reachable.induct)
  case (net_next s s')
  then show ?case using net_step_inv [OF _ assms(2)] by (cases s; cases s') auto
qed simp

lemma net_inv_total:
  assumes inv: "net_inv r topo t pending" and net: "sound_network topo" and ops: "ops_total ops"
  shows "sound_request r topo req \<Longrightarrow> all_orders_ok ords ordA ordR \<Longrightarrow> \<exists>x. ConfigureTelemetry ops ords ordA ordR req topo t w = Some x"
    and "i \<in> set pending \<Longrightarrow> entry_orders_ok ords' \<Longrightarrow> \<exists>x. disable_background ops ords' i topo t w = Some x"
proof -
  note inv' = inv [unfolded net_inv_def]
  have si: "service_inv t pending" and kd: "known_devices t (set (gm_keys (getSwitchIds topo)))" using inv' by auto
  have G: "graph_ok (TopologyToGraph topo)" "graph_connected (TopologyToGraph topo)"
    using net by (auto simp: sound_network_def)
  show "\<exists>x. ConfigureTelemetry ops ords ordA ordR req topo t w = Some x"
    if "sound_request r topo req" "all_orders_ok ords ordA ordR"
    by (rule configure_total [OF si _ ops kd compatible_known G])
      (use that inv' in \<open>auto simp: sound_request_def sound_collector_def all_orders_ok_def\<close>)
  show "\<exists>x. disable_background ops ords' i topo t w = Some x"
    if "i \<in> set pending" "entry_orders_ok ords'"
    by (rule background_total [OF si that(1) ops kd compatible_known G _ that(2)])
      (use inv' in \<open>auto simp: sound_collector_def\<close>)
qed

end
