(* ===== verification/ServiceProperties.thy ===== *)
theory ServiceProperties
  imports SampleNetwork ServiceTotal
begin

text \<open>
  What the telemetry service guarantees, and where it does not do what it means to: the
  properties of configure and disable calls, stated over the definitions of \<open>Service\<close>.
\<close>

section \<open>The sample network is sound\<close>

lemma sample_network_sound: "sound_network sample_topo"
proof -
  have "graph_closed (TopologyToGraph sample_topo)" "graph_symmetric (TopologyToGraph sample_topo)"
    "all_paths_found (TopologyToGraph sample_topo)" by code_simp+
  then show ?thesis
    by (simp add: sound_network_def graph_ok_def TopologyToGraph_named graph_connectedI)
qed

lemma sample_request_sound: "sound_request sample_registry sample_topo (sample_request [''h2'', ''h3''])"
proof -
  have "CollectionId (sample_request [''h2'', ''h3'']) \<noteq> []" by code_simp
  moreover have "request_ok sample_registry (TopologyToGraph sample_topo) (sample_request [''h2'', ''h3''])"
    by code_simp
  moreover have "sound_collector sample_registry sample_topo (CollectorNodeName (sample_request [''h2'', ''h3'']))"
    by code_simp
  ultimately show ?thesis by (simp add: sound_request_def)
qed

lemma sample_ops_total: "ops_total sample_ops"
  by (simp add: ops_total_def sample_ops_def)

lemma sample_all_orders: "all_orders_ok sample_request_orders sample_orders sample_orders"
  using sample_orders_ok by (simp add: all_orders_ok_def)

text \<open>A run on the sample network: configure, disable, and the goroutine.\<close>

definition configured :: "device_name list \<Rightarrow> telemetry_service" where
  "configured targets = (case sample_configure targets sample_service of Some (r, t, w) \<Rightarrow> t | None \<Rightarrow> sample_service)"

lemma configured_step:
  "\<exists>resp. sample_configure [''h2'', ''h3''] sample_service = Some (resp, configured [''h2'', ''h3''], ())
     \<and> telemetryState resp = TelemetryOK"
proof -
  have "map_option (\<lambda>(r, t, w). telemetryState r) (sample_configure [''h2'', ''h3''] sample_service) = Some TelemetryOK"
    by code_simp
  then show ?thesis by (auto simp: configured_def)
qed

section \<open>Locks, states and numbers\<close>

text \<open>C2: after any sequence of configure calls, disable calls and goroutines, in any order and one
  at a time, in which every configure request has a non-empty collection id, an intent
  is locked between calls only while a goroutine that will remove it is pending, and that
  goroutine finds the intent's state and its number in the pool: its panic \<open>should be allocated\<close>
  and its early return, which would leave the intent locked for ever, are unreachable. An intent
  has a lock exactly when it has a state, and holds exactly its own collection id. Every call and
  goroutine is one step here, while the code lets calls for different intents overlap; and the
  code does not check that the collection id is not empty.\<close>

theorem service_discipline:
  assumes "svc_run ops (svc_start r st topo w0) acts (t, w, pending)"
    and "\<And>req. SvcConfigure req \<in> set acts \<Longrightarrow> CollectionId req \<noteq> []"
  shows "distinct pending
     \<and> (\<forall>i. gm_get (intentLocks t) i = Some True \<longrightarrow> i \<in> set pending
          \<and> (\<exists>cur n. gm_get (intentState t) i = Some cur
               \<and> GetIfAllocated i (stCollectionId cur) (collectionIdPool t) = Some n))
     \<and> (\<forall>i. gm_get (intentLocks t) i = None \<longleftrightarrow> gm_get (intentState t) i = None)
     \<and> (\<forall>i c n. GetIfAllocated i c (collectionIdPool t) = Some n \<longrightarrow>
          (\<exists>cur. gm_get (intentState t) i = Some cur \<and> stCollectionId cur = c))"
proof -
  have inv: "service_inv t pending"
    using svc_run_inv [OF assms] by (simp add: svc_start_def service_inv_start)
  note i = inv [unfolded service_inv_def]
  have "\<exists>cur n. gm_get (intentState t) j = Some cur \<and> GetIfAllocated j (stCollectionId cur) (collectionIdPool t) = Some n"
    if "gm_get (intentLocks t) j = Some True" for j
  proof -
    from i that obtain cur where cur: "gm_get (intentState t) j = Some cur"
      by (metis option.distinct(1) option.exhaust)
    with i have "holds_id (collectionIdPool t) j (stCollectionId cur)" by blast
    with cur show ?thesis by (auto simp: holds_id_def)
  qed
  moreover have "\<exists>cur. gm_get (intentState t) j = Some cur \<and> stCollectionId cur = c"
    if "GetIfAllocated j c (collectionIdPool t) = Some n" for j c n
  proof -
    have "holds_id (collectionIdPool t) j c" using that by (simp add: holds_id_def)
    with i show ?thesis by blast
  qed
  ultimately show ?thesis using i by blast
qed

lemma configured_run:
  "svc_run sample_ops (svc_start sample_registry quiet_observers sample_topo ())
     [SvcConfigure (sample_request [''h2'', ''h3''])] (configured [''h2'', ''h3''], (), [])"
proof -
  from configured_step obtain resp where
    "ConfigureTelemetry sample_ops sample_request_orders sample_orders sample_orders
     (sample_request [''h2'', ''h3'']) sample_topo sample_service () = Some (resp, configured [''h2'', ''h3''], ())"
    by (auto simp: sample_configure_def)
  then have "svc_step sample_ops (SvcConfigure (sample_request [''h2'', ''h3''])) (sample_service, (), [])
      (configured [''h2'', ''h3''], (), [])"
    using sample_orders_ok by (intro svc_step.configure) auto
  then show ?thesis
    using svc_run.step [OF svc_run.start] by (fastforce simp: svc_start_def sample_service_def)
qed

lemma sample_collection: "CollectionId (sample_request targets) \<noteq> []"
  by (simp add: sample_request_def)

theorem service_discipline_witness:
  "(gm_get (intentLocks (configured [''h2'', ''h3''])) ''intent'' = None)
     = (gm_get (intentState (configured [''h2'', ''h3''])) ''intent'' = None)"
  using service_discipline [OF configured_run] sample_collection by auto

text \<open>C3: on a connected network without dangling or one-way links, as long as every request names
  devices of the network, no telemetry switch as target or collector, and a collection id, no
  sequence of calls and goroutines makes the service panic: in every reachable state any such
  request and any pending goroutine return, whatever the switches answer.\<close>

theorem service_never_panics:
  assumes "sound_network topo" and "ops_total ops"
    and "net_reachable ops r topo (svc_start r st topo w0) (t, w, pending)"
  shows "(sound_request r topo req \<longrightarrow> all_orders_ok ords ordA ordR \<longrightarrow>
            (\<exists>x. ConfigureTelemetry ops ords ordA ordR req topo t w = Some x))
     \<and> (i \<in> set pending \<longrightarrow> entry_orders_ok ordD \<longrightarrow> (\<exists>x. disable_background ops ordD i topo t w = Some x))"
proof -
  from net_reachable_inv [OF assms(3,1)] have "net_inv r topo t pending"
    by (simp add: svc_start_def net_inv_start)
  from net_inv_total [OF this assms(1,2)] show ?thesis by blast
qed

lemma sample_net_reachable:
  "net_reachable sample_ops sample_registry sample_topo
     (svc_start sample_registry quiet_observers sample_topo ()) (configured [''h2'', ''h3''], (), [])"
proof -
  from configured_step obtain resp where
    "ConfigureTelemetry sample_ops sample_request_orders sample_orders sample_orders
     (sample_request [''h2'', ''h3'']) sample_topo sample_service () = Some (resp, configured [''h2'', ''h3''], ())"
    by (auto simp: sample_configure_def)
  with sample_request_sound sample_all_orders
  have "net_step sample_ops sample_registry sample_topo (sample_service, (), []) (configured [''h2'', ''h3''], (), [])"
    by (rule net_step.net_configure)
  moreover have "svc_start sample_registry quiet_observers sample_topo () = (sample_service, (), [])"
    by (simp add: svc_start_def sample_service_def)
  ultimately show ?thesis by (metis net_reachable.net_start net_reachable.net_next)
qed

theorem service_never_panics_witness:
  "\<exists>x. ConfigureTelemetry sample_ops sample_request_orders sample_orders sample_orders
     (sample_request [''h2'', ''h3'']) sample_topo (configured [''h2'', ''h3'']) () = Some x"
  using service_never_panics [OF sample_network_sound sample_ops_total sample_net_reachable] sample_request_sound sample_all_orders
  by blast

section \<open>Round trip and update\<close>

text \<open>C1: disabling an intent undoes configuring it: when both succeed on one topology, the number of
  users of every switch entry, the stored intents, the locks and the pool's assignment are what
  they were, whatever other intents share the entries and in whatever orders the maps were
  ranged over.\<close>

theorem configure_disable_roundtrip:
  assumes "service_inv t pending" and "CollectionId req \<noteq> []"
    and "gm_get (intentState t) (IntentId req) = None"
    and "entry_orders_ok ordA" and "entry_orders_ok ordR" and "entry_orders_ok ordD"
    and "ConfigureTelemetry ops ords ordA ordR req topo t w = Some (resp, t1, w1)" and "telemetryState resp = TelemetryOK"
    and "DisableTelemetry (IntentId req) t1 = (retry, t2, True)"
    and "disable_background ops ordD (IntentId req) topo t2 w1 = Some (t3, w3)"
    and "gm_get (intentState t3) (IntentId req) = None"
  shows "svc_users t3 = svc_users t \<and> gm_get (intentState t3) = gm_get (intentState t)
     \<and> gm_get (intentLocks t3) = gm_get (intentLocks t)
     \<and> allocations_of (collectionIdPool t3) = allocations_of (collectionIdPool t)"
  by (rule configure_then_disable [OF assms])

definition disabled :: "telemetry_service \<Rightarrow> (telemetry_service \<times> unit) option" where
  "disabled t = (case DisableTelemetry ''intent'' t of (retry, t2, spawned) \<Rightarrow>
     if spawned then disable_background sample_ops sample_orders ''intent'' sample_topo t2 () else None)"

lemma disabled_step:
  "\<exists>retry t2 t3. DisableTelemetry ''intent'' (configured [''h2'', ''h3'']) = (retry, t2, True)
     \<and> disable_background sample_ops sample_orders ''intent'' sample_topo t2 () = Some (t3, ())
     \<and> gm_get (intentState t3) ''intent'' = None"
proof -
  have "map_option (\<lambda>(t, w). gm_get (intentState t) ''intent'' = None) (disabled (configured [''h2'', ''h3''])) = Some True"
    by code_simp
  then show ?thesis
    by (auto simp: disabled_def split: prod.splits if_splits)
qed

theorem configure_disable_roundtrip_witness:
  "\<exists>t3. disabled (configured [''h2'', ''h3'']) = Some (t3, ())
     \<and> svc_users t3 = svc_users sample_service \<and> gm_get (intentState t3) = gm_get (intentState sample_service)"
proof -
  have req: "IntentId (sample_request [''h2'', ''h3'']) = ''intent''" "CollectionId (sample_request [''h2'', ''h3'']) \<noteq> []"
    "gm_get (intentState sample_service) ''intent'' = None" by code_simp+
  from configured_step obtain resp where c: "telemetryState resp = TelemetryOK"
    "ConfigureTelemetry sample_ops sample_request_orders sample_orders sample_orders
       (sample_request [''h2'', ''h3'']) sample_topo sample_service () = Some (resp, configured [''h2'', ''h3''], ())"
    by (auto simp: sample_configure_def)
  from disabled_step obtain retry t2 t3 where d: "DisableTelemetry ''intent'' (configured [''h2'', ''h3'']) = (retry, t2, True)"
    "disable_background sample_ops sample_orders ''intent'' sample_topo t2 () = Some (t3, ())"
    "gm_get (intentState t3) ''intent'' = None" by blast
  have "svc_users t3 = svc_users sample_service \<and> gm_get (intentState t3) = gm_get (intentState sample_service)"
    using configure_disable_roundtrip [OF sample_service_inv req(2) _ sample_orders_ok(1) sample_orders_ok(1) sample_orders_ok(1) c(2,1),
        unfolded req(1), OF req(3) d] by blast
  moreover have "disabled (configured [''h2'', ''h3'']) = Some (t3, ())" using d by (simp add: disabled_def)
  ultimately show ?thesis by blast
qed

text \<open>C4: updating an intent moves the user counts of sink, reporting and transit entries from the
  demand of the old entities to the demand of the new ones, and those of the source
  configurations too when neither version configures an edge twice alike.\<close>

theorem update_moves_demand:
  assumes "service_inv t pending" and "CollectionId req \<noteq> []"
    and "gm_get (intentState t) (IntentId req) = Some cur"
    and "entry_orders_ok ordA" and "entry_orders_ok ordR"
    and "ConfigureTelemetry ops ords ordA ordR req topo t w = Some (resp, t', w')" and "telemetryState resp = TelemetryOK"
  shows "\<exists>desired n. gm_get (intentState t') (IntentId req) = Some (requested_state req desired)
     \<and> findTelemetryEntitiesForRequest (svcRegistry t) ords req (TopologyToGraph topo) = Some desired
     \<and> GetIfAllocated (IntentId req) (stCollectionId cur) (collectionIdPool t) = Some n
     \<and> (\<forall>k. fst k \<noteq> ActivateSourceCounter \<longrightarrow>
          (fst k = ConfigureSourceCounter \<longrightarrow> distinct_confs (stEntities cur) \<and> distinct_confs desired) \<longrightarrow>
          int (svc_users t' k) = int (svc_users t k)
            + entities_demand (TopologyToGraph topo) (int n) desired k
            - entities_demand (TopologyToGraph topo) (int n) (stEntities cur) k)"
  by (rule configure_update [OF assms]) blast

lemma configured_inv: "service_inv (configured [''h2'', ''h3'']) []"
  using svc_run_inv [OF configured_run] sample_collection by (auto simp: svc_start_def service_inv_start)

lemma update_step:
  "\<exists>resp t'. sample_configure [''h2''] (configured [''h2'', ''h3'']) = Some (resp, t', ()) \<and> telemetryState resp = TelemetryOK"
proof -
  have "map_option (\<lambda>(r, t, w). telemetryState r) (sample_configure [''h2''] (configured [''h2'', ''h3''])) = Some TelemetryOK"
    by code_simp
  then show ?thesis by auto
qed

theorem update_moves_demand_witness:
  "\<exists>(t' :: telemetry_service) desired. gm_get (intentState t') ''intent'' = Some (requested_state (sample_request [''h2'']) desired)"
proof -
  from update_step obtain resp t' where s: "ConfigureTelemetry sample_ops sample_request_orders sample_orders sample_orders
      (sample_request [''h2'']) sample_topo (configured [''h2'', ''h3'']) () = Some (resp, t', ())" "telemetryState resp = TelemetryOK"
    unfolding sample_configure_def by blast
  have id: "IntentId (sample_request [''h2'']) = ''intent''" and c: "CollectionId (sample_request [''h2'']) \<noteq> []" by code_simp+
  have "gm_get (intentState (configured [''h2'', ''h3''])) ''intent'' \<noteq> None" by code_simp
  then obtain cur where cur: "gm_get (intentState (configured [''h2'', ''h3''])) (IntentId (sample_request [''h2''])) = Some cur"
    unfolding id by blast
  from update_moves_demand [OF configured_inv c cur sample_orders_ok(1) sample_orders_ok(1) s] obtain desired
    where "gm_get (intentState t') (IntentId (sample_request [''h2''])) = Some (requested_state (sample_request [''h2'']) desired)"
    by blast
  then show ?thesis unfolding id by blast
qed

text \<open>Not so for the activation entries. An intent from \<open>h1\<close> to \<open>h2\<close> and \<open>h3\<close> activates port 1 of
  \<open>s1\<close> once. Updated to \<open>h2\<close> alone, it keeps the source edge, since \<open>h2\<close> still needs it, but the edge is among
  the removed ones because a configuration of it was removed: the activation entry loses its only
  user and is deleted.\<close>

theorem update_drops_activation:
  "\<exists>t1 t2 cur. sample_configure [''h2'', ''h3''] sample_service = Some (\<lparr>telemetryState = TelemetryOK, Description = None\<rparr>, t1, ())
     \<and> sample_configure [''h2''] t1 = Some (\<lparr>telemetryState = TelemetryOK, Description = None\<rparr>, t2, ())
     \<and> gm_get (intentState t2) ''intent'' = Some cur
     \<and> length (confs_of (Sources (stEntities cur)) \<lparr>from_dev = ''s1'', to_dev = ''h1''\<rparr>) = 1
     \<and> svc_users t1 (ActivateSourceCounter, ''s1'', ToIdentifier (ActivateSourceKey 1)) = 1
     \<and> svc_users t2 (ActivateSourceCounter, ''s1'', ToIdentifier (ActivateSourceKey 1)) = 0"
proof -
  have "(case sample_configure [''h2'', ''h3''] sample_service of None \<Rightarrow> False | Some (r1, t1, w1) \<Rightarrow>
     (case sample_configure [''h2''] t1 of None \<Rightarrow> False | Some (r2, t2, w2) \<Rightarrow>
       (case gm_get (intentState t2) ''intent'' of None \<Rightarrow> False | Some cur \<Rightarrow>
         telemetryState r1 = TelemetryOK \<and> Description r1 = None \<and> telemetryState r2 = TelemetryOK \<and> Description r2 = None
         \<and> length (confs_of (Sources (stEntities cur)) \<lparr>from_dev = ''s1'', to_dev = ''h1''\<rparr>) = 1
         \<and> svc_users t1 (ActivateSourceCounter, ''s1'', ToIdentifier (ActivateSourceKey 1)) = 1
         \<and> svc_users t2 (ActivateSourceCounter, ''s1'', ToIdentifier (ActivateSourceKey 1)) = 0)))"
    by code_simp
  then show ?thesis
    by (auto split: option.splits prod.splits)
qed

text \<open>An intent that names a target twice installs its source configuration for two users; after
  an update that names it once nothing is removed, and disabling the intent leaves one user that
  nobody will ever remove.\<close>

theorem duplicate_target_leaks:
  "\<exists>t1 t2 t3. sample_configure [''h2'', ''h2''] sample_service = Some (\<lparr>telemetryState = TelemetryOK, Description = None\<rparr>, t1, ())
     \<and> sample_configure [''h2''] t1 = Some (\<lparr>telemetryState = TelemetryOK, Description = None\<rparr>, t2, ())
     \<and> disabled t2 = Some (t3, ()) \<and> gm_get (intentState t3) ''intent'' = None
     \<and> svc_users t3 (ConfigureSourceCounter, ''s1'', ''10.0.0.1&&&0xFFFFFFFF_10.0.2.2&&&0xFFFFFFFF_-1_-1_raw'') = 1"
proof -
  have "(case sample_configure [''h2'', ''h2''] sample_service of None \<Rightarrow> False | Some (r1, t1, w1) \<Rightarrow>
     (case sample_configure [''h2''] t1 of None \<Rightarrow> False | Some (r2, t2, w2) \<Rightarrow>
       (case disabled t2 of None \<Rightarrow> False | Some (t3, w3) \<Rightarrow>
         telemetryState r1 = TelemetryOK \<and> Description r1 = None \<and> telemetryState r2 = TelemetryOK \<and> Description r2 = None
         \<and> gm_get (intentState t3) ''intent'' = None
         \<and> svc_users t3 (ConfigureSourceCounter, ''s1'', ''10.0.0.1&&&0xFFFFFFFF_10.0.2.2&&&0xFFFFFFFF_-1_-1_raw'') = 1)))"
    by code_simp
  then show ?thesis
    by (auto split: option.splits prod.splits)
qed

section \<open>Failures\<close>

text \<open>C6: a configure call that fails is all or nothing for a new intent, provided the switches do not
  fail to delete an entry: no switch entry has more or fewer users than before, no intent's state
  and no pool assignment has changed, and the intent's lock is gone.\<close>

theorem failed_configure_changes_nothing:
  assumes "service_inv t pending" and "CollectionId req \<noteq> []"
    and "gm_get (intentState t) (IntentId req) = None"
    and "entry_orders_ok ordA" and "entry_orders_ok ordR"
    and "ConfigureTelemetry (reliable_delete wr del) ords ordA ordR req topo t w = Some (resp, t', w')"
    and "telemetryState resp = Failed"
  shows "svc_users t' = svc_users t \<and> intentState t' = intentState t
     \<and> gm_get (intentLocks t') = gm_get (intentLocks t)
     \<and> allocations_of (collectionIdPool t') = allocations_of (collectionIdPool t)"
proof -
  note i = assms(1) [unfolded service_inv_def]
  have ci: "counters_inv (counters t)" and pi: "pool_inv (collectionIdPool t)" using i by auto
  have lock: "gm_get (intentLocks t) (IntentId req) = None" using i assms(3) by blast
  have notheld: "\<not> holds_id (collectionIdPool t) (IntentId req) (CollectionId req)" using i assms(3) by simp
  have ok: "telemetryState resp \<noteq> TelemetryOK" using assms(7) by simp
  show ?thesis
  proof (cases rule: configure_not_ok [OF ci assms(4-6) ok, case_names busy rejected undone])
    case busy
    with assms(7) show ?thesis by simp
  next
    case rejected
    with lock assms(3) show ?thesis by (auto simp: lock_released_def svc_users_def fun_eq_iff)
  next
    case (undone desired added removed cid pool1 log undone)
    have "removed = newTelemetryEntities" using undone(6) assms(3) by (simp add: planned_changes_def)
    with undone(8) have "list_all isCreate (actions log)" by (simp add: plan_new_creates)
    then have "svc_users t' = svc_users t" using undone(13) by blast
    moreover have "allocations_of (collectionIdPool t') = allocations_of (collectionIdPool t)"
      using ids.acquire_release [OF pi assms(2) undone(7)] owned_index [OF pi, of "IntentId req" "CollectionId req"]
        notheld undone(10) assms(3) by (auto simp: holds_id_def GetIfAllocated_def)
    ultimately show ?thesis
      using undone(2) lock assms(3) by (auto simp: lock_released_def fun_eq_iff)
  qed
qed

text \<open>A switch \<open>s2\<close> that refuses everything.\<close>

definition refusing_write :: "device_name \<Rightarrow> raw_entry \<Rightarrow> unit \<Rightarrow> (err option \<times> unit) option" where
  "refusing_write d e w = (if d = ''s2'' then Some (Some ''refused'', w) else Some (None, w))"

theorem failed_configure_changes_nothing_witness:
  "\<exists>resp t'. ConfigureTelemetry (reliable_delete refusing_write (\<lambda>d e w. w)) sample_request_orders sample_orders sample_orders
      (sample_request [''h2'']) sample_topo sample_service () = Some (resp, t', ())
     \<and> telemetryState resp = Failed \<and> svc_users t' = svc_users sample_service"
proof -
  have "map_option (\<lambda>(r, t, w). telemetryState r) (ConfigureTelemetry (reliable_delete refusing_write (\<lambda>d e w. w))
      sample_request_orders sample_orders sample_orders (sample_request [''h2'']) sample_topo sample_service ()) = Some Failed"
    by code_simp
  then obtain resp t' where s: "ConfigureTelemetry (reliable_delete refusing_write (\<lambda>d e w. w)) sample_request_orders
      sample_orders sample_orders (sample_request [''h2'']) sample_topo sample_service () = Some (resp, t', ())"
    "telemetryState resp = Failed" by auto
  have "CollectionId (sample_request [''h2'']) \<noteq> []"
    "gm_get (intentState sample_service) (IntentId (sample_request [''h2''])) = None" by code_simp+
  from failed_configure_changes_nothing [OF sample_service_inv this sample_orders_ok(1) sample_orders_ok(1) s] s show ?thesis
    by blast
qed

text \<open>An update that only changes the collector is accepted without touching the switches: the
  stored state names the new collector while every reporting entry still sends to the old one.\<close>

theorem collector_change_ignored:
  assumes "gm_get (intentState t) (IntentId req) = Some cur" and "stCollectionId cur = CollectionId req"
    and "findTelemetryEntitiesForRequest (svcRegistry t) ords req (TopologyToGraph topo) = Some desired"
    and "computeDifferences (stEntities cur) desired = (newTelemetryEntities, newTelemetryEntities)"
    and "ConfigureTelemetry ops ords ordA ordR req topo t w = Some (resp, t', w')" and "telemetryState resp = TelemetryOK"
  shows "w' = w \<and> counters t' = counters t
     \<and> map_option stCollectorNodeName (gm_get (intentState t') (IntentId req)) = Some (CollectorNodeName req)
     \<and> map_option stCollectorPort (gm_get (intentState t') (IntentId req)) = Some (sint (CollectorPort req))"
proof -
  have empty: "IsEmpty newTelemetryEntities" by (simp add: IsEmpty_def newTelemetryEntities_def)
  obtain b t0 where lock: "lockIntent (IntentId req) t = (b, t0)" by (cases "lockIntent (IntentId req) t")
  have b: b using assms(5,6) by (cases b) (auto simp: ConfigureTelemetry_def lock)
  then have t0: "t0 = t\<lparr>intentLocks := gm_put (IntentId req) True (intentLocks t)\<rparr>"
    using lock by (auto simp: lockIntent_def split: option.splits if_splits)
  show ?thesis
    using assms b lock t0 empty
    by (auto simp: ConfigureTelemetry_def plan_changes_def configure_failed_def unlockIntent_def Let_def
        split: Option.bind_splits sum.splits option.splits if_splits)
qed

definition moved_collector :: configure_telemetry_request where
  "moved_collector = (sample_request [''h2'', ''h3''])\<lparr>CollectorNodeName := ''h1'', CollectorPort := 7000\<rparr>"

theorem collector_change_ignored_witness:
  "\<exists>t' :: telemetry_service. counters t' = counters (configured [''h2'', ''h3''])
     \<and> map_option stCollectorNodeName (gm_get (intentState t') ''intent'') = Some ''h1''"
proof -
  let ?t = "configured [''h2'', ''h3'']"
  have "(case gm_get (intentState ?t) (IntentId moved_collector) of None \<Rightarrow> False | Some cur \<Rightarrow>
     stCollectionId cur = CollectionId moved_collector
     \<and> (case findTelemetryEntitiesForRequest (svcRegistry ?t) sample_request_orders moved_collector (TopologyToGraph sample_topo) of
          None \<Rightarrow> False
        | Some desired \<Rightarrow> computeDifferences (stEntities cur) desired = (newTelemetryEntities, newTelemetryEntities)))"
    by code_simp
  then obtain cur desired where c: "gm_get (intentState ?t) (IntentId moved_collector) = Some cur"
    "stCollectionId cur = CollectionId moved_collector"
    "findTelemetryEntitiesForRequest (svcRegistry ?t) sample_request_orders moved_collector (TopologyToGraph sample_topo) = Some desired"
    "computeDifferences (stEntities cur) desired = (newTelemetryEntities, newTelemetryEntities)"
    by (auto split: option.splits)
  have "map_option (\<lambda>(r, t, w). telemetryState r) (ConfigureTelemetry sample_ops sample_request_orders sample_orders sample_orders
      moved_collector sample_topo ?t ()) = Some TelemetryOK" by code_simp
  then obtain resp t' where s: "ConfigureTelemetry sample_ops sample_request_orders sample_orders sample_orders
      moved_collector sample_topo ?t () = Some (resp, t', ())" "telemetryState resp = TelemetryOK" by auto
  have "IntentId moved_collector = ''intent''" "CollectorNodeName moved_collector = ''h1''" by code_simp+
  with collector_change_ignored [OF c s] have "counters t' = counters ?t"
    "map_option stCollectorNodeName (gm_get (intentState t') ''intent'') = Some ''h1''" by simp_all
  then show ?thesis by blast
qed

text \<open>Requests that crash the controller. A target that is itself a telemetry switch next to the
  source is taken for the sink's neighbour and the host for the sink; a collector that is not in the
  topology is a nil device; a request with raw sources and tunneled targets fails a type assertion.\<close>

theorem unchecked_requests_panic:
  "sample_configure [''s1''] sample_service = None
   \<and> ConfigureTelemetry sample_ops sample_request_orders sample_orders sample_orders
       ((sample_request [''h2''])\<lparr>CollectorNodeName := ''nowhere''\<rparr>) sample_topo sample_service () = None
   \<and> ConfigureTelemetry sample_ops sample_request_orders sample_orders sample_orders
       ((sample_request [])\<lparr>reqTargets := TunneledEntities [(''h2'', [\<lparr>TunneledIp = ''any'', tunneledPort = None\<rparr>])]\<rparr>)
       sample_topo sample_service () = None"
  by (intro conjI; code_simp)

end
