(* ===== verification/GraphUtils.thy ===== *)
theory GraphUtils
  imports Traversals
begin

text \<open>
  The breadth-first search of \<open>graphutils/traversals.go\<close>, with which the controller finds the
  next hop towards every device. A \<open>nil\<close> device is \<^term>\<open>None\<close>: the queue and the map of parents
  hold \<open>device option\<close>, since \<open>G[link.To]\<close> may be missing and the source has no parent. The order in which
  \<open>GetNextHopsMap\<close> ranges over the graph is an argument.
\<close>

type_synonym parents_map = "(device_name, device option) gomap"

text \<open>The loop over the links of the popped device.\<close>

fun bfs_links ::
  "graph \<Rightarrow> device \<Rightarrow> link list \<Rightarrow> device_name list \<times> device option list \<times> parents_map \<Rightarrow>
     device_name list \<times> device option list \<times> parents_map" where
  "bfs_links G cur [] s = s"
| "bfs_links G cur (l # ls) (visited, queue, parents) =
     (if To l \<in> set visited then bfs_links G cur ls (visited, queue, parents)
      else bfs_links G cur ls (To l # visited, queue @ [gm_get G (To l)], gm_put (To l) (Some cur) parents))"

text \<open>The loop over the queue. What is still to do: the devices of the graph that were not visited,
  and the entries of the queue.\<close>

definition bfs_work :: "graph \<Rightarrow> device_name list \<times> device option list \<times> parents_map \<Rightarrow> nat" where
  "bfs_work G = (\<lambda>(visited, queue, parents).
     card (set (gm_keys G) - set visited) + length (filter (\<lambda>d. d \<noteq> None) queue))"

lemma bfs_links_work: "bfs_work G (bfs_links G cur ls s) \<le> bfs_work G s"
proof (induction G cur ls s rule: bfs_links.induct)
  case (2 G cur l ls visited queue parents)
  show ?case
  proof (cases "To l \<in> set visited")
    case False
    have "bfs_work G (To l # visited, queue @ [gm_get G (To l)], gm_put (To l) (Some cur) parents)
        \<le> bfs_work G (visited, queue, parents)"
    proof (cases "gm_get G (To l)")
      case None
      then have "set (gm_keys G) - set (To l # visited) = set (gm_keys G) - set visited"
        by (auto simp: map_of_eq_None_iff)
      with None show ?thesis by (simp only: bfs_work_def prod.case) simp
    next
      case (Some d)
      then have "To l \<in> set (gm_keys G) - set visited"
        using False gm_get_in [OF Some] by force
      then have "card (set (gm_keys G) - set visited) = Suc (card (set (gm_keys G) - set visited - {To l}))"
        by (intro card.remove) auto
      moreover have "set (gm_keys G) - set visited - {To l} = set (gm_keys G) - set (To l # visited)" by auto
      ultimately show ?thesis using Some by (simp only: bfs_work_def prod.case) simp
    qed
    with 2 False show ?thesis by (auto intro: order_trans)
  qed (use 2 in simp)
qed simp

function (sequential) bfs_loop ::
  "graph \<Rightarrow> device_name list \<times> device option list \<times> parents_map \<Rightarrow> parents_map option" where
  "bfs_loop G (visited, [], parents) = Some parents"
| "bfs_loop G (visited, None # queue, parents) = None"
| "bfs_loop G (visited, Some cur # queue, parents) =
     bfs_loop G (bfs_links G cur (GetLinks cur) (visited, queue, parents))"
  by pat_completeness auto

termination bfs_loop
proof (relation "measure (\<lambda>(G, s). bfs_work G s)")
  fix G visited cur queue parents
  have "bfs_work G (bfs_links G cur (GetLinks cur) (visited, queue, parents)) \<le> bfs_work G (visited, queue, parents)"
    by (rule bfs_links_work)
  also have "\<dots> < bfs_work G (visited, Some cur # queue, parents)"
    by (simp add: bfs_work_def)
  finally show "((G, bfs_links G cur (GetLinks cur) (visited, queue, parents)), G, visited, Some cur # queue, parents)
      \<in> measure (\<lambda>(G, s). bfs_work G s)" by simp
qed simp

definition Bfs :: "graph \<Rightarrow> device \<Rightarrow> parents_map option" where
  "Bfs G source = bfs_loop G ([GetName source], [Some source], [(GetName source, None)])"

text \<open>The lookup \<open>parents[name]\<close>, \<open>nil\<close> for a missing name.\<close>

definition parent_of :: "parents_map \<Rightarrow> device_name \<Rightarrow> device option" where
  "parent_of parents name = (case gm_get parents name of Some p \<Rightarrow> p | None \<Rightarrow> None)"

text \<open>The loop that climbs from the target to the source; its first argument bounds the rounds.\<close>

fun path_up :: "nat \<Rightarrow> parents_map \<Rightarrow> device option \<Rightarrow> device_name list \<Rightarrow> device_name list option" where
  "path_up n parents None path = Some path"
| "path_up 0 parents (Some cur) path = None"
| "path_up (Suc n) parents (Some cur) path =
     path_up n parents (parent_of parents (GetName cur)) (path @ [GetName cur])"

definition BfsPathFind :: "graph \<Rightarrow> device \<Rightarrow> device \<Rightarrow> device_name list option" where
  "BfsPathFind G source target = do {
     parents \<leftarrow> Bfs G source;
     (if gm_get parents (GetName target) = None then None
      else do {
        path \<leftarrow> path_up (length parents) parents (Some target) [];
        Some (rev path)
      })
   }"

definition FindNextHop :: "graph \<Rightarrow> device \<Rightarrow> device \<Rightarrow> device option" where
  "FindNextHop G source target = do {
     path \<leftarrow> BfsPathFind G source target;
     (if 1 < length path then gm_get G (path ! 1) else None)
   }"

text \<open>The inner loop of \<open>GetNextHopsMap\<close>: climb until the parent is the source or the hop of the
  current device is known. A \<open>nil\<close> parent and a \<open>nil\<close> known hop panic.\<close>

type_synonym hops_map = "(device_name, device option) gomap"

fun hop_search ::
  "nat \<Rightarrow> parents_map \<Rightarrow> device \<Rightarrow> hops_map \<Rightarrow> device_name \<Rightarrow> device_name list \<Rightarrow>
     (device_name \<times> device_name list) option" where
  "hop_search 0 parents source res cur path = None"
| "hop_search (Suc n) parents source res cur path =
     (case parent_of parents cur of
        None \<Rightarrow> None
      | Some parent \<Rightarrow>
          if Equals parent (Some source) then Some (cur, path)
          else (case gm_get res cur of
                  Some hop \<Rightarrow> (case hop of None \<Rightarrow> None | Some d \<Rightarrow> Some (GetName d, path))
                | None \<Rightarrow> hop_search n parents source res (GetName parent) (path @ [GetName parent])))"

definition next_hop_step :: "graph \<Rightarrow> parents_map \<Rightarrow> device \<Rightarrow> device_name \<Rightarrow> hops_map \<Rightarrow> hops_map option" where
  "next_hop_step G parents source devName res =
     (if gm_get res devName \<noteq> None then Some res
      else do {
        (nextHop, path) \<leftarrow> hop_search (length parents) parents source res devName [devName];
        Some (fold (\<lambda>dev. gm_put dev (gm_get G nextHop)) path res)
      })"

definition GetNextHopsMap ::
  "(device_name list \<Rightarrow> device_name list) \<Rightarrow> graph \<Rightarrow> device \<Rightarrow> hops_map option" where
  "GetNextHopsMap ord G source = do {
     parents \<leftarrow> Bfs G source;
     fold_opt (next_hop_step G parents source) (ord (gm_keys G)) [(GetName source, Some source)]
   }"

section \<open>The search finds shortest paths\<close>

text \<open>
  The invariant of the search, with the levels \<open>lev\<close> and the names \<open>qn\<close> of the queue as ghosts.
  \<open>R v\<close> is the set of neighbours of \<open>v\<close> that were looked at, for a \<open>v\<close> no longer in the queue, and
  \<open>b\<close> bounds the levels.
\<close>

definition parents_ok :: "graph \<Rightarrow> device_name \<Rightarrow> (device_name \<Rightarrow> nat) \<Rightarrow> parents_map \<Rightarrow> bool" where
  "parents_ok G s lev parents \<longleftrightarrow>
     gm_wf parents \<and> gm_get parents s = Some None \<and> lev s = 0
     \<and> (\<forall>v. gm_get parents v = Some None \<longrightarrow> v = s)
     \<and> (\<forall>v p. gm_get parents v = Some (Some p) \<longrightarrow> gm_get G (GetName p) = Some p
          \<and> gm_get parents (GetName p) \<noteq> None
          \<and> v \<in> set (neighbours G (GetName p)) \<and> lev v = Suc (lev (GetName p)))"

definition seen :: "parents_map \<Rightarrow> device_name \<Rightarrow> bool" where
  "seen parents v \<longleftrightarrow> gm_get parents v \<noteq> None"

definition bfs_inv ::
  "graph \<Rightarrow> (device_name \<Rightarrow> nat) \<Rightarrow> device_name list \<Rightarrow> (device_name \<Rightarrow> device_name set) \<Rightarrow> nat \<Rightarrow>
     device_name list \<times> device option list \<times> parents_map \<Rightarrow> bool" where
  "bfs_inv G lev qn R b = (\<lambda>(visited, queue, parents).
     queue = map (gm_get G) qn \<and> sorted (map lev qn) \<and> distinct qn
     \<and> (\<forall>v \<in> set qn. seen parents v)
     \<and> (\<forall>v. v \<in> set visited \<longleftrightarrow> seen parents v)
     \<and> (\<forall>v. seen parents v \<longrightarrow> v \<notin> set qn \<longrightarrow> (\<forall>w \<in> R v. seen parents w \<and> lev w \<le> Suc (lev v)))
     \<and> (\<forall>v. seen parents v \<longrightarrow> lev v \<le> b))"

lemma seen_put [simp]: "seen (gm_put k p parents) v \<longleftrightarrow> v = k \<or> seen parents v"
  by (simp add: seen_def)

lemma parents_ok_put:
  assumes "parents_ok G s lev parents" and "\<not> seen parents v" and "gm_get G u = Some cur" and "GetName cur = u"
    and "seen parents u" and "v \<in> set (neighbours G u)"
  shows "parents_ok G s (lev(v := Suc (lev u))) (gm_put v (Some cur) parents)"
proof -
  note ok = assms(1) [unfolded parents_ok_def]
  have "seen parents s" using ok by (simp add: seen_def)
  then have ne: "v \<noteq> s" "v \<noteq> u" using assms(2,5) by auto
  show ?thesis
    unfolding parents_ok_def
  proof (intro conjI allI impI)
    fix w p assume w: "gm_get (gm_put v (Some cur) parents) w = Some (Some p)"
    have "gm_get G (GetName p) = Some p \<and> seen parents (GetName p)
        \<and> w \<in> set (neighbours G (GetName p)) \<and> (w = v \<and> GetName p = u \<or> w \<noteq> v \<and> lev w = Suc (lev (GetName p)))"
    proof (cases "w = v")
      case True
      with w have "p = cur" by simp
      with True assms(3-6) show ?thesis by simp
    next
      case False
      with w have "gm_get parents w = Some (Some p)" by simp
      with ok False show ?thesis unfolding seen_def by blast
    qed
    then show "gm_get G (GetName p) = Some p" "gm_get (gm_put v (Some cur) parents) (GetName p) \<noteq> None"
      "w \<in> set (neighbours G (GetName p))" "(lev(v := Suc (lev u))) w = Suc ((lev(v := Suc (lev u))) (GetName p))"
      using assms(2) ne by (auto simp: seen_def)
  next
    fix w assume "gm_get (gm_put v (Some cur) parents) w = Some None"
    then have "gm_get parents w = Some None" by (simp split: if_splits)
    with ok show "w = s" by simp
  qed (use ok ne in simp_all)
qed

lemma bfs_links_inv:
  assumes "bfs_inv G lev qn (R(u := D)) (Suc (lev u)) (visited, queue, parents)" and "parents_ok G s lev parents"
    and "gm_get G u = Some cur" and "GetName cur = u" and "seen parents u" and "u \<notin> set qn"
    and "set ls \<subseteq> set (GetLinks cur)" and "\<forall>x \<in> set qn. lev u \<le> lev x"
    and "bfs_links G cur ls (visited, queue, parents) = (visited', queue', parents')"
  shows "\<exists>lev' qn'. bfs_inv G lev' qn' (R(u := D \<union> To ` set ls)) (Suc (lev u)) (visited', queue', parents')
     \<and> parents_ok G s lev' parents' \<and> lev' u = lev u \<and> (\<forall>x \<in> set qn'. lev u \<le> lev' x)"
  using assms
proof (induction ls arbitrary: lev qn D visited queue parents)
  case Nil
  then show ?case by auto
next
  case (Cons l ls)
  note inv = Cons.prems(1) [unfolded bfs_inv_def prod.case]
  have nb: "To l \<in> set (neighbours G u)"
    using Cons.prems(3,7) by (simp add: neighbours_get)
  show ?case
  proof (cases "seen parents (To l)")
    case True
    have "bfs_inv G lev qn (R(u := insert (To l) D)) (Suc (lev u)) (visited, queue, parents)"
      unfolding bfs_inv_def prod.case using inv True by (auto split: if_splits)
    from Cons.IH [OF this Cons.prems(2-6) _ Cons.prems(8)] Cons.prems(7,9) True inv show ?thesis
      by simp
  next
    case False
    define lev1 where "lev1 = lev(To l := Suc (lev u))"
    have old: "lev1 v = lev v" if "seen parents v" for v
      using that False by (auto simp: lev1_def)
    have lu: "lev1 u = lev u" using old Cons.prems(5) by simp
    have lq: "map lev1 qn = map lev qn" using inv old by simp
    have bound: "\<forall>v. seen parents v \<longrightarrow> lev v \<le> Suc (lev u)" using inv by simp
    have a: "bfs_inv G lev1 (qn @ [To l]) (R(u := insert (To l) D)) (Suc (lev1 u))
        (To l # visited, queue @ [gm_get G (To l)], gm_put (To l) (Some cur) parents)"
      unfolding bfs_inv_def prod.case
    proof (intro conjI)
      show "sorted (map lev1 (qn @ [To l]))"
        unfolding map_append lq using inv bound by (auto simp: sorted_append lev1_def)
      show "\<forall>v. seen (gm_put (To l) (Some cur) parents) v \<longrightarrow> v \<notin> set (qn @ [To l]) \<longrightarrow>
          (\<forall>w \<in> (R(u := insert (To l) D)) v. seen (gm_put (To l) (Some cur) parents) w \<and> lev1 w \<le> Suc (lev1 v))"
      proof (intro allI impI ballI)
        fix v w assume v: "seen (gm_put (To l) (Some cur) parents) v" "v \<notin> set (qn @ [To l])"
          and w: "w \<in> (R(u := insert (To l) D)) v"
        then have "seen parents v" "v \<notin> set qn" by auto
        from this inv w have "w = To l \<and> v = u \<or> seen parents w \<and> lev w \<le> Suc (lev v)"
          by (auto split: if_splits)
        then show "seen (gm_put (To l) (Some cur) parents) w \<and> lev1 w \<le> Suc (lev1 v)"
        proof
          assume "w = To l \<and> v = u" then show ?thesis using lu by (simp add: lev1_def)
        next
          assume "seen parents w \<and> lev w \<le> Suc (lev v)"
          with old [of w] old [of v] \<open>seen parents v\<close> show ?thesis by simp
        qed
      qed
      show "\<forall>v. seen (gm_put (To l) (Some cur) parents) v \<longrightarrow> lev1 v \<le> Suc (lev1 u)"
        using bound lu by (auto simp: lev1_def)
    qed (use inv False in auto)
    have po: "parents_ok G s lev1 (gm_put (To l) (Some cur) parents)"
      unfolding lev1_def by (rule parents_ok_put [OF Cons.prems(2) False Cons.prems(3-5) nb])
    have le: "\<forall>x \<in> set (qn @ [To l]). lev1 u \<le> lev1 x"
      using Cons.prems(8) lu inv old by (auto simp: lev1_def)
    have un: "u \<notin> set (qn @ [To l])" using Cons.prems(5,6) False by auto
    have bl: "bfs_links G cur ls (To l # visited, queue @ [gm_get G (To l)], gm_put (To l) (Some cur) parents)
        = (visited', queue', parents')"
      using Cons.prems(9) False inv by simp
    have su: "seen (gm_put (To l) (Some cur) parents) u" and ls: "set ls \<subseteq> set (GetLinks cur)"
      using Cons.prems(5,7) by auto
    have "R(u := D \<union> To ` set (l # ls)) = R(u := insert (To l) D \<union> To ` set ls)" by simp
    with Cons.IH [OF a po Cons.prems(3,4) su un ls le bl] lu show ?thesis by simp
  qed
qed

text \<open>What a finished search returns: the levels are the distances from the source.\<close>

definition parent_tree :: "graph \<Rightarrow> device_name \<Rightarrow> (device_name \<Rightarrow> nat) \<Rightarrow> parents_map \<Rightarrow> bool" where
  "parent_tree G s lev parents \<longleftrightarrow> parents_ok G s lev parents
     \<and> (\<forall>v. seen parents v \<longrightarrow> (\<forall>w \<in> set (neighbours G v). seen parents w \<and> lev w \<le> Suc (lev v)))"

lemma bfs_loop_tree:
  assumes "bfs_loop G (visited, queue, parents) = Some res" and "graph_named G"
    and "bfs_inv G lev qn (\<lambda>v. set (neighbours G v)) b (visited, queue, parents)" and "parents_ok G s lev parents"
    and "\<forall>x \<in> set qn. b \<le> Suc (lev x)"
  shows "\<exists>lev'. parent_tree G s lev' res"
  using assms
proof (induction G "(visited, queue, parents)" arbitrary: visited queue parents lev qn b rule: bfs_loop.induct)
  case (1 G visited parents)
  then have "qn = []" by (simp add: bfs_inv_def)
  with 1 have "parent_tree G s lev res"
    by (simp add: parent_tree_def bfs_inv_def)
  then show ?case by blast
next
  case (3 G visited cur queue parents)
  note inv = 3(4) [unfolded bfs_inv_def prod.case]
  have "map (gm_get G) qn = Some cur # queue" using inv by simp
  then obtain u qr where qn: "qn = u # qr" "gm_get G u = Some cur" "queue = map (gm_get G) qr" by auto
  obtain visited' queue' parents' where b:
    "bfs_links G cur (GetLinks cur) (visited, queue, parents) = (visited', queue', parents')"
    by (metis prod_cases3)
  have cn: "GetName cur = u" using graph_namedD [OF 3(3) qn(2)] .
  have su: "seen parents u" using inv qn(1) by simp
  have uq: "u \<notin> set qr" "\<forall>x \<in> set qr. lev u \<le> lev x" using inv qn(1) by auto
  have "bfs_inv G lev qr ((\<lambda>v. set (neighbours G v))(u := {})) (Suc (lev u)) (visited, queue, parents)"
    unfolding bfs_inv_def prod.case
  proof (intro conjI allI impI)
    fix v assume "seen parents v"
    with inv have "lev v \<le> b" by blast
    also have "b \<le> Suc (lev u)" using 3(6) qn(1) by simp
    finally show "lev v \<le> Suc (lev u)" .
  next
    fix v assume "seen parents v" "v \<notin> set qr"
    with inv qn(1) show "\<forall>w \<in> ((\<lambda>v. set (neighbours G v))(u := {})) v. seen parents w \<and> lev w \<le> Suc (lev v)"
      by (cases "v = u") auto
  qed (use inv qn in auto)
  from bfs_links_inv [OF this 3(5) qn(2) cn su uq(1) subset_refl uq(2) b]
  obtain lev' qn' where s: "bfs_inv G lev' qn' ((\<lambda>v. set (neighbours G v))(u := {} \<union> To ` set (GetLinks cur)))
      (Suc (lev u)) (visited', queue', parents')"
    "parents_ok G s lev' parents'" "\<forall>x \<in> set qn'. lev u \<le> lev' x" by blast
  have "To ` set (GetLinks cur) = set (neighbours G u)" by (simp add: neighbours_get [OF qn(2)])
  then have "(\<lambda>v. set (neighbours G v))(u := {} \<union> To ` set (GetLinks cur)) = (\<lambda>v. set (neighbours G v))"
    by (simp add: fun_eq_iff)
  with s(1) have "bfs_inv G lev' qn' (\<lambda>v. set (neighbours G v)) (Suc (lev u)) (visited', queue', parents')" by simp
  moreover have "bfs_loop G (visited', queue', parents') = Some res" using 3(2) b by simp
  moreover have "\<forall>x \<in> set qn'. Suc (lev u) \<le> Suc (lev' x)" using s(3) by simp
  ultimately show ?case using 3(1) [OF b] 3(3) s(2) by blast
qed simp

lemma Bfs_tree:
  assumes "Bfs G source = Some parents" and "graph_named G" and "gm_get G s = Some source"
  shows "\<exists>lev. parent_tree G s lev parents"
proof -
  have n: "GetName source = s" using graph_namedD [OF assms(2,3)] .
  have "bfs_loop G ([s], [Some source], [(s, None)]) = Some parents" using assms(1) by (simp add: Bfs_def n)
  moreover have "bfs_inv G (\<lambda>_. 0) [s] (\<lambda>v. set (neighbours G v)) 0 ([s], [Some source], [(s, None)])"
    using assms(3) by (auto simp: bfs_inv_def seen_def)
  moreover have "parents_ok G s (\<lambda>_. 0) [(s, None)]" by (simp add: parents_ok_def)
  ultimately show ?thesis using assms(2) bfs_loop_tree by fastforce
qed

text \<open>The consequences a user of the search needs: levels are distances.\<close>

lemma tree_parent:
  assumes "parent_tree G s lev parents" and "seen parents v" and "v \<noteq> s"
  obtains p where "parent_of parents v = Some p" "gm_get parents v = Some (Some p)" "gm_get G (GetName p) = Some p"
    "seen parents (GetName p)" "v \<in> set (neighbours G (GetName p))" "lev v = Suc (lev (GetName p))"
proof -
  note ok = assms(1) [unfolded parent_tree_def parents_ok_def]
  from assms(2) obtain d where d: "gm_get parents v = Some d" by (auto simp: seen_def)
  with ok assms(3) obtain p where "d = Some p" by (cases d) auto
  with d have p: "gm_get parents v = Some (Some p)" by simp
  with ok have "gm_get G (GetName p) = Some p" "gm_get parents (GetName p) \<noteq> None"
    "v \<in> set (neighbours G (GetName p))" "lev v = Suc (lev (GetName p))" by blast+
  with p that show ?thesis by (simp add: parent_of_def seen_def)
qed

lemma tree_source: "parent_tree G s lev parents \<Longrightarrow> gm_get parents s = Some None \<and> lev s = 0 \<and> seen parents s"
  by (simp add: parent_tree_def parents_ok_def seen_def)

lemma tree_step:
  "parent_tree G s lev parents \<Longrightarrow> seen parents v \<Longrightarrow> (v, w) \<in> edge_rel G \<Longrightarrow> seen parents w \<and> lev w \<le> Suc (lev v)"
  by (auto simp: parent_tree_def edge_rel_def)

lemma tree_walk:
  assumes "parent_tree G s lev parents"
  shows "seen parents v \<Longrightarrow> (s, v) \<in> edge_rel G ^^ lev v"
proof (induction "lev v" arbitrary: v)
  case 0
  show ?case
  proof (cases "v = s")
    case False
    from tree_parent [OF assms 0(2) False] obtain p where "lev v = Suc (lev (GetName p))" .
    with 0(1) show ?thesis by simp
  qed (use tree_source [OF assms] in simp)
next
  case (Suc n)
  then have "v \<noteq> s" using tree_source [OF assms] by auto
  from tree_parent [OF assms Suc.prems this] obtain p where p: "seen parents (GetName p)"
    "v \<in> set (neighbours G (GetName p))" "lev v = Suc (lev (GetName p))" .
  with Suc have "(s, GetName p) \<in> edge_rel G ^^ n" by simp
  moreover have "(GetName p, v) \<in> edge_rel G" using p(2) by (simp add: edge_rel_def)
  ultimately show ?case using Suc.hyps(2) by (metis relpow_Suc_I)
qed

lemma tree_shortest:
  assumes "parent_tree G s lev parents"
  shows "(s, v) \<in> edge_rel G ^^ n \<Longrightarrow> seen parents v \<and> lev v \<le> n"
proof (induction n arbitrary: v)
  case 0
  then show ?case using tree_source [OF assms] by simp
next
  case (Suc n)
  then obtain u where "(s, u) \<in> edge_rel G ^^ n" "(u, v) \<in> edge_rel G" by auto
  with Suc.IH tree_step [OF assms] show ?case by (meson Suc_leI le_imp_less_Suc order_trans not_less_eq_eq)
qed

lemma tree_seen_iff: "parent_tree G s lev parents \<Longrightarrow> seen parents v \<longleftrightarrow> (s, v) \<in> (edge_rel G)\<^sup>*"
  using tree_walk tree_shortest by (metis relpow_imp_rtrancl rtrancl_imp_relpow)

text \<open>Every level up to that of a seen device is taken, so the climb is shorter than the map.\<close>

lemma tree_levels:
  assumes "parent_tree G s lev parents"
  shows "seen parents v \<Longrightarrow> k \<le> lev v \<Longrightarrow> \<exists>u. seen parents u \<and> lev u = k"
proof (induction "lev v" arbitrary: v)
  case 0
  then show ?case by auto
next
  case (Suc n)
  show ?case
  proof (cases "k = lev v")
    case False
    have "v \<noteq> s" using Suc.hyps(2) tree_source [OF assms] by auto
    from tree_parent [OF assms Suc.prems(1) this] obtain p where
      "seen parents (GetName p)" "lev v = Suc (lev (GetName p))" .
    with Suc False show ?thesis by (metis Suc_inject le_SucE)
  qed (use Suc in auto)
qed

lemma tree_lev_less:
  assumes "parent_tree G s lev parents" and "seen parents v"
  shows "lev v < length parents"
proof -
  have "{..lev v} \<subseteq> lev ` set (gm_keys parents)"
  proof
    fix k assume "k \<in> {..lev v}"
    with tree_levels [OF assms] obtain u where "seen parents u" "lev u = k" by auto
    moreover from this have "u \<in> set (gm_keys parents)" by (auto simp: seen_def map_of_eq_None_iff)
    ultimately show "k \<in> lev ` set (gm_keys parents)" by blast
  qed
  then have "card {..lev v} \<le> card (lev ` set (gm_keys parents))" by (intro card_mono) auto
  also have "\<dots> \<le> length parents"
    using card_image_le [of "set (gm_keys parents)" lev] card_length [of "gm_keys parents"] by simp
  finally show ?thesis by simp
qed

lemma path_up_tree:
  assumes "parent_tree G s lev parents"
  shows "seen parents (GetName cur) \<Longrightarrow> lev (GetName cur) < n \<Longrightarrow>
     \<exists>ps. path_up n parents (Some cur) acc = Some (acc @ ps) \<and> ps \<noteq> [] \<and> hd ps = GetName cur \<and> last ps = s
       \<and> length ps = Suc (lev (GetName cur)) \<and> reversed_path G ps \<and> distinct ps \<and> (\<forall>x \<in> set ps. lev x \<le> lev (GetName cur))"
proof (induction n arbitrary: cur acc)
  case (Suc n)
  show ?case
  proof (cases "GetName cur = s")
    case True
    with tree_source [OF assms] show ?thesis
      by (cases n) (auto simp: parent_of_def reversed_path_def)
  next
    case False
    from tree_parent [OF assms Suc.prems(1) False] obtain p where p: "parent_of parents (GetName cur) = Some p"
      "seen parents (GetName p)" "GetName cur \<in> set (neighbours G (GetName p))" "lev (GetName cur) = Suc (lev (GetName p))" .
    then have "lev (GetName p) < n" using Suc.prems(2) by simp
    from Suc.IH [OF p(2) this, of "acc @ [GetName cur]"] obtain ps where ps:
      "path_up n parents (Some p) (acc @ [GetName cur]) = Some ((acc @ [GetName cur]) @ ps)" "ps \<noteq> []" "hd ps = GetName p"
      "last ps = s" "length ps = Suc (lev (GetName p))" "reversed_path G ps" "distinct ps"
      "\<forall>x \<in> set ps. lev x \<le> lev (GetName p)" by blast
    have "reversed_path G (GetName cur # ps)"
      using ps(2,3,6) p(3) by (cases ps) (auto simp: reversed_path_def)
    moreover have "GetName cur \<notin> set ps" using ps(8) p(4) by auto
    ultimately show ?thesis
      using ps p by (intro exI [of _ "GetName cur # ps"]) auto
  qed
qed simp

definition known_device :: "graph \<Rightarrow> device option \<Rightarrow> bool" where
  "known_device G d \<longleftrightarrow> (\<exists>x u. d = Some x \<and> gm_get G u = Some x)"

lemma bfs_links_queue:
  assumes "graph_closed G" and "gm_get G u = Some cur" and "set ls \<subseteq> set (GetLinks cur)"
    and "\<forall>d \<in> set (fst (snd s)). known_device G d"
  shows "\<forall>d \<in> set (fst (snd (bfs_links G cur ls s))). known_device G d"
  using assms
proof (induction G cur ls s rule: bfs_links.induct)
  case (2 G cur l ls visited queue parents)
  from 2(5) have l: "l \<in> set (GetLinks cur)" and ls: "set ls \<subseteq> set (GetLinks cur)" by auto
  show ?case
  proof (cases "To l \<in> set visited")
    case True
    with 2(1) [OF True 2(3,4) ls] 2(6) show ?thesis by simp
  next
    case False
    from graph_closedD [OF 2(3,4) l] obtain d where "gm_get G (To l) = Some d" by blast
    then have "known_device G (gm_get G (To l))" unfolding known_device_def by blast
    with 2(2) [OF False 2(3,4) ls] 2(6) False show ?thesis by simp
  qed
qed simp

lemma bfs_loop_total:
  assumes "graph_closed G"
  shows "\<forall>d \<in> set (fst (snd s)). known_device G d \<Longrightarrow> \<exists>res. bfs_loop G s = Some res"
  using assms
proof (induction G s rule: bfs_loop.induct)
  case (3 G visited cur queue parents)
  then obtain u where u: "gm_get G u = Some cur" by (auto simp: known_device_def)
  show ?case
    using 3(1) [OF bfs_links_queue [OF 3(3) u subset_refl]] 3(2,3) by simp
qed (auto simp: known_device_def)

lemma Bfs_total:
  assumes "graph_closed G" and "gm_get G s = Some source"
  shows "\<exists>parents. Bfs G source = Some parents"
  unfolding Bfs_def by (rule bfs_loop_total [OF assms(1)]) (use assms(2) in \<open>auto simp: known_device_def\<close>)

lemma BfsPathFind_cases:
  assumes "graph_named G" and "graph_closed G" and "gm_get G s = Some source" and "gm_get G t = Some target"
  shows "case BfsPathFind G source target of
      None \<Rightarrow> (s, t) \<notin> (edge_rel G)\<^sup>*
    | Some p \<Rightarrow> p \<noteq> [] \<and> hd p = s \<and> last p = t \<and> distinct p \<and> reversed_path G (rev p)
        \<and> (\<forall>n. (s, t) \<in> edge_rel G ^^ n \<longrightarrow> length p \<le> Suc n)"
proof -
  from Bfs_total [OF assms(2,3)] obtain parents where b: "Bfs G source = Some parents" by blast
  from Bfs_tree [OF b assms(1,3)] obtain lev where tree: "parent_tree G s lev parents" by blast
  have tn: "GetName target = t" using graph_namedD [OF assms(1,4)] .
  show ?thesis
  proof (cases "seen parents t")
    case False
    then have "BfsPathFind G source target = None" by (simp add: BfsPathFind_def b tn seen_def)
    with False tree_seen_iff [OF tree] show ?thesis by simp
  next
    case True
    from path_up_tree [OF tree, of target "length parents" "[]"] True tn tree_lev_less [OF tree True]
    obtain ps where ps: "path_up (length parents) parents (Some target) [] = Some ps" "ps \<noteq> []" "hd ps = t" "last ps = s"
      "length ps = Suc (lev t)" "reversed_path G ps" "distinct ps" by auto
    then have "BfsPathFind G source target = Some (rev ps)"
      using True by (simp add: BfsPathFind_def b tn seen_def)
    with ps tree_shortest [OF tree] show ?thesis by (simp add: hd_rev last_rev)
  qed
qed

section \<open>Next hops\<close>

text \<open>The first device on the way from the source to \<open>v\<close> along the parents.\<close>

inductive hop_of :: "parents_map \<Rightarrow> device_name \<Rightarrow> device_name \<Rightarrow> device_name \<Rightarrow> bool" for parents s where
  direct: "parent_of parents v = Some p \<Longrightarrow> GetName p = s \<Longrightarrow> hop_of parents s v v"
| behind: "parent_of parents v = Some p \<Longrightarrow> GetName p \<noteq> s \<Longrightarrow> hop_of parents s (GetName p) h \<Longrightarrow> hop_of parents s v h"

inductive_cases hop_ofE: "hop_of parents s v h"

lemma hop_of_unique: "hop_of parents s v h \<Longrightarrow> hop_of parents s v h' \<Longrightarrow> h = h'"
proof (induction arbitrary: h' rule: hop_of.induct)
  case (direct v p)
  from direct(3) show ?case
  proof (rule hop_ofE)
    fix q assume "parent_of parents v = Some q" "GetName q \<noteq> s"
    with direct(1,2) show ?thesis by simp
  qed simp
next
  case (behind v p h)
  from behind(5) show ?case
  proof (rule hop_ofE)
    fix q assume "parent_of parents v = Some q" "GetName q = s"
    with behind(1,2) show ?thesis by simp
  next
    fix q assume "parent_of parents v = Some q" "hop_of parents s (GetName q) h'"
    with behind(1,4) show ?thesis by simp
  qed
qed

lemma hop_of_exists:
  assumes "parent_tree G s lev parents"
  shows "seen parents v \<Longrightarrow> v \<noteq> s \<Longrightarrow> \<exists>h. hop_of parents s v h"
proof (induction "lev v" arbitrary: v)
  case 0
  from tree_parent [OF assms 0(2,3)] obtain p where "lev v = Suc (lev (GetName p))" .
  with 0 show ?case by simp
next
  case (Suc n)
  from tree_parent [OF assms Suc.prems] obtain p where p: "parent_of parents v = Some p" "seen parents (GetName p)"
    "lev v = Suc (lev (GetName p))" .
  show ?case
  proof (cases "GetName p = s")
    case False
    with Suc p show ?thesis by (metis Suc_inject behind)
  qed (use p direct in blast)
qed

text \<open>The hop is a neighbour of the source on a shortest path.\<close>

lemma hop_of_walk:
  assumes "parent_tree G s lev parents"
  shows "hop_of parents s v h \<Longrightarrow> seen parents v \<Longrightarrow> v \<noteq> s \<Longrightarrow>
     (s, h) \<in> edge_rel G \<and> seen parents h \<and> h \<noteq> s \<and> (h, v) \<in> edge_rel G ^^ (lev v - 1)"
proof (induction rule: hop_of.induct)
  case (direct v p)
  from tree_parent [OF assms direct(3,4)] obtain p' where "parent_of parents v = Some p'" "v \<in> set (neighbours G (GetName p'))"
    "lev v = Suc (lev (GetName p'))" .
  with direct tree_source [OF assms] show ?case by (auto simp: edge_rel_def)
next
  case (behind v p h)
  from tree_parent [OF assms behind(5,6)] obtain p' where p': "parent_of parents v = Some p'" "seen parents (GetName p')"
    "v \<in> set (neighbours G (GetName p'))" "lev v = Suc (lev (GetName p'))" .
  with behind(1) have "p' = p" by simp
  with p' behind have w: "(s, h) \<in> edge_rel G" "seen parents h" "h \<noteq> s" "(h, GetName p) \<in> edge_rel G ^^ (lev (GetName p) - 1)"
    by auto
  have "0 < lev (GetName p)"
    using tree_parent [OF assms p'(2)] behind(2) \<open>p' = p\<close> by (metis zero_less_Suc)
  moreover have "(GetName p, v) \<in> edge_rel G" using p'(3) \<open>p' = p\<close> by (simp add: edge_rel_def)
  ultimately have "(h, v) \<in> edge_rel G ^^ lev (GetName p)"
    using relpow_Suc_I [OF w(4)] by simp
  with w p'(4) \<open>p' = p\<close> show ?case by simp
qed

text \<open>Every entry of the map under construction is the hop of its device.\<close>

definition hops_ok :: "graph \<Rightarrow> parents_map \<Rightarrow> device \<Rightarrow> hops_map \<Rightarrow> bool" where
  "hops_ok G parents source res \<longleftrightarrow> gm_get res (GetName source) = Some (Some source)
     \<and> (\<forall>v d. gm_get res v = Some d \<longrightarrow> v \<noteq> GetName source \<longrightarrow>
          (\<exists>h. hop_of parents (GetName source) v h \<and> d = gm_get G h))"

lemma hop_search_finds:
  assumes "parent_tree G s lev parents" and "graph_named G" and "graph_closed G" and "gm_get G s = Some source"
    and "hops_ok G parents source res"
  shows "seen parents cur \<Longrightarrow> cur \<noteq> s \<Longrightarrow> lev cur \<le> n \<Longrightarrow> hop_of parents s cur h \<Longrightarrow>
     \<forall>x \<in> set path. x \<noteq> s \<and> hop_of parents s x h \<Longrightarrow>
     \<exists>path'. hop_search n parents source res cur path = Some (h, path @ path') \<and> (\<forall>x \<in> set path'. x \<noteq> s \<and> hop_of parents s x h)"
proof (induction n arbitrary: cur path)
  case 0
  from tree_parent [OF assms(1) 0(1,2)] obtain p where "lev cur = Suc (lev (GetName p))" .
  with 0(3) show ?case by simp
next
  case (Suc n)
  have sn: "GetName source = s" using graph_namedD [OF assms(2,4)] .
  from tree_parent [OF assms(1) Suc.prems(1,2)] obtain p where p: "parent_of parents cur = Some p" "seen parents (GetName p)"
    "lev cur = Suc (lev (GetName p))" .
  show ?case
  proof (cases "GetName p = s")
    case True
    then have "h = cur" using Suc.prems(4) p(1) hop_of_unique direct by metis
    with p(1) True sn show ?thesis by (intro exI [of _ "[]"]) (simp add: Equals_def)
  next
    case False
    from Suc.prems(4) have hp: "hop_of parents s (GetName p) h"
      by (rule hop_ofE) (use p(1) False in auto)
    show ?thesis
    proof (cases "gm_get res cur")
      case None
      have "\<exists>path'. hop_search n parents source res (GetName p) (path @ [GetName p]) = Some (h, (path @ [GetName p]) @ path')
          \<and> (\<forall>x \<in> set path'. x \<noteq> s \<and> hop_of parents s x h)"
        by (rule Suc.IH) (use p False hp Suc.prems in auto)
      then obtain path' where "hop_search n parents source res (GetName p) (path @ [GetName p]) = Some (h, path @ GetName p # path')"
        "\<forall>x \<in> set path'. x \<noteq> s \<and> hop_of parents s x h" by auto
      with p(1) False sn None hp show ?thesis
        by (intro exI [of _ "GetName p # path'"]) (simp add: Equals_def)
    next
      case (Some hop)
      with assms(5) Suc.prems(2) sn obtain h' where "hop_of parents s cur h'" "hop = gm_get G h'"
        unfolding hops_ok_def by blast
      with Suc.prems(4) hop_of_unique have nh: "hop = gm_get G h" by blast
      from hop_of_walk [OF assms(1) Suc.prems(4,1,2)] have "(s, h) \<in> edge_rel G" by blast
      then obtain d l where "gm_get G s = Some d" "l \<in> set (GetLinks d)" "To l = h" by (rule edge_relE)
      with graph_closedD [OF assms(3)] obtain dh where "gm_get G h = Some dh" by blast
      with nh Some p(1) False sn graph_namedD [OF assms(2)] show ?thesis
        by (intro exI [of _ "[]"]) (auto simp: Equals_def)
    qed
  qed
qed

lemma get_fold_const:
  "gm_get (fold (\<lambda>dev. gm_put dev d) path res) v = (if v \<in> set path then Some d else gm_get res v)"
  by (induction path arbitrary: res) auto

lemma next_hop_step_ok:
  assumes "parent_tree G s lev parents" and "graph_named G" and "graph_closed G" and "gm_get G s = Some source"
    and "hops_ok G parents source res" and "seen parents v"
  shows "\<exists>res'. next_hop_step G parents source v res = Some res' \<and> hops_ok G parents source res'
     \<and> gm_get res' v \<noteq> None \<and> (\<forall>x. gm_get res x \<noteq> None \<longrightarrow> gm_get res' x \<noteq> None)"
proof (cases "gm_get res v")
  case None
  have sn: "GetName source = s" using graph_namedD [OF assms(2,4)] .
  have vs: "v \<noteq> s" using None assms(5) sn by (auto simp: hops_ok_def)
  from hop_of_exists [OF assms(1,6) vs] obtain h where h: "hop_of parents s v h" by blast
  have "lev v \<le> length parents" using tree_lev_less [OF assms(1,6)] by simp
  from hop_search_finds [OF assms(1-5) assms(6) vs this h, of "[v]"] h vs obtain path where
    path: "hop_search (length parents) parents source res v [v] = Some (h, v # path)"
    "\<forall>x \<in> set (v # path). x \<noteq> s \<and> hop_of parents s x h" by auto
  have "hops_ok G parents source (fold (\<lambda>dev. gm_put dev (gm_get G h)) (v # path) res)"
    unfolding hops_ok_def get_fold_const using path(2) assms(5) sn by (auto simp: hops_ok_def simp del: set_simps)
  then show ?thesis
    by (intro exI [of _ "fold (\<lambda>dev. gm_put dev (gm_get G h)) (v # path) res"])
      (auto simp: next_hop_step_def None path(1) get_fold_const simp del: fold.simps)
next
  case (Some d)
  with assms(5) show ?thesis by (simp add: next_hop_step_def)
qed

lemma next_hops_fold:
  assumes "parent_tree G s lev parents" and "graph_named G" and "graph_closed G" and "gm_get G s = Some source"
  shows "hops_ok G parents source res \<Longrightarrow> \<forall>v \<in> set vs. seen parents v \<Longrightarrow>
     \<exists>res'. fold_opt (next_hop_step G parents source) vs res = Some res' \<and> hops_ok G parents source res'
       \<and> (\<forall>v \<in> set vs. gm_get res' v \<noteq> None) \<and> (\<forall>x. gm_get res x \<noteq> None \<longrightarrow> gm_get res' x \<noteq> None)"
proof (induction vs arbitrary: res)
  case (Cons v vs)
  have "seen parents v" using Cons.prems(2) by simp
  from next_hop_step_ok [OF assms Cons.prems(1) this] obtain res1 where 1:
    "next_hop_step G parents source v res = Some res1" "hops_ok G parents source res1" "gm_get res1 v \<noteq> None"
    "\<forall>x. gm_get res x \<noteq> None \<longrightarrow> gm_get res1 x \<noteq> None" by blast
  from Cons.IH [OF 1(2)] Cons.prems(2) obtain res2 where 2:
    "fold_opt (next_hop_step G parents source) vs res1 = Some res2" "hops_ok G parents source res2"
    "\<forall>v \<in> set vs. gm_get res2 v \<noteq> None" "\<forall>x. gm_get res1 x \<noteq> None \<longrightarrow> gm_get res2 x \<noteq> None" by auto
  have "\<forall>x \<in> set (v # vs). gm_get res2 x \<noteq> None" using 1(3) 2(3,4) by (metis set_ConsD)
  moreover have "\<forall>x. gm_get res x \<noteq> None \<longrightarrow> gm_get res2 x \<noteq> None" using 1(4) 2(4) by blast
  moreover have "fold_opt (next_hop_step G parents source) (v # vs) res = Some res2" using 1(1) 2(1) by simp
  ultimately show ?case using 2(2) by blast
qed simp

text \<open>The hop of a device: a neighbour of the source from which the device is one step closer.\<close>

definition shortest_hop :: "graph \<Rightarrow> device_name \<Rightarrow> device_name \<Rightarrow> device_name \<Rightarrow> bool" where
  "shortest_hop G s v h \<longleftrightarrow> (s, h) \<in> edge_rel G
     \<and> (\<exists>n. (h, v) \<in> edge_rel G ^^ n \<and> (\<forall>m. (s, v) \<in> edge_rel G ^^ m \<longrightarrow> Suc n \<le> m))"

lemma GetNextHopsMap_ok:
  assumes "graph_named G" and "graph_closed G" and "graph_connected G" and "gm_get G s = Some source" and "is_order ord"
  shows "\<exists>res. GetNextHopsMap ord G source = Some res \<and> gm_get res s = Some (Some source)
     \<and> (\<forall>v. gm_get G v \<noteq> None \<longrightarrow> v \<noteq> s \<longrightarrow>
          (\<exists>d. gm_get res v = Some (Some d) \<and> gm_get G (GetName d) = Some d \<and> shortest_hop G s v (GetName d)))"
proof -
  have sn: "GetName source = s" using graph_namedD [OF assms(1,4)] .
  from Bfs_total [OF assms(2,4)] obtain parents where b: "Bfs G source = Some parents" by blast
  from Bfs_tree [OF b assms(1,4)] obtain lev where tree: "parent_tree G s lev parents" by blast
  have seen: "seen parents v" if "gm_get G v \<noteq> None" for v
    using assms(3,4) that tree_seen_iff [OF tree] by (auto simp: graph_connected_def)
  have keys: "v \<in> set (ord (gm_keys G)) \<longleftrightarrow> gm_get G v \<noteq> None" for v
    by (simp add: is_order_set [OF assms(5)] map_of_eq_None_iff)
  have "\<forall>v \<in> set (ord (gm_keys G)). seen parents v" using seen keys by blast
  moreover have "hops_ok G parents source [(s, Some source)]" by (simp add: hops_ok_def sn)
  ultimately obtain res where res: "fold_opt (next_hop_step G parents source) (ord (gm_keys G)) [(s, Some source)] = Some res"
    "hops_ok G parents source res" "\<forall>v \<in> set (ord (gm_keys G)). gm_get res v \<noteq> None"
    using next_hops_fold [OF tree assms(1,2,4)] by metis
  have "\<exists>d. gm_get res v = Some (Some d) \<and> gm_get G (GetName d) = Some d \<and> shortest_hop G s v (GetName d)"
    if v: "gm_get G v \<noteq> None" "v \<noteq> s" for v
  proof -
    from res(3) v(1) keys obtain x where "gm_get res v = Some x" by auto
    with res(2) v(2) sn obtain h where h: "hop_of parents s v h" "gm_get res v = Some (gm_get G h)"
      by (auto simp: hops_ok_def)
    from hop_of_walk [OF tree h(1) seen [OF v(1)] v(2)]
    have w: "(s, h) \<in> edge_rel G" "seen parents h" "(h, v) \<in> edge_rel G ^^ (lev v - 1)" by auto
    from w(1) obtain ds l where "gm_get G s = Some ds" "l \<in> set (GetLinks ds)" "To l = h" by (rule edge_relE)
    with graph_closedD [OF assms(2)] obtain d where d: "gm_get G h = Some d" by blast
    have "Suc (lev v - 1) \<le> m" if "(s, v) \<in> edge_rel G ^^ m" for m
      using tree_shortest [OF tree that] v(2) that by (cases m) auto
    with w have "shortest_hop G s v h" unfolding shortest_hop_def by blast
    with h(2) d graph_namedD [OF assms(1) d] show ?thesis by simp
  qed
  moreover have "GetNextHopsMap ord G source = Some res"
    using res(1) by (simp add: GetNextHopsMap_def b sn)
  moreover have "gm_get res s = Some (Some source)" using res(2) sn by (simp add: hops_ok_def)
  ultimately show ?thesis by blast
qed

text \<open>C30: on a graph without dangling links \<open>BfsPathFind\<close> returns a path from the source to the target
  along links of the graph, without repeated devices and with no more links than any other; it
  panics exactly when there is no path.\<close>

theorem BfsPathFind_shortest:
  assumes "graph_named G" and "graph_closed G" and "gm_get G s = Some source" and "gm_get G t = Some target"
  shows "case BfsPathFind G source target of
      None \<Rightarrow> (s, t) \<notin> (edge_rel G)\<^sup>*
    | Some p \<Rightarrow> p \<noteq> [] \<and> hd p = s \<and> last p = t \<and> distinct p \<and> reversed_path G (rev p)
        \<and> (\<forall>n. (s, t) \<in> edge_rel G ^^ n \<longrightarrow> length p \<le> Suc n)"
  by (rule BfsPathFind_cases [OF assms])

definition ring_graph :: graph where
  "ring_graph = [(''a'', Host \<lparr>Name = ''a'', Links = [NewLink ''b'' [] [] 24, NewLink ''d'' [] [] 24]\<rparr>),
     (''b'', NetDevice \<lparr>Name = ''b'', Links = [NewLink ''a'' [] [] 24, NewLink ''c'' [] [] 24]\<rparr>),
     (''c'', NetDevice \<lparr>Name = ''c'', Links = [NewLink ''b'' [] [] 24, NewLink ''d'' [] [] 24]\<rparr>),
     (''d'', Host \<lparr>Name = ''d'', Links = [NewLink ''c'' [] [] 24, NewLink ''a'' [] [] 24]\<rparr>)]"

lemma ring_graph_ok: "graph_named ring_graph" "graph_closed ring_graph" "all_paths_found ring_graph"
  by code_simp+

theorem BfsPathFind_shortest_witness:
  "runDfs ring_graph ''a'' ''d'' = Some [''d'', ''c'', ''b'', ''a'']
     \<and> {n. (''a'', ''d'') \<in> edge_rel ring_graph ^^ n \<and> Suc n < 2} = {}"
proof -
  let ?a = "the (gm_get ring_graph ''a'')" and ?d = "the (gm_get ring_graph ''d'')"
  have ad: "gm_get ring_graph ''a'' = Some ?a" "gm_get ring_graph ''d'' = Some ?d"
    "BfsPathFind ring_graph ?a ?d = Some [''a'', ''d'']"
    by code_simp+
  have "runDfs ring_graph ''a'' ''d'' = Some [''d'', ''c'', ''b'', ''a'']" by code_simp
  with BfsPathFind_shortest [OF ring_graph_ok(1,2) ad(1,2)] ad(3) show ?thesis by fastforce
qed

text \<open>On a connected graph \<open>GetNextHopsMap\<close> returns for every order of the map: the source for
  the source itself, and for any other device a neighbour of the source on a shortest path, the
  one with the fewest links, to that device.\<close>

theorem GetNextHopsMap_closest:
  assumes "graph_named G" and "graph_closed G" and "graph_connected G" and "gm_get G s = Some source" and "is_order ord"
  shows "\<exists>res. GetNextHopsMap ord G source = Some res \<and> gm_get res s = Some (Some source)
     \<and> (\<forall>v. gm_get G v \<noteq> None \<longrightarrow> v \<noteq> s \<longrightarrow>
          (\<exists>d. gm_get res v = Some (Some d) \<and> gm_get G (GetName d) = Some d \<and> shortest_hop G s v (GetName d)))"
  by (rule GetNextHopsMap_ok [OF assms])

theorem GetNextHopsMap_closest_witness:
  "\<exists>a res d. gm_get ring_graph ''a'' = Some a \<and> GetNextHopsMap rev ring_graph a = Some res
     \<and> gm_get res ''c'' = Some (Some d) \<and> shortest_hop ring_graph ''a'' ''c'' (GetName d)"
proof -
  obtain a where a: "gm_get ring_graph ''a'' = Some a" by (simp add: ring_graph_def)
  have c: "gm_get ring_graph ''c'' \<noteq> None" "''c'' \<noteq> ''a''" by (simp_all add: ring_graph_def)
  from GetNextHopsMap_closest [OF ring_graph_ok(1,2) graph_connectedI [OF ring_graph_ok(3)] a, of rev] a c
  show ?thesis by (metis is_order_id(3))
qed

end
