(* ===== verification/Forwarding.thy ===== *)
theory Forwarding
  imports GraphUtils Programs
begin

text \<open>
  The forwarding entries the controller installs before telemetry is configured
  (\<open>controller/tree.go\<close>, \<open>controller/util.go\<close>, \<open>controller/p4dispatch.go\<close>). An address is a dotted
  string; \<open>getNetworkIp\<close> computes on signed 32-bit integers.
\<close>

unbundle bit_operations_syntax

section \<open>Addresses\<close>

definition maskIp :: "string \<Rightarrow> int \<Rightarrow> string option" where
  "maskIp ip msk =
     (if msk < 0 \<or> 32 < msk then None
      else if CHR ''/'' \<in> set ip then Some ip
      else Some (ip @ ''/'' @ fmt_int msk))"

text \<open>The first loop of \<open>getNetworkIp\<close> reads the four parts from the last to the first; a missing part
  and a part that is no byte panic. The second one writes the bytes back.\<close>

fun read_parts :: "nat \<Rightarrow> string list \<Rightarrow> int32 \<Rightarrow> int32 option" where
  "read_parts 0 parts ipv4 = Some ipv4"
| "read_parts (Suc i) parts ipv4 =
     (if i < length parts then
        (case ParseUint10 (parts ! i) 8 of
           None \<Rightarrow> None
         | Some ipByte \<Rightarrow> read_parts i parts (ipv4 + push_bit ((3 - i) * 8) (word_of_nat ipByte)))
      else None)"

fun write_parts :: "nat \<Rightarrow> string list \<Rightarrow> int32 \<Rightarrow> string list" where
  "write_parts 0 parts ipv4 = parts"
| "write_parts (Suc i) parts ipv4 =
     write_parts i (parts[i := fmt_int (sint (ipv4 AND 0xFF))]) (signed_drop_bit 8 ipv4)"

text \<open>A shift by a negative amount panics; one by 32 or more gives 0.\<close>

definition mask_binary :: "int \<Rightarrow> int32 option" where
  "mask_binary msk = (if 32 < msk then None else Some (push_bit (nat (32 - msk)) 1 - 1))"

definition getNetworkIp :: "string \<Rightarrow> int \<Rightarrow> string option" where
  "getNetworkIp ip msk = do {
     ipv4 \<leftarrow> read_parts 4 (split_char CHR ''.'' ip) 0;
     maskBinary \<leftarrow> mask_binary msk;
     Some (join_str ''.'' (write_parts 4 (split_char CHR ''.'' ip) (ipv4 AND NOT maskBinary)))
   }"

section \<open>Entries\<close>

definition getDevicesOfType :: "(device \<Rightarrow> 'a option) \<Rightarrow> topology \<Rightarrow> device_type \<Rightarrow> 'a list option" where
  "getDevicesOfType cast topo deviceType = those (map cast (filter (\<lambda>node. GetType node = deviceType) (Devices topo)))"

definition getIncSwitches :: "topology \<Rightarrow> inc_switch list option" where
  "getIncSwitches topo = getDevicesOfType (\<lambda>d. case d of IncSwitch s \<Rightarrow> Some s | _ \<Rightarrow> None) topo INC_SWITCH"

definition getExternalDevices :: "topology \<Rightarrow> base_device list option" where
  "getExternalDevices topo = getDevicesOfType (\<lambda>d. case d of ExternalDevice b \<Rightarrow> Some b | _ \<Rightarrow> None) topo EXTERNAL"

definition p4Delegate :: "registry \<Rightarrow> inc_switch \<Rightarrow> p4_delegate option" where
  "p4Delegate r incSwitch = MustFindDelegate r (InstalledProgram incSwitch)"

definition createArpEntries :: "registry \<Rightarrow> inc_switch \<Rightarrow> raw_entry list option" where
  "createArpEntries r incSwitch = those (map (\<lambda>link. do {
       del \<leftarrow> p4Delegate r incSwitch;
       Some (GetArpEntry del (Ipv4 link) (MacAddr link))
     }) (Links incSwitch))"

definition direct_entry :: "registry \<Rightarrow> inc_switch \<Rightarrow> graph \<Rightarrow> link \<Rightarrow> raw_entry option" where
  "direct_entry r incSwitch G link = do {
     peerPort \<leftarrow> MustGetPortNumberTo (IncSwitch incSwitch) (To link);
     peer \<leftarrow> gm_get G (To link);
     peerLink \<leftarrow> MustGetLinkTo peer (Name incSwitch);
     del \<leftarrow> p4Delegate r incSwitch;
     ip \<leftarrow> maskIp (Ipv4 peerLink) 32;
     Some (GetForwardEntry del ip (MacAddr link) (MacAddr peerLink) (int peerPort + 1))
   }"

definition createDirectForwardEntries :: "registry \<Rightarrow> inc_switch \<Rightarrow> graph \<Rightarrow> raw_entry list option" where
  "createDirectForwardEntries r incSwitch G = those (map (direct_entry r incSwitch G) (Links incSwitch))"

text \<open>The lookup of a next hop; the zero value is \<open>nil\<close>, on which every method panics.\<close>

definition hop_at :: "hops_map \<Rightarrow> device_name \<Rightarrow> device option" where
  "hop_at nextHops name = (case gm_get nextHops name of Some d \<Rightarrow> d | None \<Rightarrow> None)"

text \<open>The default route is built and then dropped, so only its panics matter.\<close>

definition default_route :: "registry \<Rightarrow> topology \<Rightarrow> inc_switch \<Rightarrow> hops_map \<Rightarrow> unit option" where
  "default_route r topo incSwitch nextHops = do {
     externalDevices \<leftarrow> getExternalDevices topo;
     (case externalDevices of
        [] \<Rightarrow> Some ()
      | defaultRouteDevice # _ \<Rightarrow> do {
          nextHop \<leftarrow> hop_at nextHops (Name defaultRouteDevice);
          egress \<leftarrow> MustGetPortNumberTo (IncSwitch incSwitch) (GetName nextHop);
          peerLink \<leftarrow> MustGetLinkTo nextHop (Name incSwitch);
          del \<leftarrow> p4Delegate r incSwitch;
          (let entry = GetDefaultRouteEntry del (MacAddr (Links incSwitch ! egress)) (MacAddr peerLink) (int egress + 1)
           in Some ())
        })
   }"

text \<open>The two loops of \<open>createIndirectForwardEntries\<close>: the networks added so far, and the entries.\<close>

type_synonym forward_state = "string list \<times> raw_entry list"

definition network_of :: "link \<Rightarrow> string option" where
  "network_of link = do { ip \<leftarrow> getNetworkIp (Ipv4 link) (Mask link); maskIp ip (Mask link) }"

definition add_network ::
  "registry \<Rightarrow> inc_switch \<Rightarrow> string \<Rightarrow> string \<Rightarrow> nat \<Rightarrow> link \<Rightarrow> forward_state \<Rightarrow> forward_state option" where
  "add_network r incSwitch srcMac dstMac egress link = (\<lambda>(addedNetworks, res). do {
     networkIp \<leftarrow> network_of link;
     (if networkIp \<in> set addedNetworks then Some (addedNetworks, res)
      else do {
        del \<leftarrow> p4Delegate r incSwitch;
        Some (networkIp # addedNetworks, res @ [GetForwardEntry del networkIp srcMac dstMac (int egress + 1)])
      })
   })"

definition add_device_networks ::
  "registry \<Rightarrow> inc_switch \<Rightarrow> hops_map \<Rightarrow> device_name \<times> device \<Rightarrow> forward_state \<Rightarrow> forward_state option" where
  "add_device_networks r incSwitch nextHops = (\<lambda>(devName, dev) st. do {
     nextHop \<leftarrow> hop_at nextHops devName;
     (if GetName nextHop = devName then Some st
      else do {
        egress \<leftarrow> MustGetPortNumberTo (IncSwitch incSwitch) (GetName nextHop);
        peerLink \<leftarrow> MustGetLinkTo nextHop (Name incSwitch);
        fold_opt (add_network r incSwitch (MacAddr (Links incSwitch ! egress)) (MacAddr peerLink) egress) (GetLinks dev) st
      })
   })"

definition createIndirectForwardEntries ::
  "(device_name list \<Rightarrow> device_name list) \<Rightarrow> registry \<Rightarrow> topology \<Rightarrow> inc_switch \<Rightarrow> graph \<Rightarrow> hops_map \<Rightarrow>
     raw_entry list option" where
  "createIndirectForwardEntries ord r topo incSwitch G nextHops = do {
     default_route r topo incSwitch nextHops;
     (addedNetworks, res) \<leftarrow> fold_opt (add_device_networks r incSwitch nextHops) (gm_range ord G) ([], []);
     Some res
   }"

text \<open>The orders of the two maps a switch's entries range over.\<close>

record forward_orders =
  hopOrder :: "device_name list \<Rightarrow> device_name list"
  deviceOrder :: "device_name list \<Rightarrow> device_name list"

definition switch_entries ::
  "forward_orders \<Rightarrow> registry \<Rightarrow> topology \<Rightarrow> graph \<Rightarrow> inc_switch \<Rightarrow> raw_entry list option" where
  "switch_entries ords r topo G incSwitch = do {
     arps \<leftarrow> createArpEntries r incSwitch;
     directs \<leftarrow> createDirectForwardEntries r incSwitch G;
     nextHops \<leftarrow> GetNextHopsMap (hopOrder ords) G (IncSwitch incSwitch);
     indirects \<leftarrow> createIndirectForwardEntries (deviceOrder ords) r topo incSwitch G nextHops;
     Some (arps @ directs @ indirects)
   }"

definition buildBasicForwardingEntries ::
  "(device_name \<Rightarrow> forward_orders) \<Rightarrow> registry \<Rightarrow> topology \<Rightarrow> (device_name, raw_entry list) gomap option" where
  "buildBasicForwardingEntries ords r topo = do {
     incSwitches \<leftarrow> getIncSwitches topo;
     fold_opt (\<lambda>incSwitch res. do {
         entries \<leftarrow> switch_entries (ords (Name incSwitch)) r topo (TopologyToGraph topo) incSwitch;
         Some (gm_put (Name incSwitch) entries res)
       }) incSwitches []
   }"

section \<open>The network of an address\<close>

text \<open>The dotted form of a 32-bit address.\<close>

definition octet :: "nat \<Rightarrow> nat \<Rightarrow> nat" where
  "octet v i = v div 256 ^ i mod 256"

definition dotted :: "nat \<Rightarrow> string" where
  "dotted v = join_str ''.'' [fmt_uint (octet v 3), fmt_uint (octet v 2), fmt_uint (octet v 1), fmt_uint (octet v 0)]"

definition network_number :: "nat \<Rightarrow> nat \<Rightarrow> nat" where
  "network_number v m = v div 2 ^ (32 - m) * 2 ^ (32 - m)"

lemma no_dot: "CHR ''.'' \<notin> set (fmt_uint n)"
proof
  assume "CHR ''.'' \<in> set (fmt_uint n)"
  then obtain d where "digit_char d = CHR ''.''" "d \<in> set (dec_digits n)" by (auto simp: fmt_uint_def)
  moreover from this dec_digits_bound have "d < 10" by blast
  ultimately have "char_digit (CHR ''.'') = Some d" using char_digit_digit_char by metis
  then show False by (simp add: char_digit_def)
qed

lemma split_dotted:
  "split_char CHR ''.'' (dotted v) = [fmt_uint (octet v 3), fmt_uint (octet v 2), fmt_uint (octet v 1), fmt_uint (octet v 0)]"
  unfolding dotted_def by (rule split_join) (simp_all add: no_dot)

lemma length_split: "length (split_char CHR ''.'' (dotted v)) = 4"
  by (simp add: split_dotted)

lemma octet_less: "octet v i < 256" by (simp add: octet_def)

lemma parse_octet: "ParseUint10 (fmt_uint (octet v i)) 8 = Some (octet v i)"
  using octet_less [of v i] by (intro ParseUint10_fmt_uint) simp

lemma radix: "q3 * 256 + r2 = q2 \<Longrightarrow> q2 * 256 + r1 = q1 \<Longrightarrow> q1 * 256 + r0 = v \<Longrightarrow>
    r0 + r1 * 2 ^ 8 + r2 * 2 ^ 16 + q3 * 2 ^ 24 = (v :: nat)"
  by simp

lemma octets_sum:
  assumes "v < 2 ^ 32"
  shows "octet v 0 + octet v 1 * 2 ^ 8 + octet v 2 * 2 ^ 16 + octet v 3 * 2 ^ 24 = v"
proof -
  have "v div 256 ^ 3 < 256" using assms by (simp add: less_mult_imp_div_less)
  then have "octet v 3 = v div 256 div 256 div 256" by (simp add: octet_def div_mult2_eq power3_eq_cube)
  moreover have "octet v 2 = v div 256 div 256 mod 256" by (simp add: octet_def div_mult2_eq [symmetric] power2_eq_square)
  moreover have "octet v 1 = v div 256 mod 256" "octet v 0 = v mod 256" by (simp_all add: octet_def)
  ultimately show ?thesis by (simp only: radix [OF div_mult_mod_eq div_mult_mod_eq div_mult_mod_eq])
qed

lemma four_rounds: "read_parts 4 ps v = read_parts (Suc (Suc (Suc (Suc 0)))) ps v"
  "write_parts 4 ps v = write_parts (Suc (Suc (Suc (Suc 0)))) ps v"
  by (simp_all add: eval_nat_numeral)

lemma read_dotted:
  assumes "v < 2 ^ 32"
  shows "read_parts 4 (split_char CHR ''.'' (dotted v)) 0 = Some (word_of_nat v :: int32)"
proof -
  have "read_parts 4 (split_char CHR ''.'' (dotted v)) 0 = Some (word_of_nat (octet v 0)
      + push_bit 8 (word_of_nat (octet v 1)) + push_bit 16 (word_of_nat (octet v 2)) + push_bit 24 (word_of_nat (octet v 3)) :: int32)"
    unfolding split_dotted four_rounds by (simp add: parse_octet)
  also have "\<dots> = Some (word_of_nat (octet v 0 + octet v 1 * 2 ^ 8 + octet v 2 * 2 ^ 16 + octet v 3 * 2 ^ 24))"
    by (simp add: push_bit_eq_mult)
  finally show ?thesis unfolding octets_sum [OF assms] .
qed

lemma mask_off:
  assumes "v < 2 ^ 32" and "m \<le> 32"
  shows "(word_of_nat v :: int32) AND NOT (push_bit (32 - m) 1 - 1) = word_of_nat (network_number v m)"
proof -
  let ?k = "32 - m"
  have "(word_of_nat v :: int32) AND NOT (push_bit ?k 1 - 1) = (word_of_nat v) AND NOT (mask ?k)"
    by (simp add: mask_eq_exp_minus_1 push_bit_eq_mult)
  also have "\<dots> = push_bit ?k (drop_bit ?k (word_of_nat v))"
    by (rule bit_eqI) (auto simp: bit_simps)
  also have "\<dots> = word_of_nat (push_bit ?k (drop_bit ?k v))"
    using assms(1) by (intro bit_eqI) (auto simp: bit_simps)
  finally show ?thesis by (simp add: network_number_def push_bit_eq_mult drop_bit_eq_div)
qed

lemma byte_of:
  assumes "i < 4" and "v < 2 ^ 32"
  shows "sint ((signed_drop_bit (8 * i) (word_of_nat v :: int32)) AND 0xFF) = int (octet v i)"
proof -
  have "(signed_drop_bit (8 * i) (word_of_nat v :: int32)) AND mask 8 = word_of_nat (take_bit 8 (drop_bit (8 * i) v))"
    using assms(1) by (intro bit_eqI) (auto simp: bit_simps)
  moreover have "take_bit 8 (drop_bit (8 * i) v) = octet v i"
    by (simp add: octet_def take_bit_eq_mod drop_bit_eq_div power_mult)
  moreover have "(0xFF :: int32) = mask 8" by (simp add: mask_eq_exp_minus_1)
  moreover have "sint (word_of_nat (octet v i) :: int32) = int (octet v i)"
    using octet_less [of v i] by (simp add: signed_take_bit_int_eq_self sint_uint unsigned_of_nat take_bit_nat_eq_self)
  ultimately show ?thesis by simp
qed

lemma sdrop_compose: "signed_drop_bit a (signed_drop_bit b (w :: int32)) = signed_drop_bit (a + b) w"
  by (rule bit_eqI) (auto simp: bit_simps add.commute add.left_commute)

lemma write_dotted:
  assumes "v < 2 ^ 32" and "length ps = 4"
  shows "write_parts 4 ps (word_of_nat v) =
     [fmt_uint (octet v 3), fmt_uint (octet v 2), fmt_uint (octet v 1), fmt_uint (octet v 0)]"
proof -
  obtain a b c d where ps: "ps = [a, b, c, d]"
    using assms(2) by (auto simp: eval_nat_numeral length_Suc_conv)
  have "fmt_int (sint ((signed_drop_bit (8 * i) (word_of_nat v :: int32)) AND 0xFF)) = fmt_uint (octet v i)" if "i < 4" for i
    unfolding byte_of [OF that assms(1)] by (simp add: fmt_int_def)
  from this [of 0] this [of 1] this [of 2] this [of 3] show ?thesis
    unfolding ps four_rounds by (simp add: sdrop_compose)
qed

lemma network_number_le: "network_number v m \<le> v"
  by (simp add: network_number_def)

lemma getNetworkIp_dotted:
  assumes "v < 2 ^ 32" and "m \<le> 32"
  shows "getNetworkIp (dotted v) (int m) = Some (dotted (network_number v m))"
proof -
  have "mask_binary (int m) = Some (push_bit (32 - m) 1 - 1)"
    using assms(2) by (simp add: mask_binary_def nat_diff_distrib')
  moreover have "network_number v m < 2 ^ 32" using network_number_le assms(1) le_less_trans by blast
  ultimately show ?thesis
    unfolding getNetworkIp_def read_dotted [OF assms(1)] dotted_def [of "network_number v m"]
    by (simp only: bind.simps mask_off [OF assms] write_dotted length_split)
qed

lemma octet_inject:
  assumes "v < 2 ^ 32" and "w < 2 ^ 32" and "dotted v = dotted w"
  shows "v = w"
proof -
  have "\<forall>i \<in> {0, 1, 2, 3}. octet v i = octet w i"
    using split_dotted [of v] split_dotted [of w] assms(3) by simp
  then show ?thesis using octets_sum [OF assms(1)] octets_sum [OF assms(2)] by simp
qed

lemma no_slash: "CHR ''/'' \<notin> set (dotted v)"
proof -
  have "CHR ''/'' \<notin> set (fmt_uint n)" for n
  proof
    assume "CHR ''/'' \<in> set (fmt_uint n)"
    then obtain d where "digit_char d = CHR ''/''" "d \<in> set (dec_digits n)" by (auto simp: fmt_uint_def)
    with dec_digits_bound char_digit_digit_char have "char_digit (CHR ''/'') = Some d" by metis
    then show False by (simp add: char_digit_def)
  qed
  then show ?thesis by (simp add: dotted_def)
qed

text \<open>A link with a proper address.\<close>

definition addressed :: "link \<Rightarrow> bool" where
  "addressed l \<longleftrightarrow> (\<exists>v < 2 ^ 32. Ipv4 l = dotted v) \<and> 0 \<le> Mask l \<and> Mask l \<le> 32"

lemma network_of_dotted:
  assumes "v < 2 ^ 32" and "m \<le> 32" and "Ipv4 l = dotted v" and "Mask l = int m"
  shows "network_of l = Some (dotted (network_number v m) @ ''/'' @ fmt_uint m)"
  using assms by (simp add: network_of_def getNetworkIp_dotted maskIp_def no_slash fmt_int_def)

lemma addressed_network: "addressed l \<Longrightarrow> \<exists>net. network_of l = Some net"
  using network_of_dotted by (metis addressed_def nat_0_le nat_le_iff of_nat_numeral)

text \<open>The network of an address is computed bit by bit as arithmetic says: for every 32-bit address
  and mask length, \<open>getNetworkIp\<close> returns, in dotted form, the address with the bits below the mask
  cleared; two links have the same network exactly when their masks and the leading bits of their
  addresses agree. The signed shifts of the code do no harm.\<close>

theorem network_of_spec:
  assumes "v < 2 ^ 32" and "m \<le> 32" and "Ipv4 l = dotted v" and "Mask l = int m"
    and "v' < 2 ^ 32" and "m' \<le> 32" and "Ipv4 l' = dotted v'" and "Mask l' = int m'"
  shows "getNetworkIp (Ipv4 l) (Mask l) = Some (dotted (v div 2 ^ (32 - m) * 2 ^ (32 - m)))
     \<and> (network_of l = network_of l' \<longleftrightarrow> m = m' \<and> v div 2 ^ (32 - m) = v' div 2 ^ (32 - m))"
proof -
  have 1: "getNetworkIp (Ipv4 l) (Mask l) = Some (dotted (network_number v m))"
    unfolding assms(3,4) by (rule getNetworkIp_dotted [OF assms(1,2)])
  have lt: "network_number v m < 2 ^ 32" "network_number v' m' < 2 ^ 32"
    using network_number_le assms(1,5) le_less_trans by blast+
  have "m = m' \<and> network_number v m = network_number v' m'" if "network_of l = network_of l'"
  proof -
    have "dotted (network_number v m) @ CHR ''/'' # fmt_uint m = dotted (network_number v' m') @ CHR ''/'' # fmt_uint m'"
      using that network_of_dotted [OF assms(1-4)] network_of_dotted [OF assms(5-8)] by simp
    note same = sep_inject [OF no_slash no_slash this]
    have "m = m'" using conjunct2 [OF same] by simp
    with octet_inject [OF lt conjunct1 [OF same]] show ?thesis by blast
  qed
  moreover have "network_of l = network_of l'" if "m = m'" "network_number v m = network_number v' m'"
    using that network_of_dotted [OF assms(1-4)] network_of_dotted [OF assms(5-8)] by simp
  ultimately show ?thesis using 1 by (auto simp: network_number_def)
qed

theorem network_of_spec_witness:
  "getNetworkIp ''10.0.1.3'' 30 = Some ''10.0.1.0''
     \<and> network_of (NewLink ''s1'' [] ''10.0.1.3'' 30) \<noteq> network_of (NewLink ''s1'' [] ''10.0.1.4'' 30)"
proof -
  have d: "dotted 167772419 = ''10.0.1.3''" "dotted 167772420 = ''10.0.1.4''" "dotted 167772416 = ''10.0.1.0''"
    by (simp_all add: dotted_def octet_def fmt_uint_def dec_digits.simps digit_char_def)
  from network_of_spec [of 167772419 30 "NewLink ''s1'' [] ''10.0.1.3'' 30" 167772420 30 "NewLink ''s1'' [] ''10.0.1.4'' 30"] d
  show ?thesis by (simp add: NewLink_def)
qed

section \<open>What the forwarding entries reach\<close>

text \<open>A network the entries are built for: connected, without dangling or one-way links, proper addresses,
  and every switch's program registered.\<close>

definition forwarding_network :: "registry \<Rightarrow> topology \<Rightarrow> bool" where
  "forwarding_network r topo \<longleftrightarrow>
     graph_closed (TopologyToGraph topo) \<and> graph_symmetric (TopologyToGraph topo) \<and> graph_connected (TopologyToGraph topo)
     \<and> distinct (map GetName (Devices topo))
     \<and> list_all (\<lambda>d. list_all addressed (GetLinks d)) (Devices topo)
     \<and> list_all (\<lambda>d. case d of IncSwitch s \<Rightarrow> MustFindDelegate r (InstalledProgram s) \<noteq> None | _ \<Rightarrow> True) (Devices topo)"

text \<open>What the loops keep: every network in the set has one entry, and an entry for each network seen.\<close>

definition entry_for :: "p4_delegate \<Rightarrow> inc_switch \<Rightarrow> graph \<Rightarrow> device_name \<Rightarrow> string \<Rightarrow> raw_entry \<Rightarrow> bool" where
  "entry_for del sw G u net e \<longleftrightarrow> (\<exists>port h hl. port < length (Links sw) \<and> To (Links sw ! port) = h
     \<and> (\<forall>k < port. To (Links sw ! k) \<noteq> h)
     \<and> shortest_hop G (Name sw) u h \<and> MustGetLinkTo (the (gm_get G h)) (Name sw) = Some hl
     \<and> e = GetForwardEntry del net (MacAddr (Links sw ! port)) (MacAddr hl) (int port + 1))"

definition forward_inv :: "p4_delegate \<Rightarrow> inc_switch \<Rightarrow> graph \<Rightarrow> forward_state \<Rightarrow> bool" where
  "forward_inv del sw G = (\<lambda>(nets, res). distinct nets
     \<and> list_all2 (\<lambda>net e. \<exists>u d l. gm_get G u = Some d \<and> l \<in> set (GetLinks d) \<and> network_of l = Some net
          \<and> entry_for del sw G u net e) (rev nets) res)"

lemma add_network_ok:
  assumes "p4Delegate r sw = Some del" and "network_of l = Some net" and "forward_inv del sw G (nets, res)"
    and "gm_get G u = Some d" and "l \<in> set (GetLinks d)"
    and "entry_for del sw G u net (GetForwardEntry del net srcMac dstMac (int port + 1))"
  shows "\<exists>nets' res'. add_network r sw srcMac dstMac port l (nets, res) = Some (nets', res')
     \<and> forward_inv del sw G (nets', res') \<and> set nets' = insert net (set nets)"
proof (cases "net \<in> set nets")
  case False
  let ?e = "GetForwardEntry del net srcMac dstMac (int port + 1)"
  have "forward_inv del sw G (net # nets, res @ [?e])"
    using assms(3,4,5,6,2) False unfolding forward_inv_def by (auto intro!: list_all2_appendI)
  then show ?thesis
    using False by (simp add: add_network_def assms(1,2))
qed (use assms(3) in \<open>simp add: add_network_def assms(1,2) insert_absorb\<close>)

lemma add_networks_fold:
  assumes "p4Delegate r sw = Some del" and "gm_get G u = Some d"
    and "\<And>net. entry_for del sw G u net (GetForwardEntry del net srcMac dstMac (int port + 1))"
  shows "set ls \<subseteq> set (GetLinks d) \<Longrightarrow> list_all addressed ls \<Longrightarrow> forward_inv del sw G st \<Longrightarrow>
     \<exists>st'. fold_opt (add_network r sw srcMac dstMac port) ls st = Some st' \<and> forward_inv del sw G st'
       \<and> set (fst st) \<subseteq> set (fst st') \<and> (\<forall>l \<in> set ls. \<exists>net \<in> set (fst st'). network_of l = Some net)"
proof (induction ls arbitrary: st)
  case (Cons l ls)
  from Cons.prems(2) addressed_network obtain net where net: "network_of l = Some net" by auto
  from Cons.prems(1) have l: "l \<in> set (GetLinks d)" and ls: "set ls \<subseteq> set (GetLinks d)" by auto
  obtain nets res where st: "st = (nets, res)" by (cases st)
  from add_network_ok [OF assms(1) net Cons.prems(3) [unfolded st] assms(2) l assms(3)] obtain st1 where
    st1: "add_network r sw srcMac dstMac port l st = Some st1" "forward_inv del sw G st1" "set (fst st1) = insert net (set nets)"
    unfolding st by fastforce
  from Cons.IH [OF ls _ st1(2)] Cons.prems(2) obtain st' where
    st': "fold_opt (add_network r sw srcMac dstMac port) ls st1 = Some st'" "forward_inv del sw G st'"
    "set (fst st1) \<subseteq> set (fst st')" "\<forall>l \<in> set ls. \<exists>net \<in> set (fst st'). network_of l = Some net" by auto
  have "\<forall>x \<in> set (l # ls). \<exists>net \<in> set (fst st'). network_of x = Some net" using net st1(3) st'(3,4) by auto
  then show ?case using st1 st' st by auto
qed simp

text \<open>The next hops of a switch, as \<open>GetNextHopsMap_ok\<close> delivers them.\<close>

definition good_hops :: "graph \<Rightarrow> inc_switch \<Rightarrow> hops_map \<Rightarrow> bool" where
  "good_hops G sw hops \<longleftrightarrow> gm_get hops (Name sw) = Some (Some (IncSwitch sw))
     \<and> (\<forall>v. gm_get G v \<noteq> None \<longrightarrow> v \<noteq> Name sw \<longrightarrow>
          (\<exists>d. gm_get hops v = Some (Some d) \<and> gm_get G (GetName d) = Some d \<and> shortest_hop G (Name sw) v (GetName d)))"

lemma shortest_hop_self: "shortest_hop G s v v \<longleftrightarrow> (s, v) \<in> edge_rel G \<and> (\<forall>m. (s, v) \<in> edge_rel G ^^ m \<longrightarrow> 0 < m)" if "s \<noteq> v"
proof
  assume "shortest_hop G s v v"
  then show "(s, v) \<in> edge_rel G \<and> (\<forall>m. (s, v) \<in> edge_rel G ^^ m \<longrightarrow> 0 < m)"
    by (auto simp: shortest_hop_def dest!: Suc_le_lessD intro: le_less_trans [OF le0])
next
  assume "(s, v) \<in> edge_rel G \<and> (\<forall>m. (s, v) \<in> edge_rel G ^^ m \<longrightarrow> 0 < m)"
  then show "shortest_hop G s v v"
    unfolding shortest_hop_def by (intro conjI exI [of _ 0]) auto
qed

lemma hop_adjacent:
  assumes "shortest_hop G s v h" and "(s, v) \<in> edge_rel G"
  shows "h = v"
proof -
  from assms(1) obtain n where "(h, v) \<in> edge_rel G ^^ n" "\<forall>m. (s, v) \<in> edge_rel G ^^ m \<longrightarrow> Suc n \<le> m"
    by (auto simp: shortest_hop_def)
  moreover have "(s, v) \<in> edge_rel G ^^ 1" using assms(2) by simp
  ultimately have "n = 0" by (metis One_nat_def Suc_le_mono le_zero_eq)
  with \<open>(h, v) \<in> edge_rel G ^^ n\<close> show ?thesis by simp
qed

lemma hop_links:
  assumes "graph_symmetric G" and "graph_named G" and "gm_get G (Name sw) = Some (IncSwitch sw)"
    and "(Name sw, h) \<in> edge_rel G" and "gm_get G h = Some d"
  shows "\<exists>port hl. MustGetPortNumberTo (IncSwitch sw) h = Some port \<and> MustGetLinkTo d (Name sw) = Some hl"
proof -
  from assms(4) obtain d' l where l: "gm_get G (Name sw) = Some d'" "l \<in> set (GetLinks d')" "To l = h" by (rule edge_relE)
  with assms(3) have "h \<in> To ` set (GetLinks (IncSwitch sw))" by auto
  then have "MustGetPortNumberTo (IncSwitch sw) h \<noteq> None" by (simp only: MustGetPortNumberTo_None not_not)
  moreover have "Name sw \<in> To ` set (GetLinks d)"
    using graph_symmetricD [OF assms(1) l(1,2)] l(3) by (simp add: neighbours_get [OF assms(5)])
  then have "MustGetLinkTo d (Name sw) \<noteq> None" by (simp only: MustGetLinkTo_None not_not)
  ultimately show ?thesis by blast
qed

lemma add_device_ok:
  assumes "graph_symmetric G" and "graph_named G" and "gm_get G (Name sw) = Some (IncSwitch sw)" and "good_hops G sw hops"
    and "p4Delegate r sw = Some del" and "gm_get G u = Some d" and "list_all addressed (GetLinks d)" and "forward_inv del sw G st"
  shows "\<exists>st'. add_device_networks r sw hops (u, d) st = Some st' \<and> forward_inv del sw G st' \<and> set (fst st) \<subseteq> set (fst st')
     \<and> (u \<noteq> Name sw \<longrightarrow> (Name sw, u) \<notin> edge_rel G \<longrightarrow>
          (\<forall>l \<in> set (GetLinks d). \<exists>net \<in> set (fst st'). network_of l = Some net))"
proof (cases "u = Name sw")
  case True
  then show ?thesis using assms(4,8) by (simp add: add_device_networks_def hop_at_def good_hops_def)
next
  case False
  with assms(4,6) obtain hd where h: "gm_get hops u = Some (Some hd)" "gm_get G (GetName hd) = Some hd"
    "shortest_hop G (Name sw) u (GetName hd)" unfolding good_hops_def by blast
  then have edge: "(Name sw, GetName hd) \<in> edge_rel G" by (simp add: shortest_hop_def)
  show ?thesis
  proof (cases "GetName hd = u")
    case True
    with edge assms(8) h(1) show ?thesis by (simp add: add_device_networks_def hop_at_def)
  next
    case far: False
    from hop_links [OF assms(1-3) edge h(2)] obtain port hl where
      p: "MustGetPortNumberTo (IncSwitch sw) (GetName hd) = Some port" "MustGetLinkTo hd (Name sw) = Some hl" by blast
    have e: "entry_for del sw G u net (GetForwardEntry del net (MacAddr (Links sw ! port)) (MacAddr hl) (int port + 1))" for net
      unfolding entry_for_def
      by (rule exI [of _ port], rule exI [of _ "GetName hd"], rule exI [of _ hl])
        (use MustGetPortNumberTo_Some [OF p(1)] p(2) h in simp)
    from add_networks_fold [OF assms(5,6) e subset_refl assms(7,8)] show ?thesis
      using h(1) far p by (auto simp: add_device_networks_def hop_at_def)
  qed
qed

lemma add_devices_fold:
  assumes "graph_symmetric G" and "graph_named G" and "gm_get G (Name sw) = Some (IncSwitch sw)" and "good_hops G sw hops"
    and "p4Delegate r sw = Some del"
  shows "\<forall>(u, d) \<in> set xs. gm_get G u = Some d \<and> list_all addressed (GetLinks d) \<Longrightarrow> forward_inv del sw G st \<Longrightarrow>
     \<exists>st'. fold_opt (add_device_networks r sw hops) xs st = Some st' \<and> forward_inv del sw G st' \<and> set (fst st) \<subseteq> set (fst st')
       \<and> (\<forall>(u, d) \<in> set xs. u \<noteq> Name sw \<longrightarrow> (Name sw, u) \<notin> edge_rel G \<longrightarrow>
            (\<forall>l \<in> set (GetLinks d). \<exists>net \<in> set (fst st'). network_of l = Some net))"
proof (induction xs arbitrary: st)
  case (Cons x xs)
  obtain u d where x: "x = (u, d)" by (cases x)
  with Cons.prems(1) have ud: "gm_get G u = Some d" "list_all addressed (GetLinks d)" by auto
  from add_device_ok [OF assms ud Cons.prems(2)] obtain st1 where st1:
    "add_device_networks r sw hops x st = Some st1" "forward_inv del sw G st1" "set (fst st) \<subseteq> set (fst st1)"
    "u \<noteq> Name sw \<longrightarrow> (Name sw, u) \<notin> edge_rel G \<longrightarrow>
       (\<forall>l \<in> set (GetLinks d). \<exists>net \<in> set (fst st1). network_of l = Some net)" unfolding x by blast
  from Cons.IH [OF _ st1(2)] Cons.prems(1) obtain st' where st':
    "fold_opt (add_device_networks r sw hops) xs st1 = Some st'" "forward_inv del sw G st'" "set (fst st1) \<subseteq> set (fst st')"
    "\<forall>(u, d) \<in> set xs. u \<noteq> Name sw \<longrightarrow> (Name sw, u) \<notin> edge_rel G \<longrightarrow>
       (\<forall>l \<in> set (GetLinks d). \<exists>net \<in> set (fst st'). network_of l = Some net)" by auto
  have "fold_opt (add_device_networks r sw hops) (x # xs) st = Some st'" using st1(1) st'(1) by simp
  moreover have "set (fst st) \<subseteq> set (fst st')" using st1(3) st'(3) by blast
  moreover have "u \<noteq> Name sw \<longrightarrow> (Name sw, u) \<notin> edge_rel G \<longrightarrow>
       (\<forall>l \<in> set (GetLinks d). \<exists>net \<in> set (fst st'). network_of l = Some net)" using st1(4) st'(3) by blast
  ultimately show ?case using st'(2,4) x by auto
qed simp

lemma graph_of_distinct:
  assumes "distinct (map GetName (Devices topo))" and "d \<in> set (Devices topo)"
  shows "gm_get (TopologyToGraph topo) (GetName d) = Some d"
proof -
  have "find (\<lambda>x. GetName x = GetName d) (rev (Devices topo)) \<noteq> None"
    using assms(2) by (auto simp: find_None_iff)
  then obtain x where x: "find (\<lambda>x. GetName x = GetName d) (rev (Devices topo)) = Some x" by auto
  from find_SomeD [OF x] have "x \<in> set (Devices topo)" "GetName x = GetName d" by auto
  with assms have "x = d" by (auto simp: distinct_map inj_on_def)
  with x show ?thesis by (simp add: TopologyToGraph_get)
qed

lemma getExternalDevices_eq:
  "getExternalDevices topo = Some (List.map_filter (\<lambda>d. case d of ExternalDevice b \<Rightarrow> Some b | _ \<Rightarrow> None) (Devices topo))"
proof -
  have "those (map (\<lambda>d. case d of ExternalDevice b \<Rightarrow> Some b | _ \<Rightarrow> None) (filter (\<lambda>node. GetType node = EXTERNAL) ds))
      = Some (List.map_filter (\<lambda>d. case d of ExternalDevice b \<Rightarrow> Some b | _ \<Rightarrow> None) ds)" for ds
    by (induction ds) (auto simp: map_filter_def split: device.split)
  then show ?thesis by (simp add: getExternalDevices_def getDevicesOfType_def)
qed

lemma getIncSwitches_eq:
  "getIncSwitches topo = Some (List.map_filter (\<lambda>d. case d of IncSwitch b \<Rightarrow> Some b | _ \<Rightarrow> None) (Devices topo))"
proof -
  have "those (map (\<lambda>d. case d of IncSwitch b \<Rightarrow> Some b | _ \<Rightarrow> None) (filter (\<lambda>node. GetType node = INC_SWITCH) ds))
      = Some (List.map_filter (\<lambda>d. case d of IncSwitch b \<Rightarrow> Some b | _ \<Rightarrow> None) ds)" for ds
    by (induction ds) (auto simp: map_filter_def split: device.split)
  then show ?thesis by (simp add: getIncSwitches_def getDevicesOfType_def)
qed

lemma default_route_ok:
  assumes "graph_symmetric G" and "graph_named G" and "gm_get G (Name sw) = Some (IncSwitch sw)" and "good_hops G sw hops"
    and "p4Delegate r sw = Some del" and "G = TopologyToGraph topo" and "distinct (map GetName (Devices topo))"
  shows "default_route r topo sw hops = Some ()"
proof (cases "List.map_filter (\<lambda>d. case d of ExternalDevice b \<Rightarrow> Some b | _ \<Rightarrow> None) (Devices topo)")
  case Nil
  then show ?thesis by (simp add: default_route_def getExternalDevices_eq)
next
  case (Cons b bs)
  then have "b \<in> set (List.map_filter (\<lambda>d. case d of ExternalDevice b \<Rightarrow> Some b | _ \<Rightarrow> None) (Devices topo))" by simp
  then have "ExternalDevice b \<in> set (Devices topo)"
    by (auto simp: map_filter_def split: device.splits)
  from graph_of_distinct [OF assms(7) this] have b: "gm_get G (Name b) = Some (ExternalDevice b)" using assms(6) by simp
  with assms(3) have "Name b \<noteq> Name sw" by auto
  with assms(4) b obtain hd where h: "gm_get hops (Name b) = Some (Some hd)" "gm_get G (GetName hd) = Some hd"
    "(Name sw, GetName hd) \<in> edge_rel G" unfolding good_hops_def shortest_hop_def by (metis option.distinct(1))
  from hop_links [OF assms(1-3) h(3,2)] obtain port hl where
    "MustGetPortNumberTo (IncSwitch sw) (GetName hd) = Some port" "MustGetLinkTo hd (Name sw) = Some hl" by blast
  with Cons h(1) assms(5) show ?thesis by (simp add: default_route_def getExternalDevices_eq hop_at_def)
qed

text \<open>The direct entries: a host route for the address of the other end of a link, with the hardware addresses of the two
  ends, through the first port to the neighbour. Ports of the entries count from one.\<close>

definition direct_for :: "p4_delegate \<Rightarrow> inc_switch \<Rightarrow> graph \<Rightarrow> link \<Rightarrow> raw_entry \<Rightarrow> bool" where
  "direct_for del sw G l e \<longleftrightarrow> (\<exists>port peer peerLink. port < length (Links sw) \<and> To (Links sw ! port) = To l
     \<and> (\<forall>k < port. To (Links sw ! k) \<noteq> To l)
     \<and> gm_get G (To l) = Some peer \<and> MustGetLinkTo peer (Name sw) = Some peerLink
     \<and> e = GetForwardEntry del (Ipv4 peerLink @ ''/32'') (MacAddr l) (MacAddr peerLink) (int port + 1))"

lemma host_mask: "addressed l \<Longrightarrow> maskIp (Ipv4 l) 32 = Some (Ipv4 l @ ''/32'')"
proof -
  have "fmt_int 32 = ''32''" by (simp add: fmt_int_def fmt_uint_def dec_digits.simps digit_char_def)
  then show "addressed l \<Longrightarrow> maskIp (Ipv4 l) 32 = Some (Ipv4 l @ ''/32'')"
    by (auto simp: addressed_def maskIp_def no_slash)
qed

lemma direct_entry_ok:
  assumes "graph_symmetric G" and "graph_named G" and "graph_closed G" and "gm_get G (Name sw) = Some (IncSwitch sw)"
    and "p4Delegate r sw = Some del" and "l \<in> set (Links sw)"
    and "\<And>d. gm_get G (To l) = Some d \<Longrightarrow> list_all addressed (GetLinks d)"
  shows "\<exists>e. direct_entry r sw G l = Some e \<and> direct_for del sw G l e"
proof -
  have edge: "(Name sw, To l) \<in> edge_rel G" using edge_relI [OF assms(4), of l] assms(6) by simp
  have "l \<in> set (GetLinks (IncSwitch sw))" using assms(6) by simp
  from graph_closedD [OF assms(3,4) this] obtain d where d: "gm_get G (To l) = Some d" by blast
  from hop_links [OF assms(1,2,4) edge d] obtain port pl where
    pl: "MustGetPortNumberTo (IncSwitch sw) (To l) = Some port" "MustGetLinkTo d (Name sw) = Some pl" by blast
  have "maskIp (Ipv4 pl) 32 = Some (Ipv4 pl @ ''/32'')"
    using assms(7) [OF d] MustGetLinkTo_Some [OF pl(2)] by (auto intro: host_mask simp: list_all_iff)
  with d pl assms(5) have "direct_entry r sw G l
      = Some (GetForwardEntry del (Ipv4 pl @ ''/32'') (MacAddr l) (MacAddr pl) (int port + 1))"
    by (simp add: direct_entry_def)
  moreover have "direct_for del sw G l (GetForwardEntry del (Ipv4 pl @ ''/32'') (MacAddr l) (MacAddr pl) (int port + 1))"
    using MustGetPortNumberTo_Some [OF pl(1)] d pl(2) unfolding direct_for_def by auto
  ultimately show ?thesis by blast
qed

lemma direct_entries_ok:
  assumes "\<And>l. l \<in> set ls \<Longrightarrow> \<exists>e. f l = Some e \<and> P l e"
  shows "\<exists>es. those (map f ls) = Some es \<and> list_all2 P ls es"
  using assms
proof (induction ls)
  case (Cons l ls)
  from Cons.prems [of l] obtain e where "f l = Some e" "P l e" by auto
  moreover from Cons obtain es where "those (map f ls) = Some es" "list_all2 P ls es" by auto
  ultimately show ?case by simp
qed simp

text \<open>The routes of one switch: one per network, each along a shortest path to a device of that network, and
  one for every network of every device that is not a neighbour.\<close>

definition routes_complete :: "p4_delegate \<Rightarrow> inc_switch \<Rightarrow> graph \<Rightarrow> string list \<Rightarrow> raw_entry list \<Rightarrow> bool" where
  "routes_complete del sw G nets routes \<longleftrightarrow> distinct nets
     \<and> list_all2 (\<lambda>net e. \<exists>u d l. gm_get G u = Some d \<and> l \<in> set (GetLinks d) \<and> network_of l = Some net
          \<and> entry_for del sw G u net e) nets routes
     \<and> (\<forall>u d l. gm_get G u = Some d \<longrightarrow> u \<noteq> Name sw \<longrightarrow> (Name sw, u) \<notin> edge_rel G \<longrightarrow> l \<in> set (GetLinks d) \<longrightarrow>
          (\<exists>net \<in> set nets. network_of l = Some net))"

definition switch_covered :: "registry \<Rightarrow> graph \<Rightarrow> inc_switch \<Rightarrow> raw_entry list \<Rightarrow> bool" where
  "switch_covered r G sw es \<longleftrightarrow> (\<exists>del arps directs nets routes. p4Delegate r sw = Some del
     \<and> es = arps @ directs @ routes \<and> arps = map (\<lambda>l. GetArpEntry del (Ipv4 l) (MacAddr l)) (Links sw)
     \<and> list_all2 (direct_for del sw G) (Links sw) directs \<and> routes_complete del sw G nets routes)"

lemma switch_entries_ok:
  assumes "forwarding_network r topo" and "IncSwitch sw \<in> set (Devices topo)"
    and "is_order (hopOrder ords)" and "is_order (deviceOrder ords)"
  shows "\<exists>es. switch_entries ords r topo (TopologyToGraph topo) sw = Some es \<and> switch_covered r (TopologyToGraph topo) sw es"
proof -
  let ?G = "TopologyToGraph topo"
  note net = assms(1) [unfolded forwarding_network_def list_all_iff]
  have named: "graph_named ?G" by (rule TopologyToGraph_named)
  have sw: "gm_get ?G (Name sw) = Some (IncSwitch sw)" using graph_of_distinct [of topo "IncSwitch sw"] net assms(2) by simp
  from net assms(2) obtain del where del: "p4Delegate r sw = Some del" unfolding p4Delegate_def by fastforce
  have arps: "createArpEntries r sw = Some (map (\<lambda>l. GetArpEntry del (Ipv4 l) (MacAddr l)) (Links sw))"
    by (simp add: createArpEntries_def del those_map_Some)
  have addr: "list_all addressed (GetLinks d)" if "gm_get ?G u = Some d" for u d
    using TopologyToGraph_SomeD [OF that] net by (auto simp: list_all_iff)
  have sym: "graph_symmetric ?G" and closed: "graph_closed ?G" using net by blast+
  have direct: "\<exists>e. direct_entry r sw ?G l = Some e \<and> direct_for del sw ?G l e" if "l \<in> set (Links sw)" for l
    by (rule direct_entry_ok [OF sym named closed sw del that]) (rule addr)
  have "\<exists>es. those (map (direct_entry r sw ?G) (Links sw)) = Some es \<and> list_all2 (direct_for del sw ?G) (Links sw) es"
    by (rule direct_entries_ok) (rule direct)
  then obtain directs where
    directs: "createDirectForwardEntries r sw ?G = Some directs" "list_all2 (direct_for del sw ?G) (Links sw) directs"
    unfolding createDirectForwardEntries_def by blast
  from GetNextHopsMap_ok [OF named _ _ sw assms(3)] net obtain hops where
    hops: "GetNextHopsMap (hopOrder ords) ?G (IncSwitch sw) = Some hops" "good_hops ?G sw hops"
    unfolding good_hops_def by blast
  have range: "set (gm_range (deviceOrder ords) ?G) = set ?G" by (rule set_gm_range [OF assms(4) TopologyToGraph_wf])
  have "\<forall>(u, d) \<in> set ?G. gm_get ?G u = Some d \<and> list_all addressed (GetLinks d)"
  proof (clarify)
    fix u d assume "(u, d) \<in> set ?G"
    then have "gm_get ?G u = Some d" by (simp del: map_of_eq_Some_iff add: map_of_is_SomeI)
    moreover from TopologyToGraph_SomeD [OF this] net have "\<forall>l \<in> set (GetLinks d). addressed l" by blast
    then have "list_all addressed (GetLinks d)" by (simp add: list_all_iff)
    ultimately show "gm_get ?G u = Some d \<and> list_all addressed (GetLinks d)" by blast
  qed
  moreover have "forward_inv del sw ?G ([], [])" by (simp add: forward_inv_def)
  ultimately obtain st where st: "fold_opt (add_device_networks r sw hops) (gm_range (deviceOrder ords) ?G) ([], []) = Some st"
    "forward_inv del sw ?G st" "\<forall>(u, d) \<in> set ?G. u \<noteq> Name sw \<longrightarrow> (Name sw, u) \<notin> edge_rel ?G \<longrightarrow>
        (\<forall>l \<in> set (GetLinks d). \<exists>net \<in> set (fst st). network_of l = Some net)"
    using add_devices_fold [OF sym named sw hops(2) del, of "gm_range (deviceOrder ords) ?G" "([], [])"] unfolding range by blast
  obtain nets routes where nr: "st = (nets, routes)" by (cases st)
  have "routes_complete del sw ?G (rev nets) routes"
    using st(2,3) unfolding nr routes_complete_def forward_inv_def
    by (auto dest!: gm_get_in)
  moreover have "default_route r topo sw hops = Some ()"
    using default_route_ok [OF sym named sw hops(2) del refl] net by blast
  then have "switch_entries ords r topo ?G sw = Some (map (\<lambda>l. GetArpEntry del (Ipv4 l) (MacAddr l)) (Links sw) @ directs @ routes)"
    by (simp add: switch_entries_def arps directs(1) hops(1) createIndirectForwardEntries_def st(1) nr)
  ultimately show ?thesis unfolding switch_covered_def using del directs(2) by blast
qed

lemma build_fold:
  assumes "forwarding_network r topo" and "\<forall>n. is_order (hopOrder (ords n)) \<and> is_order (deviceOrder (ords n))"
  shows "distinct (map Name sws) \<Longrightarrow> \<forall>sw \<in> set sws. IncSwitch sw \<in> set (Devices topo) \<Longrightarrow>
     \<exists>res'. fold_opt (\<lambda>incSwitch res. do {
         entries \<leftarrow> switch_entries (ords (Name incSwitch)) r topo (TopologyToGraph topo) incSwitch;
         Some (gm_put (Name incSwitch) entries res)
       }) sws res = Some res'
     \<and> (\<forall>sw \<in> set sws. \<exists>es. gm_get res' (Name sw) = Some es \<and> switch_covered r (TopologyToGraph topo) sw es)
     \<and> (\<forall>n. n \<notin> Name ` set sws \<longrightarrow> gm_get res' n = gm_get res n)"
proof (induction sws arbitrary: res)
  case (Cons sw sws)
  from Cons.prems(2) have sw: "IncSwitch sw \<in> set (Devices topo)" by simp
  obtain es where es: "switch_entries (ords (Name sw)) r topo (TopologyToGraph topo) sw = Some es"
    "switch_covered r (TopologyToGraph topo) sw es"
    using switch_entries_ok [OF assms(1) sw, of "ords (Name sw)"] assms(2) by blast
  from Cons.IH [of "gm_put (Name sw) es res"] Cons.prems es show ?case by (auto simp del: map_of_eq_Some_iff)
qed simp

text \<open>C31: on a connected network with proper addresses whose switches run registered programs, the entries
  are built without a panic in every order of the maps, and for every switch they hold an ARP entry
  per link; for each link a host route to the address of its other end, with the hardware addresses of the two ends and the
  number, from one, of the first port to that neighbour; and one route per network: every network of a device that is not a
  neighbour has exactly one, which leaves through the port of a next hop on a shortest path to a
  device in that network.\<close>

theorem forwarding_complete:
  assumes "forwarding_network r topo" and "\<forall>n. is_order (hopOrder (ords n)) \<and> is_order (deviceOrder (ords n))"
  shows "\<exists>res. buildBasicForwardingEntries ords r topo = Some res
     \<and> (\<forall>sw. IncSwitch sw \<in> set (Devices topo) \<longrightarrow>
          (\<exists>es. gm_get res (Name sw) = Some es \<and> switch_covered r (TopologyToGraph topo) sw es))"
proof -
  define sws where "sws = List.map_filter (\<lambda>d. case d of IncSwitch b \<Rightarrow> Some b | _ \<Rightarrow> None) (Devices topo)"
  have set: "set sws = {sw. IncSwitch sw \<in> set (Devices topo)}"
    by (force simp: sws_def map_filter_def image_iff split: device.splits)
  have "distinct (map Name (List.map_filter (\<lambda>d. case d of IncSwitch b \<Rightarrow> Some b | _ \<Rightarrow> None) ds))"
    if "distinct (map GetName ds)" for ds
    using that by (induction ds) (force simp: map_filter_def split: device.splits)+
  then have "distinct (map Name sws)" using assms(1) by (simp add: sws_def forwarding_network_def)
  from build_fold [OF assms this, where res = "[]"] set have "\<exists>res. fold_opt (\<lambda>incSwitch res. do {
         entries \<leftarrow> switch_entries (ords (Name incSwitch)) r topo (TopologyToGraph topo) incSwitch;
         Some (gm_put (Name incSwitch) entries res)
       }) sws [] = Some res
     \<and> (\<forall>sw. IncSwitch sw \<in> set (Devices topo) \<longrightarrow>
          (\<exists>es. gm_get res (Name sw) = Some es \<and> switch_covered r (TopologyToGraph topo) sw es))"
    unfolding mem_Collect_eq by blast
  then show ?thesis
    by (simp only: buildBasicForwardingEntries_def getIncSwitches_eq sws_def [symmetric] bind.simps)
qed

definition fwd_program :: p4_program_details where
  "fwd_program = NewProgramDetails ''forward'' [] []"

definition fwd_registry :: registry where
  "fwd_registry = Register fwd_program telemetry_delegate NewRegistry"

definition fwd_switch :: "device_name \<Rightarrow> link list \<Rightarrow> device" where
  "fwd_switch name links = NewBmv2IncSwitch name links [] ''forward''"

definition fwd_topo :: topology where
  "fwd_topo = \<lparr>Devices =
     [Host \<lparr>Name = ''h1'', Links = [NewLink ''s1'' ''m1'' ''10.0.0.2'' 24]\<rparr>,
      fwd_switch ''s1'' [NewLink ''h1'' ''m2'' ''10.0.0.1'' 24, NewLink ''s2'' ''m3'' ''10.0.1.1'' 24],
      fwd_switch ''s2'' [NewLink ''s1'' ''m4'' ''10.0.1.2'' 24, NewLink ''h2'' ''m5'' ''10.0.2.1'' 24],
      Host \<lparr>Name = ''h2'', Links = [NewLink ''s2'' ''m6'' ''10.0.2.2'' 24]\<rparr>]\<rparr>"

lemma addressedI: "v < 2 ^ 32 \<Longrightarrow> dotted v = ip \<Longrightarrow> addressed (NewLink to mac ip 24)"
  by (auto simp: addressed_def NewLink_def)

lemma fwd_topo_ok: "forwarding_network fwd_registry fwd_topo"
proof -
  have g: "graph_closed (TopologyToGraph fwd_topo)" "graph_symmetric (TopologyToGraph fwd_topo)"
    "all_paths_found (TopologyToGraph fwd_topo)" "distinct (map GetName (Devices fwd_topo))"
    "list_all (\<lambda>d. case d of IncSwitch s \<Rightarrow> MustFindDelegate fwd_registry (InstalledProgram s) \<noteq> None | _ \<Rightarrow> True) (Devices fwd_topo)"
    by code_simp+
  have "addressed (NewLink to mac ''10.0.0.1'' 24)" "addressed (NewLink to mac ''10.0.0.2'' 24)"
    "addressed (NewLink to mac ''10.0.1.1'' 24)" "addressed (NewLink to mac ''10.0.1.2'' 24)"
    "addressed (NewLink to mac ''10.0.2.1'' 24)" "addressed (NewLink to mac ''10.0.2.2'' 24)" for to mac
    by (rule addressedI [of 167772161] addressedI [of 167772162] addressedI [of 167772417] addressedI [of 167772418]
          addressedI [of 167772673] addressedI [of 167772674];
        simp add: dotted_def octet_def fmt_uint_def dec_digits.simps digit_char_def)+
  then have "list_all (\<lambda>d. list_all addressed (GetLinks d)) (Devices fwd_topo)"
    by (simp add: fwd_topo_def fwd_switch_def NewBmv2IncSwitch_def NewIncSwitch_def)
  with g show ?thesis by (simp add: forwarding_network_def graph_connectedI)
qed

theorem forwarding_complete_witness:
  "\<exists>res es sw. buildBasicForwardingEntries (\<lambda>_. \<lparr>hopOrder = rev, deviceOrder = rev\<rparr>) fwd_registry fwd_topo = Some res
     \<and> fwd_switch ''s1'' (Links sw) = IncSwitch sw
     \<and> gm_get res ''s1'' = Some es \<and> switch_covered fwd_registry (TopologyToGraph fwd_topo) sw es"
proof -
  let ?sw = "NewIncSwitch ''s1'' [NewLink ''h1'' ''m2'' ''10.0.0.1'' 24, NewLink ''s2'' ''m3'' ''10.0.1.1'' 24] BMv2 [] ''forward'' True"
  have sw: "IncSwitch ?sw \<in> set (Devices fwd_topo)" "fwd_switch ''s1'' (Links ?sw) = IncSwitch ?sw" "Name ?sw = ''s1''"
    by (simp_all add: fwd_topo_def fwd_switch_def NewBmv2IncSwitch_def NewIncSwitch_def)
  have o: "\<forall>n :: device_name. is_order (hopOrder ((\<lambda>_. \<lparr>hopOrder = rev, deviceOrder = rev\<rparr>) n))
      \<and> is_order (deviceOrder ((\<lambda>_. \<lparr>hopOrder = rev, deviceOrder = rev\<rparr>) n))" by simp
  from forwarding_complete [OF fwd_topo_ok o] sw show ?thesis by metis
qed

end
