(* ===== verification/MeasureTopo.thy ===== *)
theory MeasureTopo
  imports Forwarding ServiceTotal
begin

text \<open>
  The topology and the programs with which the controller is started
  (\<open>generated/measure_topo.go\<close>): a tree of ten P4 switches with thirteen hosts. The theory checks
  that this network has what the controller and the telemetry service rely on.
\<close>

definition measure_devices_a :: "device list" where
  "measure_devices_a =
   [NewBmv2IncSwitch ''r1''
     [NewLink ''r7'' ''00:00:0a:00:00:00'' ''10.0.13.1'' 24,
      NewLink ''tree-worker2'' ''00:00:0a:00:00:01'' ''10.0.0.1'' 24,
      NewLink ''tree-worker11'' ''00:00:0a:00:00:02'' ''10.0.1.1'' 24]
     ''127.0.0.1:9560'' ''telemetry'',
    NewBmv2IncSwitch ''r7''
     [NewLink ''r1'' ''00:00:0a:00:00:03'' ''10.0.13.2'' 24,
      NewLink ''r2'' ''00:00:0a:00:00:04'' ''10.0.14.2'' 24,
      NewLink ''r10'' ''00:00:0a:00:00:05'' ''10.0.19.1'' 24]
     ''127.0.0.1:9566'' ''telemetry'',
    Host \<lparr>Name = ''tree-worker2'', Links =
     [NewLink ''r1'' ''00:00:0a:00:00:06'' ''10.0.0.2'' 24]\<rparr>,
    Host \<lparr>Name = ''tree-worker11'', Links =
     [NewLink ''r1'' ''00:00:0a:00:00:07'' ''10.0.1.2'' 24]\<rparr>,
    NewBmv2IncSwitch ''r2''
     [NewLink ''r7'' ''00:00:0a:00:00:08'' ''10.0.14.1'' 24,
      NewLink ''tree-worker3'' ''00:00:0a:00:00:09'' ''10.0.2.1'' 24,
      NewLink ''tree-worker5'' ''00:00:0a:00:00:0a'' ''10.0.3.1'' 24]
     ''127.0.0.1:9561'' ''forward'',
    NewBmv2IncSwitch ''r10''
     [NewLink ''r7'' ''00:00:0a:00:00:0b'' ''10.0.19.2'' 24,
      NewLink ''r8'' ''00:00:0a:00:00:0c'' ''10.0.20.2'' 24,
      NewLink ''r9'' ''00:00:0a:00:00:0d'' ''10.0.21.2'' 24]
     ''127.0.0.1:9569'' ''forward'',
    Host \<lparr>Name = ''tree-worker3'', Links =
     [NewLink ''r2'' ''00:00:0a:00:00:0e'' ''10.0.2.2'' 24]\<rparr>,
    Host \<lparr>Name = ''tree-worker5'', Links =
     [NewLink ''r2'' ''00:00:0a:00:00:0f'' ''10.0.3.2'' 24]\<rparr>,
    NewBmv2IncSwitch ''r8''
     [NewLink ''r10'' ''00:00:0a:00:00:12'' ''10.0.20.1'' 24,
      NewLink ''r3'' ''00:00:0a:00:00:10'' ''10.0.15.2'' 24,
      NewLink ''r4'' ''00:00:0a:00:00:11'' ''10.0.16.2'' 24]
     ''127.0.0.1:9567'' ''forward'',
    NewBmv2IncSwitch ''r9''
     [NewLink ''r10'' ''00:00:0a:00:00:15'' ''10.0.21.1'' 24,
      NewLink ''r5'' ''00:00:0a:00:00:13'' ''10.0.17.2'' 24,
      NewLink ''r6'' ''00:00:0a:00:00:14'' ''10.0.18.2'' 24]
     ''127.0.0.1:9568'' ''telemetry'',
    NewBmv2IncSwitch ''r3''
     [NewLink ''r8'' ''00:00:0a:00:00:16'' ''10.0.15.1'' 24,
      NewLink ''tree-worker'' ''00:00:0a:00:00:17'' ''10.0.4.1'' 24,
      NewLink ''tree-worker4'' ''00:00:0a:00:00:18'' ''10.0.5.1'' 24]
     ''127.0.0.1:9562'' ''telemetry'']"

definition measure_devices_b :: "device list" where
  "measure_devices_b =
   [NewBmv2IncSwitch ''r4''
     [NewLink ''r8'' ''00:00:0a:00:00:19'' ''10.0.16.1'' 24,
      NewLink ''tree-control-plane'' ''00:00:0a:00:00:1a'' ''10.0.6.1'' 24,
      NewLink ''tree-worker8'' ''00:00:0a:00:00:1b'' ''10.0.7.1'' 24,
      NewLink ''tree-worker6'' ''00:00:0a:00:00:1c'' ''10.0.8.1'' 24]
     ''127.0.0.1:9563'' ''forward'',
    NewBmv2IncSwitch ''r5''
     [NewLink ''r9'' ''00:00:0a:00:00:1d'' ''10.0.17.1'' 24,
      NewLink ''tree-worker7'' ''00:00:0a:00:00:1e'' ''10.0.9.1'' 24,
      NewLink ''tree-worker10'' ''00:00:0a:00:00:1f'' ''10.0.10.1'' 24]
     ''127.0.0.1:9564'' ''telemetry'',
    NewBmv2IncSwitch ''r6''
     [NewLink ''r9'' ''00:00:0a:00:00:20'' ''10.0.18.1'' 24,
      NewLink ''tree-worker12'' ''00:00:0a:00:00:21'' ''10.0.11.1'' 24,
      NewLink ''tree-worker9'' ''00:00:0a:00:00:22'' ''10.0.12.1'' 24]
     ''127.0.0.1:9565'' ''forward'',
    Host \<lparr>Name = ''tree-worker'', Links =
     [NewLink ''r3'' ''00:00:0a:00:00:23'' ''10.0.4.2'' 24]\<rparr>,
    Host \<lparr>Name = ''tree-worker4'', Links =
     [NewLink ''r3'' ''00:00:0a:00:00:24'' ''10.0.5.2'' 24]\<rparr>,
    Host \<lparr>Name = ''tree-control-plane'', Links =
     [NewLink ''r4'' ''00:00:0a:00:00:25'' ''10.0.6.2'' 24]\<rparr>,
    Host \<lparr>Name = ''tree-worker8'', Links =
     [NewLink ''r4'' ''00:00:0a:00:00:26'' ''10.0.7.2'' 24]\<rparr>,
    Host \<lparr>Name = ''tree-worker6'', Links =
     [NewLink ''r4'' ''00:00:0a:00:00:27'' ''10.0.8.2'' 24]\<rparr>,
    Host \<lparr>Name = ''tree-worker7'', Links =
     [NewLink ''r5'' ''00:00:0a:00:00:28'' ''10.0.9.2'' 24]\<rparr>,
    Host \<lparr>Name = ''tree-worker10'', Links =
     [NewLink ''r5'' ''00:00:0a:00:00:29'' ''10.0.10.2'' 24]\<rparr>,
    Host \<lparr>Name = ''tree-worker12'', Links =
     [NewLink ''r6'' ''00:00:0a:00:00:2a'' ''10.0.11.2'' 24]\<rparr>,
    Host \<lparr>Name = ''tree-worker9'', Links =
     [NewLink ''r6'' ''00:00:0a:00:00:2b'' ''10.0.12.2'' 24]\<rparr>]"

definition measure_programs :: "p4_program_details list" where
  "measure_programs =
   [\<lparr>ProgramName = ''forward'', ImplementedInterfaces = [],
     Artifacts = [\<lparr>ArtifactArch = ''bmv2'',
       P4InfoPath = ''/home/flok3n/develop/virtual/telemetry2/int-platforms/p4src/int_v6.0/int.txt'',
       P4PipelinePath = ''/home/flok3n/develop/virtual/telemetry2/int-platforms/p4src/int_v6.0/int.json''\<rparr>]\<rparr>,
    \<lparr>ProgramName = ''telemetry'', ImplementedInterfaces = [''inc.kntp.com/v1alpha1/telemetry''],
     Artifacts = [\<lparr>ArtifactArch = ''bmv2'',
       P4InfoPath = ''/home/flok3n/develop/virtual/telemetry2/int-platforms/p4src/int_v6.0/int.txt'',
       P4PipelinePath = ''/home/flok3n/develop/virtual/telemetry2/int-platforms/p4src/int_v6.0/int.json''\<rparr>]\<rparr>]"

definition Measure_gRPC_topo :: "topology \<times> p4_program_details list" where
  "Measure_gRPC_topo = (\<lparr>Devices = measure_devices_a @ measure_devices_b\<rparr>, measure_programs)"

text \<open>The registry as \<open>main\<close> fills it: the telemetry service is the delegate of every program.\<close>

definition register_all :: "p4_program_details list \<Rightarrow> registry" where
  "register_all programDefinitions = fold (\<lambda>program. Register program telemetry_delegate) programDefinitions NewRegistry"

section \<open>The network is sound\<close>

text \<open>Connectivity from one root: on a graph whose links have a link back, a graph is connected when every
  device is found from the root.\<close>

definition found_from :: "graph \<Rightarrow> device_name \<Rightarrow> bool" where
  "found_from G root = list_all (\<lambda>v. case runDfs G root v of Some p \<Rightarrow> p \<noteq> [] | None \<Rightarrow> False) (gm_keys G)"

lemma edge_rel_sym:
  assumes "graph_symmetric G" and "(u, v) \<in> edge_rel G"
  shows "(v, u) \<in> edge_rel G"
proof -
  from assms(2) obtain d l where "gm_get G u = Some d" "l \<in> set (GetLinks d)" "To l = v" by (rule edge_relE)
  with graph_symmetricD [OF assms(1)] show ?thesis by (auto simp: edge_rel_def)
qed

lemma connected_from:
  assumes "graph_symmetric G" and "found_from G root"
  shows "graph_connected G"
proof -
  have root: "(root, v) \<in> (edge_rel G)\<^sup>*" if "gm_get G v \<noteq> None" for v
  proof -
    have "v \<in> set (gm_keys G)" using that by (auto simp: map_of_eq_None_iff)
    with assms(2) have "case runDfs G root v of Some p \<Rightarrow> p \<noteq> [] | None \<Rightarrow> False"
      unfolding found_from_def list_all_iff by blast
    then obtain p where "runDfs G root v = Some p" "p \<noteq> []" by (auto split: option.splits)
    with dfs.nonempty_iff show ?thesis by blast
  qed
  have "sym ((edge_rel G)\<^sup>*)"
    using edge_rel_sym [OF assms(1)] by (intro sym_rtrancl symI)
  with root show ?thesis unfolding graph_connected_def by (meson rtrancl_trans symE)
qed

abbreviation measure_topo :: topology where "measure_topo \<equiv> fst Measure_gRPC_topo"
abbreviation measure_registry :: registry where "measure_registry \<equiv> register_all (snd Measure_gRPC_topo)"

lemma measure_graph:
  "graph_closed (TopologyToGraph measure_topo)" "graph_symmetric (TopologyToGraph measure_topo)"
  "distinct (map GetName (Devices measure_topo))"
  by code_simp+

lemma measure_found: "found_from (TopologyToGraph measure_topo) ''r1''"
  by code_simp

lemma measure_connected: "graph_connected (TopologyToGraph measure_topo)"
  by (rule connected_from [OF measure_graph(2) measure_found])

lemma measure_registered:
  "list_all (\<lambda>d. case d of IncSwitch s \<Rightarrow> MustFindDelegate measure_registry (InstalledProgram s) \<noteq> None | _ \<Rightarrow> True)
     (Devices measure_topo)"
  by code_simp

text \<open>Every address is \<open>10.0.a.b\<close> for small \<open>a\<close> and \<open>b\<close>.\<close>

lemma octet_plus:
  assumes "b < 256"
  shows "octet (256 * n + b) 0 = b" "octet (256 * n + b) (Suc i) = octet n i"
  using assms by (simp_all add: octet_def div_mult2_eq)

lemma dotted_10_0:
  assumes "a < 256" and "b < 256"
  shows "dotted (256 * (256 * 2560 + a) + b) = ''10.0.'' @ fmt_uint a @ ''.'' @ fmt_uint b"
proof -
  have "octet 2560 1 = 10" "octet 2560 0 = 0" by (simp_all add: octet_def)
  then have o: "octet (256 * (256 * 2560 + a) + b) 3 = 10" "octet (256 * (256 * 2560 + a) + b) 2 = 0"
    "octet (256 * (256 * 2560 + a) + b) 1 = a" "octet (256 * (256 * 2560 + a) + b) 0 = b"
    by (simp_all only: numeral_3_eq_3 numeral_2_eq_2 One_nat_def octet_plus(2) [OF assms(2)] octet_plus(2) [OF assms(1)]
        octet_plus(1) [OF assms(2)] octet_plus(1) [OF assms(1)])
  have "fmt_uint 10 = ''10''" "fmt_uint 0 = ''0''"
    by (simp_all add: fmt_uint_def dec_digits.simps digit_char_def)
  then show ?thesis unfolding dotted_def o by simp
qed

lemma addressed_10_0:
  assumes "a < 256" and "b < 256" and "Mask l = 24" and "Ipv4 l = ''10.0.'' @ fmt_uint a @ ''.'' @ fmt_uint b"
  shows "addressed l"
  unfolding addressed_def dotted_10_0 [OF assms(1,2), symmetric] assms(4)
  using assms(1-3) by (intro conjI exI [of _ "256 * (256 * 2560 + a) + b"]) simp_all

definition plain_address :: "link \<Rightarrow> bool" where
  "plain_address l \<longleftrightarrow> Mask l = 24 \<and> list_ex (\<lambda>(a, b). Ipv4 l = ''10.0.'' @ fmt_int a @ ''.'' @ fmt_int b)
     (List.product [0..21] [1, 2])"

lemma plain_addressed: "plain_address l \<Longrightarrow> addressed l"
  unfolding plain_address_def list_ex_iff
  by (auto simp: fmt_int_def intro!: addressed_10_0)

lemma measure_plain: "list_all (\<lambda>d. list_all plain_address (GetLinks d)) (Devices measure_topo)"
  by code_simp
text \<open>The network and the programs the controller is started with are what its other parts rely on: the
  topology is connected, without dangling or one-way links and without duplicate names, every link
  has a proper address and every switch runs a registered program, so the forwarding entries are
  built without a panic and the telemetry service never panics on sound requests.\<close>

theorem measure_network_sound:
  "sound_network (fst Measure_gRPC_topo)
   \<and> forwarding_network (register_all (snd Measure_gRPC_topo)) (fst Measure_gRPC_topo)"
proof -
  have "list_all (\<lambda>d. list_all addressed (GetLinks d)) (Devices measure_topo)"
    using measure_plain plain_addressed by (auto simp: list_all_iff)
  then show ?thesis
    unfolding sound_network_def graph_ok_def forwarding_network_def
    using measure_graph measure_connected measure_registered TopologyToGraph_named by blast
qed

end
