(* ===== verification/FatTree.thy ===== *)
theory FatTree
  imports MeasureTopo
begin

text \<open>
  The fat tree on which reconciliation is evaluated (\<open>generated/evaluation_topo.go\<close>). The slices
  \<open>coreSwitches\<close>, \<open>aggSwitches\<close> and \<open>edgeSwitches\<close> hold pointers to devices of the slice \<open>devices\<close>; here they
  hold indices into it. The random generator is an argument: \<open>below i\<close> says whether its \<open>i\<close>-th draw is
  below \<open>incSwitchFraction\<close>, and \<open>positive\<close> whether that fraction is above 0.
\<close>

definition evaluation_programs :: "p4_program_details list" where
  "evaluation_programs = measure_programs"

definition makeNetDevice :: "string \<Rightarrow> bool \<Rightarrow> bool \<Rightarrow> device" where
  "makeNetDevice name drawn positive =
     (let isIncSwitch = drawn \<or> (name = ''s-0-0-1'' \<and> positive);
          isIncSwitch1 = (if isIncSwitch \<and> name = ''s-0-1-1'' then False else isIncSwitch)
      in if isIncSwitch1 then NewBmv2IncSwitch name [] [] ''forward''
         else NetDevice \<lparr>Name = name, Links = []\<rparr>)"

definition makeNode :: "string \<Rightarrow> device" where
  "makeNode name = Host \<lparr>Name = name, Links = []\<rparr>"

text \<open>The devices so far and the number of draws.\<close>

record fat_state =
  fatDevices :: "device list"
  draws :: nat

definition link_to :: "device \<Rightarrow> link" where
  "link_to dev = NewLink (GetName dev) ''12:34:56:78:9a:bc'' ''123.123.123.123'' 24"

definition addLink :: "nat \<Rightarrow> nat \<Rightarrow> fat_state \<Rightarrow> fat_state option" where
  "addLink dev1 dev2 st =
     (let ds = fatDevices st in
      if dev1 < length ds \<and> dev2 < length ds then
        (let ds1 = ds[dev1 := AddLink (link_to (ds ! dev2)) (ds ! dev1)];
             ds2 = ds1[dev2 := AddLink (link_to (ds1 ! dev1)) (ds1 ! dev2)]
         in Some (st\<lparr>fatDevices := ds2\<rparr>))
      else None)"

definition add_net_device :: "(nat \<Rightarrow> bool) \<Rightarrow> bool \<Rightarrow> string \<Rightarrow> fat_state \<Rightarrow> nat \<times> fat_state" where
  "add_net_device below positive name st =
     (length (fatDevices st),
      st\<lparr>fatDevices := fatDevices st @ [makeNetDevice name (below (draws st)) positive], draws := Suc (draws st)\<rparr>)"

definition core_name :: "nat \<Rightarrow> string" where
  "core_name i = ''s-core-'' @ fmt_uint i"

definition rack_name :: "string \<Rightarrow> nat \<Rightarrow> nat \<Rightarrow> nat \<Rightarrow> string" where
  "rack_name kind pod rack i = kind @ ''-'' @ fmt_uint pod @ ''-'' @ fmt_uint rack @ ''-'' @ fmt_uint i"

text \<open>The bodies of the loops, from the inside out.\<close>

definition add_node :: "nat \<Rightarrow> nat \<Rightarrow> nat \<Rightarrow> nat \<Rightarrow> fat_state \<Rightarrow> fat_state option" where
  "add_node pod rack edgeDev i st =
     (let node = length (fatDevices st)
      in addLink node edgeDev (st\<lparr>fatDevices := fatDevices st @ [makeNode (rack_name ''n'' pod rack i)]\<rparr>))"

definition add_rack ::
  "nat \<Rightarrow> (nat \<Rightarrow> bool) \<Rightarrow> bool \<Rightarrow> nat \<Rightarrow> nat \<Rightarrow> nat list \<times> nat list \<times> fat_state \<Rightarrow> (nat list \<times> nat list \<times> fat_state) option" where
  "add_rack k below positive pod rack = (\<lambda>(edgeSwitches, aggSwitches, st).
     (let (aggDev, st1) = add_net_device below positive (rack_name ''s'' pod rack 1) st;
          (edgeDev, st2) = add_net_device below positive (rack_name ''s'' pod rack 0) st1
      in do {
        st3 \<leftarrow> fold_opt (add_node pod rack edgeDev) [0..<k div 2] st2;
        Some (edgeSwitches @ [edgeDev], aggSwitches @ [aggDev], st3)
      }))"

text \<open>The core links: the counter \<open>coreSwitchCounter\<close> runs through the core switches.\<close>

definition core_link :: "nat list \<Rightarrow> nat \<Rightarrow> nat \<times> fat_state \<Rightarrow> (nat \<times> fat_state) option" where
  "core_link coreSwitches aggSwitch = (\<lambda>(coreSwitchCounter, st).
     (if coreSwitchCounter < length coreSwitches then do {
        st1 \<leftarrow> addLink aggSwitch (coreSwitches ! coreSwitchCounter) st;
        Some (Suc coreSwitchCounter, st1)
      } else None))"

definition add_pod :: "nat \<Rightarrow> (nat \<Rightarrow> bool) \<Rightarrow> bool \<Rightarrow> nat list \<Rightarrow> nat \<Rightarrow> fat_state \<Rightarrow> fat_state option" where
  "add_pod k below positive coreSwitches pod st = do {
     (edgeSwitches, aggSwitches, st1) \<leftarrow> fold_opt (add_rack k below positive pod) [0..<k div 2] ([], [], st);
     st2 \<leftarrow> fold_opt (\<lambda>aggSwitch. fold_opt (\<lambda>edgeSwitch. addLink aggSwitch edgeSwitch) edgeSwitches) aggSwitches st1;
     (coreSwitchCounter, st3) \<leftarrow> fold_opt (\<lambda>aggSwitch. fold_opt (\<lambda>j. core_link coreSwitches aggSwitch) [0..<k div 2]) aggSwitches (0, st2);
     Some st3
   }"

definition add_core :: "(nat \<Rightarrow> bool) \<Rightarrow> bool \<Rightarrow> nat \<Rightarrow> nat list \<times> fat_state \<Rightarrow> nat list \<times> fat_state" where
  "add_core below positive i = (\<lambda>(coreSwitches, st).
     (case add_net_device below positive (core_name i) st of (dev, st1) \<Rightarrow> (coreSwitches @ [dev], st1)))"

definition FatTreeFakeCluster :: "nat \<Rightarrow> (nat \<Rightarrow> bool) \<Rightarrow> bool \<Rightarrow> (topology \<times> p4_program_details list) option" where
  "FatTreeFakeCluster k below positive =
     (case fold (add_core below positive) [0..<(k div 2) * (k div 2)] ([], \<lparr>fatDevices = [], draws = 0\<rparr>) of
        (coreSwitches, st) \<Rightarrow> do {
          st1 \<leftarrow> fold_opt (add_pod k below positive coreSwitches) [0..<k] st;
          Some (\<lparr>Devices = fatDevices st1\<rparr>, evaluation_programs)
        })"

section \<open>Links come in pairs\<close>

text \<open>By index: every link leads to a device that has a link back.\<close>

definition mutual :: "device list \<Rightarrow> bool" where
  "mutual ds \<longleftrightarrow> (\<forall>x < length ds. \<forall>l \<in> set (GetLinks (ds ! x)). \<exists>y < length ds. GetName (ds ! y) = To l
     \<and> GetName (ds ! x) \<in> To ` set (GetLinks (ds ! y)))"

lemma addLink_effect:
  assumes "i < length (fatDevices st)" and "j < length (fatDevices st)"
  shows "\<exists>st'. addLink i j st = Some st' \<and> draws st' = draws st \<and> length (fatDevices st') = length (fatDevices st)
     \<and> (\<forall>x < length (fatDevices st). GetName (fatDevices st' ! x) = GetName (fatDevices st ! x)
          \<and> map To (GetLinks (fatDevices st' ! x)) = map To (GetLinks (fatDevices st ! x))
              @ (if x = i then [GetName (fatDevices st ! j)] else []) @ (if x = j then [GetName (fatDevices st ! i)] else []))"
  using assms by (auto simp: addLink_def Let_def link_to_def NewLink_def nth_list_update)

lemma addLink_mutual:
  assumes "mutual (fatDevices st)" and "addLink i j st = Some st'"
  shows "mutual (fatDevices st')"
proof -
  have ij: "i < length (fatDevices st)" "j < length (fatDevices st)"
    using assms(2) by (auto simp: addLink_def Let_def split: if_splits)
  from addLink_effect [OF this] assms(2) have e: "length (fatDevices st') = length (fatDevices st)"
    "\<And>x. x < length (fatDevices st) \<Longrightarrow> GetName (fatDevices st' ! x) = GetName (fatDevices st ! x)"
    "\<And>x. x < length (fatDevices st) \<Longrightarrow> map To (GetLinks (fatDevices st' ! x)) = map To (GetLinks (fatDevices st ! x))
              @ (if x = i then [GetName (fatDevices st ! j)] else []) @ (if x = j then [GetName (fatDevices st ! i)] else [])"
    by auto
  have tos: "To ` set (GetLinks (fatDevices st' ! x)) = To ` set (GetLinks (fatDevices st ! x))
      \<union> (if x = i then {GetName (fatDevices st ! j)} else {}) \<union> (if x = j then {GetName (fatDevices st ! i)} else {})"
    if "x < length (fatDevices st)" for x
    using arg_cong [OF e(3) [OF that], of set] by auto
  show ?thesis
    unfolding mutual_def e(1)
  proof (intro allI impI ballI)
    fix x l assume x: "x < length (fatDevices st)" and l: "l \<in> set (GetLinks (fatDevices st' ! x))"
    from l have "To l \<in> To ` set (GetLinks (fatDevices st' ! x))" by simp
    then consider (old) l0 where "l0 \<in> set (GetLinks (fatDevices st ! x))" "To l0 = To l"
      | (i) "x = i" "To l = GetName (fatDevices st ! j)" | (j) "x = j" "To l = GetName (fatDevices st ! i)"
      unfolding tos [OF x] by (auto split: if_splits)
    then show "\<exists>y < length (fatDevices st). GetName (fatDevices st' ! y) = To l
        \<and> GetName (fatDevices st' ! x) \<in> To ` set (GetLinks (fatDevices st' ! y))"
    proof cases
      case old
      with assms(1) x obtain y where "y < length (fatDevices st)" "GetName (fatDevices st ! y) = To l"
        "GetName (fatDevices st ! x) \<in> To ` set (GetLinks (fatDevices st ! y))" unfolding mutual_def by metis
      then show ?thesis using e(2) tos x by (intro exI [of _ y]) auto
    next
      case i
      then show ?thesis using ij e(2) tos by (intro exI [of _ j]) auto
    next
      case j
      then show ?thesis using ij e(2) tos by (intro exI [of _ i]) auto
    qed
  qed
qed

lemma mutual_append: "mutual ds \<Longrightarrow> GetLinks d = [] \<Longrightarrow> mutual (ds @ [d])"
  unfolding mutual_def by (auto simp: nth_append less_Suc_eq) (metis)

text \<open>What the loops keep, and the names they add.\<close>

definition fat_names :: "fat_state \<Rightarrow> string list" where
  "fat_names st = map GetName (fatDevices st)"

lemma addLink_keeps:
  assumes "mutual (fatDevices st)" and "i < length (fat_names st)" and "j < length (fat_names st)"
  shows "\<exists>st'. addLink i j st = Some st' \<and> mutual (fatDevices st') \<and> fat_names st' = fat_names st"
proof -
  from addLink_effect [of i st j] assms(2,3) obtain st' where st': "addLink i j st = Some st'"
    "length (fatDevices st') = length (fatDevices st)"
    "\<forall>x < length (fatDevices st). GetName (fatDevices st' ! x) = GetName (fatDevices st ! x)" by (auto simp: fat_names_def)
  then have "fat_names st' = fat_names st" unfolding fat_names_def by (intro nth_equalityI) auto
  with st'(1) addLink_mutual [OF assms(1) st'(1)] show ?thesis by blast
qed

lemma makeNetDevice_sel [simp]: "GetName (makeNetDevice name b p) = name" "GetLinks (makeNetDevice name b p) = []"
  by (auto simp: makeNetDevice_def Let_def NewBmv2IncSwitch_def NewIncSwitch_def)

lemma add_net_device_keeps:
  assumes "mutual (fatDevices st)" and "add_net_device below positive name st = (dev, st')"
  shows "dev = length (fat_names st) \<and> mutual (fatDevices st') \<and> fat_names st' = fat_names st @ [name]"
  using assms mutual_append [OF assms(1)] by (auto simp: add_net_device_def fat_names_def)

lemma add_node_keeps:
  assumes "mutual (fatDevices st)" and "edgeDev < length (fat_names st)"
  shows "\<exists>st'. add_node pod rack edgeDev i st = Some st' \<and> mutual (fatDevices st')
     \<and> fat_names st' = fat_names st @ [rack_name ''n'' pod rack i]"
proof -
  let ?st = "st\<lparr>fatDevices := fatDevices st @ [makeNode (rack_name ''n'' pod rack i)]\<rparr>"
  have "mutual (fatDevices ?st)" using mutual_append [OF assms(1)] by (simp add: makeNode_def)
  from addLink_keeps [OF this, of "length (fatDevices st)" edgeDev] assms(2) show ?thesis
    by (auto simp: add_node_def fat_names_def makeNode_def)
qed

lemma add_nodes_keep:
  "mutual (fatDevices st) \<Longrightarrow> edgeDev < length (fat_names st) \<Longrightarrow>
     \<exists>st'. fold_opt (add_node pod rack edgeDev) is st = Some st' \<and> mutual (fatDevices st')
       \<and> fat_names st' = fat_names st @ map (rack_name ''n'' pod rack) is"
proof (induction "is" arbitrary: st)
  case (Cons i "is")
  from add_node_keeps [OF Cons.prems] obtain st1 where st1: "add_node pod rack edgeDev i st = Some st1"
    "mutual (fatDevices st1)" "fat_names st1 = fat_names st @ [rack_name ''n'' pod rack i]" by blast
  with Cons.IH [OF st1(2)] Cons.prems(2) show ?case by auto
qed simp

definition rack_names :: "nat \<Rightarrow> nat \<Rightarrow> nat \<Rightarrow> string list" where
  "rack_names h pod rack = [rack_name ''s'' pod rack 1, rack_name ''s'' pod rack 0] @ map (rack_name ''n'' pod rack) [0..<h]"

lemma in_bounds_mono: "list_all (\<lambda>x. x < n) xs \<Longrightarrow> n \<le> m \<Longrightarrow> list_all (\<lambda>x. x < (m :: nat)) xs"
  by (auto simp: list_all_iff)

lemma add_rack_keeps:
  assumes "mutual (fatDevices st)" and "list_all (\<lambda>x. x < length (fat_names st)) (es @ as)"
  shows "\<exists>es' as' st'. add_rack k below positive pod rack (es, as, st) = Some (es', as', st') \<and> mutual (fatDevices st')
     \<and> fat_names st' = fat_names st @ rack_names (k div 2) pod rack
     \<and> list_all (\<lambda>x. x < length (fat_names st')) (es' @ as') \<and> length as' = Suc (length as)"
proof -
  obtain a st1 where 1: "add_net_device below positive (rack_name ''s'' pod rack 1) st = (a, st1)" by force
  obtain e st2 where 2: "add_net_device below positive (rack_name ''s'' pod rack 0) st1 = (e, st2)" by force
  note k1 = add_net_device_keeps [OF assms(1) 1]
  note k2 = add_net_device_keeps [OF conjunct1 [OF conjunct2 [OF k1]] 2]
  have "e < length (fat_names st2)" using k2 by simp
  from add_nodes_keep [OF conjunct1 [OF conjunct2 [OF k2]] this, of pod rack "[0..<k div 2]"] obtain st3 where
    3: "fold_opt (add_node pod rack e) [0..<k div 2] st2 = Some st3" "mutual (fatDevices st3)"
    "fat_names st3 = fat_names st2 @ map (rack_name ''n'' pod rack) [0..<k div 2]" by blast
  have n: "fat_names st3 = fat_names st @ rack_names (k div 2) pod rack" using k1 k2 3(3) by (simp add: rack_names_def)
  have "list_all (\<lambda>x. x < length (fat_names st3)) ((es @ [e]) @ (as @ [a]))"
    using in_bounds_mono [OF assms(2), of "length (fat_names st3)"] k1 k2 n by (simp add: rack_names_def)
  with 1 2 3 n show ?thesis by (simp add: add_rack_def)
qed

lemma add_racks_keep:
  "mutual (fatDevices st) \<Longrightarrow> list_all (\<lambda>x. x < length (fat_names st)) (es @ as) \<Longrightarrow>
     \<exists>es' as' st'. fold_opt (add_rack k below positive pod) racks (es, as, st) = Some (es', as', st') \<and> mutual (fatDevices st')
       \<and> fat_names st' = fat_names st @ concat (map (rack_names (k div 2) pod) racks)
       \<and> list_all (\<lambda>x. x < length (fat_names st')) (es' @ as') \<and> length as' = length as + length racks"
proof (induction racks arbitrary: es as st)
  case (Cons rack racks)
  from add_rack_keeps [OF Cons.prems, of k below positive pod rack] obtain es1 as1 st1 where 1:
    "add_rack k below positive pod rack (es, as, st) = Some (es1, as1, st1)" "mutual (fatDevices st1)"
    "fat_names st1 = fat_names st @ rack_names (k div 2) pod rack"
    "list_all (\<lambda>x. x < length (fat_names st1)) (es1 @ as1)" "length as1 = Suc (length as)" by blast
  from Cons.IH [OF 1(2,4)] 1 show ?case by auto
qed simp

lemma links_keep:
  assumes "mutual (fatDevices st)" and "fat_names st = names" and "list_all (\<lambda>j. j < length names) js" and "i < length names"
  shows "\<exists>st'. fold_opt (\<lambda>j. addLink i j) js st = Some st' \<and> mutual (fatDevices st') \<and> fat_names st' = names"
  using assms
proof (induction js arbitrary: st)
  case (Cons j js)
  from addLink_keeps [OF Cons.prems(1), of i j] Cons.prems obtain st1 where
    "addLink i j st = Some st1" "mutual (fatDevices st1)" "fat_names st1 = names" by auto
  with Cons.IH [of st1] Cons.prems show ?case by auto
qed simp

lemma mesh_keeps:
  "mutual (fatDevices st) \<Longrightarrow> fat_names st = names \<Longrightarrow> list_all (\<lambda>j. j < length names) (js @ is) \<Longrightarrow>
     \<exists>st'. fold_opt (\<lambda>i. fold_opt (\<lambda>j. addLink i j) js) is st = Some st' \<and> mutual (fatDevices st') \<and> fat_names st' = names"
proof (induction "is" arbitrary: st)
  case (Cons i "is")
  from links_keep [OF Cons.prems(1,2), of js i] Cons.prems(3) obtain st1 where
    "fold_opt (\<lambda>j. addLink i j) js st = Some st1" "mutual (fatDevices st1)" "fat_names st1 = names" by auto
  with Cons.IH [of st1] Cons.prems(3) show ?case by auto
qed simp

lemma core_links_keep:
  "mutual (fatDevices st) \<Longrightarrow> fat_names st = names \<Longrightarrow> list_all (\<lambda>j. j < length names) cores \<Longrightarrow> i < length names \<Longrightarrow>
     c + length js \<le> length cores \<Longrightarrow>
     \<exists>st'. fold_opt (\<lambda>j. core_link cores i) js (c, st) = Some (c + length js, st') \<and> mutual (fatDevices st') \<and> fat_names st' = names"
proof (induction js arbitrary: c st)
  case (Cons j js)
  have "cores ! c < length names" using Cons.prems(3,5) by (simp add: list_all_length)
  with addLink_keeps [OF Cons.prems(1), of i "cores ! c"] Cons.prems obtain st1 where
    "addLink i (cores ! c) st = Some st1" "mutual (fatDevices st1)" "fat_names st1 = names" by auto
  with Cons.IH [of st1 "Suc c"] Cons.prems show ?case by (auto simp: core_link_def)
qed simp

lemma core_mesh_keeps:
  "mutual (fatDevices st) \<Longrightarrow> fat_names st = names \<Longrightarrow> list_all (\<lambda>j. j < length names) (cores @ is) \<Longrightarrow>
     c + length is * h \<le> length cores \<Longrightarrow>
     \<exists>st'. fold_opt (\<lambda>i. fold_opt (\<lambda>j. core_link cores i) [0..<h]) is (c, st) = Some (c + length is * h, st')
       \<and> mutual (fatDevices st') \<and> fat_names st' = names"
proof (induction "is" arbitrary: c st)
  case (Cons i "is")
  from core_links_keep [OF Cons.prems(1,2), of cores i c "[0..<h]"] Cons.prems(3,4) obtain st1 where
    1: "fold_opt (\<lambda>j. core_link cores i) [0..<h] (c, st) = Some (c + h, st1)" "mutual (fatDevices st1)" "fat_names st1 = names"
    by auto
  with Cons.IH [OF 1(2,3), of "c + h"] Cons.prems(3,4) show ?case by (auto simp: algebra_simps)
qed simp

definition pod_names :: "nat \<Rightarrow> nat \<Rightarrow> string list" where
  "pod_names h pod = concat (map (rack_names h pod) [0..<h])"

lemma add_pod_keeps:
  assumes "mutual (fatDevices st)" and "length cores = (k div 2) * (k div 2)" and "list_all (\<lambda>x. x < length (fat_names st)) cores"
  shows "\<exists>st'. add_pod k below positive cores pod st = Some st' \<and> mutual (fatDevices st')
     \<and> fat_names st' = fat_names st @ pod_names (k div 2) pod"
proof -
  from add_racks_keep [OF assms(1), of "[]" "[]" k below positive pod "[0..<k div 2]"] obtain es as st1 where
    1: "fold_opt (add_rack k below positive pod) [0..<k div 2] ([], [], st) = Some (es, as, st1)" "mutual (fatDevices st1)"
    "fat_names st1 = fat_names st @ pod_names (k div 2) pod"
    "list_all (\<lambda>x. x < length (fat_names st1)) (es @ as)" "length as = k div 2"
    by (auto simp: pod_names_def)
  from mesh_keeps [OF 1(2) refl 1(4)] obtain st2 where
    2: "fold_opt (\<lambda>i. fold_opt (\<lambda>j. addLink i j) es) as st1 = Some st2" "mutual (fatDevices st2)" "fat_names st2 = fat_names st1" by blast
  have "list_all (\<lambda>x. x < length (fat_names st1)) (cores @ as)"
    using in_bounds_mono [OF assms(3), of "length (fat_names st1)"] 1(3,4) by simp
  from core_mesh_keeps [OF 2(2,3) this, of 0 "k div 2"] assms(2) 1(5) obtain st3 where
    "fold_opt (\<lambda>i. fold_opt (\<lambda>j. core_link cores i) [0..<k div 2]) as (0, st2) = Some (length as * (k div 2), st3)"
    "mutual (fatDevices st3)" "fat_names st3 = fat_names st1" by auto
  with 1 2 show ?thesis by (simp add: add_pod_def)
qed

lemma add_pods_keep:
  "mutual (fatDevices st) \<Longrightarrow> length cores = (k div 2) * (k div 2) \<Longrightarrow> list_all (\<lambda>x. x < length (fat_names st)) cores \<Longrightarrow>
     \<exists>st'. fold_opt (add_pod k below positive cores) pods st = Some st' \<and> mutual (fatDevices st')
       \<and> fat_names st' = fat_names st @ concat (map (pod_names (k div 2)) pods)"
proof (induction pods arbitrary: st)
  case (Cons pod pods)
  from add_pod_keeps [OF Cons.prems, of below positive pod] obtain st1 where
    1: "add_pod k below positive cores pod st = Some st1" "mutual (fatDevices st1)"
    "fat_names st1 = fat_names st @ pod_names (k div 2) pod" by blast
  have "list_all (\<lambda>x. x < length (fat_names st1)) cores" using in_bounds_mono [OF Cons.prems(3)] 1(3) by simp
  from Cons.IH [OF 1(2) Cons.prems(2) this] 1 show ?case by auto
qed simp

lemma cores_keep:
  "mutual (fatDevices st) \<Longrightarrow> list_all (\<lambda>x. x < length (fat_names st)) cs \<Longrightarrow>
     \<exists>cs' st'. fold (add_core below positive) is (cs, st) = (cs', st') \<and> mutual (fatDevices st')
       \<and> fat_names st' = fat_names st @ map core_name is \<and> length cs' = length cs + length is
       \<and> list_all (\<lambda>x. x < length (fat_names st')) cs'"
proof (induction "is" arbitrary: cs st)
  case (Cons i "is")
  obtain d st1 where 1: "add_net_device below positive (core_name i) st = (d, st1)" by force
  note k = add_net_device_keeps [OF Cons.prems(1) 1]
  have "list_all (\<lambda>x. x < length (fat_names st1)) (cs @ [d])" using in_bounds_mono [OF Cons.prems(2)] k by simp
  from Cons.IH [OF _ this] k show ?case by (simp add: add_core_def 1)
qed simp

definition all_names :: "nat \<Rightarrow> string list" where
  "all_names k = map core_name [0..<(k div 2) * (k div 2)] @ concat (map (pod_names (k div 2)) [0..<k])"

lemma fat_tree_built:
  "\<exists>topo. FatTreeFakeCluster k below positive = Some (topo, evaluation_programs) \<and> mutual (Devices topo)
     \<and> map GetName (Devices topo) = all_names k"
proof -
  have "mutual (fatDevices \<lparr>fatDevices = [], draws = 0\<rparr>)" by (simp add: mutual_def)
  from cores_keep [OF this, of "[]" below positive "[0..<(k div 2) * (k div 2)]"] obtain cs st where
    1: "fold (add_core below positive) [0..<(k div 2) * (k div 2)] ([], \<lparr>fatDevices = [], draws = 0\<rparr>) = (cs, st)"
    "mutual (fatDevices st)" "fat_names st = map core_name [0..<(k div 2) * (k div 2)]" "length cs = (k div 2) * (k div 2)"
    "list_all (\<lambda>x. x < length (fat_names st)) cs" by (auto simp: fat_names_def [of "\<lparr>fatDevices = [], draws = 0\<rparr>"])
  from add_pods_keep [OF 1(2,4,5), of below positive "[0..<k]"] obtain st' where
    "fold_opt (add_pod k below positive cs) [0..<k] st = Some st'" "mutual (fatDevices st')" "fat_names st' = all_names k"
    by (auto simp: all_names_def 1(3))
  with 1(1) show ?thesis by (simp add: FatTreeFakeCluster_def fat_names_def)
qed

section \<open>Names are unique\<close>

datatype fat_key = CoreKey nat | SwitchKey nat nat nat | NodeKey nat nat nat

fun key_name :: "fat_key \<Rightarrow> string" where
  "key_name (CoreKey i) = core_name i"
| "key_name (SwitchKey pod rack i) = rack_name ''s'' pod rack i"
| "key_name (NodeKey pod rack i) = rack_name ''n'' pod rack i"

lemma dash_free: "CHR ''-'' \<notin> set (fmt_uint n)"
  using fmt_uint_chars by blast

lemma rack_name_inject:
  assumes "rack_name [c] pod rack i = rack_name [c] pod' rack' i'"
  shows "pod = pod' \<and> rack = rack' \<and> i = i'"
proof -
  from assms have 1: "fmt_uint pod @ CHR ''-'' # (fmt_uint rack @ ''-'' @ fmt_uint i)
      = fmt_uint pod' @ CHR ''-'' # (fmt_uint rack' @ ''-'' @ fmt_uint i')" by (simp add: rack_name_def)
  note s1 = sep_inject [OF dash_free dash_free 1]
  have 2: "fmt_uint rack @ CHR ''-'' # fmt_uint i = fmt_uint rack' @ CHR ''-'' # fmt_uint i'"
    using conjunct2 [OF s1] by simp
  from sep_inject [OF dash_free dash_free 2] s1 show ?thesis by simp
qed

lemma digit_not_c: "fmt_uint n \<noteq> CHR ''c'' # s"
proof
  assume "fmt_uint n = CHR ''c'' # s"
  then have "CHR ''c'' \<in> set (fmt_uint n)" by simp
  then obtain d where "digit_char d = CHR ''c''" "d \<in> set (dec_digits n)" by (auto simp: fmt_uint_def)
  with dec_digits_bound char_digit_digit_char have "char_digit (CHR ''c'') = Some d" by metis
  then show False by (simp add: char_digit_def)
qed

lemma core_not_rack: "core_name i \<noteq> rack_name ''s'' pod rack j"
proof
  assume "core_name i = rack_name ''s'' pod rack j"
  then have "CHR ''c'' # ''ore'' @ ''-'' @ fmt_uint i = fmt_uint pod @ ''-'' @ fmt_uint rack @ ''-'' @ fmt_uint j"
    by (simp add: core_name_def rack_name_def)
  then obtain s where "fmt_uint pod = CHR ''c'' # s" by (cases "fmt_uint pod") auto
  with digit_not_c show False by blast
qed

lemma key_name_inject: "key_name a = key_name b \<Longrightarrow> a = b"
proof (cases a; cases b)
  fix i j assume "key_name a = key_name b" "a = CoreKey i" "b = CoreKey j"
  then show "a = b" by (simp add: core_name_def)
next
  fix i pod rack j assume "key_name a = key_name b" "a = CoreKey i" "b = SwitchKey pod rack j"
  with core_not_rack show "a = b" by simp
next
  fix i pod rack j assume "key_name a = key_name b" "b = CoreKey i" "a = SwitchKey pod rack j"
  with core_not_rack [symmetric] show "a = b" by simp
next
  fix pod rack i pod' rack' i'
  assume "key_name a = key_name b" "a = SwitchKey pod rack i" "b = SwitchKey pod' rack' i'"
  with rack_name_inject show "a = b" by simp
next
  fix pod rack i pod' rack' i'
  assume "key_name a = key_name b" "a = NodeKey pod rack i" "b = NodeKey pod' rack' i'"
  with rack_name_inject show "a = b" by simp
qed (simp_all add: core_name_def rack_name_def)

lemma distinct_concat_map:
  assumes "distinct xs" and "\<And>x. distinct (f x)" and "\<And>x y z. z \<in> set (f x) \<Longrightarrow> z \<in> set (f y) \<Longrightarrow> x = y"
  shows "distinct (concat (map f xs))"
  using assms(1) by (induction xs) (use assms(2,3) in auto)

definition rack_keys :: "nat \<Rightarrow> nat \<Rightarrow> nat \<Rightarrow> fat_key list" where
  "rack_keys h pod rack = [SwitchKey pod rack 1, SwitchKey pod rack 0] @ map (NodeKey pod rack) [0..<h]"

definition pod_keys :: "nat \<Rightarrow> nat \<Rightarrow> fat_key list" where
  "pod_keys h pod = concat (map (rack_keys h pod) [0..<h])"

definition all_keys :: "nat \<Rightarrow> fat_key list" where
  "all_keys k = map CoreKey [0..<(k div 2) * (k div 2)] @ concat (map (pod_keys (k div 2)) [0..<k])"

lemma all_names_keys: "all_names k = map key_name (all_keys k)"
proof -
  have r: "rack_names h pod = (\<lambda>rack. map key_name (rack_keys h pod rack))" for h pod
    by (simp add: fun_eq_iff rack_names_def rack_keys_def)
  have p: "pod_names h = (\<lambda>pod. map key_name (pod_keys h pod))" for h
    by (simp add: fun_eq_iff pod_names_def pod_keys_def map_concat comp_def r)
  show ?thesis by (simp add: all_names_def all_keys_def map_concat comp_def p)
qed

lemma all_keys_distinct: "distinct (all_keys k)"
proof -
  have rk: "distinct (rack_keys h pod rack)" for h pod rack
    by (auto simp: rack_keys_def distinct_map inj_on_def)
  have pk: "distinct (pod_keys h pod)" for h pod
    unfolding pod_keys_def by (rule distinct_concat_map) (use rk in \<open>auto simp: rack_keys_def\<close>)
  have "distinct (concat (map (pod_keys (k div 2)) [0..<k]))"
    by (rule distinct_concat_map) (use pk in \<open>auto simp: pod_keys_def rack_keys_def\<close>)
  then show ?thesis by (auto simp: all_keys_def distinct_map inj_on_def pod_keys_def rack_keys_def)
qed

lemma all_names_distinct: "distinct (all_names k)"
  unfolding all_names_keys using all_keys_distinct [of k] key_name_inject
  by (auto simp: distinct_map inj_on_def)

lemma length_all_names: "length (all_names k) = (k div 2)\<^sup>2 + k * ((k div 2) * (k div 2 + 2))"
proof -
  have rk: "length (rack_keys h pod rack) = h + 2" for h pod rack by (simp add: rack_keys_def)
  have pk: "length (pod_keys h pod) = h * (h + 2)" for h pod
    by (simp add: pod_keys_def length_concat comp_def rk sum_list_triv)
  show ?thesis
    by (simp add: all_names_keys all_keys_def length_concat comp_def pk sum_list_triv power2_eq_square)
qed

lemma mutual_graph:
  assumes "mutual (Devices topo)" and "distinct (map GetName (Devices topo))"
  shows "graph_closed (TopologyToGraph topo) \<and> graph_symmetric (TopologyToGraph topo)"
proof -
  have partner: "\<exists>d' \<in> set (Devices topo). GetName d' = To l \<and> gm_get (TopologyToGraph topo) (To l) = Some d'
      \<and> u \<in> To ` set (GetLinks d')"
    if ud: "(u, d) \<in> set (TopologyToGraph topo)" and l: "l \<in> set (GetLinks d)" for u d l
  proof -
    have "gm_get (TopologyToGraph topo) u = Some d"
      using ud by (simp del: map_of_eq_Some_iff add: map_of_is_SomeI)
    from TopologyToGraph_SomeD [OF this] obtain x where x: "x < length (Devices topo)" "Devices topo ! x = d" "GetName d = u"
      by (auto simp: in_set_conv_nth)
    with assms(1) l obtain y where y: "y < length (Devices topo)" "GetName (Devices topo ! y) = To l"
      "u \<in> To ` set (GetLinks (Devices topo ! y))" unfolding mutual_def by metis
    with graph_of_distinct [OF assms(2), of "Devices topo ! y"] show ?thesis by (intro bexI [of _ "Devices topo ! y"]) auto
  qed
  have "graph_closed (TopologyToGraph topo)"
    unfolding graph_closed_def list_all_iff
  proof (clarify)
    fix u d l assume "(u, d) \<in> set (TopologyToGraph topo)" "l \<in> set (GetLinks d)"
    from partner [OF this] obtain d' where "gm_get (TopologyToGraph topo) (To l) = Some d'" by blast
    from gm_get_in [OF this] show "List.member (gm_keys (TopologyToGraph topo)) (To l)" by force
  qed
  moreover have "graph_symmetric (TopologyToGraph topo)"
    unfolding graph_symmetric_def list_all_iff
  proof (clarify)
    fix u d l assume "(u, d) \<in> set (TopologyToGraph topo)" "l \<in> set (GetLinks d)"
    from partner [OF this] obtain d' where "gm_get (TopologyToGraph topo) (To l) = Some d'" "u \<in> To ` set (GetLinks d')" by blast
    then show "List.member (neighbours (TopologyToGraph topo) (To l)) u" by (simp add: neighbours_get)
  qed
  ultimately show ?thesis by blast
qed

text \<open>For every size and every outcome of the random draws the fat tree is built without an index out of
  range: it has the expected number of devices, all with different names, no link leads nowhere, and
  every link has a link back.\<close>

theorem fat_tree_well_formed:
  "\<exists>topo. FatTreeFakeCluster k below positive = Some (topo, evaluation_programs)
     \<and> length (Devices topo) = (k div 2)\<^sup>2 + k * ((k div 2) * (k div 2 + 2))
     \<and> distinct (map GetName (Devices topo))
     \<and> graph_closed (TopologyToGraph topo) \<and> graph_symmetric (TopologyToGraph topo)"
proof -
  from fat_tree_built [of k below positive] obtain topo where t: "FatTreeFakeCluster k below positive = Some (topo, evaluation_programs)"
    "mutual (Devices topo)" "map GetName (Devices topo) = all_names k" by blast
  have "distinct (map GetName (Devices topo))" using t(3) all_names_distinct by simp
  moreover have "length (Devices topo) = (k div 2)\<^sup>2 + k * ((k div 2) * (k div 2 + 2))"
    using arg_cong [OF t(3), of length] by (simp add: length_all_names)
  ultimately show ?thesis using t(1) mutual_graph [OF t(2)] by blast
qed

end
