(* ===== verification/GoStrings.thy ===== *)
theory GoStrings
  imports GoPrelude
begin

text \<open>
  What the P4 connector uses of Go's standard library on strings: \<open>strconv.ParseUint\<close> with the base
  taken from the prefix, \<open>strings.Split\<close> by a longer separator, the two regular expressions, and
  \<open>net.ParseMAC\<close> and the IPv4 half of \<open>net.ParseIP\<close>. A string is a list of bytes.
\<close>

section \<open>Numbers\<close>

definition lower :: "char \<Rightarrow> nat" where
  "lower c = (let n = of_char c in if 65 \<le> n \<and> n \<le> 90 then n + 32 else n)"

definition digit_of :: "char \<Rightarrow> nat option" where
  "digit_of c =
     (let n = of_char c; m = lower c in
      if 48 \<le> n \<and> n \<le> 57 then Some (n - 48)
      else if 97 \<le> m \<and> m \<le> 122 then Some (m - 97 + 10) else None)"

text \<open>The loop over the digits: \<open>us\<close> says whether underscores are skipped, and the last component of
  the result whether there were any.\<close>

fun uint_digits :: "nat \<Rightarrow> nat \<Rightarrow> bool \<Rightarrow> nat \<Rightarrow> bool \<Rightarrow> string \<Rightarrow> (nat \<times> bool) option" where
  "uint_digits base maxVal us n seen [] = Some (n, seen)"
| "uint_digits base maxVal us n seen (c # cs) =
     (if c = CHR ''_'' \<and> us then uint_digits base maxVal us n True cs
      else case digit_of c of
        None \<Rightarrow> None
      | Some d \<Rightarrow>
          if base \<le> d then None
          else if maxVal < n * base + d then None
          else uint_digits base maxVal us (n * base + d) seen cs)"

text \<open>\<open>underscoreOK\<close>: an underscore stands between digits or after the base prefix. \<open>i\<close> is the kind of the
  last character seen.\<close>

fun underscores_ok :: "bool \<Rightarrow> char \<Rightarrow> string \<Rightarrow> bool" where
  "underscores_ok hex i [] = (i \<noteq> CHR ''_'')"
| "underscores_ok hex i (c # cs) =
     (let n = of_char c :: nat; m = lower c in
      if (48 \<le> n \<and> n \<le> 57) \<or> (hex \<and> 97 \<le> m \<and> m \<le> 102) then underscores_ok hex (CHR ''0'') cs
      else if c = CHR ''_'' then (if i \<noteq> CHR ''0'' then False else underscores_ok hex (CHR ''_'') cs)
      else if i = CHR ''_'' then False
      else underscores_ok hex (CHR ''!'') cs)"

definition strip_sign :: "string \<Rightarrow> string" where
  "strip_sign s = (case s of c # cs \<Rightarrow> if c = CHR ''-'' \<or> c = CHR ''+'' then cs else s | [] \<Rightarrow> s)"

definition underscoreOK :: "string \<Rightarrow> bool" where
  "underscoreOK s0 =
     (case strip_sign s0 of
        z # p # cs \<Rightarrow>
          if z = CHR ''0'' \<and> (lower p = 98 \<or> lower p = 111 \<or> lower p = 120)
          then underscores_ok (lower p = 120) (CHR ''0'') cs
          else underscores_ok False (CHR ''^'') (z # p # cs)
      | s \<Rightarrow> underscores_ok False (CHR ''^'') s)"

text \<open>The base of a literal and its digits.\<close>

definition literal_base :: "string \<Rightarrow> nat \<times> string" where
  "literal_base s =
     (case s of
        z # cs \<Rightarrow>
          if z = CHR ''0'' then
            (case cs of
               p # q # ds \<Rightarrow>
                 if lower p = 98 then (2, q # ds) else if lower p = 111 then (8, q # ds)
                 else if lower p = 120 then (16, q # ds) else (8, cs)
             | _ \<Rightarrow> (8, cs))
          else (10, s)
      | [] \<Rightarrow> (10, s))"

definition bit_size :: "int \<Rightarrow> nat option" where
  "bit_size bits = (if bits = 0 then Some 64 else if bits < 0 \<or> 64 < bits then None else Some (nat bits))"

text \<open>\<open>strconv.ParseUint(s, 0, bits)\<close>.\<close>

definition ParseUint0 :: "string \<Rightarrow> int \<Rightarrow> nat option" where
  "ParseUint0 s bits =
     (if s = [] then None
      else case bit_size bits of
        None \<Rightarrow> None
      | Some width \<Rightarrow>
          (case literal_base s of
             (base, ds) \<Rightarrow>
               (case uint_digits base (2 ^ width - 1) True 0 False ds of
                  None \<Rightarrow> None
                | Some (n, underscores) \<Rightarrow> if underscores \<and> \<not> underscoreOK s then None else Some n)))"

lemma uint_digits_bound:
  "uint_digits base maxVal us n seen cs = Some (m, seen') \<Longrightarrow> n \<le> maxVal \<Longrightarrow> m \<le> maxVal"
  by (induction base maxVal us n seen cs rule: uint_digits.induct)
    (auto split: if_splits option.splits)

lemma ParseUint0_bound:
  assumes "ParseUint0 s bits = Some n" and "0 < bits"
  shows "bits \<le> 64 \<and> n < 2 ^ nat bits"
proof -
  have "bits \<le> 64" using assms by (auto simp: ParseUint0_def bit_size_def split: if_splits option.splits)
  moreover have "n \<le> 2 ^ nat bits - 1"
    using assms uint_digits_bound
    by (fastforce simp: ParseUint0_def bit_size_def split: if_splits option.splits prod.splits)
  moreover have "(0 :: nat) < 2 ^ nat bits" by simp
  ultimately show ?thesis by linarith
qed

text \<open>A decimal literal is read as its value.\<close>

lemma digit_of_digit_char: "d < 10 \<Longrightarrow> digit_of (digit_char d) = Some d"
  by (drule less_10_cases) (auto simp: digit_char_def digit_of_def lower_def)

lemma digit_char_underscore: "d < 10 \<Longrightarrow> digit_char d \<noteq> CHR ''_''"
  using digit_char_not by blast

lemma uint_digits_append:
  "uint_digits base maxVal us n seen (xs @ ys) =
     (case uint_digits base maxVal us n seen xs of None \<Rightarrow> None | Some (m, s) \<Rightarrow> uint_digits base maxVal us m s ys)"
  by (induction base maxVal us n seen xs rule: uint_digits.induct) (auto split: option.splits)

lemma uint_digits_dec: "n \<le> maxVal \<Longrightarrow> uint_digits 10 maxVal us 0 False (map digit_char (dec_digits n)) = Some (n, False)"
proof (induction n rule: dec_digits.induct)
  case (1 n)
  show ?case
  proof (cases "n < 10")
    case True
    with 1(2) show ?thesis
      by (simp add: dec_digits.simps [of n] digit_of_digit_char digit_char_underscore)
  next
    case False
    then have "n div 10 \<le> maxVal" using 1(2) by (meson div_le_dividend order_trans)
    moreover have "n div 10 * 10 + n mod 10 = n" by (rule div_mult_mod_eq)
    ultimately show ?thesis
      using 1 False
      by (simp add: dec_digits.simps [of n] uint_digits_append digit_of_digit_char digit_char_underscore)
  qed
qed

lemma dec_digits_lead: "n \<noteq> 0 \<Longrightarrow> hd (dec_digits n) \<noteq> 0"
proof (induction n rule: dec_digits.induct)
  case (1 n)
  show ?case
  proof (cases "n < 10")
    case False
    with 1 show ?thesis by (simp add: dec_digits.simps [of n] hd_append) 
  qed (use 1 in \<open>simp add: dec_digits.simps [of n]\<close>)
qed

lemma digit_char_zero: "d < 10 \<Longrightarrow> digit_char d = CHR ''0'' \<longleftrightarrow> d = 0"
  by (drule less_10_cases) (auto simp: digit_char_def)

lemma ParseUint0_fmt:
  assumes "0 < bits" and "bits \<le> 64" and "n < 2 ^ nat bits"
  shows "ParseUint0 (fmt_uint n) bits = Some n"
proof (cases "n = 0")
  case True
  then have "fmt_uint n = ''0''" by (simp add: fmt_uint_def dec_digits.simps digit_char_def)
  then show ?thesis using assms True by (simp add: ParseUint0_def bit_size_def literal_base_def)
next
  case False
  obtain d ds where d: "dec_digits n = d # ds" by (cases "dec_digits n") auto
  with dec_digits_lead [OF False] dec_digits_bound [of d n] have "d \<noteq> 0" "d < 10" by auto
  then have "literal_base (fmt_uint n) = (10, fmt_uint n)"
    by (simp add: literal_base_def fmt_uint_def d digit_char_zero)
  moreover have "uint_digits 10 (2 ^ nat bits - 1) True 0 False (fmt_uint n) = Some (n, False)"
    unfolding fmt_uint_def by (rule uint_digits_dec) (use assms(3) in linarith)
  ultimately show ?thesis using assms by (simp add: ParseUint0_def bit_size_def)
qed

section \<open>Splitting and matching\<close>

text \<open>\<open>strings.Split\<close> by a separator that is not empty.\<close>

function split_str :: "string \<Rightarrow> string \<Rightarrow> string list" where
  "split_str sep [] = [[]]"
| "split_str sep (x # xs) =
     (if sep \<noteq> [] \<and> take (length sep) (x # xs) = sep then [] # split_str sep (drop (length sep) (x # xs))
      else case split_str sep xs of [] \<Rightarrow> [[x]] | p # ps \<Rightarrow> (x # p) # ps)"
  by pat_completeness auto

termination split_str
  by (relation "measure (\<lambda>(sep, s). length s)") auto

text \<open>The regular expressions by the strings left over after a match at the front; \<open>MatchString\<close> looks at
  every position.\<close>

definition dec13 :: "string \<Rightarrow> string list" where
  "dec13 s = map (\<lambda>n. drop n s) (filter (\<lambda>n. n \<le> length s \<and> list_all (\<lambda>c. char_digit c \<noteq> None) (take n s)) [1, 2, 3])"

definition rest_after :: "char \<Rightarrow> string \<Rightarrow> string list" where
  "rest_after c s = (case s of x # xs \<Rightarrow> if x = c then [xs] else [] | [] \<Rightarrow> [])"

definition ipv4_at :: "string \<Rightarrow> string list" where
  "ipv4_at s = List.bind (dec13 s) (\<lambda>a. List.bind (rest_after CHR ''.'' a) (\<lambda>a'.
     List.bind (dec13 a') (\<lambda>b. List.bind (rest_after CHR ''.'' b) (\<lambda>b'.
     List.bind (dec13 b') (\<lambda>c. List.bind (rest_after CHR ''.'' c) dec13)))))"

definition hex_digit :: "char \<Rightarrow> nat option" where
  "hex_digit c = (case digit_of c of Some d \<Rightarrow> if d < 16 then Some d else None | None \<Rightarrow> None)"

definition hex2 :: "string \<Rightarrow> string list" where
  "hex2 s = (case s of a # b # r \<Rightarrow> if hex_digit a \<noteq> None \<and> hex_digit b \<noteq> None then [r] else [] | _ \<Rightarrow> [])"

fun mac_at :: "nat \<Rightarrow> string \<Rightarrow> string list" where
  "mac_at 0 s = hex2 s"
| "mac_at (Suc n) s = List.bind (hex2 s) (\<lambda>r. List.bind (rest_after CHR '':'' r) (mac_at n))"

fun tails :: "string \<Rightarrow> string list" where
  "tails [] = [[]]"
| "tails (x # xs) = (x # xs) # tails xs"

definition IP_V4_REGEX_MatchString :: "string \<Rightarrow> bool" where
  "IP_V4_REGEX_MatchString s = list_ex (\<lambda>t. ipv4_at t \<noteq> []) (tails s)"

definition MAC_REGEX_MatchString :: "string \<Rightarrow> bool" where
  "MAC_REGEX_MatchString s = list_ex (\<lambda>t. mac_at 5 t \<noteq> []) (tails s)"

section \<open>Addresses\<close>

text \<open>\<open>net.ParseMAC\<close>: pairs of hex digits separated by a colon or a dash, or groups of four separated by
  a dot; 6, 8 or 20 bytes.\<close>

definition hex_pair :: "string \<Rightarrow> byte option" where
  "hex_pair s = (case s of
       a # b # r \<Rightarrow> (case (hex_digit a, hex_digit b) of
           (Some x, Some y) \<Rightarrow> Some (word_of_nat (x * 16 + y))
         | _ \<Rightarrow> None)
     | _ \<Rightarrow> None)"

definition xtoi2 :: "string \<Rightarrow> char \<Rightarrow> byte option" where
  "xtoi2 s e = (if 2 < length s \<and> s ! 2 \<noteq> e then None else hex_pair s)"

fun mac_pairs :: "char \<Rightarrow> nat \<Rightarrow> string \<Rightarrow> byte list option" where
  "mac_pairs e 0 s = Some []"
| "mac_pairs e (Suc n) s = do { b \<leftarrow> xtoi2 s e; bs \<leftarrow> mac_pairs e n (drop 3 s); Some (b # bs) }"

fun mac_quads :: "char \<Rightarrow> nat \<Rightarrow> string \<Rightarrow> byte list option" where
  "mac_quads e 0 s = Some []"
| "mac_quads e (Suc n) s = do {
     a \<leftarrow> hex_pair s;
     b \<leftarrow> xtoi2 (drop 2 s) e;
     bs \<leftarrow> mac_quads e n (drop 5 s);
     Some (a # b # bs)
   }"

definition ParseMAC :: "string \<Rightarrow> byte list option" where
  "ParseMAC s =
     (if length s < 14 then None
      else if s ! 2 = CHR '':'' \<or> s ! 2 = CHR ''-'' then
        (let n = (length s + 1) div 3 in
         if (length s + 1) mod 3 \<noteq> 0 \<or> (n \<noteq> 6 \<and> n \<noteq> 8 \<and> n \<noteq> 20) then None
         else mac_pairs (s ! 2) n s)
      else if s ! 4 = CHR ''.'' then
        (let n = 2 * (length s + 1) div 5 in
         if (length s + 1) mod 5 \<noteq> 0 \<or> (n \<noteq> 6 \<and> n \<noteq> 8 \<and> n \<noteq> 20) then None
         else mac_quads (s ! 4) (n div 2) s)
      else None)"

text \<open>\<open>net.ParseIP(s).To4()\<close>: the first dot, colon or percent sign of the string decides its family. The
  value on a string of the IPv6 family is an argument (empty when the address is not an IPv4 address);
  an IPv4 address has four decimal parts without leading zeros.\<close>

definition ipv4_octet :: "string \<Rightarrow> byte option" where
  "ipv4_octet p =
     (if p = [] \<or> (hd p = CHR ''0'' \<and> 1 < length p) then None
      else case digits_value 0 p of
        None \<Rightarrow> None
      | Some v \<Rightarrow> if v \<le> 255 then Some (word_of_nat v) else None)"

definition parseIPv4 :: "string \<Rightarrow> byte list option" where
  "parseIPv4 s = (let parts = split_char CHR ''.'' s in
     if length parts = 4 then those (map ipv4_octet parts) else None)"

definition ParseIP_To4 :: "(string \<Rightarrow> byte list option) \<Rightarrow> string \<Rightarrow> byte list option" where
  "ParseIP_To4 v6 s =
     (case find (\<lambda>c. c = CHR ''.'' \<or> c = CHR '':'' \<or> c = CHR ''%'') s of
        None \<Rightarrow> None
      | Some c \<Rightarrow> if c = CHR ''.'' then parseIPv4 s else if c = CHR '':'' then v6 s else None)"

end
