(* ===== verification/P4Conversion.thy ===== *)
theory P4Conversion
  imports GoStrings
begin

text \<open>
  Byte strings of P4Runtime (\<open>p4r/util/conversion/conversion.go\<close>): big-endian numbers, addresses, and the
  canonical form without leading zero bytes. An error is \<^term>\<open>None\<close>.
\<close>

definition IpToBinary :: "(string \<Rightarrow> byte list option) \<Rightarrow> string \<Rightarrow> byte list option" where
  "IpToBinary v6 ipStr = ParseIP_To4 v6 ipStr"

definition MacToBinary :: "string \<Rightarrow> byte list option" where
  "MacToBinary macStr = ParseMAC macStr"

definition num_bytes :: "nat \<Rightarrow> nat" where
  "num_bytes bitwidth = (if bitwidth mod 8 \<noteq> 0 then bitwidth div 8 + 1 else bitwidth div 8)"

definition NumberToBinaryUint :: "nat \<Rightarrow> nat \<Rightarrow> byte list" where
  "NumberToBinaryUint num bitwidth =
     map (\<lambda>i. word_of_nat (num div 2 ^ (8 * (num_bytes bitwidth - 1 - i)))) [0..<num_bytes bitwidth]"

definition StringToBinaryUint :: "string \<Rightarrow> int \<Rightarrow> byte list option" where
  "StringToBinaryUint str bitwidth =
     (case ParseUint0 str bitwidth of None \<Rightarrow> None | Some u \<Rightarrow> Some (NumberToBinaryUint u (nat bitwidth)))"

definition PutUint32 :: "32 word \<Rightarrow> byte list" where
  "PutUint32 i = map (\<lambda>k. word_of_nat (unat i div 2 ^ (8 * (3 - k)))) [0..<4]"

text \<open>A slice from beyond the end panics.\<close>

definition UInt32ToBinary :: "32 word \<Rightarrow> nat \<Rightarrow> byte list option" where
  "UInt32ToBinary i numBytes = (if numBytes \<le> 4 then Some (drop numBytes (PutUint32 i)) else None)"

fun drop_zeros :: "byte list \<Rightarrow> byte list" where
  "drop_zeros [] = []"
| "drop_zeros (b # bs) = (if b \<noteq> 0 then b # bs else drop_zeros bs)"

definition UInt32ToBinaryCompressed :: "32 word \<Rightarrow> byte list" where
  "UInt32ToBinaryCompressed i = (case drop_zeros (PutUint32 i) of [] \<Rightarrow> [0] | bs \<Rightarrow> bs)"

text \<open>\<open>ToCanonicalBytestring\<close> counts the leading zeros.\<close>

fun leading_zeros :: "byte list \<Rightarrow> nat" where
  "leading_zeros [] = 0"
| "leading_zeros (b # bs) = (if b \<noteq> 0 then 0 else Suc (leading_zeros bs))"

definition ToCanonicalBytestring :: "byte list \<Rightarrow> byte list" where
  "ToCanonicalBytestring bytes =
     (if length bytes = 0 then bytes
      else (let i = leading_zeros bytes in if i = length bytes then take 1 bytes else drop i bytes))"

section \<open>Values\<close>

definition be_value :: "byte list \<Rightarrow> nat" where
  "be_value bs = foldl (\<lambda>a b. a * 256 + unat b) 0 bs"

lemma be_value_snoc [simp]: "be_value (bs @ [b]) = be_value bs * 256 + unat b"
  by (simp add: be_value_def)

lemma be_value_Nil [simp]: "be_value [] = 0"
  by (simp add: be_value_def)

lemma be_value_zero: "be_value (0 # bs) = be_value bs"
  by (induction bs rule: rev_induct) (simp_all add: be_value_def)

lemma be_value_bound: "be_value bs < 256 ^ length bs"
proof (induction bs rule: rev_induct)
  case (snoc b bs)
  have "unat b < 256" using unsigned_less [of b] by simp
  with snoc show ?case by simp
qed simp

text \<open>Big-endian digits of a number, for any number of bytes.\<close>

definition be_bytes :: "nat \<Rightarrow> nat \<Rightarrow> byte list" where
  "be_bytes n v = map (\<lambda>i. word_of_nat (v div 2 ^ (8 * (n - 1 - i)))) [0..<n]"

lemma be_bytes_Suc: "be_bytes (Suc n) v = be_bytes n (v div 256) @ [word_of_nat v]"
proof -
  have "v div 2 ^ (8 * (Suc n - 1 - i)) = v div 256 div 2 ^ (8 * (n - 1 - i))" if "i < n" for i
  proof -
    have "8 * (Suc n - 1 - i) = 8 + 8 * (n - 1 - i)" using that by simp
    then show ?thesis by (simp add: power_add div_mult2_eq)
  qed
  then show ?thesis by (simp add: be_bytes_def)
qed

lemma be_value_bytes: "be_value (be_bytes n v) = v mod 256 ^ n"
proof (induction n arbitrary: v)
  case (Suc n)
  have "unat (word_of_nat v :: byte) = v mod 256"
    by (simp add: unat_of_nat)
  moreover have "v mod (256 * 256 ^ n) = 256 * (v div 256 mod 256 ^ n) + v mod 256"
    by (rule mod_mult2_eq)
  ultimately show ?case by (simp add: be_bytes_Suc Suc)
qed (simp add: be_bytes_def)

lemma length_be_bytes [simp]: "length (be_bytes n v) = n"
  by (simp add: be_bytes_def)

lemma NumberToBinaryUint_bytes: "NumberToBinaryUint v bw = be_bytes (num_bytes bw) v"
  by (simp add: NumberToBinaryUint_def be_bytes_def)

lemma num_bytes_bound: "bw \<le> 8 * num_bytes bw" "num_bytes bw * 8 < bw + 8"
  unfolding num_bytes_def by presburger+

text \<open>C32: a number that fits in a field of the given width is encoded, big-endian, in as many bytes as the
  width needs, and decoding the bytes gives the number back; \<open>StringToBinaryUint\<close> only returns such
  encodings.\<close>

theorem NumberToBinaryUint_roundtrip:
  assumes "v < 2 ^ bw"
  shows "be_value (NumberToBinaryUint v bw) = v \<and> bw \<le> 8 * length (NumberToBinaryUint v bw)
     \<and> 8 * length (NumberToBinaryUint v bw) < bw + 8"
proof -
  have "v < 256 ^ num_bytes bw"
  proof -
    have "(2 :: nat) ^ bw \<le> 2 ^ (8 * num_bytes bw)" using num_bytes_bound(1) by (intro power_increasing) auto
    also have "\<dots> = 256 ^ num_bytes bw" by (simp add: power_mult)
    finally show ?thesis using assms by linarith
  qed
  then show ?thesis
    using num_bytes_bound [of bw] by (simp add: NumberToBinaryUint_bytes be_value_bytes)
qed

theorem NumberToBinaryUint_roundtrip_witness: "be_value (NumberToBinaryUint 443 9) = 443"
  using NumberToBinaryUint_roundtrip [of 443 9] by simp

lemma leading_zeros_drop: "drop (leading_zeros bs) bs = drop_zeros bs"
  by (induction bs) auto

lemma leading_zeros_le: "leading_zeros bs \<le> length bs"
  by (induction bs) auto

lemma leading_zeros_all: "leading_zeros bs = length bs \<longleftrightarrow> drop_zeros bs = []"
  by (induction bs) (auto simp: leading_zeros_le)

lemma drop_zeros_value: "be_value (drop_zeros bs) = be_value bs"
  by (induction bs) (auto simp: be_value_zero)

lemma drop_zeros_hd: "drop_zeros bs = b # cs \<Longrightarrow> b \<noteq> 0"
  by (induction bs) (auto split: if_splits)

lemma drop_zeros_none: "drop_zeros bs = [] \<Longrightarrow> bs \<noteq> [] \<Longrightarrow> hd bs = 0"
  by (cases bs) (auto split: if_splits)

lemma canonical_cases:
  "ToCanonicalBytestring bs = (if bs = [] then [] else case drop_zeros bs of [] \<Rightarrow> [0] | cs \<Rightarrow> cs)"
  using leading_zeros_drop [of bs] leading_zeros_all [of bs] drop_zeros_none [of bs]
  by (cases bs; cases "drop_zeros bs") (auto simp: ToCanonicalBytestring_def Let_def simp del: drop_zeros.simps leading_zeros.simps)

lemma be_value_append: "be_value (bs @ cs) = be_value bs * 256 ^ length cs + be_value cs"
  by (induction cs rule: rev_induct) (simp_all add: algebra_simps flip: append_assoc)

lemma be_value_lower: "bs \<noteq> [] \<Longrightarrow> hd bs \<noteq> 0 \<Longrightarrow> 256 ^ (length bs - 1) \<le> be_value bs"
proof (cases bs)
  case (Cons b cs)
  assume "hd bs \<noteq> 0"
  with Cons have "1 \<le> unat b" by (simp add: unat_gt_0 Suc_leI)
  then have "256 ^ length cs \<le> unat b * 256 ^ length cs" by simp
  then have "256 ^ length cs \<le> be_value ([b] @ cs)" unfolding be_value_append by (simp add: be_value_def trans_le_add1)
  then show ?thesis using Cons by simp
qed simp

lemma canonical_value: "be_value (ToCanonicalBytestring bs) = be_value bs"
  using drop_zeros_value [of bs] by (cases "drop_zeros bs") (auto simp: canonical_cases be_value_zero)

lemma canonical_hd: "1 < length (ToCanonicalBytestring bs) \<Longrightarrow> hd (ToCanonicalBytestring bs) \<noteq> 0"
  using drop_zeros_hd [of bs] by (cases "drop_zeros bs") (auto simp: canonical_cases split: if_splits)

lemma canonical_nonempty: "ToCanonicalBytestring bs = [] \<longleftrightarrow> bs = []"
  by (cases "drop_zeros bs") (auto simp: canonical_cases)

lemma canonical_idem: "ToCanonicalBytestring (ToCanonicalBytestring bs) = ToCanonicalBytestring bs"
proof (cases "drop_zeros bs")
  case (Cons c cs)
  with drop_zeros_hd [OF Cons] show ?thesis by (cases bs) (auto simp: canonical_cases)
qed (auto simp: canonical_cases)

lemma canonical_shortest:
  assumes "cs \<noteq> []" and "be_value cs = be_value bs"
  shows "length (ToCanonicalBytestring bs) \<le> length cs"
proof (cases "1 < length (ToCanonicalBytestring bs)")
  case True
  then have "256 ^ (length (ToCanonicalBytestring bs) - 1) \<le> be_value (ToCanonicalBytestring bs)"
    by (intro be_value_lower canonical_hd) auto
  also have "\<dots> < 256 ^ length cs" using be_value_bound [of cs] assms(2) by (simp add: canonical_value)
  finally have "length (ToCanonicalBytestring bs) - 1 < length cs" by (simp add: power_less_imp_less_exp)
  then show ?thesis by simp
next
  case False
  then show ?thesis using assms(1) by (cases cs) auto
qed

text \<open>The canonical form of a byte string has the same value and no leading zero byte, except that the
  value 0 is one zero byte; it is the shortest non-empty byte string with that value, and \<open>UInt32ToBinaryCompressed\<close>
  computes it.\<close>

theorem canonical_spec:
  assumes "bs \<noteq> []"
  shows "ToCanonicalBytestring bs \<noteq> [] \<and> be_value (ToCanonicalBytestring bs) = be_value bs
   \<and> (\<forall>cs. cs \<noteq> [] \<longrightarrow> be_value cs = be_value bs \<longrightarrow> length (ToCanonicalBytestring bs) \<le> length cs)
   \<and> ToCanonicalBytestring (ToCanonicalBytestring bs) = ToCanonicalBytestring bs
   \<and> UInt32ToBinaryCompressed i = ToCanonicalBytestring (PutUint32 i)"
proof -
  have "PutUint32 i \<noteq> []" by (simp add: PutUint32_def)
  then have "UInt32ToBinaryCompressed i = ToCanonicalBytestring (PutUint32 i)"
    by (simp add: UInt32ToBinaryCompressed_def canonical_cases)
  with canonical_value canonical_nonempty canonical_shortest canonical_idem assms show ?thesis by blast
qed

theorem canonical_spec_witness:
  "ToCanonicalBytestring [0, 0, 1, 0] = [1, 0] \<and> be_value [1, 0] = be_value [0, 0, 1, 0]
     \<and> UInt32ToBinaryCompressed 256 = ToCanonicalBytestring (PutUint32 256)"
proof -
  have "ToCanonicalBytestring [0, 0, 1, 0] = [1, 0]" by (simp add: ToCanonicalBytestring_def)
  with canonical_spec [of "[0, 0, 1, 0]" 256] show ?thesis by simp
qed

end
