(* ===== verification/P4Client.thy ===== *)
theory P4Client
  imports P4Conversion "HOL-Library.Signed_Division"
begin

text \<open>
  The P4Runtime client (\<open>libs/p4r/client\<close>): identifiers from the P4Info, match fields, table entries and the
  requests built from them. The messages are those of P4Runtime and P4Info, with the fields the
  client uses. The server on the other side of the connection is an argument: a record of its remote
  procedures on a world \<open>'w\<close>. A read answers with a stream, a list of messages or errors that ends with \<open>io.EOF\<close>.
\<close>

unbundle bit_operations_syntax

type_synonym uint32 = "32 word"
type_synonym uint64 = "64 word"

section \<open>P4Info\<close>

record preamble =
  Id :: uint32
  preName :: string
  Alias :: string

datatype match_type = MatchEXACT | MatchLPM | MatchTERNARY | MatchUnsupported

text \<open>The \<open>oneof\<close> of a match field: a match type or another type's name.\<close>

datatype match_kind = MatchTypeIs match_type | OtherMatchType string

record match_field =
  mfId :: uint32
  mfName :: string
  mfBitwidth :: int32
  mfMatch :: match_kind

record p4_table =
  tablePreamble :: preamble
  MatchFields :: "match_field list"

record p4_param =
  paramId :: uint32
  paramName :: string
  paramBitwidth :: int32

record p4_action =
  actionPreamble :: preamble
  Params :: "p4_param list"

record p4info =
  Tables :: "p4_table list"
  Actions :: "p4_action list"
  ActionProfiles :: "preamble list"
  Counters :: "preamble list"
  Meters :: "preamble list"
  Digests :: "preamble list"

abbreviation invalidID :: uint32 where "invalidID \<equiv> 0"

definition named :: "string \<Rightarrow> preamble \<Rightarrow> bool" where
  "named name p \<longleftrightarrow> preName p = name \<or> Alias p = name"

record client =
  CanonicalBytestrings :: bool
  deviceID :: uint64
  electionID :: "uint64 \<times> uint64"
  clientP4Info :: "p4info option"
  role :: "string option"

text \<open>\<open>NewClient\<close> with the default options and no role.\<close>

definition NewClient :: "uint64 \<Rightarrow> uint64 \<times> uint64 \<Rightarrow> client" where
  "NewClient device election =
     \<lparr>CanonicalBytestrings = True, deviceID = device, electionID = election, clientP4Info = None, role = None\<rparr>"

definition DisableCanonicalBytestrings :: "client \<Rightarrow> client" where
  "DisableCanonicalBytestrings c = c\<lparr>CanonicalBytestrings := False\<rparr>"

text \<open>The lookups: the first entry with the name (or alias) in the local P4Info.\<close>

definition lookup_id :: "(p4info \<Rightarrow> 'a list) \<Rightarrow> ('a \<Rightarrow> bool) \<Rightarrow> ('a \<Rightarrow> uint32) \<Rightarrow> client \<Rightarrow> uint32" where
  "lookup_id sel test the_id c =
     (case clientP4Info c of
        None \<Rightarrow> invalidID
      | Some info \<Rightarrow> (case find test (sel info) of Some x \<Rightarrow> the_id x | None \<Rightarrow> invalidID))"

definition tableId :: "client \<Rightarrow> string \<Rightarrow> uint32" where
  "tableId c name = lookup_id Tables (\<lambda>t. named name (tablePreamble t)) (\<lambda>t. Id (tablePreamble t)) c"

definition findTable :: "client \<Rightarrow> string \<Rightarrow> p4_table option" where
  "findTable c name =
     (case clientP4Info c of
        None \<Rightarrow> None
      | Some info \<Rightarrow> find (\<lambda>t. named name (tablePreamble t)) (Tables info))"

definition matchFieldId :: "client \<Rightarrow> string \<Rightarrow> string \<Rightarrow> uint32" where
  "matchFieldId c tableName fieldName =
     (case clientP4Info c of
        None \<Rightarrow> invalidID
      | Some info \<Rightarrow>
          (case findTable c tableName of
             None \<Rightarrow> invalidID
           | Some table \<Rightarrow>
               (case find (\<lambda>mf. mfName mf = fieldName) (MatchFields table) of
                  Some mf \<Rightarrow> mfId mf
                | None \<Rightarrow> invalidID)))"

definition actionId :: "client \<Rightarrow> string \<Rightarrow> uint32" where
  "actionId c name = lookup_id Actions (\<lambda>a. named name (actionPreamble a)) (\<lambda>a. Id (actionPreamble a)) c"

definition actionProfileId :: "client \<Rightarrow> string \<Rightarrow> uint32" where
  "actionProfileId c name = lookup_id ActionProfiles (named name) Id c"

definition digestId :: "client \<Rightarrow> string \<Rightarrow> uint32" where
  "digestId c name = lookup_id Digests (\<lambda>p. preName p = name) Id c"

definition findCounter :: "client \<Rightarrow> string \<Rightarrow> preamble option" where
  "findCounter c name =
     (case clientP4Info c of None \<Rightarrow> None | Some info \<Rightarrow> find (\<lambda>p. preName p = name) (Counters info))"

definition counterId :: "client \<Rightarrow> string \<Rightarrow> uint32" where
  "counterId c name = (case findCounter c name of None \<Rightarrow> invalidID | Some p \<Rightarrow> Id p)"

definition findMeter :: "client \<Rightarrow> string \<Rightarrow> preamble option" where
  "findMeter c name =
     (case clientP4Info c of None \<Rightarrow> None | Some info \<Rightarrow> find (\<lambda>p. preName p = name) (Meters info))"

definition meterId :: "client \<Rightarrow> string \<Rightarrow> uint32" where
  "meterId c name = (case findMeter c name of None \<Rightarrow> invalidID | Some p \<Rightarrow> Id p)"

section \<open>Match fields\<close>

definition ToCanonicalIf :: "byte list \<Rightarrow> bool \<Rightarrow> byte list" where
  "ToCanonicalIf v cond = (if cond then ToCanonicalBytestring v else v)"

datatype match_value =
    ExactMatch "byte list"
  | LpmMatch "byte list" int32
  | TernaryMatch "byte list" "byte list"
  | RangeMatch "byte list" "byte list"
  | OptionalMatch "byte list"

datatype field_match_type =
    FieldExact "byte list"
  | FieldLPM "byte list" int32
  | FieldTernary "byte list" "byte list"
  | FieldRange "byte list" "byte list"
  | FieldOptional "byte list"

record field_match =
  FieldId :: uint32
  FieldMatchType :: field_match_type

text \<open>Clearing the bits after the prefix. Go's division and remainder truncate towards zero, an index out
  of range panics, and \<open>0xff << (8 - r)\<close> is computed on bytes. The value is overwritten in place, which a second
  call repeats without effect.\<close>

definition lpm_masked :: "byte list \<Rightarrow> int \<Rightarrow> byte list option" where
  "lpm_masked v pLen =
     (let firstByteMasked = pLen sdiv 8 in
      if firstByteMasked = int (length v) then Some v
      else if 0 \<le> firstByteMasked \<and> firstByteMasked < int (length v) then
        (let i = nat firstByteMasked; r = pLen smod 8;
             v1 = v[i := v ! i AND push_bit (nat (8 - r)) 0xFF]
         in Some (take (Suc i) v1 @ map (\<lambda>_. 0) (drop (Suc i) v1)))
      else None)"

text \<open>Clearing the bits under the mask, the two aligned at their ends.\<close>

definition ternary_masked :: "byte list \<Rightarrow> byte list \<Rightarrow> byte list" where
  "ternary_masked v msk =
     (let v1 = (if length msk < length v then drop (length v - length msk) v else v)
      in map2 (AND) v1 (drop (length msk - length v1) msk))"

fun match_get :: "match_value \<Rightarrow> uint32 \<Rightarrow> bool \<Rightarrow> field_match option" where
  "match_get (ExactMatch v) ident canonical =
     Some \<lparr>FieldId = ident, FieldMatchType = FieldExact (ToCanonicalIf v canonical)\<rparr>"
| "match_get (LpmMatch v pLen) ident canonical =
     (case lpm_masked v (sint pLen) of
        None \<Rightarrow> None
      | Some v1 \<Rightarrow> Some \<lparr>FieldId = ident, FieldMatchType = FieldLPM (ToCanonicalIf v1 canonical) pLen\<rparr>)"
| "match_get (TernaryMatch v msk) ident canonical =
     Some \<lparr>FieldId = ident, FieldMatchType =
       FieldTernary (ToCanonicalIf (ternary_masked v msk) canonical) (ToCanonicalIf msk canonical)\<rparr>"
| "match_get (RangeMatch low high) ident canonical =
     Some \<lparr>FieldId = ident, FieldMatchType = FieldRange (ToCanonicalIf low canonical) (ToCanonicalIf high canonical)\<rparr>"
| "match_get (OptionalMatch v) ident canonical =
     Some \<lparr>FieldId = ident, FieldMatchType = FieldOptional (ToCanonicalIf v canonical)\<rparr>"

section \<open>Actions and entries\<close>

record direct_action =
  ActionId :: uint32
  ActionParameters :: "(uint32 \<times> byte list) list"

definition newAction :: "client \<Rightarrow> string \<Rightarrow> byte list list \<Rightarrow> direct_action" where
  "newAction c action params =
     \<lparr>ActionId = actionId c action,
      ActionParameters = map (\<lambda>(idx, p). (word_of_nat (idx + 1), p)) (List.enumerate 0 params)\<rparr>"

record profile_action =
  profAction :: direct_action
  Weight :: int32
  WatchPort :: "byte list"

datatype table_action =
    DirectAction direct_action
  | ActionProfileMemberId uint32
  | ActionProfileGroupId uint32
  | ActionProfileActions "profile_action list"

definition NewTableActionDirect :: "client \<Rightarrow> string \<Rightarrow> byte list list \<Rightarrow> table_action" where
  "NewTableActionDirect c action params = DirectAction (newAction c action params)"

text \<open>Ports: the bytes on the wire and the number, all ones when unknown.\<close>

record port =
  portBytes :: "byte list"
  portNumber :: uint32

definition NewPortFromInt :: "uint32 \<Rightarrow> port" where
  "NewPortFromInt i = \<lparr>portBytes = UInt32ToBinaryCompressed i, portNumber = i\<rparr>"

definition NewPort :: "byte list \<Rightarrow> port" where
  "NewPort bytes = \<lparr>portBytes = bytes, portNumber = 0xFFFFFFFF\<rparr>"

definition AsBytes :: "port \<Rightarrow> byte list" where
  "AsBytes p = portBytes p"

definition NewActionProfileActionSet :: "table_action" where
  "NewActionProfileActionSet = ActionProfileActions []"

definition AddProfileAction :: "client \<Rightarrow> string \<Rightarrow> byte list list \<Rightarrow> int32 \<Rightarrow> port \<Rightarrow> table_action \<Rightarrow> table_action option" where
  "AddProfileAction c action params weight p s =
     (case s of
        ActionProfileActions as \<Rightarrow>
          Some (ActionProfileActions (as @ [\<lparr>profAction = newAction c action params, Weight = weight, WatchPort = AsBytes p\<rparr>]))
      | _ \<Rightarrow> None)"

record table_entry =
  TableId :: uint32
  IsDefaultAction :: bool
  entryMatch :: "field_match list"
  entryAction :: "table_action option"
  IdleTimeoutNs :: int
  Priority :: int32

record entry_options =
  optIdleTimeout :: int
  optPriority :: int32

text \<open>The order of the map of matches is an argument; a nil map is \<^term>\<open>None\<close>.\<close>

definition NewTableEntry ::
  "(string list \<Rightarrow> string list) \<Rightarrow> client \<Rightarrow> string \<Rightarrow> (string, match_value) gomap option \<Rightarrow> table_action option \<Rightarrow>
     entry_options option \<Rightarrow> table_entry option" where
  "NewTableEntry ord c table mfs action options = do {
     matches \<leftarrow> (case mfs of
        None \<Rightarrow> Some []
      | Some m \<Rightarrow> those (map (\<lambda>(name, mf). match_get mf (matchFieldId c table name) (CanonicalBytestrings c)) (gm_range ord m)));
     Some \<lparr>TableId = tableId c table, IsDefaultAction = (mfs = None), entryMatch = matches, entryAction = action,
           IdleTimeoutNs = (case options of Some opts \<Rightarrow> optIdleTimeout opts | None \<Rightarrow> 0),
           Priority = (case options of Some opts \<Rightarrow> optPriority opts | None \<Rightarrow> 0)\<rparr>
   }"

section \<open>The masks of prefixes\<close>

lemma be_value_Cons: "be_value (x # ys) = unat x * 256 ^ length ys + be_value ys"
  using be_value_append [of "[x]" ys] by (simp add: be_value_def)

lemma be_value_zeros: "be_value (map (\<lambda>_. 0) xs) = 0"
  by (induction xs) (simp_all add: be_value_zero)

lemma byte_prefix: "(b :: byte) AND push_bit k 0xFF = push_bit k (drop_bit k b)"
proof -
  have "(0xFF :: byte) = - 1" by simp
  then show ?thesis by (simp only:) (rule bit_eqI, auto simp: bit_simps)
qed

lemma unat_byte_prefix: "unat ((b :: byte) AND push_bit k 0xFF) = unat b div 2 ^ k * 2 ^ k"
proof -
  have "unat b div 2 ^ k * 2 ^ k \<le> unat b" by (rule div_times_less_eq_dividend)
  moreover have b: "unat b < 256" using unsigned_less [of b] by simp
  ultimately have "unat b div 2 ^ k * 2 ^ k < 256" by linarith
  moreover have "unat (push_bit k (drop_bit k b)) = take_bit 8 (push_bit k (drop_bit k (unat b)))"
    using b by (simp add: unsigned_push_bit_eq unsigned_drop_bit_eq take_bit_eq_mod)
  ultimately show ?thesis
    unfolding byte_prefix by (simp add: push_bit_eq_mult drop_bit_eq_div take_bit_eq_mod)
qed

lemma prefix_value:
  assumes "r < 8" and "C < 256 ^ m"
  shows "(A * 256 ^ Suc m + B * 256 ^ m + C) div 2 ^ (8 * m + (8 - r)) * 2 ^ (8 * m + (8 - r))
    = (A * 256 ^ Suc m + (B div 2 ^ (8 - r) * 2 ^ (8 - r)) * 256 ^ m :: nat)"
proof -
  define K :: nat where "K = 256 ^ m"
  define D :: nat where "D = 2 ^ (8 - r)"
  have KD: "(2 :: nat) ^ (8 * m + (8 - r)) = K * D" by (simp add: power_add power_mult K_def D_def)
  have "(2 :: nat) ^ 8 = 2 ^ (8 - r) * 2 ^ r" using assms(1) by (subst power_add [symmetric]) simp
  then have E: "256 = D * 2 ^ r" by (simp add: D_def)
  have "(A * 256 ^ Suc m + B * 256 ^ m + C) = (A * 256 + B) * K + C" by (simp add: K_def algebra_simps)
  then have "(A * 256 ^ Suc m + B * 256 ^ m + C) div (K * D) = (((A * 256 + B) * K + C) div K) div D"
    by (simp add: div_mult2_eq)
  also have "((A * 256 + B) * K + C) div K = A * 256 + B" using assms(2) by (simp add: K_def)
  also have "(A * 256 + B) div D = A * 2 ^ r + B div D"
  proof -
    have "D * (A * 2 ^ r) = A * 256" by (metis E mult.left_commute)
    then have "A * 256 + B = B + D * (A * 2 ^ r)" by simp
    moreover have "D \<noteq> 0" by (simp add: D_def)
    ultimately show ?thesis by (metis add.commute div_mult_self2)
  qed
  finally have "(A * 256 ^ Suc m + B * 256 ^ m + C) div (K * D) * (K * D) = (A * 2 ^ r + B div D) * (K * D)" by simp
  also have "\<dots> = A * (D * 2 ^ r) * K + (B div D * D) * K" by (simp add: algebra_simps)
  also have "\<dots> = A * 256 ^ Suc m + (B div D * D) * 256 ^ m" by (simp add: E [symmetric] K_def)
  finally show ?thesis by (simp only: KD D_def [symmetric])
qed

lemma lpm_masked_cases:
  "case lpm_masked v (int p) of
     None \<Rightarrow> 8 * Suc (length v) \<le> p
   | Some v1 \<Rightarrow> p < 8 * Suc (length v) \<and> length v1 = length v
       \<and> be_value v1 = be_value v div 2 ^ (8 * length v - p) * 2 ^ (8 * length v - p)"
proof -
  have q: "int p sdiv 8 = int (p div 8)" "int p smod 8 = int (p mod 8)"
    by (simp_all add: signed_divide_int_def signed_modulo_int_def sgn_if zdiv_int zmod_int)
  consider "p div 8 = length v" | "p div 8 < length v" | "length v < p div 8" by linarith
  then show ?thesis
  proof cases
    case 1
    have "p = 8 * (p div 8) + p mod 8" "p mod 8 < 8" by simp_all
    with 1 have "p < 8 * Suc (length v)" "8 * length v - p = 0" by simp_all
    with 1 show ?thesis by (simp add: lpm_masked_def q)
  next
    case 2
    define i r where "i = p div 8" and "r = p mod 8"
    have i: "i < length v" and r: "r < 8" and p: "p = 8 * i + r" using 2 by (simp_all add: i_def r_def)
    define pre b post where "pre = take i v" and "b = v ! i" and "post = drop (Suc i) v"
    have v: "v = pre @ b # post" "length pre = i" using i by (simp_all add: pre_def b_def post_def id_take_nth_drop)
    let ?v1 = "pre @ (b AND push_bit (8 - r) 0xFF) # map (\<lambda>_. 0) post"
    have n: "nat (8 - int r) = 8 - r" using r by linarith
    have res: "lpm_masked v (int p) = Some ?v1"
      using i unfolding lpm_masked_def q i_def [symmetric] r_def [symmetric] Let_def n nat_int
      by (simp add: v(1) v(2) [symmetric] list_update_append nth_append)
    have e: "8 * length v - p = 8 * length post + (8 - r)" using v r p by simp
    have "be_value ?v1 = be_value pre * 256 ^ Suc (length post) + unat b div 2 ^ (8 - r) * 2 ^ (8 - r) * 256 ^ length post"
      by (simp only: be_value_append be_value_Cons be_value_zeros unat_byte_prefix) simp
    moreover have "be_value v = be_value pre * 256 ^ Suc (length post) + unat b * 256 ^ length post + be_value post"
      by (simp add: v be_value_append be_value_Cons)
    moreover have "be_value post < 256 ^ length post" by (rule be_value_bound)
    ultimately have "be_value ?v1 = be_value v div 2 ^ (8 * length v - p) * 2 ^ (8 * length v - p)"
      unfolding e using prefix_value [OF r, of "be_value post" "length post" "be_value pre" "unat b"] by simp
    moreover have "p < 8 * Suc (length v)" using i p r by simp
    ultimately show ?thesis using res v by simp
  next
    case 3
    have "8 * (p div 8) \<le> p" by simp
    moreover have "8 * Suc (length v) \<le> 8 * (p div 8)" using 3 by (intro mult_le_mono2) simp
    ultimately have "8 * Suc (length v) \<le> p" by (rule order_trans [rotated])
    with 3 show ?thesis by (simp add: lpm_masked_def q)
  qed
qed

text \<open>Building the match of a prefix clears exactly the bits after the prefix, reading the bytes as a big-endian
  number, for every prefix that fits in the bytes; a prefix of up to seven bits more is accepted and clears
  nothing; and the index out of range, a panic, happens exactly from eight bits more on.\<close>

theorem lpm_masked_spec:
  "case lpm_masked v (int p) of
     None \<Rightarrow> 8 * Suc (length v) \<le> p
   | Some v1 \<Rightarrow> p < 8 * Suc (length v) \<and> length v1 = length v
       \<and> be_value v1 = be_value v div 2 ^ (8 * length v - p) * 2 ^ (8 * length v - p)"
  by (rule lpm_masked_cases)

end
