(* ===== verification/P4Runtime.thy ===== *)
theory P4Runtime
  imports P4Client
begin

text \<open>
  The requests of the P4Runtime client (\<open>libs/p4r/client\<close>): writes, reads and the forwarding pipeline.
  The device is an argument: a record of its remote procedures on a world \<open>'w\<close>. A read answers with a
  stream, a list of messages and errors that ends with \<open>io.EOF\<close>. The context of a call only cancels it and
  is left out. Panics are \<^term>\<open>None\<close>.
\<close>

section \<open>Errors\<close>

text \<open>The errors the client and the connector meet: a gRPC status with its details, an error of
  \<open>fmt.Errorf\<close> with the error it renders, the two error types of the connector, and errors of the
  operating system or the protobuf library.\<close>

record p4_error =
  CanonicalCode :: int32
  errorMessage :: string

datatype detail = P4Error p4_error | OtherDetail string

datatype go_error =
    StatusError "detail list"
  | Errorf string "go_error option"
  | MetadataNotFoundError string string
  | InvalidArgumentError string
  | ExternalError string

section \<open>Messages\<close>

record profile_member =
  memberProfileId :: uint32
  MemberId :: uint32
  memberAction :: direct_action

record profile_group =
  groupProfileId :: uint32
  GroupId :: uint32
  Members :: "(uint32 \<times> int32) list"
  MaxSize :: int32

record counter_entry =
  CounterId :: uint32
  counterIndex :: "int option"
  counterData :: "(int \<times> int) option"

record meter_entry =
  MeterId :: uint32
  meterIndex :: "int option"
  meterConfig :: "(int \<times> int) option"

record digest_entry =
  DigestId :: uint32
  digestConfig :: "(int \<times> int \<times> int) option"

record replica =
  EgressPort :: uint32
  Instance :: uint32

record clone_session =
  SessionId :: uint32
  Replicas :: "replica list"
  ClassOfService :: uint32
  PacketLengthBytes :: int32

record multicast_group =
  MulticastGroupId :: uint32
  groupReplicas :: "replica list"

datatype entity =
    TableEntryEntity table_entry
  | ActionProfileMemberEntity profile_member
  | ActionProfileGroupEntity profile_group
  | CounterEntryEntity counter_entry
  | MeterEntryEntity meter_entry
  | DigestEntryEntity digest_entry
  | CloneSessionEntity clone_session
  | MulticastGroupEntity multicast_group
  | OtherEntity string

datatype update_type = INSERT | MODIFY | DELETE

record write_request =
  writeDevice :: uint64
  writeRole :: string
  writeElection :: "uint64 \<times> uint64"
  Updates :: "(update_type \<times> entity) list"

record read_request =
  readDevice :: uint64
  readRole :: string
  Entities :: "entity list"

datatype set_action = VERIFY_AND_COMMIT | VERIFY_AND_SAVE | COMMIT

record pipeline_config =
  pipelineP4Info :: "p4info option"
  pipelineDeviceConfig :: "byte list"
  pipelineCookie :: "uint64 option"

record set_pipeline_request =
  setDevice :: uint64
  setRole :: string
  setElection :: "uint64 \<times> uint64"
  setAction :: set_action
  setConfig :: "pipeline_config option"

datatype response_type = ALL | COOKIE_ONLY | P4INFO_AND_COOKIE | DEVICE_CONFIG_AND_COOKIE

record get_pipeline_request =
  getDevice :: uint64
  getResponseType :: response_type

type_synonym read_stream = "(go_error + entity list) list"

record 'w p4runtime =
  rpcWrite :: "write_request \<Rightarrow> 'w \<Rightarrow> go_error option \<times> 'w"
  rpcRead :: "read_request \<Rightarrow> 'w \<Rightarrow> (go_error + read_stream) \<times> 'w"
  rpcSetPipeline :: "set_pipeline_request \<Rightarrow> 'w \<Rightarrow> go_error option \<times> 'w"
  rpcGetPipeline :: "get_pipeline_request \<Rightarrow> 'w \<Rightarrow> (go_error + pipeline_config option) \<times> 'w"

definition role_name :: "client \<Rightarrow> string" where
  "role_name c = (case role c of Some name \<Rightarrow> name | None \<Rightarrow> [])"

section \<open>Writes and reads\<close>

definition WriteUpdate :: "'w p4runtime \<Rightarrow> client \<Rightarrow> update_type \<times> entity \<Rightarrow> 'w \<Rightarrow> go_error option \<times> 'w" where
  "WriteUpdate rt c update =
     rpcWrite rt \<lparr>writeDevice = deviceID c, writeRole = role_name c, writeElection = electionID c, Updates = [update]\<rparr>"

definition make_read :: "client \<Rightarrow> entity \<Rightarrow> read_request" where
  "make_read c e = \<lparr>readDevice = deviceID c, readRole = role_name c, Entities = [e]\<rparr>"

text \<open>The loop of \<open>ReadEntitySingle\<close>: the number of entities and the last one.\<close>

fun recv_single :: "read_stream \<Rightarrow> nat \<times> entity option \<Rightarrow> go_error + nat \<times> entity option" where
  "recv_single [] st = Inr st"
| "recv_single (Inl err # stream) st = Inl err"
| "recv_single (Inr es # stream) st =
     recv_single stream (fold (\<lambda>e (n, readEntity). (Suc n, Some e)) es st)"

definition ReadEntitySingle :: "'w p4runtime \<Rightarrow> client \<Rightarrow> entity \<Rightarrow> 'w \<Rightarrow> (go_error + entity) \<times> 'w" where
  "ReadEntitySingle rt c e w =
     (case rpcRead rt (make_read c e) w of
        (Inl err, w1) \<Rightarrow> (Inl err, w1)
      | (Inr stream, w1) \<Rightarrow>
          ((case recv_single stream (0, None) of
              Inl err \<Rightarrow> Inl err
            | Inr (n, readEntity) \<Rightarrow>
                if n = 0 then Inl (Errorf ''expected a single entity but got none'' None)
                else if 1 < n then Inl (Errorf ''expected a single entity but got several'' None)
                else (case readEntity of
                        Some e1 \<Rightarrow> Inr e1
                      | None \<Rightarrow> Inl (Errorf ''expected a single entity but got none'' None))), w1))"

text \<open>\<open>ReadEntityWildcard\<close> sends the entities on a channel while it receives them: the result is what
  was sent before the channel was closed, and the error.\<close>

fun recv_all :: "read_stream \<Rightarrow> entity list \<Rightarrow> entity list \<times> go_error option" where
  "recv_all [] sent = (sent, None)"
| "recv_all (Inl err # stream) sent = (sent, Some err)"
| "recv_all (Inr es # stream) sent = recv_all stream (sent @ es)"

definition ReadEntityWildcard ::
  "'w p4runtime \<Rightarrow> client \<Rightarrow> entity \<Rightarrow> 'w \<Rightarrow> (entity list \<times> go_error option) \<times> 'w" where
  "ReadEntityWildcard rt c e w =
     (case rpcRead rt (make_read c e) w of
        (Inl err, w1) \<Rightarrow> (([], Some err), w1)
      | (Inr stream, w1) \<Rightarrow> (recv_all stream [], w1))"

text \<open>The goroutine that reads the channel: the entries of the expected kind, and whether another
  entity came. Its result is read after the channel was closed.\<close>

fun collect :: "(entity \<Rightarrow> 'a option) \<Rightarrow> entity list \<Rightarrow> 'a list \<times> bool \<Rightarrow> 'a list \<times> bool" where
  "collect get [] st = st"
| "collect get (e # es) (out, failed) =
     (case get e of
        Some x \<Rightarrow> collect get es (out @ [x], failed)
      | None \<Rightarrow> collect get es (out, True))"

definition read_wildcard ::
  "'w p4runtime \<Rightarrow> client \<Rightarrow> (entity \<Rightarrow> 'a option) \<Rightarrow> string \<Rightarrow> string \<Rightarrow> entity \<Rightarrow> 'w \<Rightarrow> (go_error + 'a list) \<times> 'w" where
  "read_wildcard rt c get failure unexpected e w =
     (case ReadEntityWildcard rt c e w of
        ((sent, Some err), w1) \<Rightarrow> (Inl (Errorf failure (Some err)), w1)
      | ((sent, None), w1) \<Rightarrow>
          ((case collect get sent ([], False) of
              (out, failed) \<Rightarrow> if failed then Inl (Errorf unexpected None) else Inr out), w1))"

definition read_single ::
  "'w p4runtime \<Rightarrow> client \<Rightarrow> (entity \<Rightarrow> 'a option) \<Rightarrow> string \<Rightarrow> string \<Rightarrow> entity \<Rightarrow> 'w \<Rightarrow> (go_error + 'a) \<times> 'w" where
  "read_single rt c get failure unexpected e w =
     (case ReadEntitySingle rt c e w of
        (Inl err, w1) \<Rightarrow> (Inl (Errorf failure (Some err)), w1)
      | (Inr readEntity, w1) \<Rightarrow>
          ((case get readEntity of None \<Rightarrow> Inl (Errorf unexpected None) | Some x \<Rightarrow> Inr x), w1))"

section \<open>Table entries\<close>

definition GetTableEntry :: "entity \<Rightarrow> table_entry option" where
  "GetTableEntry e = (case e of TableEntryEntity x \<Rightarrow> Some x | _ \<Rightarrow> None)"

definition InsertTableEntry :: "'w p4runtime \<Rightarrow> client \<Rightarrow> table_entry \<Rightarrow> 'w \<Rightarrow> go_error option \<times> 'w" where
  "InsertTableEntry rt c entry = WriteUpdate rt c (INSERT, TableEntryEntity entry)"

definition ModifyTableEntry :: "'w p4runtime \<Rightarrow> client \<Rightarrow> table_entry \<Rightarrow> 'w \<Rightarrow> go_error option \<times> 'w" where
  "ModifyTableEntry rt c entry = WriteUpdate rt c (MODIFY, TableEntryEntity entry)"

definition DeleteTableEntry :: "'w p4runtime \<Rightarrow> client \<Rightarrow> table_entry \<Rightarrow> 'w \<Rightarrow> go_error option \<times> 'w" where
  "DeleteTableEntry rt c entry = WriteUpdate rt c (DELETE, TableEntryEntity entry)"

definition empty_entry :: "uint32 \<Rightarrow> field_match list \<Rightarrow> table_entry" where
  "empty_entry tid ms = \<lparr>TableId = tid, IsDefaultAction = False, entryMatch = ms, entryAction = None, IdleTimeoutNs = 0, Priority = 0\<rparr>"

text \<open>The fields of a read are numbered by their position.\<close>

definition ReadTableEntry ::
  "'w p4runtime \<Rightarrow> client \<Rightarrow> string \<Rightarrow> match_value list \<Rightarrow> 'w \<Rightarrow> ((go_error + table_entry) \<times> 'w) option" where
  "ReadTableEntry rt c table mfs w = do {
     ms \<leftarrow> those (map (\<lambda>(idx, mf). match_get mf (word_of_nat (idx + 1)) (CanonicalBytestrings c)) (List.enumerate 0 mfs));
     Some (read_single rt c GetTableEntry ''error when reading table entry: ''
       ''server returned an entity but it is not a table entry! ''
       (TableEntryEntity (empty_entry (tableId c table) ms)) w)
   }"

definition ReadTableEntryWildcard ::
  "'w p4runtime \<Rightarrow> client \<Rightarrow> string \<Rightarrow> 'w \<Rightarrow> (go_error + table_entry list) \<times> 'w" where
  "ReadTableEntryWildcard rt c table =
     read_wildcard rt c GetTableEntry ''error when reading table entries: ''
       ''server returned an entity which is not a table entry!'' (TableEntryEntity (empty_entry (tableId c table) []))"

section \<open>Action profiles\<close>

definition NewTableActionMember :: "uint32 \<Rightarrow> table_action" where
  "NewTableActionMember memberID = ActionProfileMemberId memberID"

definition NewTableActionGroup :: "uint32 \<Rightarrow> table_action" where
  "NewTableActionGroup groupID = ActionProfileGroupId groupID"

definition NewActionProfileMember :: "client \<Rightarrow> string \<Rightarrow> uint32 \<Rightarrow> string \<Rightarrow> byte list list \<Rightarrow> profile_member" where
  "NewActionProfileMember c actionProfile memberID action params =
     \<lparr>memberProfileId = actionProfileId c actionProfile, MemberId = memberID, memberAction = newAction c action params\<rparr>"

definition InsertActionProfileMember :: "'w p4runtime \<Rightarrow> client \<Rightarrow> profile_member \<Rightarrow> 'w \<Rightarrow> go_error option \<times> 'w" where
  "InsertActionProfileMember rt c entry = WriteUpdate rt c (INSERT, ActionProfileMemberEntity entry)"

definition ModifyActionProfileMember :: "'w p4runtime \<Rightarrow> client \<Rightarrow> profile_member \<Rightarrow> 'w \<Rightarrow> go_error option \<times> 'w" where
  "ModifyActionProfileMember rt c entry = WriteUpdate rt c (MODIFY, ActionProfileMemberEntity entry)"

definition DeleteActionProfileMember :: "'w p4runtime \<Rightarrow> client \<Rightarrow> profile_member \<Rightarrow> 'w \<Rightarrow> go_error option \<times> 'w" where
  "DeleteActionProfileMember rt c entry = WriteUpdate rt c (DELETE, ActionProfileMemberEntity entry)"

definition NewActionProfileGroup :: "client \<Rightarrow> string \<Rightarrow> uint32 \<Rightarrow> (uint32 \<times> int32) list \<Rightarrow> int32 \<Rightarrow> profile_group" where
  "NewActionProfileGroup c actionProfile groupID members sz =
     \<lparr>groupProfileId = actionProfileId c actionProfile, GroupId = groupID, Members = members, MaxSize = sz\<rparr>"

definition InsertActionProfileGroup :: "'w p4runtime \<Rightarrow> client \<Rightarrow> profile_group \<Rightarrow> 'w \<Rightarrow> go_error option \<times> 'w" where
  "InsertActionProfileGroup rt c entry = WriteUpdate rt c (INSERT, ActionProfileGroupEntity entry)"

definition ModifyActionProfileGroup :: "'w p4runtime \<Rightarrow> client \<Rightarrow> profile_group \<Rightarrow> 'w \<Rightarrow> go_error option \<times> 'w" where
  "ModifyActionProfileGroup rt c entry = WriteUpdate rt c (MODIFY, ActionProfileGroupEntity entry)"

definition DeleteActionProfileGroup :: "'w p4runtime \<Rightarrow> client \<Rightarrow> profile_group \<Rightarrow> 'w \<Rightarrow> go_error option \<times> 'w" where
  "DeleteActionProfileGroup rt c entry = WriteUpdate rt c (DELETE, ActionProfileGroupEntity entry)"

section \<open>Counters, meters and digests\<close>

text \<open>The capacities of the result slices are left out. Reading all entries of an unknown counter
  dereferences \<open>nil\<close>.\<close>

definition GetCounterEntry :: "entity \<Rightarrow> counter_entry option" where
  "GetCounterEntry e = (case e of CounterEntryEntity x \<Rightarrow> Some x | _ \<Rightarrow> None)"

definition ModifyCounterEntry ::
  "'w p4runtime \<Rightarrow> client \<Rightarrow> string \<Rightarrow> int \<Rightarrow> (int \<times> int) option \<Rightarrow> 'w \<Rightarrow> go_error option \<times> 'w" where
  "ModifyCounterEntry rt c counter index data =
     WriteUpdate rt c (MODIFY, CounterEntryEntity
       \<lparr>CounterId = counterId c counter, counterIndex = Some index, counterData = data\<rparr>)"

definition ReadCounterEntry ::
  "'w p4runtime \<Rightarrow> client \<Rightarrow> string \<Rightarrow> int \<Rightarrow> 'w \<Rightarrow> (go_error + (int \<times> int) option) \<times> 'w" where
  "ReadCounterEntry rt c counter index =
     read_single rt c (\<lambda>e. map_option counterData (GetCounterEntry e)) ''error when reading counter entry: ''
       ''server returned an entity but it is not a counter entry! ''
       (CounterEntryEntity \<lparr>CounterId = counterId c counter, counterIndex = Some index, counterData = None\<rparr>)"

definition ReadCounterEntryWildcard ::
  "'w p4runtime \<Rightarrow> client \<Rightarrow> string \<Rightarrow> 'w \<Rightarrow> ((go_error + (int \<times> int) option list) \<times> 'w) option" where
  "ReadCounterEntryWildcard rt c counter w =
     (case findCounter c counter of
        None \<Rightarrow> None
      | Some p4Counter \<Rightarrow>
          Some (read_wildcard rt c (\<lambda>e. map_option counterData (GetCounterEntry e)) ''error when reading counter entries: ''
            ''server returned an entity which is not a counter entry!''
            (CounterEntryEntity \<lparr>CounterId = Id p4Counter, counterIndex = None, counterData = None\<rparr>) w))"

definition GetMeterEntry :: "entity \<Rightarrow> meter_entry option" where
  "GetMeterEntry e = (case e of MeterEntryEntity x \<Rightarrow> Some x | _ \<Rightarrow> None)"

definition ReadMeterEntry ::
  "'w p4runtime \<Rightarrow> client \<Rightarrow> string \<Rightarrow> int \<Rightarrow> 'w \<Rightarrow> (go_error + (int \<times> int) option) \<times> 'w" where
  "ReadMeterEntry rt c meter index w =
     (let meterID = meterId c meter in
      if meterID = invalidID then (Inl (Errorf (''meter '' @ meter @ '' not found'') None), w)
      else read_single rt c (\<lambda>e. map_option meterConfig (GetMeterEntry e)) ''error when reading meter entry: ''
             ''server returned an entity but it is not a meter entry! ''
             (MeterEntryEntity \<lparr>MeterId = meterID, meterIndex = Some index, meterConfig = None\<rparr>) w)"

definition ReadMeterEntryWildcard ::
  "'w p4runtime \<Rightarrow> client \<Rightarrow> string \<Rightarrow> 'w \<Rightarrow> (go_error + meter_entry list) \<times> 'w" where
  "ReadMeterEntryWildcard rt c meter w =
     (case findMeter c meter of
        None \<Rightarrow> (Inl (Errorf (''meter '' @ meter @ '' not found'') None), w)
      | Some p4Meter \<Rightarrow>
          read_wildcard rt c GetMeterEntry ''error when reading meter entries: ''
            ''server returned an entity which is not a meter entry''
            (MeterEntryEntity \<lparr>MeterId = Id p4Meter, meterIndex = None, meterConfig = None\<rparr>) w)"

definition EnableDigest ::
  "'w p4runtime \<Rightarrow> client \<Rightarrow> string \<Rightarrow> (int \<times> int \<times> int) option \<Rightarrow> 'w \<Rightarrow> go_error option \<times> 'w" where
  "EnableDigest rt c digest config =
     WriteUpdate rt c (INSERT, DigestEntryEntity \<lparr>DigestId = digestId c digest, digestConfig = config\<rparr>)"

definition ModifyDigest ::
  "'w p4runtime \<Rightarrow> client \<Rightarrow> string \<Rightarrow> (int \<times> int \<times> int) option \<Rightarrow> 'w \<Rightarrow> go_error option \<times> 'w" where
  "ModifyDigest rt c digest config =
     WriteUpdate rt c (MODIFY, DigestEntryEntity \<lparr>DigestId = digestId c digest, digestConfig = config\<rparr>)"

definition DisableDigest :: "'w p4runtime \<Rightarrow> client \<Rightarrow> string \<Rightarrow> 'w \<Rightarrow> go_error option \<times> 'w" where
  "DisableDigest rt c digest =
     WriteUpdate rt c (DELETE, DigestEntryEntity \<lparr>DigestId = digestId c digest, digestConfig = None\<rparr>)"

section \<open>Packet replication\<close>

definition replicas :: "uint32 list \<Rightarrow> replica list" where
  "replicas ports = map (\<lambda>(idx, p). \<lparr>EgressPort = p, Instance = word_of_nat idx\<rparr>) (List.enumerate 0 ports)"

text \<open>The options of a clone session are its class of service and its packet length.\<close>

definition DefaultCloneSessionOptions :: "uint32 \<times> int32" where
  "DefaultCloneSessionOptions = (0, 0)"

definition InsertCloneSession ::
  "'w p4runtime \<Rightarrow> client \<Rightarrow> uint32 \<Rightarrow> uint32 list \<Rightarrow> uint32 \<times> int32 \<Rightarrow> 'w \<Rightarrow> go_error option \<times> 'w" where
  "InsertCloneSession rt c ident ports options =
     WriteUpdate rt c (INSERT, CloneSessionEntity \<lparr>SessionId = ident, Replicas = replicas ports,
       ClassOfService = fst options, PacketLengthBytes = snd options\<rparr>)"

definition DeleteCloneSession :: "'w p4runtime \<Rightarrow> client \<Rightarrow> uint32 \<Rightarrow> 'w \<Rightarrow> go_error option \<times> 'w" where
  "DeleteCloneSession rt c ident =
     WriteUpdate rt c (DELETE, CloneSessionEntity \<lparr>SessionId = ident, Replicas = [], ClassOfService = 0, PacketLengthBytes = 0\<rparr>)"

definition InsertMulticastGroup ::
  "'w p4runtime \<Rightarrow> client \<Rightarrow> uint32 \<Rightarrow> uint32 list \<Rightarrow> 'w \<Rightarrow> go_error option \<times> 'w" where
  "InsertMulticastGroup rt c mgid ports =
     WriteUpdate rt c (INSERT, MulticastGroupEntity \<lparr>MulticastGroupId = mgid, groupReplicas = replicas ports\<rparr>)"

definition DeleteMulticastGroup :: "'w p4runtime \<Rightarrow> client \<Rightarrow> uint32 \<Rightarrow> 'w \<Rightarrow> go_error option \<times> 'w" where
  "DeleteMulticastGroup rt c mgid =
     WriteUpdate rt c (DELETE, MulticastGroupEntity \<lparr>MulticastGroupId = mgid, groupReplicas = []\<rparr>)"

section \<open>The forwarding pipeline\<close>

text \<open>The files and the parser of P4Info texts are arguments. The client comes back because its local
  P4Info may be set. Before it is returned, an error of the parser is wrapped.\<close>

record fwd_pipe_config =
  P4Info :: "p4info option"
  P4DeviceConfig :: "byte list"
  Cookie :: uint64

type_synonym file_system = "string \<Rightarrow> go_error + byte list"
type_synonym p4info_parser = "byte list \<Rightarrow> go_error + p4info"

definition SetLocalP4Info :: "p4info option \<Rightarrow> client \<Rightarrow> client" where
  "SetLocalP4Info info c = c\<lparr>clientP4Info := info\<rparr>"

definition SetFwdPipeFromBytesWithAction ::
  "'w p4runtime \<Rightarrow> p4info_parser \<Rightarrow> byte list \<Rightarrow> byte list \<Rightarrow> uint64 \<Rightarrow> set_action \<Rightarrow> client \<Rightarrow> 'w \<Rightarrow>
     (go_error + fwd_pipe_config) \<times> client \<times> 'w" where
  "SetFwdPipeFromBytesWithAction rt parse binBytes p4infoBytes cookie action c w =
     (case parse p4infoBytes of
        Inl err \<Rightarrow> (Inl (Errorf ''failed to decode P4Info Protobuf message: '' (Some err)), c, w)
      | Inr info \<Rightarrow>
          (case rpcSetPipeline rt \<lparr>setDevice = deviceID c, setRole = role_name c, setElection = electionID c, setAction = action,
                 setConfig = Some \<lparr>pipelineP4Info = Some info, pipelineDeviceConfig = binBytes, pipelineCookie = Some cookie\<rparr>\<rparr> w of
             (None, w1) \<Rightarrow>
               (Inr \<lparr>P4Info = Some info, P4DeviceConfig = binBytes, Cookie = cookie\<rparr>, SetLocalP4Info (Some info) c, w1)
           | (Some err, w1) \<Rightarrow> (Inl err, c, w1)))"

definition SetFwdPipeFromBytes ::
  "'w p4runtime \<Rightarrow> p4info_parser \<Rightarrow> byte list \<Rightarrow> byte list \<Rightarrow> uint64 \<Rightarrow> client \<Rightarrow> 'w \<Rightarrow>
     (go_error + fwd_pipe_config) \<times> client \<times> 'w" where
  "SetFwdPipeFromBytes rt parse binBytes p4infoBytes cookie =
     SetFwdPipeFromBytesWithAction rt parse binBytes p4infoBytes cookie VERIFY_AND_COMMIT"

definition SaveFwdPipeFromBytes ::
  "'w p4runtime \<Rightarrow> p4info_parser \<Rightarrow> byte list \<Rightarrow> byte list \<Rightarrow> uint64 \<Rightarrow> client \<Rightarrow> 'w \<Rightarrow>
     (go_error + fwd_pipe_config) \<times> client \<times> 'w" where
  "SaveFwdPipeFromBytes rt parse binBytes p4infoBytes cookie =
     SetFwdPipeFromBytesWithAction rt parse binBytes p4infoBytes cookie VERIFY_AND_SAVE"

definition CommitFwdPipe :: "'w p4runtime \<Rightarrow> client \<Rightarrow> 'w \<Rightarrow> go_error option \<times> 'w" where
  "CommitFwdPipe rt c =
     rpcSetPipeline rt \<lparr>setDevice = deviceID c, setRole = [], setElection = electionID c, setAction = COMMIT, setConfig = None\<rparr>"

definition SetFwdPipe ::
  "'w p4runtime \<Rightarrow> file_system \<Rightarrow> p4info_parser \<Rightarrow> string \<Rightarrow> string \<Rightarrow> uint64 \<Rightarrow> client \<Rightarrow> 'w \<Rightarrow>
     (go_error + fwd_pipe_config) \<times> client \<times> 'w" where
  "SetFwdPipe rt ReadFile parse binPath p4infoPath cookie c w =
     (case ReadFile binPath of
        Inl err \<Rightarrow> (Inl (Errorf ''error when reading binary device config: '' (Some err)), c, w)
      | Inr binBytes \<Rightarrow>
          (case ReadFile p4infoPath of
             Inl err \<Rightarrow> (Inl (Errorf ''error when reading P4Info text file: '' (Some err)), c, w)
           | Inr p4infoBytes \<Rightarrow> SetFwdPipeFromBytes rt parse binBytes p4infoBytes cookie c w))"

text \<open>No configuration is \<^term>\<open>Inr None\<close>.\<close>

definition GetFwdPipe ::
  "'w p4runtime \<Rightarrow> response_type \<Rightarrow> client \<Rightarrow> 'w \<Rightarrow> (go_error + fwd_pipe_config option) \<times> client \<times> 'w" where
  "GetFwdPipe rt responseType c w =
     (case rpcGetPipeline rt \<lparr>getDevice = deviceID c, getResponseType = responseType\<rparr> w of
        (Inl err, w1) \<Rightarrow> (Inl (Errorf ''error when retrieving forwardingpipeline config: '' (Some err)), c, w1)
      | (Inr None, w1) \<Rightarrow> (Inr None, c, w1)
      | (Inr (Some config), w1) \<Rightarrow>
          (Inr (Some \<lparr>P4Info = pipelineP4Info config, P4DeviceConfig = pipelineDeviceConfig config,
             Cookie = (case pipelineCookie config of Some cookie \<Rightarrow> cookie | None \<Rightarrow> 0)\<rparr>),
           (case pipelineP4Info config of Some info \<Rightarrow> SetLocalP4Info (Some info) c | None \<Rightarrow> c), w1))"

section \<open>Reading one entity\<close>

lemma fold_count: "fold (\<lambda>e (n, r). (Suc n, Some e)) es (k, r0) = (k + length es, if es = [] then r0 else Some (last es))"
  by (induction es arbitrary: k r0) auto

lemma recv_single_cases:
  "recv_single stream (k, r0) = (case recv_all stream [] of
     (es, None) \<Rightarrow> Inr (k + length es, if es = [] then r0 else Some (last es))
   | (es, Some err) \<Rightarrow> Inl err)"
proof -
  have acc: "recv_all stream acc = (acc @ fst (recv_all stream []), snd (recv_all stream []))" for stream acc
  proof (induction stream arbitrary: acc)
    case (Cons m stream)
    show ?case
    proof (cases m)
      case (Inr es)
      with Cons.IH [of "acc @ es"] Cons.IH [of es] show ?thesis by simp
    qed simp
  qed simp
  show ?thesis
  proof (induction stream arbitrary: k r0)
    case (Cons m stream)
    show ?case
    proof (cases m)
      case (Inr es)
      then show ?thesis
        using acc [of stream es] Cons.IH [of "k + length es" "if es = [] then r0 else Some (last es)"]
        by (auto simp: fold_count split: option.splits prod.splits)
    qed simp
  qed simp
qed

text \<open>\<open>ReadEntitySingle\<close> returns an entity exactly when the whole stream arrives without an error and holds
  exactly that one entity, however the server splits it into messages; an error of the call or of the stream
  is passed on.\<close>

theorem ReadEntitySingle_spec:
  "case rpcRead rt (make_read c e) w of
     (Inl err, w1) \<Rightarrow> ReadEntitySingle rt c e w = (Inl err, w1)
   | (Inr stream, w1) \<Rightarrow> snd (ReadEntitySingle rt c e w) = w1
       \<and> (fst (ReadEntitySingle rt c e w) = Inr x \<longleftrightarrow> (\<exists>ms. stream = map Inr ms \<and> concat ms = [x]))"
proof -
  have all: "recv_all stream acc = (es, None) \<longleftrightarrow> (\<exists>ms. stream = map Inr ms \<and> acc @ concat ms = es)" for stream acc es
  proof (induction stream arbitrary: acc)
    case (Cons m stream)
    show ?case
    proof (cases m)
      case (Inr ys)
      have "(\<exists>ms. Inr ys # stream = map Inr ms \<and> acc @ concat ms = es) \<longleftrightarrow> (\<exists>ms. stream = map Inr ms \<and> acc @ ys @ concat ms = es)"
        by (auto simp: Cons_eq_map_conv)
      with Inr Cons.IH [of "acc @ ys"] show ?thesis by simp
    qed auto
  qed auto
  show ?thesis
  proof (cases "rpcRead rt (make_read c e) w")
    case (Pair r w1)
    show ?thesis
    proof (cases r)
      case (Inr stream)
      have eq: "(\<exists>ms. stream = map Inr ms \<and> concat ms = [x]) \<longleftrightarrow> recv_all stream [] = ([x], None)"
        by (simp only: all append_Nil)
      obtain es er where r: "recv_all stream [] = (es, er)" by (cases "recv_all stream []")
      have call: "rpcRead rt (make_read c e) w = (Inr stream, w1)" using Pair Inr by simp
      have "snd (ReadEntitySingle rt c e w) = w1 \<and> (fst (ReadEntitySingle rt c e w) = Inr x \<longleftrightarrow> (es, er) = ([x], None))"
      proof (cases er)
        case None
        then have rs: "recv_single stream (0, None) = Inr (length es, if es = [] then None else Some (last es))"
          by (simp add: recv_single_cases r)
        consider "es = []" | y where "es = [y]" | y z zs where "es = y # z # zs" by (metis neq_Nil_conv)
        then show ?thesis by cases (simp_all add: ReadEntitySingle_def call rs None)
      next
        case (Some err)
        then have rs: "recv_single stream (0, None) = Inl err" by (simp add: recv_single_cases r)
        with Some show ?thesis by (simp add: ReadEntitySingle_def call)
      qed
      with eq r show ?thesis by (simp add: call)
    qed (simp add: Pair ReadEntitySingle_def)
  qed
qed

end
