(* ===== verification/Connector.thy ===== *)
theory Connector
  imports P4Runtime Entries
begin

text \<open>
  The connector (\<open>libs/p4-connector/connector\<close>): it turns the raw entries of the controller, whose keys and
  parameters are strings, into the typed entries of the P4Runtime client by means of the P4Info of the
  installed program. Maps are ranged over in the orders of \<open>build_orders\<close>. A panic is \<^term>\<open>None\<close>.
\<close>

section \<open>Errors\<close>

definition newNotFoundError :: "string \<Rightarrow> string \<Rightarrow> go_error" where
  "newNotFoundError what loc = MetadataNotFoundError what loc"

definition newInvalidArgumentError :: "string \<Rightarrow> go_error" where
  "newInvalidArgumentError msg = InvalidArgumentError msg"

definition IsNetworkError :: "go_error option \<Rightarrow> bool" where
  "IsNetworkError e = False"

text \<open>\<open>status.FromError\<close> accepts the errors that carry a gRPC status; a wrapped one is found only behind \<open>%w\<close>, which
  the code does not use. The details of a status decide.\<close>

definition unwrapP4Error :: "go_error option \<Rightarrow> p4_error option" where
  "unwrapP4Error e =
     (case e of
        Some (StatusError (P4Error p # _)) \<Rightarrow> Some p
      | _ \<Rightarrow> None)"

definition checkBasedOnCode :: "go_error option \<Rightarrow> int32 \<Rightarrow> bool" where
  "checkBasedOnCode e expectedCode =
     (case unwrapP4Error e of Some p4e \<Rightarrow> CanonicalCode p4e = expectedCode | None \<Rightarrow> False)"

definition checkBasedOnCodeIn :: "go_error option \<Rightarrow> int32 list \<Rightarrow> bool" where
  "checkBasedOnCodeIn e codes =
     (case unwrapP4Error e of Some p4e \<Rightarrow> list_ex (\<lambda>code. CanonicalCode p4e = code) codes | None \<Rightarrow> False)"

text \<open>The codes of gRPC.\<close>

abbreviation InvalidArgument :: int32 where "InvalidArgument \<equiv> 3"
abbreviation NotFound :: int32 where "NotFound \<equiv> 5"
abbreviation AlreadyExists :: int32 where "AlreadyExists \<equiv> 6"

definition IsEntryExistsError :: "go_error option \<Rightarrow> bool" where
  "IsEntryExistsError e = checkBasedOnCode e AlreadyExists"

definition IsInvalidEntryError :: "go_error option \<Rightarrow> bool" where
  "IsInvalidEntryError e = checkBasedOnCode e InvalidArgument"

definition IsEntryNotFoundError :: "go_error option \<Rightarrow> bool" where
  "IsEntryNotFoundError e = checkBasedOnCode e NotFound"

definition AsRpcError :: "go_error option \<Rightarrow> string option" where
  "AsRpcError e = (case unwrapP4Error e of None \<Rightarrow> None | Some p4e \<Rightarrow> Some (errorMessage p4e))"

section \<open>The connector\<close>

text \<open>A connector after \<open>Open\<close> has its client.\<close>

record connector =
  deviceAddr :: string
  connDeviceID :: uint64
  p4rtc :: "client option"
  connP4info :: "p4info option"

definition NewP4RuntimeConnector :: "string \<Rightarrow> uint64 \<Rightarrow> connector" where
  "NewP4RuntimeConnector addr device = \<lparr>deviceAddr = addr, connDeviceID = device, p4rtc = None, connP4info = None\<rparr>"

text \<open>What \<open>Open\<close> waits for is an argument: the dialing, the capabilities call and the arbitration that makes
  this client the primary one give an error or nothing. The client is stored before the arbitration, so an
  error at that point leaves it behind.\<close>

definition open_connector :: "('w \<Rightarrow> go_error option \<times> 'w) \<Rightarrow> ('w \<Rightarrow> go_error option \<times> 'w) \<Rightarrow> connector \<Rightarrow> 'w \<Rightarrow>
     go_error option \<times> connector \<times> 'w" where
  "open_connector dial arbitrate p w =
     (case dial w of
        (Some err, w1) \<Rightarrow> (Some err, p, w1)
      | (None, w1) \<Rightarrow>
          (case arbitrate w1 of
             (e, w2) \<Rightarrow> (e, p\<lparr>p4rtc := Some (NewClient (connDeviceID p) (0, 1))\<rparr>, w2)))"

definition connector_action :: "p4info \<Rightarrow> string \<Rightarrow> go_error + p4_action" where
  "connector_action info actionName =
     (case find (\<lambda>a. preName (actionPreamble a) = actionName \<or> Alias (actionPreamble a) = actionName) (Actions info) of
        Some act \<Rightarrow> Inr act
      | None \<Rightarrow> Inl (newNotFoundError (''action: '' @ actionName) ''p4info actions''))"

definition connector_table :: "p4info \<Rightarrow> string \<Rightarrow> go_error + p4_table" where
  "connector_table info tableName =
     (case find (\<lambda>t. preName (tablePreamble t) = tableName \<or> Alias (tablePreamble t) = tableName) (Tables info) of
        Some tab \<Rightarrow> Inr tab
      | None \<Rightarrow> Inl (newNotFoundError (''table: '' @ tableName) ''p4info tables''))"

definition getActionParamsMap :: "p4_action \<Rightarrow> (string, p4_param) gomap" where
  "getActionParamsMap action = fold (\<lambda>param res. gm_put (paramName param) param res) (Params action) []"

definition getMatchMap :: "p4_table \<Rightarrow> (string, match_field) gomap" where
  "getMatchMap table = fold (\<lambda>mf res. gm_put (mfName mf) mf res) (MatchFields table) []"

section \<open>Values\<close>

definition actionParamOrMatchValueToBytes :: "(string \<Rightarrow> byte list option) \<Rightarrow> string \<Rightarrow> int \<Rightarrow> byte list option" where
  "actionParamOrMatchValueToBytes v6 val bitwidth =
     (if bitwidth = 32 \<and> IP_V4_REGEX_MatchString val then IpToBinary v6 val
      else if bitwidth = 48 \<and> MAC_REGEX_MatchString val then MacToBinary val
      else StringToBinaryUint val bitwidth)"

definition ternaryMaskToBytes :: "string \<Rightarrow> int \<Rightarrow> byte list option" where
  "ternaryMaskToBytes val bitwidth =
     (case ParseUint0 val bitwidth of None \<Rightarrow> None | Some u \<Rightarrow> Some (NumberToBinaryUint u (nat bitwidth)))"

section \<open>Entries\<close>

record action_entry =
  actionEntryName :: string
  actionParams :: "byte list list"

record connector_entry =
  entryTable :: string
  entryMatches :: "(string, match_value) gomap"
  entryActionEntry :: action_entry

record build_orders =
  matchOrder :: "string list \<Rightarrow> string list"
  paramOrder :: "string list \<Rightarrow> string list"
  fieldOrder :: "string list \<Rightarrow> string list"

text \<open>A result of the builders: a panic, an error, or a value.\<close>

type_synonym 'a built = "(go_error + 'a) option"

text \<open>A loop with early returns.\<close>

fun fold_built :: "('a \<Rightarrow> 's \<Rightarrow> 's built) \<Rightarrow> 'a list \<Rightarrow> 's \<Rightarrow> 's built" where
  "fold_built f [] s = Some (Inr s)"
| "fold_built f (x # xs) s =
     (case f x s of
        None \<Rightarrow> None
      | Some (Inl e) \<Rightarrow> Some (Inl e)
      | Some (Inr s1) \<Rightarrow> fold_built f xs s1)"

text \<open>One parameter: its bytes go to the position of its identifier, a 32-bit number from which one is
  subtracted. The error a parser gives is left out of the message.\<close>

definition add_param ::
  "(string \<Rightarrow> byte list option) \<Rightarrow> string \<Rightarrow> (string, p4_param) gomap \<Rightarrow> string \<times> string \<Rightarrow> byte list list \<Rightarrow> byte list list built" where
  "add_param v6 actionName params = (\<lambda>(name, val) res.
     (case gm_get params name of
        None \<Rightarrow> Some (Inl (newNotFoundError (''param: '' @ name) (''params of action: '' @ actionName)))
      | Some param \<Rightarrow>
          (case actionParamOrMatchValueToBytes v6 val (sint (paramBitwidth param)) of
             None \<Rightarrow> Some (Inl (newInvalidArgumentError
                 (''action: '' @ actionName @ CHR 0x09 # ''Failed to parse value for param '' @ name)))
           | Some bytes \<Rightarrow>
               (let i = unat (paramId param - 1) in
                if i < length res then Some (Inr (res[i := bytes])) else None))))"

definition BuildActionEntry ::
  "(string \<Rightarrow> byte list option) \<Rightarrow> build_orders \<Rightarrow> connector \<Rightarrow> string \<Rightarrow> (string, string) gomap \<Rightarrow> action_entry built" where
  "BuildActionEntry v6 ords p actionName rawParams =
     (case connP4info p of
        None \<Rightarrow> None
      | Some info \<Rightarrow>
          (case connector_action info actionName of
             Inl err \<Rightarrow> Some (Inl err)
           | Inr action \<Rightarrow>
               (let params = getActionParamsMap action in
                if length params \<noteq> length rawParams then
                  Some (Inl (newInvalidArgumentError (''action: '' @ actionName @ CHR 0x09 # ''Invalid number of parameters, expected ''
                    @ fmt_uint (length params) @ '', got '' @ fmt_uint (length rawParams))))
                else
                  (case fold_built (add_param v6 actionName params) (gm_range (paramOrder ords) rawParams)
                          (replicate (length rawParams) []) of
                     None \<Rightarrow> None
                   | Some (Inl err) \<Rightarrow> Some (Inl err)
                   | Some (Inr res) \<Rightarrow> Some (Inr \<lparr>actionEntryName = actionName, actionParams = res\<rparr>)))))"

text \<open>The value of one key. Both a wrong format and an unsupported kind return their own errors before the
  common error of the parsers.\<close>

datatype parsed = ParseFailed | ParsedMatch match_value | ParseError go_error

definition parse_lpm :: "(string \<Rightarrow> byte list option) \<Rightarrow> string \<Rightarrow> int \<Rightarrow> parsed" where
  "parse_lpm v6 matchValue bitwidth =
     (case split_str ''/'' matchValue of
        [addr, len] \<Rightarrow>
          (case actionParamOrMatchValueToBytes v6 addr bitwidth of
             None \<Rightarrow> ParseFailed
           | Some val \<Rightarrow>
               (case ParseUint10 len 6 of
                  None \<Rightarrow> ParseFailed
                | Some lpm \<Rightarrow> ParsedMatch (LpmMatch val (word_of_nat lpm))))
      | _ \<Rightarrow> ParseError (newInvalidArgumentError (''Invalid LPM format, should be value/prefix_size, got '' @ matchValue)))"

definition parse_ternary :: "(string \<Rightarrow> byte list option) \<Rightarrow> string \<Rightarrow> int \<Rightarrow> parsed" where
  "parse_ternary v6 matchValue bitwidth =
     (case split_str ''&&&'' matchValue of
        [v, m] \<Rightarrow>
          (case actionParamOrMatchValueToBytes v6 v bitwidth of
             None \<Rightarrow> ParseFailed
           | Some val \<Rightarrow>
               (case ternaryMaskToBytes m bitwidth of
                  None \<Rightarrow> ParseFailed
                | Some msk \<Rightarrow> ParsedMatch (TernaryMatch val msk)))
      | _ \<Rightarrow> ParseError (newInvalidArgumentError (''Invalid ternary format, should be value&&&mask, got '' @ matchValue)))"

definition parse_match :: "(string \<Rightarrow> byte list option) \<Rightarrow> match_type \<Rightarrow> string \<Rightarrow> int \<Rightarrow> parsed" where
  "parse_match v6 kind matchValue bitwidth =
     (case kind of
        MatchEXACT \<Rightarrow>
          (case actionParamOrMatchValueToBytes v6 matchValue bitwidth of
             None \<Rightarrow> ParseFailed
           | Some val \<Rightarrow> ParsedMatch (ExactMatch val))
      | MatchLPM \<Rightarrow> parse_lpm v6 matchValue bitwidth
      | MatchTERNARY \<Rightarrow> parse_ternary v6 matchValue bitwidth
      | MatchUnsupported \<Rightarrow> ParseError (newInvalidArgumentError ''Unsupported match type''))"

definition add_match ::
  "(string \<Rightarrow> byte list option) \<Rightarrow> string \<Rightarrow> (string, match_field) gomap \<Rightarrow> string \<times> string \<Rightarrow>
     (string, match_value) gomap \<Rightarrow> (string, match_value) gomap built" where
  "add_match v6 tableName mfs = (\<lambda>(key, matchValue) res.
     (case gm_get mfs key of
        None \<Rightarrow> Some (Inl (newNotFoundError (''match key: '' @ key) (''keys of table '' @ tableName)))
      | Some mf \<Rightarrow>
          (case mfMatch mf of
             OtherMatchType _ \<Rightarrow> None
           | MatchTypeIs kind \<Rightarrow>
               (case parse_match v6 kind matchValue (sint (mfBitwidth mf)) of
                  ParseError err \<Rightarrow> Some (Inl err)
                | ParseFailed \<Rightarrow> Some (Inl (newInvalidArgumentError
                    (''table: '' @ tableName @ CHR 0x09 # ''Failed to parse key: '' @ key @ '', got: '' @ matchValue)))
                | ParsedMatch matchVal \<Rightarrow> Some (Inr (gm_put key matchVal res))))))"

definition BuildMatchEntry ::
  "(string \<Rightarrow> byte list option) \<Rightarrow> build_orders \<Rightarrow> connector \<Rightarrow> string \<Rightarrow> (string, string) gomap \<Rightarrow>
     (string, match_value) gomap built" where
  "BuildMatchEntry v6 ords p tableName rawMatchEntries =
     (case connP4info p of
        None \<Rightarrow> None
      | Some info \<Rightarrow>
          (case connector_table info tableName of
             Inl err \<Rightarrow> Some (Inl err)
           | Inr table \<Rightarrow> fold_built (add_match v6 tableName (getMatchMap table)) (gm_range (matchOrder ords) rawMatchEntries) []))"

definition is_ternary :: "match_value \<Rightarrow> bool" where
  "is_ternary m = (case m of TernaryMatch _ _ \<Rightarrow> True | _ \<Rightarrow> False)"

text \<open>An entry with a ternary key gets a priority. The client of a connector that was not opened is \<open>nil\<close>.\<close>

definition mapToProtobufTableEntry :: "build_orders \<Rightarrow> connector \<Rightarrow> connector_entry \<Rightarrow> table_entry option" where
  "mapToProtobufTableEntry ords p entry = do {
     let defaultPriority = (if list_ex is_ternary (map snd (entryMatches entry)) then 2147483646 else 0);
     c \<leftarrow> p4rtc p;
     NewTableEntry (fieldOrder ords) c (entryTable entry) (Some (entryMatches entry))
       (Some (NewTableActionDirect c (actionEntryName (entryActionEntry entry)) (actionParams (entryActionEntry entry))))
       (Some \<lparr>optIdleTimeout = 0, optPriority = defaultPriority\<rparr>)
   }"

definition WriteMatchActionEntry ::
  "'w p4runtime \<Rightarrow> build_orders \<Rightarrow> connector \<Rightarrow> connector_entry \<Rightarrow> 'w \<Rightarrow> (go_error option \<times> 'w) option" where
  "WriteMatchActionEntry rt ords p entry w = do {
     c \<leftarrow> p4rtc p;
     e \<leftarrow> mapToProtobufTableEntry ords p entry;
     Some (InsertTableEntry rt c e w)
   }"

definition DeleteMatchActionEntry ::
  "'w p4runtime \<Rightarrow> build_orders \<Rightarrow> connector \<Rightarrow> connector_entry \<Rightarrow> 'w \<Rightarrow> (go_error option \<times> 'w) option" where
  "DeleteMatchActionEntry rt ords p entry w = do {
     c \<leftarrow> p4rtc p;
     e \<leftarrow> mapToProtobufTableEntry ords p entry;
     Some (DeleteTableEntry rt c e w)
   }"

section \<open>Programs\<close>

text \<open>On a connector that was not opened the method of the \<open>nil\<close> client still returns the errors of the files and
  of the parser, and panics after them.\<close>

definition nil_SetFwdPipe :: "file_system \<Rightarrow> p4info_parser \<Rightarrow> string \<Rightarrow> string \<Rightarrow> go_error option" where
  "nil_SetFwdPipe ReadFile parse binPath p4infoPath =
     (case ReadFile binPath of
        Inl err \<Rightarrow> Some (Errorf ''error when reading binary device config: '' (Some err))
      | Inr binBytes \<Rightarrow>
          (case ReadFile p4infoPath of
             Inl err \<Rightarrow> Some (Errorf ''error when reading P4Info text file: '' (Some err))
           | Inr p4infoBytes \<Rightarrow>
               (case parse p4infoBytes of
                  Inl err \<Rightarrow> Some (Errorf ''failed to decode P4Info Protobuf message: '' (Some err))
                | Inr info \<Rightarrow> None)))"

definition InstallProgram ::
  "'w p4runtime \<Rightarrow> file_system \<Rightarrow> p4info_parser \<Rightarrow> connector \<Rightarrow> string \<Rightarrow> string \<Rightarrow> 'w \<Rightarrow>
     (go_error option \<times> connector \<times> 'w) option" where
  "InstallProgram rt ReadFile parse p binPath p4infoPath w =
     (case p4rtc p of
        None \<Rightarrow> map_option (\<lambda>err. (Some err, p, w)) (nil_SetFwdPipe ReadFile parse binPath p4infoPath)
      | Some c \<Rightarrow>
          (case SetFwdPipe rt ReadFile parse binPath p4infoPath 0 c w of
             (Inl err, c1, w1) \<Rightarrow> Some (Some err, p\<lparr>p4rtc := Some c1\<rparr>, w1)
           | (Inr res, c1, w1) \<Rightarrow> Some (None, p\<lparr>p4rtc := Some c1, connP4info := P4Info res\<rparr>, w1)))"

text \<open>The two files are read first; without a client the assignment to it dereferences \<open>nil\<close>.\<close>

definition UseInstalledProgram ::
  "file_system \<Rightarrow> p4info_parser \<Rightarrow> connector \<Rightarrow> string \<Rightarrow> (go_error option \<times> connector) option" where
  "UseInstalledProgram ReadFile parse p p4infoPath =
     (case ReadFile p4infoPath of
        Inl err \<Rightarrow> Some (Some err, p)
      | Inr p4infoBytes \<Rightarrow>
          (case parse p4infoBytes of
             Inl err \<Rightarrow> Some (Some err, p)
           | Inr info \<Rightarrow> do {
               c \<leftarrow> p4rtc p;
               Some (None, p\<lparr>connP4info := Some info, p4rtc := Some (SetLocalP4Info (Some info) c)\<rparr>)
             }))"

end
