(* ===== verification/Bmv2.thy ===== *)
theory Bmv2
  imports Connector Service
begin

text \<open>
  The manager of a BMv2 switch (\<open>kinda-sdn/device\<close>). \<open>connectorLock\<close> makes each of its write operations
  one step. Before \<open>Open\<close> the connector is \<open>nil\<close>, and every operation that uses it panics.
\<close>

record bmv2_manager =
  grpcAddr :: string
  bmv2Conn :: "connector option"

definition NewBmv2Manager :: "string \<Rightarrow> bmv2_manager" where
  "NewBmv2Manager addr = \<lparr>grpcAddr = addr, bmv2Conn = None\<rparr>"

definition GetArch :: "bmv2_manager \<Rightarrow> string" where
  "GetArch b = BMv2"

definition convertEntry ::
  "(string \<Rightarrow> byte list option) \<Rightarrow> build_orders \<Rightarrow> bmv2_manager \<Rightarrow> raw_entry \<Rightarrow> connector_entry built" where
  "convertEntry v6 ords b e = do {
     p \<leftarrow> bmv2Conn b;
     ms \<leftarrow> BuildMatchEntry v6 ords p (TableName e) (Match e);
     (case ms of
        Inl err \<Rightarrow> Some (Inl err)
      | Inr ms1 \<Rightarrow> do {
          action \<leftarrow> BuildActionEntry v6 ords p (ActionName e) (ActionParams e);
          (case action of
             Inl err \<Rightarrow> Some (Inl err)
           | Inr action1 \<Rightarrow>
               Some (Inr \<lparr>entryTable = TableName e, entryMatches = ms1, entryActionEntry = action1\<rparr>))
        })
   }"

definition bmv2_WriteEntry ::
  "'w p4runtime \<Rightarrow> (string \<Rightarrow> byte list option) \<Rightarrow> build_orders \<Rightarrow> bmv2_manager \<Rightarrow> raw_entry \<Rightarrow> 'w \<Rightarrow>
     (go_error option \<times> 'w) option" where
  "bmv2_WriteEntry rt v6 ords b e w = do {
     converted \<leftarrow> convertEntry v6 ords b e;
     (case converted of
        Inl err \<Rightarrow> Some (Some err, w)
      | Inr convertedEntry \<Rightarrow> do { p \<leftarrow> bmv2Conn b; WriteMatchActionEntry rt ords p convertedEntry w })
   }"

definition bmv2_DeleteEntry ::
  "'w p4runtime \<Rightarrow> (string \<Rightarrow> byte list option) \<Rightarrow> build_orders \<Rightarrow> bmv2_manager \<Rightarrow> raw_entry \<Rightarrow> 'w \<Rightarrow>
     (go_error option \<times> 'w) option" where
  "bmv2_DeleteEntry rt v6 ords b e w = do {
     converted \<leftarrow> convertEntry v6 ords b e;
     (case converted of
        Inl err \<Rightarrow> Some (Some err, w)
      | Inr convertedEntry \<Rightarrow> do { p \<leftarrow> bmv2Conn b; DeleteMatchActionEntry rt ords p convertedEntry w })
   }"

text \<open>\<open>WriteInitialEntries\<close> converts all entries before it writes the first one.\<close>

definition convert_all ::
  "(string \<Rightarrow> byte list option) \<Rightarrow> build_orders \<Rightarrow> bmv2_manager \<Rightarrow> raw_entry list \<Rightarrow> connector_entry list built" where
  "convert_all v6 ords b es = fold_built (\<lambda>e done.
       (case convertEntry v6 ords b e of
          None \<Rightarrow> None
        | Some (Inl err) \<Rightarrow> Some (Inl err)
        | Some (Inr c) \<Rightarrow> Some (Inr (done @ [c])))) es []"

fun write_all ::
  "'w p4runtime \<Rightarrow> build_orders \<Rightarrow> bmv2_manager \<Rightarrow> connector_entry list \<Rightarrow> 'w \<Rightarrow> (go_error option \<times> 'w) option" where
  "write_all rt ords b [] w = Some (None, w)"
| "write_all rt ords b (e # es) w = do {
     p \<leftarrow> bmv2Conn b;
     (er, w1) \<leftarrow> WriteMatchActionEntry rt ords p e w;
     (case er of Some err \<Rightarrow> Some (Some err, w1) | None \<Rightarrow> write_all rt ords b es w1)
   }"

definition WriteInitialEntries ::
  "'w p4runtime \<Rightarrow> (string \<Rightarrow> byte list option) \<Rightarrow> build_orders \<Rightarrow> bmv2_manager \<Rightarrow> raw_entry list \<Rightarrow> 'w \<Rightarrow>
     (go_error option \<times> 'w) option" where
  "WriteInitialEntries rt v6 ords b es w = do {
     converted \<leftarrow> convert_all v6 ords b es;
     (case converted of
        Inl err \<Rightarrow> Some (Some err, w)
      | Inr cs \<Rightarrow> write_all rt ords b cs w)
   }"

text \<open>The parts of opening a connection that wait for the network.\<close>

record 'w dialer =
  dial :: "string \<Rightarrow> 'w \<Rightarrow> go_error option \<times> 'w"
  arbitrate :: "string \<Rightarrow> 'w \<Rightarrow> go_error option \<times> 'w"

definition bmv2_Open :: "'w dialer \<Rightarrow> bmv2_manager \<Rightarrow> 'w \<Rightarrow> go_error option \<times> bmv2_manager \<times> 'w" where
  "bmv2_Open dl b w =
     (case open_connector (dial dl (grpcAddr b)) (arbitrate dl (grpcAddr b)) (NewP4RuntimeConnector (grpcAddr b) 0) w of
        (Some err, p, w1) \<Rightarrow> (Some err, b, w1)
      | (None, p, w1) \<Rightarrow> (None, b\<lparr>bmv2Conn := Some p\<rparr>, w1))"

definition bmv2_InstallProgram ::
  "'w p4runtime \<Rightarrow> file_system \<Rightarrow> p4info_parser \<Rightarrow> bmv2_manager \<Rightarrow> string \<Rightarrow> string \<Rightarrow> 'w \<Rightarrow>
     (go_error option \<times> bmv2_manager \<times> 'w) option" where
  "bmv2_InstallProgram rt ReadFile parse b binPath p4InfoPath w = do {
     p \<leftarrow> bmv2Conn b;
     (er, p1, w1) \<leftarrow> InstallProgram rt ReadFile parse p binPath p4InfoPath w;
     Some (er, b\<lparr>bmv2Conn := Some p1\<rparr>, w1)
   }"

end
