(* ===== verification/ConnectorProofs.thy ===== *)
theory ConnectorProofs
  imports Connector Forwarding
begin

text \<open>
  The connector's builders against their reference: \<open>action_encoding\<close> encodes the parameters of an action
  one by one in the order of the P4Info, \<open>match_of\<close> one key of an entry. The loops over the maps of
  an entry produce these for every order. The last section follows a route of the controller to its bytes.
\<close>

section \<open>Loops with early returns\<close>

text \<open>A loop over entries with distinct keys whose body inspects the entry alone, except for the bound of
  an index: it fails exactly when an entry is bad, and otherwise every entry has left its bytes at its index.\<close>

definition param_bytes ::
  "(string \<Rightarrow> byte list option) \<Rightarrow> (string, p4_param) gomap \<Rightarrow> string \<Rightarrow> string \<Rightarrow> byte list option" where
  "param_bytes v6 params k v =
     (case gm_get params k of
        None \<Rightarrow> None
      | Some param \<Rightarrow> actionParamOrMatchValueToBytes v6 v (sint (paramBitwidth param)))"

definition param_index :: "(string, p4_param) gomap \<Rightarrow> string \<Rightarrow> nat" where
  "param_index params k = (case gm_get params k of None \<Rightarrow> 0 | Some param \<Rightarrow> unat (paramId param - 1))"

definition indices_ok :: "(string, p4_param) gomap \<Rightarrow> nat \<Rightarrow> bool" where
  "indices_ok params n \<longleftrightarrow> (\<forall>k param. gm_get params k = Some param \<longrightarrow> param_index params k < n)
     \<and> inj_on (param_index params) {k. gm_get params k \<noteq> None}"

lemma add_param_bad:
  "param_bytes v6 params k v = None \<Longrightarrow> \<exists>e. add_param v6 name params (k, v) res = Some (Inl e)"
  by (auto simp: add_param_def param_bytes_def split: option.splits)

lemma add_param_good:
  assumes "param_bytes v6 params k v = Some b" and "indices_ok params (length res)"
  shows "add_param v6 name params (k, v) res = Some (Inr (res[param_index params k := b]))"
  using assms by (auto simp: add_param_def param_bytes_def indices_ok_def param_index_def Let_def split: option.splits)

lemma add_param_loop_bad:
  "\<exists>(k, v) \<in> set xs. param_bytes v6 params k v = None \<Longrightarrow> indices_ok params (length res) \<Longrightarrow>
     \<exists>e. fold_built (add_param v6 name params) xs res = Some (Inl e)"
proof (induction xs arbitrary: res)
  case (Cons x xs)
  obtain k v where x: "x = (k, v)" by (cases x)
  show ?case
  proof (cases "param_bytes v6 params k v")
    case None
    from add_param_bad [OF None] obtain e where "add_param v6 name params (k, v) res = Some (Inl e)" by blast
    with x show ?thesis by simp
  next
    case (Some b)
    with add_param_good [OF Some Cons.prems(2)] Cons x show ?thesis by simp
  qed
qed simp

lemma add_param_loop_good:
  assumes "\<forall>(k, v) \<in> set xs. param_bytes v6 params k v \<noteq> None" and "indices_ok params (length res)"
    and "distinct (map fst xs)"
  shows "\<exists>res1. fold_built (add_param v6 name params) xs res = Some (Inr res1) \<and> length res1 = length res
     \<and> (\<forall>(k, v) \<in> set xs. param_bytes v6 params k v = Some (res1 ! param_index params k))
     \<and> (\<forall>i. i \<notin> param_index params ` fst ` set xs \<longrightarrow> res1 ! i = res ! i)"
  using assms
proof (induction xs arbitrary: res)
  case (Cons x xs)
  obtain k v where x: "x = (k, v)" by (cases x)
  from Cons.prems(1) x obtain b where b: "param_bytes v6 params k v = Some b" by auto
  let ?i = "param_index params k"
  let ?res = "res[?i := b]"
  have kin: "gm_get params k \<noteq> None" using b by (auto simp: param_bytes_def split: option.splits)
  have i: "?i < length res" using Cons.prems(2) kin by (auto simp: indices_ok_def)
  have "indices_ok params (length ?res)" using Cons.prems(2) by simp
  moreover have "\<forall>(k, v) \<in> set xs. param_bytes v6 params k v \<noteq> None" "distinct (map fst xs)"
    using Cons.prems(1,3) by auto
  ultimately obtain res1 where r: "fold_built (add_param v6 name params) xs ?res = Some (Inr res1)" "length res1 = length ?res"
    "\<forall>(k, v) \<in> set xs. param_bytes v6 params k v = Some (res1 ! param_index params k)"
    "\<forall>i. i \<notin> param_index params ` fst ` set xs \<longrightarrow> res1 ! i = ?res ! i"
    using Cons.IH [of ?res] by blast
  have "?i \<notin> param_index params ` fst ` set xs"
  proof
    assume "?i \<in> param_index params ` fst ` set xs"
    then obtain k' v' where kv: "(k', v') \<in> set xs" "param_index params k' = ?i" by auto
    then have "gm_get params k' \<noteq> None"
      using Cons.prems(1) x by (auto simp: param_bytes_def split: option.splits)
    with kin kv Cons.prems(2) have "k' = k" by (auto simp: indices_ok_def inj_on_def)
    with kv Cons.prems(3) x show False by force
  qed
  with r(4) i have "res1 ! ?i = b" by simp
  moreover have "fold_built (add_param v6 name params) (x # xs) res = Some (Inr res1)"
    using r(1) add_param_good [OF b Cons.prems(2)] x by simp
  ultimately show ?case using r x b by (intro exI [of _ res1]) auto
qed simp

text \<open>The map of the parameters of an action.\<close>

lemma gm_put_new: "k \<notin> set (gm_keys m) \<Longrightarrow> gm_put k v m = m @ [(k, v)]"
  by (induction m) auto

lemma fold_put_map:
  "distinct (map f xs) \<Longrightarrow> fold (\<lambda>x. gm_put (f x) x) xs [] = map (\<lambda>x. (f x, x)) xs"
proof (induction xs rule: rev_induct)
  case (snoc x xs)
  then have "gm_put (f x) x (map (\<lambda>x. (f x, x)) xs) = map (\<lambda>x. (f x, x)) xs @ [(f x, x)]"
    by (intro gm_put_new) (auto simp: comp_def)
  with snoc show ?case by simp
qed simp

lemma getActionParamsMap_eq:
  "distinct (map paramName (Params a)) \<Longrightarrow> getActionParamsMap a = map (\<lambda>q. (paramName q, q)) (Params a)"
  unfolding getActionParamsMap_def by (rule fold_put_map)

lemma getMatchMap_eq:
  "distinct (map mfName (MatchFields t)) \<Longrightarrow> getMatchMap t = map (\<lambda>q. (mfName q, q)) (MatchFields t)"
  unfolding getMatchMap_def by (rule fold_put_map)

lemma keyed_get:
  "distinct (map f xs) \<Longrightarrow> gm_get (map (\<lambda>x. (f x, x)) xs) k = Some x \<longleftrightarrow> x \<in> set xs \<and> f x = k"
  by (subst map_of_eq_Some_iff) (auto simp: comp_def)

lemma keyed_get_None: "gm_get (map (\<lambda>x. (f x, x)) xs) k = None \<longleftrightarrow> k \<notin> f ` set xs"
  by (auto simp: map_of_eq_None_iff image_image)

section \<open>Actions\<close>

text \<open>Parameters are numbered from 1 in the order of the list, as the P4 compiler writes them.\<close>

definition numbered_action :: "p4_action \<Rightarrow> bool" where
  "numbered_action a \<longleftrightarrow> distinct (map paramName (Params a)) \<and> length (Params a) < 2 ^ 32
     \<and> map paramId (Params a) = map (\<lambda>i. word_of_nat (Suc i)) [0..<length (Params a)]"

definition encode_param :: "(string \<Rightarrow> byte list option) \<Rightarrow> (string, string) gomap \<Rightarrow> p4_param \<Rightarrow> byte list option" where
  "encode_param v6 raw q =
     (case gm_get raw (paramName q) of
        None \<Rightarrow> None
      | Some v \<Rightarrow> actionParamOrMatchValueToBytes v6 v (sint (paramBitwidth q)))"

lemma numbered_index:
  assumes "numbered_action a" and "i < length (Params a)"
  shows "param_index (getActionParamsMap a) (paramName (Params a ! i)) = i"
proof -
  have d: "distinct (map paramName (Params a))" using assms(1) by (simp add: numbered_action_def)
  have "gm_get (getActionParamsMap a) (paramName (Params a ! i)) = Some (Params a ! i)"
    using assms(2) by (simp add: getActionParamsMap_eq [OF d] keyed_get [OF d])
  moreover have "paramId (Params a ! i) = word_of_nat (Suc i)"
    using assms by (metis (no_types, lifting) numbered_action_def length_map length_upt nth_map nth_upt add_0 diff_zero)
  moreover have "unat (word_of_nat (Suc i) - 1 :: uint32) = i"
  proof -
    have "word_of_nat (Suc i) - 1 = (word_of_nat i :: uint32)" by simp
    moreover have "i < 2 ^ 32" using assms by (simp add: numbered_action_def)
    ultimately show ?thesis by (simp add: unat_of_nat)
  qed
  ultimately show ?thesis by (simp add: param_index_def)
qed

lemma numbered_indices_ok: 
  assumes "numbered_action a"
  shows "indices_ok (getActionParamsMap a) (length (Params a))"
proof -
  have d: "distinct (map paramName (Params a))" using assms by (simp add: numbered_action_def)
  have known: "\<exists>i < length (Params a). k = paramName (Params a ! i)" if "gm_get (getActionParamsMap a) k \<noteq> None" for k
    using that by (auto simp: getActionParamsMap_eq [OF d] keyed_get_None in_set_conv_nth)
  have "param_index (getActionParamsMap a) k < length (Params a)" if "gm_get (getActionParamsMap a) k = Some q" for k q
    using known [of k] that numbered_index [OF assms] by auto
  moreover have "k = k'" if "gm_get (getActionParamsMap a) k \<noteq> None" "gm_get (getActionParamsMap a) k' \<noteq> None"
    "param_index (getActionParamsMap a) k = param_index (getActionParamsMap a) k'" for k k'
    using known [OF that(1)] known [OF that(2)] that(3) numbered_index [OF assms] by auto
  ultimately show ?thesis unfolding indices_ok_def inj_on_def by blast
qed

lemma those_map_nth: "those (map f xs) = Some ys \<longleftrightarrow> length ys = length xs \<and> (\<forall>i < length xs. f (xs ! i) = Some (ys ! i))"
proof (induction xs arbitrary: ys)
  case (Cons x xs)
  show ?case
  proof (cases ys)
    case (Cons z zs)
    then show ?thesis by (cases "f x") (auto simp: Cons.IH All_less_Suc2)
  qed (auto split: option.splits)
qed auto

lemma encode_param_bytes:
  assumes "numbered_action a" and "gm_wf raw" and "i < length (Params a)" and "gm_get raw (paramName (Params a ! i)) = Some v"
  shows "encode_param v6 raw (Params a ! i) = param_bytes v6 (getActionParamsMap a) (paramName (Params a ! i)) v"
proof -
  have d: "distinct (map paramName (Params a))" using assms(1) by (simp add: numbered_action_def)
  have "gm_get (getActionParamsMap a) (paramName (Params a ! i)) = Some (Params a ! i)"
    using assms(3) by (simp add: getActionParamsMap_eq [OF d] keyed_get [OF d])
  with assms(4) show ?thesis by (simp add: encode_param_def param_bytes_def)
qed

definition action_encoding :: "(string \<Rightarrow> byte list option) \<Rightarrow> p4_action \<Rightarrow> (string, string) gomap \<Rightarrow> byte list list option" where
  "action_encoding v6 a raw =
     (if set (gm_keys raw) = paramName ` set (Params a) then those (map (encode_param v6 raw) (Params a)) else None)"

lemma all_params_good:
  assumes "numbered_action a" and "gm_wf raw" and "length (Params a) = length raw"
  shows "(\<forall>(k, v) \<in> set raw. param_bytes v6 (getActionParamsMap a) k v \<noteq> None) \<longleftrightarrow> action_encoding v6 a raw \<noteq> None"
proof -
  have d: "distinct (map paramName (Params a))" using assms(1) by (simp add: numbered_action_def)
  have get: "gm_get raw k = Some v \<longleftrightarrow> (k, v) \<in> set raw" for k v using assms(2) by simp
  have known: "param_bytes v6 (getActionParamsMap a) k v \<noteq> None \<Longrightarrow> k \<in> paramName ` set (Params a)" for k v
    by (auto simp: param_bytes_def getActionParamsMap_eq [OF d] keyed_get [OF d] split: option.splits)
  show ?thesis
  proof
    assume good: "\<forall>(k, v) \<in> set raw. param_bytes v6 (getActionParamsMap a) k v \<noteq> None"
    then have "set (gm_keys raw) \<subseteq> paramName ` set (Params a)" using known by fastforce
    moreover have "card (set (gm_keys raw)) = card (paramName ` set (Params a))"
      using assms(2,3) d by (metis distinct_card length_map set_map)
    ultimately have eq: "set (gm_keys raw) = paramName ` set (Params a)" by (intro card_subset_eq) auto
    have "encode_param v6 raw q \<noteq> None" if "q \<in> set (Params a)" for q
    proof -
      from that eq obtain v where v: "(paramName q, v) \<in> set raw" by fastforce
      from that obtain i where i: "i < length (Params a)" "q = Params a ! i" by (auto simp: in_set_conv_nth)
      from encode_param_bytes [OF assms(1,2) i(1), of v v6] get v i good show ?thesis by auto
    qed
    then have "\<exists>ys. those (map (encode_param v6 raw) (Params a)) = Some ys"
      unfolding those_map_nth
      by (intro exI [of _ "map (the \<circ> encode_param v6 raw) (Params a)"]) auto
    with eq show "action_encoding v6 a raw \<noteq> None" by (auto simp: action_encoding_def)
  next
    assume "action_encoding v6 a raw \<noteq> None"
    then obtain ys where eq: "set (gm_keys raw) = paramName ` set (Params a)"
      and ys: "those (map (encode_param v6 raw) (Params a)) = Some ys"
      by (auto simp: action_encoding_def split: if_splits)
    have "param_bytes v6 (getActionParamsMap a) k v \<noteq> None" if kv: "(k, v) \<in> set raw" for k v
    proof -
      from kv have "k \<in> set (gm_keys raw)" by force
      with eq obtain i where i: "i < length (Params a)" "k = paramName (Params a ! i)" by (auto simp: in_set_conv_nth)
      from ys i(1) have "encode_param v6 raw (Params a ! i) \<noteq> None" by (auto simp: those_map_nth)
      with encode_param_bytes [OF assms(1,2) i(1), of v v6] get kv i(2) show ?thesis by simp
    qed
    then show "\<forall>(k, v) \<in> set raw. param_bytes v6 (getActionParamsMap a) k v \<noteq> None" by blast
  qed
qed

lemma BuildActionEntry_cases:
  assumes "connP4info p = Some info" and "connector_action info name = Inr a" and "numbered_action a" and "gm_wf raw"
    and "is_order (paramOrder ords)"
  shows "case action_encoding v6 a raw of
      None \<Rightarrow> \<exists>e. BuildActionEntry v6 ords p name raw = Some (Inl e)
    | Some ps \<Rightarrow> BuildActionEntry v6 ords p name raw = Some (Inr \<lparr>actionEntryName = name, actionParams = ps\<rparr>)"
proof -
  let ?m = "getActionParamsMap a" and ?xs = "gm_range (paramOrder ords) raw"
  have d: "distinct (map paramName (Params a))" using assms(3) by (simp add: numbered_action_def)
  have len: "length ?m = length (Params a)" by (simp add: getActionParamsMap_eq [OF d])
  have xs: "set ?xs = set raw" "distinct (map fst ?xs)"
    using set_gm_range [OF assms(5,4)] mset_gm_range [OF assms(5,4)] assms(4)
    by (simp, metis mset_eq_imp_distinct_iff mset_map)
  show ?thesis
  proof (cases "length (Params a) = length raw")
    case False
    have "action_encoding v6 a raw = None"
    proof (rule ccontr)
      assume "action_encoding v6 a raw \<noteq> None"
      then have "card (set (gm_keys raw)) = card (set (map paramName (Params a)))"
        by (auto simp: action_encoding_def split: if_splits)
      with False d assms(4) show False by (metis distinct_card length_map)
    qed
    with False len assms(1,2) show ?thesis by (simp add: BuildActionEntry_def Let_def)
  next
    case True
    have ok: "indices_ok ?m (length (replicate (length raw) ([] :: byte list)))"
      using numbered_indices_ok [OF assms(3)] True by simp
    note good = all_params_good [OF assms(3,4) True, of v6]
    show ?thesis
    proof (cases "action_encoding v6 a raw")
      case None
      with good have "\<exists>(k, v) \<in> set ?xs. param_bytes v6 ?m k v = None" unfolding xs(1) by blast
      from add_param_loop_bad [OF this ok, where name = name] obtain e where
        "fold_built (add_param v6 name ?m) ?xs (replicate (length raw) []) = Some (Inl e)" by blast
      with None True len assms(1,2) show ?thesis by (simp add: BuildActionEntry_def Let_def)
    next
      case (Some ps)
      with good xs(1) have "\<forall>(k, v) \<in> set ?xs. param_bytes v6 ?m k v \<noteq> None" by auto
      from add_param_loop_good [OF this ok xs(2), where name = name] obtain res where res:
        "fold_built (add_param v6 name ?m) ?xs (replicate (length raw) []) = Some (Inr res)" "length res = length raw"
        "\<forall>(k, v) \<in> set ?xs. param_bytes v6 ?m k v = Some (res ! param_index ?m k)"
        by (simp only: length_replicate) blast
      have "res = ps"
      proof (rule nth_equalityI)
        have ps: "length ps = length (Params a)" "\<forall>i < length (Params a). encode_param v6 raw (Params a ! i) = Some (ps ! i)"
          using Some by (auto simp: action_encoding_def those_map_nth split: if_splits)
        show "length res = length ps" using ps(1) res(2) True by simp
        fix i assume "i < length res"
        then have i: "i < length (Params a)" using res(2) True by simp
        have "paramName (Params a ! i) \<in> set (gm_keys raw)"
          using Some i by (auto simp: action_encoding_def split: if_splits)
        then obtain v where v: "(paramName (Params a ! i), v) \<in> set raw" by auto
        then have "encode_param v6 raw (Params a ! i) = param_bytes v6 ?m (paramName (Params a ! i)) v"
          using encode_param_bytes [OF assms(3,4) i] assms(4) by simp
        also have "\<dots> = Some (res ! i)"
          using res(3) v xs(1) numbered_index [OF assms(3) i] by fastforce
        finally show "res ! i = ps ! i" using ps(2) i by simp
      qed
      with res(1) Some True len assms(1,2) show ?thesis by (simp add: BuildActionEntry_def Let_def)
    qed
  qed
qed

section \<open>Keys\<close>

definition typed_table :: "p4_table \<Rightarrow> bool" where
  "typed_table t \<longleftrightarrow> distinct (map mfName (MatchFields t))
     \<and> list_all (\<lambda>mf. case mfMatch mf of MatchTypeIs _ \<Rightarrow> True | OtherMatchType _ \<Rightarrow> False) (MatchFields t)"

definition match_of ::
  "(string \<Rightarrow> byte list option) \<Rightarrow> p4_table \<Rightarrow> string \<Rightarrow> string \<Rightarrow> match_value option" where
  "match_of v6 t k v =
     (case find (\<lambda>mf. mfName mf = k) (MatchFields t) of
        None \<Rightarrow> None
      | Some mf \<Rightarrow>
          (case mfMatch mf of
             OtherMatchType _ \<Rightarrow> None
           | MatchTypeIs kind \<Rightarrow>
               (case parse_match v6 kind v (sint (mfBitwidth mf)) of ParsedMatch x \<Rightarrow> Some x | _ \<Rightarrow> None)))"

lemma keyed_find: "gm_get (map (\<lambda>x. (f x, x)) xs) k = find (\<lambda>x. f x = k) xs"
  by (induction xs) auto

lemma add_match_bad:
  assumes "typed_table t" and "match_of v6 t k v = None"
  shows "\<exists>e. add_match v6 name (getMatchMap t) (k, v) res = Some (Inl e)"
proof -
  have g: "gm_get (getMatchMap t) k = find (\<lambda>mf. mfName mf = k) (MatchFields t)"
    using assms(1) by (simp add: typed_table_def getMatchMap_eq keyed_find)
  show ?thesis
  proof (cases "find (\<lambda>mf. mfName mf = k) (MatchFields t)")
    case (Some mf)
    then have "mf \<in> set (MatchFields t)" by (auto simp: find_Some_iff)
    with assms(1) have "case mfMatch mf of MatchTypeIs _ \<Rightarrow> True | OtherMatchType _ \<Rightarrow> False"
      by (simp add: typed_table_def list_all_iff)
    with assms(2) Some g show ?thesis
      by (cases "mfMatch mf") (auto simp: add_match_def match_of_def split: parsed.splits)
  qed (simp add: add_match_def g)
qed

lemma add_match_good:
  assumes "typed_table t" and "match_of v6 t k v = Some x"
  shows "add_match v6 name (getMatchMap t) (k, v) res = Some (Inr (gm_put k x res))"
proof -
  have g: "gm_get (getMatchMap t) k = find (\<lambda>mf. mfName mf = k) (MatchFields t)"
    using assms(1) by (simp add: typed_table_def getMatchMap_eq keyed_find)
  from assms(2) show ?thesis
    by (auto simp: add_match_def match_of_def g split: option.splits match_kind.splits parsed.splits)
qed

lemma add_match_loop_bad:
  "\<exists>(k, v) \<in> set xs. match_of v6 t k v = None \<Longrightarrow> typed_table t \<Longrightarrow>
     \<exists>e. fold_built (add_match v6 name (getMatchMap t)) xs res = Some (Inl e)"
proof (induction xs arbitrary: res)
  case (Cons x xs)
  obtain k v where x: "x = (k, v)" by (cases x)
  show ?case
  proof (cases "match_of v6 t k v")
    case None
    from add_match_bad [OF Cons.prems(2) None] obtain e where "add_match v6 name (getMatchMap t) (k, v) res = Some (Inl e)" by blast
    with x show ?thesis by simp
  next
    case (Some b)
    with add_match_good [OF Cons.prems(2) Some] Cons x show ?thesis by simp
  qed
qed simp

definition matches_of :: "(string \<Rightarrow> byte list option) \<Rightarrow> p4_table \<Rightarrow> (string \<times> string) list \<Rightarrow> (string, match_value) gomap" where
  "matches_of v6 t = map (\<lambda>(k, v). (k, the (match_of v6 t k v)))"

lemma add_match_loop_good:
  assumes "\<forall>(k, v) \<in> set xs. match_of v6 t k v \<noteq> None" and "typed_table t" and "distinct (map fst xs)"
    and "\<forall>x \<in> set xs. fst x \<notin> set (gm_keys res)"
  shows "fold_built (add_match v6 name (getMatchMap t)) xs res = Some (Inr (res @ matches_of v6 t xs))"
  using assms
proof (induction xs arbitrary: res)
  case (Cons x xs)
  obtain k v where x: "x = (k, v)" by (cases x)
  from Cons.prems(1) x obtain m where m: "match_of v6 t k v = Some m" by auto
  have new: "gm_put k m res = res @ [(k, m)]" using Cons.prems(4) x by (intro gm_put_new) simp
  have "\<forall>x \<in> set xs. fst x \<notin> set (gm_keys (res @ [(k, m)]))" using Cons.prems(3,4) x by force
  moreover have "\<forall>(k, v) \<in> set xs. match_of v6 t k v \<noteq> None" "distinct (map fst xs)" using Cons.prems(1,3) by auto
  ultimately have "fold_built (add_match v6 name (getMatchMap t)) xs (res @ [(k, m)]) = Some (Inr ((res @ [(k, m)]) @ matches_of v6 t xs))"
    using Cons.IH Cons.prems(2) by blast
  with add_match_good [OF Cons.prems(2) m] x m new show ?case by (simp add: matches_of_def)
qed (simp add: matches_of_def)

lemma BuildMatchEntry_cases:
  assumes "connP4info p = Some info" and "connector_table info name = Inr t" and "typed_table t" and "gm_wf raw"
    and "is_order (matchOrder ords)"
  shows "if \<exists>(k, v) \<in> set raw. match_of v6 t k v = None
     then \<exists>e. BuildMatchEntry v6 ords p name raw = Some (Inl e)
     else BuildMatchEntry v6 ords p name raw = Some (Inr (matches_of v6 t (gm_range (matchOrder ords) raw)))"
proof -
  let ?xs = "gm_range (matchOrder ords) raw"
  have xs: "set ?xs = set raw" "distinct (map fst ?xs)"
    using set_gm_range [OF assms(5,4)] mset_gm_range [OF assms(5,4)] assms(4)
    by (simp, metis mset_eq_imp_distinct_iff mset_map)
  have B: "BuildMatchEntry v6 ords p name raw = fold_built (add_match v6 name (getMatchMap t)) ?xs []"
    using assms(1,2) by (simp add: BuildMatchEntry_def)
  show ?thesis
  proof (cases "\<exists>(k, v) \<in> set raw. match_of v6 t k v = None")
    case True
    then show ?thesis using add_match_loop_bad [of ?xs v6 t name "[]"] assms(3) unfolding B xs(1) by (simp only: if_True)
  next
    case False
    then have "\<forall>(k, v) \<in> set ?xs. match_of v6 t k v \<noteq> None" unfolding xs(1) by blast
    with False show ?thesis using add_match_loop_good [of ?xs v6 t "[]" name] assms(3) xs(2) unfolding B
      by (simp only: if_False) simp
  qed
qed

section \<open>Routes\<close>

lemma dec_digits_length: "n < 256 \<Longrightarrow> length (dec_digits n) \<in> {1, 2, 3}"
proof -
  assume n: "n < 256"
  consider "n < 10" | "10 \<le> n" "n div 10 < 10" | "10 \<le> n div 10" by linarith
  then show ?thesis
  proof cases
    case 3
    have "n div 10 div 10 < 10" using n by (simp add: div_mult2_eq [symmetric] less_mult_imp_div_less)
    with 3 show ?thesis by (subst dec_digits.simps, subst dec_digits.simps, subst dec_digits.simps) simp
  next
    case 2
    then show ?thesis by (subst dec_digits.simps, subst dec_digits.simps) simp
  qed (simp add: dec_digits.simps)
qed

lemma fmt_uint_digits: "c \<in> set (fmt_uint n) \<Longrightarrow> char_digit c \<noteq> None"
  using dec_digits_bound by (auto simp: fmt_uint_def)

lemma dec13_fmt: "n < 256 \<Longrightarrow> r \<in> set (dec13 (fmt_uint n @ r))"
proof -
  assume "n < 256"
  from dec_digits_length [OF this] have "length (fmt_uint n) \<in> {1, 2, 3}" by (simp add: fmt_uint_def)
  moreover have "list_all (\<lambda>c. char_digit c \<noteq> None) (fmt_uint n)" using fmt_uint_digits by (auto simp: list_all_iff)
  moreover have "drop (length (fmt_uint n)) (fmt_uint n @ r) = r" "take (length (fmt_uint n)) (fmt_uint n @ r) = fmt_uint n" by simp_all
  ultimately show ?thesis unfolding dec13_def set_map set_filter
    by (intro image_eqI [of _ _ "length (fmt_uint n)"]) auto
qed

lemma dotted_eq: "dotted v = fmt_uint (octet v 3) @ CHR ''.'' # fmt_uint (octet v 2) @ CHR ''.'' # fmt_uint (octet v 1) @ CHR ''.'' # fmt_uint (octet v 0)"
  by (simp add: dotted_def)

lemma bind_member: "y \<in> set xs \<Longrightarrow> z \<in> set (f y) \<Longrightarrow> z \<in> set (List.bind xs f)"
  by (auto simp: List.bind_def)

lemma dot_step:
  assumes "n < 256" and "z \<in> set (f r)"
  shows "z \<in> set (List.bind (dec13 (fmt_uint n @ CHR ''.'' # r)) (\<lambda>a. List.bind (rest_after CHR ''.'' a) f))"
proof (rule bind_member)
  show "CHR ''.'' # r \<in> set (dec13 (fmt_uint n @ CHR ''.'' # r))" by (rule dec13_fmt [OF assms(1)])
  show "z \<in> set (List.bind (rest_after CHR ''.'' (CHR ''.'' # r)) f)"
    using assms(2) by (simp add: rest_after_def List.bind_def)
qed

lemma ipv4_at_dotted: "[] \<in> set (ipv4_at (dotted v))"
proof -
  have "[] \<in> set (dec13 (fmt_uint (octet v 0)))" using dec13_fmt [OF octet_less, of "[]" v 0] by simp
  then show ?thesis
    unfolding ipv4_at_def dotted_eq by (intro dot_step octet_less)
qed

lemma regex_dotted: "IP_V4_REGEX_MatchString (dotted v)"
proof -
  have "dotted v \<in> set (tails (dotted v))" by (cases "dotted v") simp_all
  with ipv4_at_dotted [of v] show ?thesis
    unfolding IP_V4_REGEX_MatchString_def list_ex_iff by (intro bexI [of _ "dotted v"]) auto
qed

lemma ipv4_octet_fmt: "n < 256 \<Longrightarrow> ipv4_octet (fmt_uint n) = Some (word_of_nat n)"
proof -
  assume n: "n < 256"
  have "\<not> (hd (fmt_uint n) = CHR ''0'' \<and> 1 < length (fmt_uint n))"
  proof
    assume a: "hd (fmt_uint n) = CHR ''0'' \<and> 1 < length (fmt_uint n)"
    have "n \<noteq> 0"
    proof
      assume "n = 0"
      then have "length (fmt_uint n) = 1" by (simp add: fmt_uint_def dec_digits.simps)
      with a show False by simp
    qed
    then have "hd (dec_digits n) \<noteq> 0" by (rule dec_digits_lead)
    moreover have b: "hd (dec_digits n) < 10" using dec_digits_bound [of "hd (dec_digits n)" n] by simp
    moreover have "digit_char (hd (dec_digits n)) = CHR ''0''" using a by (simp add: fmt_uint_def hd_map)
    then have "char_digit (CHR ''0'') = Some (hd (dec_digits n))" using b char_digit_digit_char by metis
    ultimately show False by (simp add: char_digit_def)
  qed
  then show ?thesis using n unfolding ipv4_octet_def by (simp add: fmt_uint_def digits_value_dec_digits)
qed

lemma byte_mod: "(word_of_nat (n mod 256) :: byte) = word_of_nat n"
  by (simp add: word_unat_eq_iff unat_of_nat)

lemma be_bytes_octets: "be_bytes 4 v = map (\<lambda>i. word_of_nat (octet v i)) [3, 2, 1, 0]"
proof -
  have "be_bytes 4 v = map (\<lambda>i. word_of_nat (v div 2 ^ (8 * (3 - i)))) [0, 1, 2, 3]"
    by (simp add: be_bytes_def upt_rec)
  also have "\<dots> = map (\<lambda>i. word_of_nat (octet v i)) [3, 2, 1, 0]"
    by (simp only: octet_def byte_mod) simp
  finally show ?thesis .
qed

lemma parse_dotted: "ParseIP_To4 v6 (dotted v) = Some (be_bytes 4 v)"
proof -
  have "find (\<lambda>c. c = CHR ''.'' \<or> c = CHR '':'' \<or> c = CHR ''%'') (xs @ CHR ''.'' # ys) = Some (CHR ''.'')"
    if "\<forall>c \<in> set xs. char_digit c \<noteq> None" for xs ys
    using that by (induction xs) (auto simp: char_digit_def)
  moreover have "\<forall>c \<in> set (fmt_uint (octet v 3)). char_digit c \<noteq> None" using fmt_uint_digits by blast
  ultimately have "find (\<lambda>c. c = CHR ''.'' \<or> c = CHR '':'' \<or> c = CHR ''%'') (dotted v) = Some (CHR ''.'')"
    unfolding dotted_eq by blast
  moreover have "parseIPv4 (dotted v) = Some (be_bytes 4 v)"
    by (simp add: parseIPv4_def split_dotted ipv4_octet_fmt octet_less be_bytes_octets)
  ultimately show ?thesis by (simp add: ParseIP_To4_def)
qed

lemma split_str_sep:
  "c \<notin> set a \<Longrightarrow> c \<notin> set b \<Longrightarrow> split_str [c] (a @ c # b) = [a, b]"
proof (induction a)
  case Nil
  have "c \<notin> set b \<Longrightarrow> split_str [c] b = [b]" by (induction b) auto
  with Nil show ?case by simp
qed auto

lemma no_slash_fmt: "CHR ''/'' \<notin> set (fmt_uint n)"
proof
  assume "CHR ''/'' \<in> set (fmt_uint n)"
  from fmt_uint_digits [OF this] show False by (simp add: char_digit_def)
qed

lemma radix_inject:
  assumes "a * 256 + x = b * 256 + y" and "x < 256" and "y < (256 :: nat)"
  shows "a = b \<and> x = y"
proof -
  have "(a * 256 + x) div 256 = a" "(b * 256 + y) div 256 = b" using assms(2,3) by simp_all
  with assms(1) show ?thesis by simp
qed

lemma be_value_inject: "length xs = length ys \<Longrightarrow> be_value xs = be_value ys \<Longrightarrow> xs = ys"
proof (induction xs arbitrary: ys rule: rev_induct)
  case (snoc x xs)
  then obtain z zs where ys: "ys = zs @ [z]" by (cases ys rule: rev_cases) auto
  have "unat x < 256" "unat z < 256" using unsigned_less [of x] unsigned_less [of z] by simp_all
  moreover have "be_value xs * 256 + unat x = be_value zs * 256 + unat z" using snoc.prems ys by simp
  ultimately have "be_value xs = be_value zs" "unat x = unat z" using radix_inject by blast+
  with snoc ys show ?case by (simp add: word_unat_eq_iff)
qed simp

lemma route_on_wire:
  assumes "v < 2 ^ 32" and "m \<le> 32" and "Ipv4 l = dotted v" and "Mask l = int m"
  shows "\<exists>net. network_of l = Some net \<and>
    parse_match v6 MatchLPM net 32 = ParsedMatch (LpmMatch (be_bytes 4 (network_number v m)) (word_of_nat m))"
proof -
  have "split_str ''/'' (dotted (network_number v m) @ ''/'' @ fmt_uint m) = [dotted (network_number v m), fmt_uint m]"
    using split_str_sep [OF no_slash no_slash_fmt, of "network_number v m" m] by simp
  moreover have "actionParamOrMatchValueToBytes v6 (dotted w) 32 = Some (be_bytes 4 w)" for w
    by (simp add: actionParamOrMatchValueToBytes_def regex_dotted IpToBinary_def parse_dotted)
  moreover have "ParseUint10 (fmt_uint m) 6 = Some m" using assms(2) by (intro ParseUint10_fmt_uint) simp
  ultimately show ?thesis
    using network_of_dotted [OF assms] by (simp add: parse_match_def parse_lpm_def)
qed

lemma lpm_network:
  assumes "v < 2 ^ 32" and "m \<le> 32"
  shows "lpm_masked (be_bytes 4 (network_number v m)) (int m) = Some (be_bytes 4 (network_number v m))"
proof -
  let ?b = "be_bytes 4 (network_number v m)"
  have lt: "network_number v m < 2 ^ 32" using network_number_le assms(1) le_less_trans by blast
  have val: "be_value ?b = network_number v m" using lt by (simp add: be_value_bytes)
  have "network_number v m div 2 ^ (32 - m) * 2 ^ (32 - m) = network_number v m" by (simp add: network_number_def)
  with lpm_masked_cases [of ?b m] val assms(2) show ?thesis
    by (auto split: option.splits intro: be_value_inject)
qed

end
