(* ===== verification/Bmv2Properties.thy ===== *)
theory Bmv2Properties
  imports Bmv2 ConnectorProofs
begin

text \<open>
  What the manager of a switch sends for an entry: whether an entry can be encoded does not depend on
  the order of the maps, and a deletion addresses the entry that was written.
\<close>

section \<open>Entries on the wire\<close>

text \<open>Two entries a device does not distinguish: the order of the fields is immaterial.\<close>

definition same_entry :: "table_entry \<Rightarrow> table_entry \<Rightarrow> bool" where
  "same_entry e1 e2 \<longleftrightarrow> TableId e1 = TableId e2 \<and> IsDefaultAction e1 = IsDefaultAction e2 \<and> Priority e1 = Priority e2
     \<and> IdleTimeoutNs e1 = IdleTimeoutNs e2 \<and> entryAction e1 = entryAction e2 \<and> mset (entryMatch e1) = mset (entryMatch e2)"

lemma those_Some: "those xs = Some ys \<longleftrightarrow> xs = map Some ys"
proof (induction xs arbitrary: ys)
  case (Cons x xs)
  show ?case by (cases ys; cases x) (auto simp: Cons.IH)
qed auto

lemma those_None: "those xs = None \<longleftrightarrow> None \<in> set xs"
  by (induction xs) (auto split: option.splits)

lemma mset_map_Some: "mset (map Some xs) = mset (map Some ys) \<Longrightarrow> mset xs = mset ys"
proof -
  assume "mset (map Some xs) = mset (map Some ys)"
  then have "image_mset the (mset (map Some xs)) = image_mset the (mset (map Some ys))" by simp
  then show ?thesis by (simp only: mset_map [symmetric] map_map comp_def option.sel map_ident)
qed

definition orders_ok :: "build_orders \<Rightarrow> bool" where
  "orders_ok ords \<longleftrightarrow> is_order (matchOrder ords) \<and> is_order (paramOrder ords) \<and> is_order (fieldOrder ords)"

lemma protobuf_same:
  assumes "entryTable c1 = entryTable c2" and "entryActionEntry c1 = entryActionEntry c2"
    and m: "mset (entryMatches c1) = mset (entryMatches c2)" and wf: "gm_wf (entryMatches c1)"
    and o: "orders_ok o1" "orders_ok o2"
  shows "rel_option same_entry (mapToProtobufTableEntry o1 p c1) (mapToProtobufTableEntry o2 p c2)"
proof (cases "p4rtc p")
  case (Some c)
  have wf2: "gm_wf (entryMatches c2)" using m wf by (metis mset_eq_imp_distinct_iff mset_map)
  let ?r1 = "gm_range (fieldOrder o1) (entryMatches c1)" and ?r2 = "gm_range (fieldOrder o2) (entryMatches c2)"
  let ?f = "\<lambda>(name, mf). match_get mf (matchFieldId c (entryTable c2) name) (CanonicalBytestrings c)"
  have r: "mset ?r1 = mset ?r2" 
    using mset_gm_range [of "fieldOrder o1", OF _ wf] mset_gm_range [of "fieldOrder o2", OF _ wf2] m o
    by (simp add: orders_ok_def)
  have t: "list_ex is_ternary (map snd (entryMatches c1)) = list_ex is_ternary (map snd (entryMatches c2))"
    using mset_eq_setD [OF m] by (simp add: list_ex_iff)
  show ?thesis
  proof (cases "those (map ?f ?r1)")
    case None
    then have "those (map ?f ?r2) = None" using mset_eq_setD [OF r] by (simp add: those_None)
    with None Some assms(1) show ?thesis
      by (simp add: mapToProtobufTableEntry_def NewTableEntry_def)
  next
    case (Some ms1)
    then have "None \<notin> set (map ?f ?r1)" by (simp only: those_None [symmetric]) simp
    then have "None \<notin> set (map ?f ?r2)" by (simp only: set_map mset_eq_setD [OF r] not_False_eq_True)
    then have "those (map ?f ?r2) \<noteq> None" by (simp only: those_None not_False_eq_True)
    then obtain ms2 where ms2: "those (map ?f ?r2) = Some ms2" by blast
    have "mset (map Some ms1) = mset (map Some ms2)"
      using Some ms2 r unfolding those_Some by (metis mset_map)
    then have "mset ms1 = mset ms2" by (rule mset_map_Some)
    with Some ms2 \<open>p4rtc p = Some c\<close> assms(1,2) t show ?thesis
      by (simp add: mapToProtobufTableEntry_def NewTableEntry_def same_entry_def)
  qed
qed (simp add: mapToProtobufTableEntry_def)

definition encodable :: "(string \<Rightarrow> byte list option) \<Rightarrow> p4_table \<Rightarrow> p4_action \<Rightarrow> raw_entry \<Rightarrow> bool" where
  "encodable v6 t a e \<longleftrightarrow> \<not> (\<exists>(k, v) \<in> set (Match e). match_of v6 t k v = None) \<and> action_encoding v6 a (ActionParams e) \<noteq> None"

text \<open>The program of a manager knows the table and the action of an entry.\<close>

definition entry_typed :: "p4info \<Rightarrow> p4_table \<Rightarrow> p4_action \<Rightarrow> raw_entry \<Rightarrow> bool" where
  "entry_typed info t a e \<longleftrightarrow> connector_table info (TableName e) = Inr t \<and> typed_table t
     \<and> connector_action info (ActionName e) = Inr a \<and> numbered_action a \<and> gm_wf (Match e) \<and> gm_wf (ActionParams e)"

lemma convertEntry_cases:
  assumes "bmv2Conn b = Some p" and "connP4info p = Some info" and "entry_typed info t a e" and "orders_ok ords"
  shows "if encodable v6 t a e
     then convertEntry v6 ords b e = Some (Inr \<lparr>entryTable = TableName e,
        entryMatches = matches_of v6 t (gm_range (matchOrder ords) (Match e)),
        entryActionEntry = \<lparr>actionEntryName = ActionName e, actionParams = the (action_encoding v6 a (ActionParams e))\<rparr>\<rparr>)
     else \<exists>err. convertEntry v6 ords b e = Some (Inl err)"
proof -
  have t: "connector_table info (TableName e) = Inr t" "typed_table t" "connector_action info (ActionName e) = Inr a" "numbered_action a"
    "gm_wf (Match e)" "gm_wf (ActionParams e)" using assms(3) by (simp_all add: entry_typed_def)
  have o: "is_order (matchOrder ords)" "is_order (paramOrder ords)" using assms(4) by (simp_all add: orders_ok_def)
  note M = BuildMatchEntry_cases [OF assms(2) t(1,2,5) o(1), of v6]
  note A = BuildActionEntry_cases [OF assms(2) t(3,4,6) o(2), of v6]
  show ?thesis
  proof (cases "\<exists>(k, v) \<in> set (Match e). match_of v6 t k v = None")
    case True
    with M obtain err where "BuildMatchEntry v6 ords p (TableName e) (Match e) = Some (Inl err)" by auto
    with assms(1) have "convertEntry v6 ords b e = Some (Inl err)" by (simp add: convertEntry_def)
    moreover have "\<not> encodable v6 t a e" unfolding encodable_def using True by blast
    ultimately show ?thesis by simp
  next
    case False
    from False M have m: "BuildMatchEntry v6 ords p (TableName e) (Match e) = Some (Inr (matches_of v6 t (gm_range (matchOrder ords) (Match e))))"
      by simp
    show ?thesis
    proof (cases "action_encoding v6 a (ActionParams e)")
      case None
      with A obtain err where "BuildActionEntry v6 ords p (ActionName e) (ActionParams e) = Some (Inl err)" by auto
      with assms(1) m None show ?thesis by (simp add: convertEntry_def encodable_def)
    next
      case (Some ps)
      have "encodable v6 t a e" unfolding encodable_def using False Some by simp
      with Some A assms(1) m show ?thesis by (simp add: convertEntry_def)
    qed
  qed
qed


lemma matches_of_wf: "gm_wf m \<Longrightarrow> is_order ord \<Longrightarrow> gm_wf (matches_of v6 t (gm_range ord m))"
proof -
  assume "gm_wf m" "is_order ord"
  then have "mset (gm_range ord m) = mset m" by (simp add: mset_gm_range)
  then have "mset (gm_keys (gm_range ord m)) = mset (gm_keys m)" by (metis mset_map)
  with \<open>gm_wf m\<close> have "gm_wf (gm_range ord m)" by (metis mset_eq_imp_distinct_iff)
  moreover have "gm_keys (matches_of v6 t xs) = gm_keys xs" for xs by (simp add: matches_of_def comp_def case_prod_beta)
  ultimately show ?thesis by simp
qed

lemma write_then_delete:
  assumes "bmv2Conn b = Some p" and "connP4info p = Some info" and "p4rtc p = Some c" and "entry_typed info t a e"
    and "orders_ok o1" and "orders_ok o2"
  shows "if encodable v6 t a e
     then (bmv2_WriteEntry rt v6 o1 b e w = None \<and> bmv2_DeleteEntry rt v6 o2 b e w1 = None)
       \<or> (\<exists>e1 e2. same_entry e1 e2 \<and> bmv2_WriteEntry rt v6 o1 b e w = Some (InsertTableEntry rt c e1 w)
            \<and> bmv2_DeleteEntry rt v6 o2 b e w1 = Some (DeleteTableEntry rt c e2 w1))
     else (\<exists>err1 err2. bmv2_WriteEntry rt v6 o1 b e w = Some (Some err1, w) \<and> bmv2_DeleteEntry rt v6 o2 b e w1 = Some (Some err2, w1))"
proof -
  note C1 = convertEntry_cases [OF assms(1,2,4,5), of v6] and C2 = convertEntry_cases [OF assms(1,2,4,6), of v6]
  show ?thesis
  proof (cases "encodable v6 t a e")
    case True
    let ?c = "\<lambda>ords. \<lparr>entryTable = TableName e, entryMatches = matches_of v6 t (gm_range (matchOrder ords) (Match e)),
        entryActionEntry = \<lparr>actionEntryName = ActionName e, actionParams = the (action_encoding v6 a (ActionParams e))\<rparr>\<rparr>"
    have c: "convertEntry v6 o1 b e = Some (Inr (?c o1))" "convertEntry v6 o2 b e = Some (Inr (?c o2))"
      using C1 C2 True by simp_all
    have wf: "gm_wf (Match e)" using assms(4) by (simp add: entry_typed_def)
    have o: "is_order (matchOrder o1)" "is_order (matchOrder o2)" using assms(5,6) by (simp_all add: orders_ok_def)
    have "mset (gm_range (matchOrder o1) (Match e)) = mset (gm_range (matchOrder o2) (Match e))"
      by (simp add: mset_gm_range [OF o(1) wf] mset_gm_range [OF o(2) wf])
    then have "mset (entryMatches (?c o1)) = mset (entryMatches (?c o2))" by (simp add: matches_of_def)
    moreover have "gm_wf (entryMatches (?c o1))" using matches_of_wf [OF wf o(1)] by simp
    ultimately have "rel_option same_entry (mapToProtobufTableEntry o1 p (?c o1)) (mapToProtobufTableEntry o2 p (?c o2))"
      by (intro protobuf_same assms(5,6)) simp_all
    then have "(mapToProtobufTableEntry o1 p (?c o1) = None \<and> mapToProtobufTableEntry o2 p (?c o2) = None)
        \<or> (\<exists>e1 e2. same_entry e1 e2 \<and> mapToProtobufTableEntry o1 p (?c o1) = Some e1 \<and> mapToProtobufTableEntry o2 p (?c o2) = Some e2)"
      by (auto elim: option.rel_cases)
    moreover have "bmv2_WriteEntry rt v6 o1 b e w = map_option (\<lambda>e1. InsertTableEntry rt c e1 w) (mapToProtobufTableEntry o1 p (?c o1))"
      using assms(1,3) c(1) by (cases "mapToProtobufTableEntry o1 p (?c o1)") (simp_all add: bmv2_WriteEntry_def WriteMatchActionEntry_def)
    moreover have "bmv2_DeleteEntry rt v6 o2 b e w1 = map_option (\<lambda>e2. DeleteTableEntry rt c e2 w1) (mapToProtobufTableEntry o2 p (?c o2))"
      using assms(1,3) c(2) by (cases "mapToProtobufTableEntry o2 p (?c o2)") (simp_all add: bmv2_DeleteEntry_def DeleteMatchActionEntry_def)
    ultimately show ?thesis using True by auto
  next
    case False
    with C1 C2 obtain err1 err2 where "convertEntry v6 o1 b e = Some (Inl err1)" "convertEntry v6 o2 b e = Some (Inl err2)" by auto
    with False show ?thesis by (simp add: bmv2_WriteEntry_def bmv2_DeleteEntry_def)
  qed
qed

text \<open>A P4Info with the forwarding table, and a manager that has installed it.\<close>

definition sample_p4info :: p4info where
  "sample_p4info =
     \<lparr>Tables = [\<lparr>tablePreamble = \<lparr>Id = 33, preName = ''ingress.Forward.ipv4_lpm'', Alias = ''ipv4_lpm''\<rparr>,
        MatchFields = [\<lparr>mfId = 1, mfName = ''hdr.ipv4.dstAddr'', mfBitwidth = 32, mfMatch = MatchTypeIs MatchLPM\<rparr>]\<rparr>],
      Actions = [\<lparr>actionPreamble = \<lparr>Id = 44, preName = ''ingress.Forward.ipv4_forward'', Alias = ''ipv4_forward''\<rparr>,
        Params = [\<lparr>paramId = 1, paramName = ''srcAddr'', paramBitwidth = 48\<rparr>, \<lparr>paramId = 2, paramName = ''dstAddr'', paramBitwidth = 48\<rparr>,
                  \<lparr>paramId = 3, paramName = ''port'', paramBitwidth = 9\<rparr>]\<rparr>],
      ActionProfiles = [], Counters = [], Meters = [], Digests = []\<rparr>"

definition sample_client :: client where
  "sample_client = SetLocalP4Info (Some sample_p4info) (NewClient 0 (0, 1))"

definition sample_manager :: bmv2_manager where
  "sample_manager = \<lparr>grpcAddr = ''127.0.0.1:9559'', bmv2Conn = Some
     \<lparr>deviceAddr = ''127.0.0.1:9559'', connDeviceID = 0, p4rtc = Some sample_client, connP4info = Some sample_p4info\<rparr>\<rparr>"

abbreviation same_order :: build_orders where
  "same_order \<equiv> \<lparr>matchOrder = id, paramOrder = id, fieldOrder = id\<rparr>"

abbreviation other_order :: build_orders where
  "other_order \<equiv> \<lparr>matchOrder = rev, paramOrder = rev, fieldOrder = rev\<rparr>"

definition no_v6 :: "string \<Rightarrow> byte list option" where "no_v6 s = None"

definition sample_route :: raw_entry where
  "sample_route = Forward ''10.0.1.0/24'' ''00:00:0a:00:00:01'' ''00:00:0a:00:00:02'' ''3''"

abbreviation route_table :: p4_table where "route_table \<equiv> hd (Tables sample_p4info)"
abbreviation route_action :: p4_action where "route_action \<equiv> hd (Actions sample_p4info)"

text \<open>A device that keeps the requests it gets.\<close>

definition log_device :: "write_request list p4runtime" where
  "log_device = \<lparr>rpcWrite = (\<lambda>q w. (None, w @ [q])), rpcRead = (\<lambda>_ w. (Inr [], w)),
     rpcSetPipeline = (\<lambda>_ w. (None, w)), rpcGetPipeline = (\<lambda>_ w. (Inr None, w))\<rparr>"

lemma orders_ok_samples: "orders_ok same_order" "orders_ok other_order"
  by (simp_all add: orders_ok_def)

lemma sample_route_typed: "entry_typed sample_p4info route_table route_action sample_route"
  by (simp add: entry_typed_def sample_p4info_def sample_route_def Forward_def connector_table_def connector_action_def
      typed_table_def numbered_action_def upt_rec)

lemma sample_route_encodable: "encodable no_v6 route_table route_action sample_route"
  by code_simp

lemma sample_wire:
  "bmv2_WriteEntry log_device no_v6 same_order sample_manager sample_route [] \<noteq> None"
  by code_simp


text \<open>C33: \<open>BuildActionEntry\<close> agrees with the reference for every order of the parameters: if the given names are those of the
  action and every value has an encoding, the bytes stand in the order of the P4Info; otherwise an error is
  returned. It never panics on an action whose parameters are numbered from 1.\<close>

theorem BuildActionEntry_spec:
  assumes "connP4info p = Some info" and "connector_action info name = Inr a" and "numbered_action a" and "gm_wf raw"
    and "is_order (paramOrder ords)"
  shows "case action_encoding v6 a raw of
      None \<Rightarrow> \<exists>e. BuildActionEntry v6 ords p name raw = Some (Inl e)
    | Some ps \<Rightarrow> BuildActionEntry v6 ords p name raw = Some (Inr \<lparr>actionEntryName = name, actionParams = ps\<rparr>)"
  by (rule BuildActionEntry_cases [OF assms])

theorem BuildActionEntry_spec_witness:
  "\<exists>p. bmv2Conn sample_manager = Some p \<and> BuildActionEntry no_v6 other_order p ''ipv4_forward'' (ActionParams sample_route)
     = Some (Inr \<lparr>actionEntryName = ''ipv4_forward'', actionParams = [[0, 0, 10, 0, 0, 1], [0, 0, 10, 0, 0, 2], [0, 3]]\<rparr>)"
proof -
  obtain p where p: "bmv2Conn sample_manager = Some p" "connP4info p = Some sample_p4info"
    by (simp add: sample_manager_def)
  have a: "connector_action sample_p4info ''ipv4_forward'' = Inr route_action" by code_simp
  have n: "numbered_action route_action" "gm_wf (ActionParams sample_route)"
    using sample_route_typed by (simp_all add: entry_typed_def)
  have o: "is_order (paramOrder other_order)" by simp
  have "action_encoding no_v6 route_action (ActionParams sample_route)
      = Some [[0, 0, 10, 0, 0, 1], [0, 0, 10, 0, 0, 2], [0, 3]]" by code_simp
  with BuildActionEntry_spec [OF p(2) a n o, of no_v6] p(1) show ?thesis by simp
qed

text \<open>C34: whether an entry can be encoded depends on the entry and the P4Info alone, not on the orders in which
  the code ranges over maps; an entry that cannot be encoded is refused with an error before anything is sent;
  otherwise a deletion of the same entry asks the device for an entry with the same table, action,
  priority and fields as the write did, so it addresses the entry that was written.\<close>

theorem delete_addresses_written_entry:
  assumes "bmv2Conn b = Some p" and "connP4info p = Some info" and "p4rtc p = Some c" and "entry_typed info t a e"
    and "orders_ok o1" and "orders_ok o2"
  shows "if encodable v6 t a e
     then (bmv2_WriteEntry rt v6 o1 b e w = None \<and> bmv2_DeleteEntry rt v6 o2 b e w1 = None)
       \<or> (\<exists>e1 e2. same_entry e1 e2 \<and> bmv2_WriteEntry rt v6 o1 b e w = Some (InsertTableEntry rt c e1 w)
            \<and> bmv2_DeleteEntry rt v6 o2 b e w1 = Some (DeleteTableEntry rt c e2 w1))
     else (\<exists>err1 err2. bmv2_WriteEntry rt v6 o1 b e w = Some (Some err1, w) \<and> bmv2_DeleteEntry rt v6 o2 b e w1 = Some (Some err2, w1))"
  by (rule write_then_delete [OF assms])

theorem delete_addresses_written_entry_witness:
  "\<exists>e1 e2. same_entry e1 e2
     \<and> bmv2_WriteEntry log_device no_v6 same_order sample_manager sample_route [] = Some (InsertTableEntry log_device sample_client e1 [])
     \<and> bmv2_DeleteEntry log_device no_v6 other_order sample_manager sample_route [] = Some (DeleteTableEntry log_device sample_client e2 [])"
proof -
  obtain p where p: "bmv2Conn sample_manager = Some p" "connP4info p = Some sample_p4info" "p4rtc p = Some sample_client"
    by (simp add: sample_manager_def)
  from delete_addresses_written_entry [OF p sample_route_typed orders_ok_samples, of no_v6 log_device "[]" "[]"]
  show ?thesis using sample_route_encodable sample_wire by simp
qed

text \<open>C35: a route of the controller reaches the switch unchanged: for every 32-bit address and mask length the
  network that \<open>createIndirectForwardEntries\<close> writes into the key of an entry is read by the connector, in a
  field of 32 bits matched by prefix, and sent as the four bytes of the network number with the mask length.\<close>

theorem route_reaches_switch:
  assumes "v < 2 ^ 32" and "m \<le> 32" and "Ipv4 l = dotted v" and "Mask l = int m"
  shows "\<exists>net x. network_of l = Some net \<and> parse_match v6 MatchLPM net 32 = ParsedMatch x
     \<and> match_get x ident canonical = Some \<lparr>FieldId = ident,
          FieldMatchType = FieldLPM (ToCanonicalIf (be_bytes 4 (network_number v m)) canonical) (word_of_nat m)\<rparr>"
proof -
  have "m < 2 ^ 31" using assms(2) by simp
  then have "sint (word_of_nat m :: int32) = int m"
    by (simp add: signed_take_bit_int_eq_self sint_uint unsigned_of_nat take_bit_nat_eq_self)
  with route_on_wire [OF assms, of v6] lpm_network [OF assms(1,2)] show ?thesis by auto
qed

theorem route_reaches_switch_witness:
  "\<exists>net x. network_of (NewLink ''s1'' [] ''10.0.1.3'' 24) = Some net \<and> parse_match no_v6 MatchLPM net 32 = ParsedMatch x
     \<and> match_get x 1 False = Some \<lparr>FieldId = 1, FieldMatchType = FieldLPM [10, 0, 1, 0] 24\<rparr>"
proof -
  have d: "dotted 167772419 = ''10.0.1.3''"
    by (simp add: dotted_def octet_def fmt_uint_def dec_digits.simps digit_char_def)
  have b: "be_bytes 4 (network_number 167772419 24) = [10, 0, 1, 0]"
    by (simp add: be_bytes_octets octet_def network_number_def)
  from route_reaches_switch [of 167772419 24 "NewLink ''s1'' [] ''10.0.1.3'' 24" no_v6 1 False] d b
  show ?thesis by (simp add: NewLink_def ToCanonicalIf_def)
qed

text \<open>C33: the parser of prefixes reads six bits and does not compare with the width of the field: a key with a
  prefix of 40 is accepted and makes the write panic, one with a prefix of 33 is sent as it is.\<close>

definition long_route :: "string \<Rightarrow> raw_entry" where
  "long_route ip = Forward ip ''00:00:0a:00:00:01'' ''00:00:0a:00:00:02'' ''3''"

definition sent_matches :: "(go_error option \<times> write_request list) option \<Rightarrow> field_match_type list list" where
  "sent_matches r =
     (case r of
        Some (None, qs) \<Rightarrow> List.bind qs (\<lambda>q. List.map_filter (\<lambda>(k, e).
          map_option (\<lambda>te. map FieldMatchType (entryMatch te)) (GetTableEntry e)) (Updates q))
      | _ \<Rightarrow> [])"

theorem long_prefix_panics:
  "encodable no_v6 route_table route_action (long_route ''10.0.1.0/40'')
   \<and> bmv2_WriteEntry log_device no_v6 same_order sample_manager (long_route ''10.0.1.0/40'') [] = None
   \<and> sent_matches (bmv2_WriteEntry log_device no_v6 same_order sample_manager (long_route ''10.0.1.0/33'') [])
        = [[FieldLPM [10, 0, 1, 0] 33]]"
  by (intro conjI; code_simp)

end
