(* ===== verification/Controller.thy ===== *)
theory Controller
  imports Bmv2 Forwarding MeasureTopo
begin

text \<open>
  The controller (\<open>kinda-sdn/controller\<close>): bringing the network up (\<open>controller.go\<close>), changes of the
  network at run time (\<open>networkchanger.go\<close>), the answers of its gRPC services (\<open>frontend.go\<close>) and their
  messages (\<open>mapping.go\<close>). The slice of the topology holds pointers, through which links are added and
  removed; a pointer is an index into the list of devices. What is outside of the program, the
  switches, the files, the parser of P4Info texts and the clock, is in the record \<open>environment\<close>.
\<close>

record 'w environment =
  envNetwork :: "string \<Rightarrow> 'w p4runtime"
  envDialer :: "'w dialer"
  envReadFile :: file_system
  envParse :: p4info_parser
  envV6 :: "string \<Rightarrow> byte list option"
  envOrders :: build_orders
  envError :: "go_error \<Rightarrow> err"

datatype network_change = TopologyChange | ProgramChange

text \<open>\<open>pendingChanges\<close> are the goroutines of \<open>notifyNetworkChanged\<close> that were started.\<close>

record kinda_sdn =
  kRegistry :: registry
  kTopo :: topology
  initialP4Config :: "(device_name, raw_entry list) gomap"
  telemetryService :: telemetry_service
  bmv2Managers :: "(device_name, bmv2_manager) gomap"
  pendingChanges :: "network_change list"

definition NewKindaSdn ::
  "topology \<Rightarrow> registry \<Rightarrow> (device_name, raw_entry list) gomap \<Rightarrow> telemetry_service \<Rightarrow> kinda_sdn" where
  "NewKindaSdn topo r config t =
     \<lparr>kRegistry = r, kTopo = topo, initialP4Config = config, telemetryService = t, bmv2Managers = [], pendingChanges = []\<rparr>"

definition notifyNetworkChanged :: "network_change \<Rightarrow> kinda_sdn \<Rightarrow> kinda_sdn" where
  "notifyNetworkChanged change k = k\<lparr>pendingChanges := pendingChanges k @ [change]\<rparr>"

section \<open>Changes of the network\<close>

text \<open>The device of a name in the graph of a topology: the last one of the slice.\<close>

definition pointer_to :: "device list \<Rightarrow> device_name \<Rightarrow> nat option" where
  "pointer_to ds name = find (\<lambda>i. GetName (ds ! i) = name) (rev [0..<length ds])"

definition link_back :: "device_name \<Rightarrow> link" where
  "link_back name = NewLink name ''00:00:00:00:00:00'' ''00.00.00.00'' 0"

fun add_links :: "device_name \<Rightarrow> link list \<Rightarrow> device list \<Rightarrow> go_error option \<times> device list" where
  "add_links name [] ds = (None, ds)"
| "add_links name (l # ls) ds =
     (case pointer_to ds (To l) of
        None \<Rightarrow> (Some (Errorf (''device '' @ name @ '' links to device '' @ To l @ '' which doesn't exist'') None), ds)
      | Some neigh \<Rightarrow> add_links name ls (ds[neigh := AddLink (link_back name) (ds ! neigh)]))"

fun add_all :: "nat list \<Rightarrow> device list \<Rightarrow> go_error option \<times> device list" where
  "add_all [] ds = (None, ds)"
| "add_all (dev # devs) ds =
     (case add_links (GetName (ds ! dev)) (GetLinks (ds ! dev)) ds of
        (Some err, ds1) \<Rightarrow> (Some err, ds1)
      | (None, ds1) \<Rightarrow> add_all devs ds1)"

definition AddDevices :: "device list \<Rightarrow> kinda_sdn \<Rightarrow> go_error option \<times> kinda_sdn" where
  "AddDevices devs k =
     (let old = Devices (kTopo k) in
      case add_all [length old..<length old + length devs] (old @ devs) of
        (Some err, ds) \<Rightarrow> (Some err, k\<lparr>kTopo := \<lparr>Devices = ds\<rparr>\<rparr>)
      | (None, ds) \<Rightarrow> (None, notifyNetworkChanged TopologyChange (k\<lparr>kTopo := \<lparr>Devices = ds\<rparr>\<rparr>)))"

text \<open>Calling a method of a missing neighbour panics.\<close>

fun remove_links :: "device_name \<Rightarrow> link list \<Rightarrow> device list \<Rightarrow> device list option" where
  "remove_links name [] ds = Some ds"
| "remove_links name (l # ls) ds =
     (case pointer_to ds (To l) of
        None \<Rightarrow> None
      | Some neigh \<Rightarrow> remove_links name ls (ds[neigh := RemoveLink name (ds ! neigh)]))"

definition RemoveDevices :: "device_name list \<Rightarrow> kinda_sdn \<Rightarrow> (go_error option \<times> kinda_sdn) option" where
  "RemoveDevices deviceNames k =
     (let deletedDevices = filter (\<lambda>d. GetName d \<in> set deviceNames) (Devices (kTopo k));
          ds = filter (\<lambda>d. GetName d \<notin> set deviceNames) (Devices (kTopo k))
      in if length deletedDevices < length deviceNames then
           Some (Some (Errorf ''some device wasn't deleted'' None), k\<lparr>kTopo := \<lparr>Devices = ds\<rparr>\<rparr>)
         else do {
           ds1 \<leftarrow> fold_opt (\<lambda>dev. remove_links (GetName dev) (GetLinks dev)) deletedDevices ds;
           Some (None, notifyNetworkChanged TopologyChange (k\<lparr>kTopo := \<lparr>Devices = ds1\<rparr>\<rparr>))
         })"

definition ChangeProgram :: "device_name \<Rightarrow> string \<Rightarrow> kinda_sdn \<Rightarrow> go_error option \<times> kinda_sdn" where
  "ChangeProgram devName programName k =
     (let ds = Devices (kTopo k) in
      case first_index (\<lambda>d. GetName d = devName) ds of
        None \<Rightarrow> (Some (Errorf (''device '' @ devName @ '' doesn't exist'') None), k)
      | Some i \<Rightarrow>
          (case ds ! i of
             IncSwitch sw \<Rightarrow>
               (None, notifyNetworkChanged ProgramChange
                  (k\<lparr>kTopo := \<lparr>Devices = ds[i := IncSwitch (sw\<lparr>InstalledProgram := programName\<rparr>)]\<rparr>\<rparr>))
           | _ \<Rightarrow> (Some (Errorf (''device '' @ devName @ '' is not an inc switch, can't update program'') None), k)))"

section \<open>The HTTP interface\<close>

text \<open>A response: its status, and the message of its body if it has one. The decoded body of a
  request is \<^term>\<open>None\<close> when the decoder fails.\<close>

type_synonym http_response = "int \<times> string option"

definition sendBasicResponse :: "int \<Rightarrow> string \<Rightarrow> http_response" where
  "sendBasicResponse statusCode message = (statusCode, Some message)"

record device_item =
  itemName :: string
  itemType :: string
  itemLinks :: "string list"

definition item_base :: "device_item \<Rightarrow> base_device" where
  "item_base dev = \<lparr>Name = itemName dev, Links = map (\<lambda>target. NewLink target ''00:00:00:00:00:00'' ''0.0.0.0'' 0) (itemLinks dev)\<rparr>"

definition item_device :: "device_item \<Rightarrow> device option" where
  "item_device dev =
     (if itemType dev = NET then Some (NetDevice (item_base dev))
      else if itemType dev = INC_SWITCH then
        Some (IncSwitch (NewIncSwitch (itemName dev) (Links (item_base dev)) BMv2 ''0.0.0.0:0'' ''forward'' False))
      else None)"

definition AddDevicesHandler ::
  "(go_error \<Rightarrow> string) \<Rightarrow> string \<Rightarrow> device_item list option \<Rightarrow> kinda_sdn \<Rightarrow> http_response \<times> kinda_sdn" where
  "AddDevicesHandler Error meth body k =
     (if meth \<noteq> ''POST'' then ((405, None), k)
      else case body of
        None \<Rightarrow> (sendBasicResponse 400 ''Failed to parse'', k)
      | Some items \<Rightarrow>
          (if items = [] then (sendBasicResponse 400 ''Requires at least 1 device to add'', k)
           else case find (\<lambda>dev. item_device dev = None) items of
             Some dev \<Rightarrow> (sendBasicResponse 400 (''invalid device type '' @ itemType dev), k)
           | None \<Rightarrow>
               (case AddDevices (List.map_filter item_device items) k of
                  (Some err, k1) \<Rightarrow> (sendBasicResponse 400 (Error err), k1)
                | (None, k1) \<Rightarrow> (sendBasicResponse 200 ''Devices added'', k1))))"

definition DeleteDeviceHandler ::
  "(go_error \<Rightarrow> string) \<Rightarrow> string \<Rightarrow> string option \<Rightarrow> kinda_sdn \<Rightarrow> (http_response \<times> kinda_sdn) option" where
  "DeleteDeviceHandler Error meth body k =
     (if meth \<noteq> ''POST'' then Some ((405, None), k)
      else case body of
        None \<Rightarrow> Some (sendBasicResponse 400 ''Failed to parse'', k)
      | Some name \<Rightarrow> do {
          (er, k1) \<leftarrow> RemoveDevices [name] k;
          Some (case er of
             Some err \<Rightarrow> (sendBasicResponse 400 (Error err), k1)
           | None \<Rightarrow> (sendBasicResponse 200 ''Device removed'', k1))
        })"

definition ChangeProgramHandler ::
  "(go_error \<Rightarrow> string) \<Rightarrow> string \<Rightarrow> (string \<times> string) option \<Rightarrow> kinda_sdn \<Rightarrow> http_response \<times> kinda_sdn" where
  "ChangeProgramHandler Error meth body k =
     (if meth \<noteq> ''POST'' then ((405, None), k)
      else case body of
        None \<Rightarrow> (sendBasicResponse 400 ''Failed to parse'', k)
      | Some (devName, programName) \<Rightarrow>
          (case ChangeProgram devName programName k of
             (Some err, k1) \<Rightarrow> (sendBasicResponse 400 (Error err), k1)
           | (None, k1) \<Rightarrow> (sendBasicResponse 200 ''Program changed'', k1)))"

definition HealthCheckHandler :: http_response where
  "HealthCheckHandler = sendBasicResponse 200 ''OK''"

section \<open>Bringing the network up\<close>

text \<open>\<open>bootstrapSwitch\<close> gets a pointer to the switch. The manager is stored before the program is installed.\<close>

definition bootstrapSwitch ::
  "'w environment \<Rightarrow> nat \<Rightarrow> inc_switch \<Rightarrow> kinda_sdn \<Rightarrow> 'w \<Rightarrow> (go_error option \<times> kinda_sdn \<times> 'w) option" where
  "bootstrapSwitch env i incSwitch k w =
     (case Lookup (kRegistry k) (InstalledProgram incSwitch) of
        None \<Rightarrow> Some (Some (Errorf (''program '' @ InstalledProgram incSwitch @ '' not registered but required on device ''
            @ Name incSwitch) None), k, w)
      | Some programDetails \<Rightarrow>
          (if Arch incSwitch \<noteq> BMv2 then None
           else case GetArtifactsFor programDetails (Arch incSwitch) of
             None \<Rightarrow> None
           | Some artifacts \<Rightarrow>
               (case bmv2_Open (envDialer env) (NewBmv2Manager (GrpcUrl incSwitch)) w of
                  (Some err, b, w1) \<Rightarrow> Some (Some err, k, w1)
                | (None, b, w1) \<Rightarrow> do {
                    (er, b1, w2) \<leftarrow> bmv2_InstallProgram (envNetwork env (grpcAddr b)) (envReadFile env) (envParse env) b
                        (P4PipelinePath artifacts) (P4InfoPath artifacts) w1;
                    (let k1 = k\<lparr>bmv2Managers := gm_put (Name incSwitch) b1 (bmv2Managers k)\<rparr> in
                     case er of
                       Some err \<Rightarrow> Some (Some err, k1, w2)
                     | None \<Rightarrow> Some (None, k1\<lparr>kTopo := \<lparr>Devices = (Devices (kTopo k1))
                         [i := IncSwitch (incSwitch\<lparr>InstalledProgram := ProgramName programDetails\<rparr>)]\<rparr>\<rparr>, w2))
                  })))"

fun bootstrap_all :: "'w environment \<Rightarrow> nat list \<Rightarrow> kinda_sdn \<Rightarrow> 'w \<Rightarrow> (go_error option \<times> kinda_sdn \<times> 'w) option" where
  "bootstrap_all env [] k w = Some (None, k, w)"
| "bootstrap_all env (i # is) k w =
     (case Devices (kTopo k) ! i of
        IncSwitch sw \<Rightarrow> do {
          (er, k1, w1) \<leftarrow> bootstrapSwitch env i sw k w;
          (case er of Some err \<Rightarrow> Some (Some err, k1, w1) | None \<Rightarrow> bootstrap_all env is k1 w1)
        }
      | _ \<Rightarrow> bootstrap_all env is k w)"

text \<open>A missing manager is a \<open>nil\<close> pointer: \<open>WriteInitialEntries\<close> on it panics as soon as there is an entry.\<close>

fun write_switches ::
  "'w environment \<Rightarrow> (device_name, bmv2_manager) gomap \<Rightarrow> (device_name \<times> raw_entry list) list \<Rightarrow> 'w \<Rightarrow> (go_error option \<times> 'w) option" where
  "write_switches env mgrs [] w = Some (None, w)"
| "write_switches env mgrs ((devName, ents) # rest) w = do {
     (er, w1) \<leftarrow> (case gm_get mgrs devName of
        Some b \<Rightarrow> WriteInitialEntries (envNetwork env (grpcAddr b)) (envV6 env) (envOrders env) b ents w
      | None \<Rightarrow> if ents = [] then Some (None, w) else None);
     (case er of Some err \<Rightarrow> Some (Some err, w1) | None \<Rightarrow> write_switches env mgrs rest w1)
   }"

definition writeInitialEntriesToBmv2Switches ::
  "'w environment \<Rightarrow> (device_name list \<Rightarrow> device_name list) \<Rightarrow> (device_name, bmv2_manager) gomap \<Rightarrow>
     (device_name, raw_entry list) gomap \<Rightarrow> 'w \<Rightarrow> (go_error option \<times> 'w) option" where
  "writeInitialEntriesToBmv2Switches env ord mgrs entries w = write_switches env mgrs (gm_range ord entries) w"

text \<open>The entries of the forwarding are appended to the initial configuration, which is the same map.\<close>

definition merge_entries ::
  "(device_name, raw_entry list) gomap \<Rightarrow> (device_name, raw_entry list) gomap \<Rightarrow> (device_name, raw_entry list) gomap" where
  "merge_entries l3Entries entries =
     fold (\<lambda>(devName, ents) m.
        (case gm_get m devName of
           Some presentEntries \<Rightarrow> gm_put devName (presentEntries @ ents) m
         | None \<Rightarrow> gm_put devName ents m)) l3Entries entries"

record init_orders =
  forwardOrders :: "device_name \<Rightarrow> forward_orders"
  l3Order :: "device_name list \<Rightarrow> device_name list"
  entriesOrder :: "device_name list \<Rightarrow> device_name list"

definition InitTopology ::
  "'w environment \<Rightarrow> init_orders \<Rightarrow> bool \<Rightarrow> kinda_sdn \<Rightarrow> 'w \<Rightarrow> (go_error option \<times> kinda_sdn \<times> 'w) option" where
  "InitTopology env ords setupL3Forwarding k w = do {
     (er, k1, w1) \<leftarrow> bootstrap_all env [0..<length (Devices (kTopo k))] k w;
     (case er of
        Some err \<Rightarrow> Some (Some err, k1, w1)
      | None \<Rightarrow> do {
          k2 \<leftarrow> (if setupL3Forwarding then do {
                   l3Entries \<leftarrow> buildBasicForwardingEntries (forwardOrders ords) (kRegistry k1) (kTopo k1);
                   Some (k1\<lparr>initialP4Config := merge_entries (gm_range (l3Order ords) l3Entries) (initialP4Config k1)\<rparr>)
                 } else Some k1);
          (er2, w2) \<leftarrow> writeInitialEntriesToBmv2Switches env (entriesOrder ords) (bmv2Managers k2) (initialP4Config k2) w1;
          (case er2 of
             Some err \<Rightarrow> Some (Some err, k2, w2)
           | None \<Rightarrow> Some (None, k2\<lparr>telemetryService := InitDevices (kTopo k2) (telemetryService k2)\<rparr>, w2))
        })
   }"

section \<open>The gRPC services\<close>

datatype pb_device_type = DeviceType_HOST | DeviceType_INC_SWITCH | DeviceType_NET | DeviceType_EXTERNAL

record pb_device =
  pbName :: string
  pbDeviceType :: pb_device_type
  pbLinks :: "string list"

record switch_details =
  detailsName :: string
  detailsArch :: string
  detailsProgram :: string

definition LinkToProto :: "link \<Rightarrow> string" where
  "LinkToProto l = To l"

text \<open>A device of an unknown type would keep the zero value of the enumeration.\<close>

definition convertDeviceType :: "device \<Rightarrow> pb_device_type" where
  "convertDeviceType d =
     (if GetType d = NET then DeviceType_NET
      else if GetType d = EXTERNAL then DeviceType_EXTERNAL
      else if GetType d = INC_SWITCH then
        (case d of
           IncSwitch sw \<Rightarrow> if AllowClientProgrammability sw then DeviceType_INC_SWITCH else DeviceType_NET
         | _ \<Rightarrow> DeviceType_HOST)
      else DeviceType_HOST)"

definition DeviceToProto :: "device \<Rightarrow> pb_device" where
  "DeviceToProto d = \<lparr>pbName = GetName d, pbDeviceType = convertDeviceType d, pbLinks = map LinkToProto (GetLinks d)\<rparr>"

definition TopologyModelToProto :: "topology \<Rightarrow> pb_device list" where
  "TopologyModelToProto topo = map DeviceToProto (Devices topo)"

definition IncSwitchToDetailsProto :: "inc_switch \<Rightarrow> switch_details" where
  "IncSwitchToDetailsProto s = \<lparr>detailsName = Name s, detailsArch = Arch s, detailsProgram = InstalledProgram s\<rparr>"

definition ProgramDetailsToProto :: "p4_program_details \<Rightarrow> string list" where
  "ProgramDetailsToProto pd = ImplementedInterfaces pd"

definition GetTopology :: "kinda_sdn \<Rightarrow> pb_device list" where
  "GetTopology k = TopologyModelToProto (kTopo k)"

text \<open>A gRPC error: its code and message.\<close>

type_synonym rpc_status = "int32 \<times> string"

definition GetProgramDetails :: "kinda_sdn \<Rightarrow> string \<Rightarrow> rpc_status + string list" where
  "GetProgramDetails k programName =
     (case Lookup (kRegistry k) programName of
        Some programDetails \<Rightarrow> Inr (ProgramDetailsToProto programDetails)
      | None \<Rightarrow> Inl (NotFound, ''program '' @ programName @ '' is not registered''))"

fun switch_details_of :: "kinda_sdn \<Rightarrow> string list \<Rightarrow> (string, switch_details) gomap \<Rightarrow> rpc_status + (string, switch_details) gomap" where
  "switch_details_of k [] res = Inr res"
| "switch_details_of k (name # names) res =
     (case find (\<lambda>dev. GetName dev = name) (Devices (kTopo k)) of
        None \<Rightarrow> Inl (NotFound, ''device '' @ name @ '' not found'')
      | Some (IncSwitch sw) \<Rightarrow> switch_details_of k names (gm_put name (IncSwitchToDetailsProto sw) res)
      | Some _ \<Rightarrow> Inl (InvalidArgument, ''device '' @ name @ '' is not IncSwitch''))"

definition GetSwitchDetails :: "kinda_sdn \<Rightarrow> string list \<Rightarrow> rpc_status + (string, switch_details) gomap" where
  "GetSwitchDetails k names = switch_details_of k names []"

definition GetCollectionId :: "kinda_sdn \<Rightarrow> string \<Rightarrow> rpc_status + int32" where
  "GetCollectionId k c =
     (case GetCollectionIdNum c (telemetryService k) of
        Some collectionIdNum \<Rightarrow> Inr (word_of_nat collectionIdNum)
      | None \<Rightarrow> Inl (NotFound, ''collectionId not found''))"

text \<open>The device provider that the telemetry service gets: the managers, as switches. Locking the mutex of a
  missing one panics.\<close>

definition switch_op ::
  "'w environment \<Rightarrow> (device_name, bmv2_manager) gomap \<Rightarrow>
     ('w p4runtime \<Rightarrow> (string \<Rightarrow> byte list option) \<Rightarrow> build_orders \<Rightarrow> bmv2_manager \<Rightarrow> raw_entry \<Rightarrow> 'w \<Rightarrow> (go_error option \<times> 'w) option) \<Rightarrow>
     device_name \<Rightarrow> raw_entry \<Rightarrow> 'w \<Rightarrow> (err option \<times> 'w) option" where
  "switch_op env mgrs op dn e w = do {
     b \<leftarrow> gm_get mgrs dn;
     (er, w1) \<leftarrow> op (envNetwork env (grpcAddr b)) (envV6 env) (envOrders env) b e w;
     Some (map_option (envError env) er, w1)
   }"

definition device_provider :: "'w environment \<Rightarrow> (device_name, bmv2_manager) gomap \<Rightarrow> 'w device_ops" where
  "device_provider env mgrs =
     \<lparr>WriteEntry = switch_op env mgrs bmv2_WriteEntry, DeleteEntry = switch_op env mgrs bmv2_DeleteEntry\<rparr>"

definition sdn_ConfigureTelemetry ::
  "'w environment \<Rightarrow> request_orders \<Rightarrow> entry_orders \<Rightarrow> entry_orders \<Rightarrow> configure_telemetry_request \<Rightarrow> kinda_sdn \<Rightarrow> 'w \<Rightarrow>
     (configure_response \<times> kinda_sdn \<times> 'w) option" where
  "sdn_ConfigureTelemetry env ords ordA ordR req k w = do {
     (resp, t, w1) \<leftarrow> ConfigureTelemetry (device_provider env (bmv2Managers k)) ords ordA ordR req (kTopo k) (telemetryService k) w;
     Some (resp, k\<lparr>telemetryService := t\<rparr>, w1)
   }"

definition sdn_DisableTelemetry :: "string \<Rightarrow> kinda_sdn \<Rightarrow> bool \<times> kinda_sdn \<times> bool" where
  "sdn_DisableTelemetry intentId k =
     (case DisableTelemetry intentId (telemetryService k) of
        (shouldRetry, t, started) \<Rightarrow> (shouldRetry, k\<lparr>telemetryService := t\<rparr>, started))"

end
