(* ===== verification/NetworkUpdates.thy ===== *)
theory NetworkUpdates
  imports Controller SampleNetwork "HOL-Library.Multiset"
begin

text \<open>
  The channel of network changes: the goroutines that \<open>notifyNetworkChanged\<close> starts (\<open>controller.go\<close>) and the
  streams of \<open>SubscribeNetworkChanges\<close> (\<open>frontend.go\<close>). The channel is unbuffered: a send happens together with
  the receive of a subscriber that waits. Every statement of either side that another goroutine can observe is a
  step of its own, and the steps of all of them interleave freely. The theorems show what becomes of a change.
\<close>

section \<open>State and steps\<close>

text \<open>The goroutines of a change are before the \<open>select\<close> (\<open>trying\<close>) or in its default branch (\<open>defaulted\<close>). A
  subscriber has counted itself (\<open>joining\<close>), waits for a change, sends one to its client, has failed to send one and
  puts it back into the channel (\<open>returning\<close>), or is about to run its deferred decrement (\<open>leaving\<close>).
  \<open>delivered\<close> and \<open>dropped\<close> record what has become of the other changes.\<close>

record updates =
  trying :: "network_change multiset"
  defaulted :: "network_change multiset"
  joining :: nat
  waiting :: nat
  sending :: "network_change multiset"
  returning :: "network_change multiset"
  leaving :: nat
  numUpdateListeners :: nat
  delivered :: "network_change multiset"
  dropped :: "network_change multiset"

definition updates_of :: "kinda_sdn \<Rightarrow> updates" where
  "updates_of k = \<lparr>trying = mset (pendingChanges k), defaulted = {#}, joining = 0, waiting = 0, sending = {#},
     returning = {#}, leaving = 0, numUpdateListeners = 0, delivered = {#}, dropped = {#}\<rparr>"

datatype update_action =
    Notify network_change
  | Hand network_change
  | Default network_change
  | Ignore network_change
  | Sleep network_change
  | Subscribe
  | Range
  | SendOk network_change
  | SendErr network_change
  | HandBack network_change
  | Return

inductive notifier_step :: "update_action \<Rightarrow> updates \<Rightarrow> updates \<Rightarrow> bool" where
  notify: "notifier_step (Notify c) s (s\<lparr>trying := add_mset c (trying s)\<rparr>)"
| hand: "c \<in># trying s \<Longrightarrow> 0 < waiting s \<Longrightarrow>
    notifier_step (Hand c) s (s\<lparr>trying := trying s - {#c#}, waiting := waiting s - 1, sending := add_mset c (sending s)\<rparr>)"
| default: "c \<in># trying s \<Longrightarrow> waiting s = 0 \<Longrightarrow>
    notifier_step (Default c) s (s\<lparr>trying := trying s - {#c#}, defaulted := add_mset c (defaulted s)\<rparr>)"
| ignore: "c \<in># defaulted s \<Longrightarrow> numUpdateListeners s = 0 \<Longrightarrow>
    notifier_step (Ignore c) s (s\<lparr>defaulted := defaulted s - {#c#}, dropped := add_mset c (dropped s)\<rparr>)"
| sleep: "c \<in># defaulted s \<Longrightarrow> numUpdateListeners s \<noteq> 0 \<Longrightarrow>
    notifier_step (Sleep c) s (s\<lparr>defaulted := defaulted s - {#c#}, trying := add_mset c (trying s)\<rparr>)"

inductive subscriber_step :: "update_action \<Rightarrow> updates \<Rightarrow> updates \<Rightarrow> bool" where
  subscribe: "subscriber_step Subscribe s (s\<lparr>numUpdateListeners := numUpdateListeners s + 1, joining := joining s + 1\<rparr>)"
| range: "0 < joining s \<Longrightarrow> subscriber_step Range s (s\<lparr>joining := joining s - 1, waiting := waiting s + 1\<rparr>)"
| send_ok: "c \<in># sending s \<Longrightarrow>
    subscriber_step (SendOk c) s (s\<lparr>sending := sending s - {#c#}, waiting := waiting s + 1, delivered := add_mset c (delivered s)\<rparr>)"
| send_err: "c \<in># sending s \<Longrightarrow>
    subscriber_step (SendErr c) s (s\<lparr>sending := sending s - {#c#}, returning := add_mset c (returning s)\<rparr>)"
| hand_back: "c \<in># returning s \<Longrightarrow> 0 < waiting s \<Longrightarrow>
    subscriber_step (HandBack c) s (s\<lparr>returning := returning s - {#c#}, leaving := leaving s + 1, waiting := waiting s - 1,
      sending := add_mset c (sending s)\<rparr>)"
| return: "0 < leaving s \<Longrightarrow>
    subscriber_step Return s (s\<lparr>leaving := leaving s - 1, numUpdateListeners := numUpdateListeners s - 1\<rparr>)"

definition update_step :: "update_action \<Rightarrow> updates \<Rightarrow> updates \<Rightarrow> bool" where
  "update_step a s s' \<longleftrightarrow> notifier_step a s s' \<or> subscriber_step a s s'"

inductive update_run :: "updates \<Rightarrow> update_action list \<Rightarrow> updates \<Rightarrow> bool" where
  no_step: "update_run s [] s"
| more: "update_step a s s' \<Longrightarrow> update_run s' as s'' \<Longrightarrow> update_run s (a # as) s''"

inductive_simps update_run_Nil [simp]: "update_run s [] s'"
inductive_simps update_run_Cons [simp]: "update_run s (a # as) s'"
inductive_cases notifier_stepE: "notifier_step a s s'"
inductive_cases subscriber_stepE: "subscriber_step a s s'"

lemma update_stepE:
  assumes "update_step a s s'"
  obtains "notifier_step a s s'" | "subscriber_step a s s'"
  using assms by (auto simp: update_step_def)

lemmas update_step_cases = update_stepE notifier_stepE subscriber_stepE

lemmas step_rules = notifier_step.intros [THEN disjI1] subscriber_step.intros [THEN disjI2]

text \<open>An action has at most one result.\<close>

fun update_next :: "update_action \<Rightarrow> updates \<Rightarrow> updates option" where
  "update_next (Notify c) s = Some (s\<lparr>trying := add_mset c (trying s)\<rparr>)"
| "update_next (Hand c) s = (if c \<in># trying s \<and> 0 < waiting s then
     Some (s\<lparr>trying := trying s - {#c#}, waiting := waiting s - 1, sending := add_mset c (sending s)\<rparr>) else None)"
| "update_next (Default c) s = (if c \<in># trying s \<and> waiting s = 0 then
     Some (s\<lparr>trying := trying s - {#c#}, defaulted := add_mset c (defaulted s)\<rparr>) else None)"
| "update_next (Ignore c) s = (if c \<in># defaulted s \<and> numUpdateListeners s = 0 then
     Some (s\<lparr>defaulted := defaulted s - {#c#}, dropped := add_mset c (dropped s)\<rparr>) else None)"
| "update_next (Sleep c) s = (if c \<in># defaulted s \<and> numUpdateListeners s \<noteq> 0 then
     Some (s\<lparr>defaulted := defaulted s - {#c#}, trying := add_mset c (trying s)\<rparr>) else None)"
| "update_next Subscribe s = Some (s\<lparr>numUpdateListeners := numUpdateListeners s + 1, joining := joining s + 1\<rparr>)"
| "update_next Range s = (if 0 < joining s then Some (s\<lparr>joining := joining s - 1, waiting := waiting s + 1\<rparr>) else None)"
| "update_next (SendOk c) s = (if c \<in># sending s then
     Some (s\<lparr>sending := sending s - {#c#}, waiting := waiting s + 1, delivered := add_mset c (delivered s)\<rparr>) else None)"
| "update_next (SendErr c) s = (if c \<in># sending s then
     Some (s\<lparr>sending := sending s - {#c#}, returning := add_mset c (returning s)\<rparr>) else None)"
| "update_next (HandBack c) s = (if c \<in># returning s \<and> 0 < waiting s then
     Some (s\<lparr>returning := returning s - {#c#}, leaving := leaving s + 1, waiting := waiting s - 1,
       sending := add_mset c (sending s)\<rparr>) else None)"
| "update_next Return s = (if 0 < leaving s then
     Some (s\<lparr>leaving := leaving s - 1, numUpdateListeners := numUpdateListeners s - 1\<rparr>) else None)"

lemma update_step_next: "update_step a s s' \<longleftrightarrow> update_next a s = Some s'"
proof
  show "update_step a s s' \<Longrightarrow> update_next a s = Some s'"
    by (elim update_step_cases) auto
  show "update_next a s = Some s' \<Longrightarrow> update_step a s s'"
    by (cases a) (auto simp: update_step_def notifier_step.simps subscriber_step.simps split: if_splits)
qed

lemma update_run_append: "update_run s (as @ bs) s' \<longleftrightarrow> (\<exists>m. update_run s as m \<and> update_run m bs s')"
  by (induction as arbitrary: s) auto

definition notified :: "update_action list \<Rightarrow> network_change multiset" where
  "notified as = mset (List.map_filter (\<lambda>a. case a of Notify c \<Rightarrow> Some c | _ \<Rightarrow> None) as)"

lemma notified_simps [simp]:
  "notified [] = {#}"
  "notified (a # as) = (case a of Notify c \<Rightarrow> add_mset c (notified as) | _ \<Rightarrow> notified as)"
  by (simp_all add: notified_def map_filter_simps split: update_action.split)

definition in_flight :: "updates \<Rightarrow> network_change multiset" where
  "in_flight s = trying s + defaulted s + sending s + returning s"

definition subscribers :: "updates \<Rightarrow> nat" where
  "subscribers s = joining s + waiting s + size (sending s) + size (returning s) + leaving s"

definition updates_inv :: "updates \<Rightarrow> bool" where
  "updates_inv s \<longleftrightarrow> numUpdateListeners s = subscribers s"

section \<open>Accounting\<close>

lemma step_accounts:
  "update_step a s s' \<Longrightarrow> in_flight s' + delivered s' + dropped s'
     = in_flight s + delivered s + dropped s + notified [a]"
  by (elim update_step_cases) (auto simp: in_flight_def dest!: multi_member_split)

lemma run_accounts:
  "update_run s as s' \<Longrightarrow> in_flight s' + delivered s' + dropped s' = in_flight s + delivered s + dropped s + notified as"
proof (induction rule: update_run.induct)
  case (more a s s' as s'')
  from step_accounts [OF more.hyps(1)] more.IH show ?case by (simp add: ac_simps split: update_action.splits)
qed simp

lemma step_inv: "update_step a s s' \<Longrightarrow> updates_inv s \<Longrightarrow> updates_inv s'"
  by (elim update_step_cases) (auto simp: updates_inv_def subscribers_def dest!: multi_member_split)

lemma run_inv: "update_run s as s' \<Longrightarrow> updates_inv s \<Longrightarrow> updates_inv s'"
  by (induction rule: update_run.induct) (blast intro: step_inv)+

lemma updates_of_inv: "updates_inv (updates_of k)"
  by (simp add: updates_inv_def subscribers_def updates_of_def)

lemma ignore_alone: "update_step (Ignore c) s s' \<Longrightarrow> updates_inv s \<Longrightarrow> subscribers s' = 0"
  by (elim update_step_cases) (auto simp: updates_inv_def subscribers_def)

section \<open>Progress\<close>

text \<open>A subscriber is able to receive, now or after its current client was served.\<close>

definition can_receive :: "updates \<Rightarrow> bool" where
  "can_receive s \<longleftrightarrow> 0 < joining s + waiting s + size (sending s)"

definition work :: "updates \<Rightarrow> nat" where
  "work s = 3 * size (defaulted s) + 2 * size (trying s) + 2 * size (returning s) + size (sending s) + joining s"

definition benign :: "update_action \<Rightarrow> bool" where
  "benign a = (case a of Hand c \<Rightarrow> True | Sleep c \<Rightarrow> True | Range \<Rightarrow> True | SendOk c \<Rightarrow> True | HandBack c \<Rightarrow> True | _ \<Rightarrow> False)"

lemma progress:
  assumes "updates_inv s" and "can_receive s" and "in_flight s \<noteq> {#}"
  shows "\<exists>a s'. update_step a s s' \<and> benign a \<and> can_receive s' \<and> work s' < work s \<and> dropped s' = dropped s"
proof -
  consider (send) c where "c \<in># sending s" | (join) "0 < joining s"
    | (serve) c where "sending s = {#}" "0 < waiting s" "c \<in># trying s"
    | (wake) c where "sending s = {#}" "0 < waiting s" "c \<in># defaulted s"
    | (giveBack) c where "sending s = {#}" "0 < waiting s" "c \<in># returning s"
    using assms(2,3) unfolding can_receive_def in_flight_def
    by (metis add.right_neutral add_is_0 bot_nat_0.not_eq_extremum multiset_nonemptyE size_empty)
  then show ?thesis
  proof cases
    case send
    then show ?thesis
      by (intro exI [of _ "SendOk c"] exI [of _ "the (update_next (SendOk c) s)"])
        (auto simp: update_step_next benign_def can_receive_def work_def dest!: multi_member_split)
  next
    case join
    then show ?thesis
      by (intro exI [of _ "Range"] exI [of _ "the (update_next (Range) s)"])
        (auto simp: update_step_next benign_def can_receive_def work_def dest!: multi_member_split)
  next
    case serve
    then show ?thesis
      by (intro exI [of _ "Hand c"] exI [of _ "the (update_next (Hand c) s)"])
        (auto simp: update_step_next benign_def can_receive_def work_def dest!: multi_member_split)
  next
    case wake
    then have "numUpdateListeners s \<noteq> 0" using assms(1) by (simp add: updates_inv_def subscribers_def)
    with wake show ?thesis
      by (intro exI [of _ "Sleep c"] exI [of _ "the (update_next (Sleep c) s)"])
        (auto simp: update_step_next benign_def can_receive_def work_def dest!: multi_member_split)
  next
    case giveBack
    then show ?thesis
      by (intro exI [of _ "HandBack c"] exI [of _ "the (update_next (HandBack c) s)"])
        (auto simp: update_step_next benign_def can_receive_def work_def dest!: multi_member_split)
  qed
qed

lemma drain:
  "updates_inv s \<Longrightarrow> can_receive s \<Longrightarrow>
     \<exists>as s'. update_run s as s' \<and> list_all benign as \<and> in_flight s' = {#} \<and> dropped s' = dropped s"
proof (induction "work s" arbitrary: s rule: less_induct)
  case less
  show ?case
  proof (cases "in_flight s = {#}")
    case True
    then show ?thesis by (intro exI [of _ "[]"]) simp
  next
    case False
    from progress [OF less.prems False] obtain a s1 where s1: "update_step a s s1" "benign a" "can_receive s1"
      "work s1 < work s" "dropped s1 = dropped s" by blast
    from less.hyps [OF s1(4) step_inv [OF s1(1) less.prems(1)] s1(3)] obtain as s2
      where "update_run s1 as s2" "list_all benign as" "in_flight s2 = {#}" "dropped s2 = dropped s1" by blast
    with s1 show ?thesis by (intro exI [of _ "a # as"] exI [of _ s2]) auto
  qed
qed

lemma benign_notified: "list_all benign as \<Longrightarrow> notified as = {#}"
  by (induction as) (auto simp: benign_def split: update_action.splits)

section \<open>The stuck state\<close>

definition all_stuck :: "updates \<Rightarrow> bool" where
  "all_stuck s \<longleftrightarrow> updates_inv s \<and> joining s = 0 \<and> waiting s = 0 \<and> sending s = {#} \<and> returning s \<noteq> {#}"

lemma all_stuck_step:
  "update_step a s s' \<Longrightarrow> all_stuck s \<Longrightarrow> a \<noteq> Subscribe \<Longrightarrow>
     all_stuck s' \<and> delivered s' = delivered s \<and> dropped s' = dropped s \<and> returning s' = returning s"
  by (elim update_step_cases) (auto simp: all_stuck_def updates_inv_def subscribers_def)

lemma all_stuck_run:
  "update_run s as s' \<Longrightarrow> all_stuck s \<Longrightarrow> Subscribe \<notin> set as \<Longrightarrow>
     all_stuck s' \<and> delivered s' = delivered s \<and> dropped s' = dropped s \<and> returning s' = returning s"
proof (induction rule: update_run.induct)
  case (more a s s' as s'')
  from all_stuck_step [OF more.hyps(1) more.prems(1)] more.IH more.prems(2) show ?case by auto
qed simp

section \<open>Properties\<close>

text \<open>C38: in every interleaving, each change that was notified is either still in the hands of a goroutine or was
  delivered or dropped, exactly once; the counter of listeners is the number of subscriber goroutines;
  and a change is dropped only while there is none.\<close>

theorem changes_accounted:
  assumes "update_run (updates_of k) as s"
  shows "in_flight s + delivered s + dropped s = mset (pendingChanges k) + notified as
    \<and> numUpdateListeners s = subscribers s
    \<and> (as = bs @ [Ignore c] \<longrightarrow> subscribers s = 0)"
proof (intro conjI impI)
  show "in_flight s + delivered s + dropped s = mset (pendingChanges k) + notified as"
    using run_accounts [OF assms] by (simp add: updates_of_def in_flight_def)
  show "numUpdateListeners s = subscribers s"
    using run_inv [OF assms updates_of_inv] by (simp add: updates_inv_def)
  assume "as = bs @ [Ignore c]"
  with assms obtain m where "update_run (updates_of k) bs m" "update_step (Ignore c) m s"
    by (auto simp: update_run_append)
  then show "subscribers s = 0" by (blast intro: ignore_alone run_inv updates_of_inv)
qed

definition quiet_sdn :: kinda_sdn where
  "quiet_sdn = NewKindaSdn \<lparr>Devices = []\<rparr> NewRegistry [] (NewService NewRegistry quiet_observers)"

definition sample_updates :: "update_action list" where
  "sample_updates = [Subscribe, Notify TopologyChange, Default TopologyChange, Sleep TopologyChange, Range,
     Hand TopologyChange, Notify ProgramChange, SendErr TopologyChange]"

definition sample_stuck :: updates where
  "sample_stuck = (updates_of quiet_sdn)\<lparr>trying := {#ProgramChange#}, returning := {#TopologyChange#}, numUpdateListeners := 1\<rparr>"

lemma sample_run: "update_run (updates_of quiet_sdn) sample_updates sample_stuck"
  by (simp add: sample_updates_def update_step_next sample_stuck_def updates_of_def quiet_sdn_def NewKindaSdn_def)

theorem changes_accounted_witness:
  "in_flight sample_stuck + delivered sample_stuck + dropped sample_stuck = {#TopologyChange, ProgramChange#}"
  using changes_accounted [OF sample_run, of "[]" TopologyChange]
  by (simp add: quiet_sdn_def NewKindaSdn_def sample_updates_def)

text \<open>C39: whenever some subscriber can still receive, the goroutines can finish without any further help: they
  have a run, in which nobody subscribes, no send fails and nothing is dropped, after which every
  change that was in flight has been delivered.\<close>

theorem updates_can_be_delivered:
  assumes "update_run (updates_of k) as s" and "can_receive s"
  shows "\<exists>bs s'. update_run s bs s' \<and> list_all benign bs \<and> in_flight s' = {#} \<and> dropped s' = dropped s
    \<and> delivered s' = delivered s + in_flight s"
proof -
  from drain [OF run_inv [OF assms(1) updates_of_inv] assms(2)] obtain bs s'
    where bs: "update_run s bs s'" "list_all benign bs" "in_flight s' = {#}" "dropped s' = dropped s" by blast
  with run_accounts [OF bs(1)] benign_notified [OF bs(2)] have "delivered s' = delivered s + in_flight s"
    by (simp add: ac_simps)
  with bs show ?thesis by blast
qed

theorem updates_can_be_delivered_witness:
  "\<exists>bs s'. update_run (sample_stuck\<lparr>numUpdateListeners := 2, joining := 1\<rparr>) bs s'
    \<and> delivered s' = {#TopologyChange, ProgramChange#}"
proof -
  have "update_run (updates_of quiet_sdn) (sample_updates @ [Subscribe]) (sample_stuck\<lparr>numUpdateListeners := 2, joining := 1\<rparr>)"
    unfolding update_run_append
    by (intro exI [of _ sample_stuck] conjI sample_run)
      (simp add: update_step_next sample_stuck_def updates_of_def quiet_sdn_def NewKindaSdn_def)
  from updates_can_be_delivered [OF this] show ?thesis
    by (auto simp: can_receive_def sample_stuck_def updates_of_def in_flight_def)
qed

text \<open>C40: once the stream of the last subscriber has failed while it was sending a change, that subscriber blocks
  on putting the change back and remains counted as a listener: until somebody subscribes, no change is
  delivered or dropped any more, and the goroutines of new changes poll for ever.\<close>

theorem failed_send_blocks_updates:
  assumes "update_run (updates_of k) as s" and "joining s = 0" and "waiting s = 0" and "sending s = {#}"
    and "returning s \<noteq> {#}" and "update_run s bs s'" and "Subscribe \<notin> set bs"
  shows "0 < numUpdateListeners s' \<and> waiting s' = 0 \<and> delivered s' = delivered s \<and> dropped s' = dropped s
    \<and> in_flight s' = in_flight s + notified bs"
proof -
  have "updates_inv s" using run_inv [OF assms(1) updates_of_inv] .
  with assms have "all_stuck s" by (simp add: all_stuck_def)
  from all_stuck_run [OF assms(6) this assms(7)]
  have s': "all_stuck s'" "delivered s' = delivered s" "dropped s' = dropped s" by simp_all
  moreover have "in_flight s' = in_flight s + notified bs"
  proof (rule add_right_imp_eq [of _ "delivered s + dropped s"])
    show "in_flight s' + (delivered s + dropped s) = in_flight s + notified bs + (delivered s + dropped s)"
      using run_accounts [OF assms(6)] s'(2,3) by (simp add: ac_simps)
  qed
  moreover have "0 < numUpdateListeners s'" using s'(1)
    by (simp add: all_stuck_def updates_inv_def subscribers_def nonempty_has_size)
  ultimately show ?thesis by (simp add: all_stuck_def)
qed

theorem failed_send_blocks_updates_witness:
  "\<exists>s'. update_run sample_stuck [Default ProgramChange, Sleep ProgramChange, Notify ProgramChange] s'
     \<and> 0 < numUpdateListeners s' \<and> in_flight s' = {#ProgramChange, TopologyChange, ProgramChange#}"
proof -
  let ?bs = "[Default ProgramChange, Sleep ProgramChange, Notify ProgramChange]"
  obtain s' where s': "update_run sample_stuck ?bs s'"
    by (simp add: update_step_next sample_stuck_def updates_of_def)
  have "0 < numUpdateListeners s' \<and> in_flight s' = in_flight sample_stuck + notified ?bs"
    using failed_send_blocks_updates [OF sample_run _ _ _ _ s']
    by (simp add: sample_stuck_def updates_of_def)
  moreover have "in_flight sample_stuck + notified ?bs = {#ProgramChange, TopologyChange, ProgramChange#}"
    by (simp add: sample_stuck_def updates_of_def in_flight_def)
  ultimately show ?thesis using s' by (metis (no_types))
qed

end
