(* ===== verification/Cluster.thy ===== *)
theory Cluster
  imports GoPrelude
begin

text \<open>
  What the Kubernetes controllers (\<open>sdn-shim/controllers\<close>, \<open>inc-operator/controllers\<close>) share: the metadata of
  objects, the client of the API server, the results of \<open>Reconcile\<close>, and the control flow of a \<open>Reconcile\<close>
  function, a sequence of steps each of which may return early. The API server is outside of the program: the
  client is a record of operations on a world \<open>'w\<close>, and \<open>client_laws\<close> states what its documentation promises of
  calls that succeed.
\<close>

named_theorems reconcile "rules for what holds after a step that did not return early"

section \<open>Objects and the API client\<close>

record object_meta =
  objectName :: string
  objectNamespace :: string
  resourceVersion :: string
  finalizers :: "string list"
  deletionTimestamp :: bool
  objectLabels :: "(string, string) gomap"

definition NewMeta :: "string \<Rightarrow> string \<Rightarrow> object_meta" where
  "NewMeta name namespace = \<lparr>objectName = name, objectNamespace = namespace, resourceVersion = '''', finalizers = [],
     deletionTimestamp = False, objectLabels = []\<rparr>"

text \<open>A key is the namespace and the name.\<close>

type_synonym object_key = "string \<times> string"

definition ObjectKey :: "object_meta \<Rightarrow> object_key" where
  "ObjectKey m = (objectNamespace m, objectName m)"

text \<open>\<open>Panicked\<close> is not an error of the server but of a \<open>Reconcile\<close> that panics; only \<open>fail\<close> has it.\<close>

datatype api_error = IsNotFound | IsConflict | Panicked | OtherError string

text \<open>Calls that write return the object as the server stored it.\<close>

record ('o, 'w) api_client =
  apiGet :: "object_key \<Rightarrow> 'w \<Rightarrow> (api_error + 'o) \<times> 'w"
  apiList :: "'w \<Rightarrow> (api_error + 'o list) \<times> 'w"
  apiCreate :: "'o \<Rightarrow> 'w \<Rightarrow> (api_error + 'o) \<times> 'w"
  apiUpdate :: "'o \<Rightarrow> 'w \<Rightarrow> (api_error + 'o) \<times> 'w"
  apiStatusUpdate :: "'o \<Rightarrow> 'w \<Rightarrow> (api_error + 'o) \<times> 'w"
  apiDelete :: "'o \<Rightarrow> 'w \<Rightarrow> (api_error + unit) \<times> 'w"

text \<open>The laws of a client of one kind of objects. \<open>view\<close> is what the server stores of the kind, its specifications
  by key; \<open>frame\<close> relates two worlds that agree on everything else the proofs look at. Nothing is
  said about calls that fail.\<close>

definition client_laws ::
  "('o, 'w) api_client \<Rightarrow> ('o \<Rightarrow> object_key) \<Rightarrow> ('o \<Rightarrow> 's) \<Rightarrow> ('w \<Rightarrow> object_key \<Rightarrow> 's option) \<Rightarrow> ('w \<Rightarrow> 'w \<Rightarrow> bool) \<Rightarrow> bool" where
  "client_laws c key spec view frame \<longleftrightarrow>
     (\<forall>k w r w'. apiGet c k w = (r, w') \<longrightarrow> frame w w' \<and> view w' = view w
        \<and> (case r of Inr obj \<Rightarrow> key obj = k \<and> view w k = Some (spec obj) | Inl e \<Rightarrow> e = IsNotFound \<longrightarrow> view w k = None))
   \<and> (\<forall>w r w'. apiList c w = (r, w') \<longrightarrow> frame w w' \<and> view w' = view w
        \<and> (case r of Inr os \<Rightarrow> distinct (map key os) \<and> (\<forall>k x. view w k = Some x \<longleftrightarrow> (\<exists>obj \<in> set os. key obj = k \<and> spec obj = x)) | Inl e \<Rightarrow> True))
   \<and> (\<forall>obj w obj' w'. apiCreate c obj w = (Inr obj', w') \<longrightarrow> frame w w' \<and> key obj' = key obj \<and> spec obj' = spec obj
        \<and> view w' = (view w)(key obj \<mapsto> spec obj))
   \<and> (\<forall>obj w obj' w'. apiUpdate c obj w = (Inr obj', w') \<longrightarrow> frame w w' \<and> key obj' = key obj \<and> spec obj' = spec obj
        \<and> view w' = (view w)(key obj \<mapsto> spec obj))
   \<and> (\<forall>obj w obj' w'. apiStatusUpdate c obj w = (Inr obj', w') \<longrightarrow> frame w w' \<and> key obj' = key obj \<and> spec obj' = spec obj \<and> view w' = view w)
   \<and> (\<forall>obj w w'. apiDelete c obj w = (Inr (), w') \<longrightarrow> frame w w' \<and> view w' = (view w)(key obj := None))"

lemma client_lawsD:
  assumes "client_laws c key spec view frame"
  shows "apiGet c k w = (Inr x, w') \<Longrightarrow> frame w w' \<and> view w' = view w \<and> key x = k \<and> view w k = Some (spec x)"
    and "apiList c w = (Inr xs, w') \<Longrightarrow> frame w w' \<and> view w' = view w \<and> distinct (map key xs)
       \<and> (\<forall>k y. view w k = Some y \<longleftrightarrow> (\<exists>obj \<in> set xs. key obj = k \<and> spec obj = y))"
    and "apiCreate c y w = (Inr x, w') \<Longrightarrow> frame w w' \<and> spec x = spec y \<and> view w' = (view w)(key y \<mapsto> spec y)"
    and "apiUpdate c y w = (Inr x, w') \<Longrightarrow> frame w w' \<and> spec x = spec y \<and> view w' = (view w)(key y \<mapsto> spec y)"
    and "apiDelete c y w = (Inr (), w') \<Longrightarrow> frame w w' \<and> view w' = (view w)(key y := None)"
proof -
  from assms have get: "\<And>k w r w'. apiGet c k w = (r, w') \<Longrightarrow> frame w w' \<and> view w' = view w
        \<and> (case r of Inr obj \<Rightarrow> key obj = k \<and> view w k = Some (spec obj) | Inl e \<Rightarrow> e = IsNotFound \<longrightarrow> view w k = None)"
    and list: "\<And>w r w'. apiList c w = (r, w') \<Longrightarrow> frame w w' \<and> view w' = view w
        \<and> (case r of Inr os \<Rightarrow> distinct (map key os) \<and> (\<forall>k x. view w k = Some x \<longleftrightarrow> (\<exists>obj \<in> set os. key obj = k \<and> spec obj = x)) | Inl e \<Rightarrow> True)"
    unfolding client_laws_def by meson+
  show "apiGet c k w = (Inr x, w') \<Longrightarrow> frame w w' \<and> view w' = view w \<and> key x = k \<and> view w k = Some (spec x)"
    by (drule get) simp
  show "apiList c w = (Inr xs, w') \<Longrightarrow> frame w w' \<and> view w' = view w \<and> distinct (map key xs)
       \<and> (\<forall>k y. view w k = Some y \<longleftrightarrow> (\<exists>obj \<in> set xs. key obj = k \<and> spec obj = y))"
    by (drule list) (simp del: split_paired_All)
qed (use assms in \<open>unfold client_laws_def; meson\<close>)+

section \<open>The control flow of a Reconcile function\<close>

record ctrl_result =
  Requeue :: bool
  RequeueAfter :: int

definition result_done :: ctrl_result where
  "result_done = \<lparr>Requeue = False, RequeueAfter = 0\<rparr>"

definition result_requeue :: ctrl_result where
  "result_requeue = \<lparr>Requeue = True, RequeueAfter = 0\<rparr>"

text \<open>Times are in milliseconds.\<close>

definition result_after :: "int \<Rightarrow> ctrl_result" where
  "result_after t = \<lparr>Requeue = False, RequeueAfter = t\<rparr>"

type_synonym outcome = "ctrl_result \<times> api_error option"

text \<open>A step either returns from \<open>Reconcile\<close> (\<^term>\<open>Inl\<close>) or goes on with a value.\<close>

type_synonym ('s, 'a) action = "'s \<Rightarrow> (outcome + 'a) \<times> 's"

definition pass :: "'a \<Rightarrow> ('s, 'a) action" where
  "pass x s = (Inr x, s)"

definition stop :: "outcome \<Rightarrow> ('s, 'a) action" where
  "stop r s = (Inl r, s)"

abbreviation fail :: "api_error \<Rightarrow> ('s, 'a) action" where
  "fail e \<equiv> stop (result_done, Some e)"

definition seq :: "('s, 'a) action \<Rightarrow> ('a \<Rightarrow> ('s, 'b) action) \<Rightarrow> ('s, 'b) action" where
  "seq m f s = (case m s of (Inl r, s1) \<Rightarrow> (Inl r, s1) | (Inr x, s1) \<Rightarrow> f x s1)"

text \<open>\<open>if x, err := call(); err != nil { handler }\<close>.\<close>

definition attempt :: "('s \<Rightarrow> ('e + 'a) \<times> 's) \<Rightarrow> ('e \<Rightarrow> ('s, 'a) action) \<Rightarrow> ('s, 'a) action" where
  "attempt m h s = (case m s of (Inl e, s1) \<Rightarrow> h e s1 | (Inr x, s1) \<Rightarrow> (Inr x, s1))"

primrec each :: "'x list \<Rightarrow> ('x \<Rightarrow> 'a \<Rightarrow> ('s, 'a) action) \<Rightarrow> 'a \<Rightarrow> ('s, 'a) action" where
  "each [] f a = pass a"
| "each (x # xs) f a = seq (f x a) (each xs f)"

definition finish :: "('s, outcome) action \<Rightarrow> 's \<Rightarrow> outcome \<times> 's" where
  "finish m s = (case m s of (Inl r, s1) \<Rightarrow> (r, s1) | (Inr r, s1) \<Rightarrow> (r, s1))"

section \<open>What holds after a step\<close>

text \<open>\<open>after P m Q\<close>: from a state with \<open>P\<close>, if \<open>m\<close> goes on with \<open>x\<close>, then \<open>Q x\<close> holds.\<close>

definition after :: "('s \<Rightarrow> bool) \<Rightarrow> ('s, 'a) action \<Rightarrow> ('a \<Rightarrow> 's \<Rightarrow> bool) \<Rightarrow> bool" where
  "after P m Q \<longleftrightarrow> (\<forall>s x s'. P s \<longrightarrow> m s = (Inr x, s') \<longrightarrow> Q x s')"

lemma afterD: "after P m Q \<Longrightarrow> P s \<Longrightarrow> m s = (Inr x, s') \<Longrightarrow> Q x s'"
  by (auto simp: after_def)

lemma afterI: "(\<And>s x s'. P s \<Longrightarrow> m s = (Inr x, s') \<Longrightarrow> Q x s') \<Longrightarrow> after P m Q"
  by (auto simp: after_def)

lemma after_weaken: "after P m R \<Longrightarrow> (\<And>x s. R x s \<Longrightarrow> Q x s) \<Longrightarrow> after P m Q"
  by (auto simp: after_def)

lemma after_strengthen: "after P' m Q \<Longrightarrow> (\<And>s. P s \<Longrightarrow> P' s) \<Longrightarrow> after P m Q"
  by (auto simp: after_def)

lemma after_pass [reconcile]: "(\<And>s. P s \<Longrightarrow> Q x s) \<Longrightarrow> after P (pass x) Q"
  by (auto simp: after_def pass_def)

lemma after_stop [reconcile]: "after P (stop r) Q"
  by (auto simp: after_def stop_def)

lemma after_seq [reconcile]: "after P m R \<Longrightarrow> (\<And>x. after (R x) (f x) Q) \<Longrightarrow> after P (seq m f) Q"
  by (fastforce simp: after_def seq_def split: prod.splits sum.splits)

lemma after_if [reconcile]:
  "(b \<Longrightarrow> after P m Q) \<Longrightarrow> (\<not> b \<Longrightarrow> after P n Q) \<Longrightarrow> after P (if b then m else n) Q"
  by simp

text \<open>A call whose error always makes \<open>Reconcile\<close> return.\<close>

lemma after_attempt:
  assumes "\<And>s x s'. P s \<Longrightarrow> m s = (Inr x, s') \<Longrightarrow> Q x s'"
    and "\<And>e s s'. P s \<Longrightarrow> m s = (Inl e, s') \<Longrightarrow> \<exists>r s''. h e s' = (Inl r, s'')"
  shows "after P (attempt m h) Q"
proof (rule afterI)
  fix s x s' assume P: "P s" and run: "attempt m h s = (Inr x, s')"
  show "Q x s'"
  proof (cases "m s")
    case (Pair r s1)
    show ?thesis
    proof (cases r)
      case (Inl e)
      with Pair P assms(2) [of s e s1] run show ?thesis by (auto simp: attempt_def)
    next
      case (Inr y)
      with Pair P assms(1) run show ?thesis by (auto simp: attempt_def)
    qed
  qed
qed

lemma after_each:
  assumes "\<And>pre x rest a. xs = pre @ x # rest \<Longrightarrow> after (I pre a) (f x a) (I (pre @ [x]))"
  shows "after (I [] a) (each xs f a) (I xs)"
proof -
  have "after (I pre a) (each rest f a) (I xs)" if "xs = pre @ rest" for pre rest a
    using that
  proof (induction rest arbitrary: pre a)
    case Nil
    then show ?case by (auto intro: after_pass)
  next
    case (Cons x rest)
    have "after (I pre a) (f x a) (I (pre @ [x]))" using assms Cons.prems by blast
    moreover have "after (I (pre @ [x]) b) (each rest f b) (I xs)" for b using Cons by simp
    ultimately show ?case by (auto intro: after_seq)
  qed
  from this [of "[]" xs a] show ?thesis by simp
qed

end
