(* ===== verification/Shim.thy ===== *)
theory Shim
  imports Cluster Controller
begin

text \<open>
  The SDN shim (\<open>sdn-shim/controllers/sdnshim_controller.go\<close>): it copies the network of the SDN controller into the
  cluster, as one \<open>Topology\<close>, an \<open>IncSwitch\<close> per programmable switch and a \<open>P4Program\<close> per program that
  runs on one. \<open>Reconcile\<close> is cut at its blank lines into steps. The API server, the gRPC client and two functions of the
  Kubernetes libraries are in the record \<open>shim_env\<close>; so is the order in which \<open>Slice\<close> returns the
  elements of a set, which depends on the place in the code (a number) and the set. The measurements taken for the evaluation
  (\<open>start\<close>, \<open>lastTopologyUpdateTimeMillis\<close>, \<open>notifyReconciledForEvaluation\<close>) are left out.
\<close>

section \<open>Objects\<close>

datatype crd_device_type = CRD_NODE | CRD_INC_SWITCH | CRD_NET | CRD_EXTERNAL

record network_device =
  DeviceType :: crd_device_type
  DevName :: string
  PeerNames :: "string list"

record topology_cr =
  topoMeta :: object_meta
  Graph :: "network_device list"

record inc_switch_cr =
  switchMeta :: object_meta
  switchArch :: string
  switchProgram :: string

record program_artifacts =
  artifactsArch :: string
  P4InfoURL :: string
  P4PipelineURL :: string

record p4_program_cr =
  programMeta :: object_meta
  Artifacts :: "program_artifacts list"
  ImplementedInterfacesOf :: "string list"

datatype condition_status = ConditionTrue | ConditionFalse | ConditionUnknown

record status_condition =
  ConditionType :: string
  ConditionStatus :: condition_status
  ConditionMessage :: string

record sdn_shim =
  shimMeta :: object_meta
  SdnGrpcAddr :: string
  TelemetryServiceGrpcAddr :: string
  Conditions :: "status_condition list"

abbreviation ConditionTypeSdnConnected :: string where "ConditionTypeSdnConnected \<equiv> ''SdnConnected''"
abbreviation ConditionTypeNetworkReconciled :: string where "ConditionTypeNetworkReconciled \<equiv> ''NetworkReconciled''"

section \<open>The reconciler and its environment\<close>

record sdn_connection =
  ShimForClient :: sdn_shim
  connOpen :: bool

record 'w shim_state =
  sdnClient :: "sdn_connection option"
  world :: 'w

record 'w shim_env =
  shimClient :: "(sdn_shim, 'w) api_client"
  topologyClient :: "(topology_cr, 'w) api_client"
  switchClient :: "(inc_switch_cr, 'w) api_client"
  programClient :: "(p4_program_cr, 'w) api_client"
  SetStatusCondition :: "status_condition \<Rightarrow> status_condition list \<Rightarrow> status_condition list"
  SetControllerReference :: "object_meta \<Rightarrow> object_meta \<Rightarrow> api_error + object_meta"
  grpcDial :: "string \<Rightarrow> 'w \<Rightarrow> (err + unit) \<times> 'w"
  rpcSubscribeNetworkChanges :: "string \<Rightarrow> 'w \<Rightarrow> (err + unit) \<times> 'w"
  rpcGetTopology :: "sdn_connection \<Rightarrow> 'w \<Rightarrow> (rpc_status + pb_device list) \<times> 'w"
  rpcGetSwitchDetails :: "sdn_connection \<Rightarrow> string list \<Rightarrow> 'w \<Rightarrow> (rpc_status + (string, switch_details) gomap) \<times> 'w"
  rpcGetProgramDetails :: "sdn_connection \<Rightarrow> string \<Rightarrow> 'w \<Rightarrow> (rpc_status + string list) \<times> 'w"
  Slice :: "nat \<Rightarrow> string set \<Rightarrow> string list"

definition TOPOLOGY_KEY :: object_key where
  "TOPOLOGY_KEY = (''default'', ''cluster-topo'')"

definition SDN_CONN_RETRY_PERIOD :: int where
  "SDN_CONN_RETRY_PERIOD = 1000"

definition on_world :: "('w \<Rightarrow> 'r \<times> 'w) \<Rightarrow> 'w shim_state \<Rightarrow> 'r \<times> 'w shim_state" where
  "on_world f s = (let (r, w) = f (world s) in (r, s\<lparr>world := w\<rparr>))"

definition runSdnClientForShim :: "'w shim_env \<Rightarrow> sdn_shim \<Rightarrow> 'w shim_state \<Rightarrow> (err + unit) \<times> 'w shim_state" where
  "runSdnClientForShim env shim s =
     (case on_world (grpcDial env (SdnGrpcAddr shim)) s of
        (Inl err, s1) \<Rightarrow> (Inl err, s1)
      | (Inr conn, s1) \<Rightarrow>
          (case on_world (rpcSubscribeNetworkChanges env (SdnGrpcAddr shim)) s1 of
             (Inl err, s2) \<Rightarrow> (Inl err, s2)
           | (Inr stream, s2) \<Rightarrow> (Inr (), s2\<lparr>sdnClient := Some \<lparr>ShimForClient = shim, connOpen = True\<rparr>\<rparr>)))"

definition closeSdnClient :: "'w shim_state \<Rightarrow> 'w shim_state" where
  "closeSdnClient s = s\<lparr>sdnClient := None\<rparr>"

text \<open>One round of the goroutine of a connection, which keeps the \<open>shim\<close> it was started for: whether the stop channel is
  closed and whether the receive failed. The result says whether it triggers a reconciliation and whether it goes on.\<close>

definition watchSdnNetworkUpdates ::
  "sdn_shim \<Rightarrow> bool \<Rightarrow> bool \<Rightarrow> 'w shim_state \<Rightarrow> (bool \<times> bool) \<times> 'w shim_state" where
  "watchSdnNetworkUpdates shim stopped failed s =
     (if stopped then ((False, False), s)
      else if failed then
        (case sdnClient s of
           Some conn \<Rightarrow>
             (if ObjectKey (shimMeta shim) = ObjectKey (shimMeta (ShimForClient conn))
                 \<and> resourceVersion (shimMeta shim) = resourceVersion (shimMeta (ShimForClient conn)) then
                ((True, False), s\<lparr>sdnClient := Some (conn\<lparr>connOpen := False\<rparr>)\<rparr>)
              else ((False, False), s))
         | None \<Rightarrow> ((False, False), s))
      else ((True, True), s))"

section \<open>Building objects\<close>

fun deviceTypeFromProto :: "pb_device_type \<Rightarrow> crd_device_type" where
  "deviceTypeFromProto DeviceType_EXTERNAL = CRD_EXTERNAL"
| "deviceTypeFromProto DeviceType_HOST = CRD_NODE"
| "deviceTypeFromProto DeviceType_NET = CRD_NET"
| "deviceTypeFromProto DeviceType_INC_SWITCH = CRD_INC_SWITCH"

definition device_from_proto :: "pb_device \<Rightarrow> network_device" where
  "device_from_proto dev = \<lparr>DeviceType = deviceTypeFromProto (pbDeviceType dev), DevName = pbName dev, PeerNames = pbLinks dev\<rparr>"

definition buildClusterTopoCR :: "pb_device list \<Rightarrow> topology_cr" where
  "buildClusterTopoCR topo = \<lparr>topoMeta = NewMeta (snd TOPOLOGY_KEY) (fst TOPOLOGY_KEY), Graph = map device_from_proto topo\<rparr>"

definition topologyChanged :: "topology_cr \<Rightarrow> topology_cr \<Rightarrow> bool" where
  "topologyChanged previous current \<longleftrightarrow>
     length (Graph previous) \<noteq> length (Graph current)
     \<or> list_ex (\<lambda>i. let prev = Graph previous ! i; cur = Graph current ! i in
          DevName prev \<noteq> DevName cur \<or> DeviceType prev \<noteq> DeviceType cur \<or> length (PeerNames prev) \<noteq> length (PeerNames cur)
          \<or> list_ex (\<lambda>j. PeerNames prev ! j \<noteq> PeerNames cur ! j) [0..<length (PeerNames prev)])
        [0..<length (Graph previous)]"

definition buildIncSwitchCR :: "switch_details \<Rightarrow> inc_switch_cr" where
  "buildIncSwitchCR det =
     \<lparr>switchMeta = NewMeta (detailsName det) (fst TOPOLOGY_KEY), switchArch = detailsArch det,
      switchProgram = detailsProgram det\<rparr>"

definition buildP4ProgramCR :: "string \<Rightarrow> string list \<Rightarrow> p4_program_cr" where
  "buildP4ProgramCR programName interfaces =
     \<lparr>programMeta = NewMeta programName (fst TOPOLOGY_KEY), Artifacts = [], ImplementedInterfacesOf = interfaces\<rparr>"

section \<open>Reconcile\<close>

definition set_condition :: "'w shim_env \<Rightarrow> string \<Rightarrow> condition_status \<Rightarrow> string \<Rightarrow> sdn_shim \<Rightarrow> sdn_shim" where
  "set_condition env t st msg shim = shim\<lparr>Conditions := SetStatusCondition env
     \<lparr>ConditionType = t, ConditionStatus = st, ConditionMessage = msg\<rparr> (Conditions shim)\<rparr>"

abbreviation update_shim_status :: "'w shim_env \<Rightarrow> sdn_shim \<Rightarrow> 'w shim_state \<Rightarrow> (api_error + sdn_shim) \<times> 'w shim_state" where
  "update_shim_status env shim \<equiv> on_world (apiStatusUpdate (shimClient env) shim)"

definition init_conditions :: "'w shim_env \<Rightarrow> sdn_shim \<Rightarrow> ('w shim_state, unit) action" where
  "init_conditions env shim =
     (if Conditions shim = [] then
        seq (attempt (update_shim_status env
              (set_condition env ConditionTypeNetworkReconciled ConditionFalse ''Starting reconciliation''
                (set_condition env ConditionTypeSdnConnected ConditionFalse ''Starting reconciliation'' shim))) fail)
          (\<lambda>_. stop (result_requeue, None))
      else pass ())"

text \<open>The connection points to the shim it was made for, which the update of the status changes.\<close>

definition point_to_shim :: "sdn_shim \<Rightarrow> 'w shim_state \<Rightarrow> 'w shim_state" where
  "point_to_shim shim s = s\<lparr>sdnClient := map_option (\<lambda>conn. conn\<lparr>ShimForClient := shim\<rparr>) (sdnClient s)\<rparr>"

definition connect_client :: "'w shim_env \<Rightarrow> sdn_shim \<Rightarrow> ('w shim_state, sdn_connection) action" where
  "connect_client env shim s =
     (case runSdnClientForShim env shim s of
        (Inl err, s1) \<Rightarrow>
          (let (er, s2) = update_shim_status env (set_condition env ConditionTypeSdnConnected ConditionFalse
                 ''Failed to establish connection'' shim) s1
           in stop (result_after SDN_CONN_RETRY_PERIOD, None) s2)
      | (Inr _, s1) \<Rightarrow>
          (let shim1 = set_condition env ConditionTypeSdnConnected ConditionTrue ''SDN connected'' shim in
           case update_shim_status env shim1 (point_to_shim shim1 s1) of
             (Inl err, s2) \<Rightarrow> fail err s2
           | (Inr shim2, s2) \<Rightarrow> stop (result_requeue, None) (point_to_shim shim2 s2)))"

definition ensure_client :: "'w shim_env \<Rightarrow> sdn_shim \<Rightarrow> ('w shim_state, sdn_connection) action" where
  "ensure_client env shim s =
     (case sdnClient s of
        None \<Rightarrow> connect_client env shim s
      | Some conn \<Rightarrow>
          (if SdnGrpcAddr (ShimForClient conn) \<noteq> SdnGrpcAddr shim then connect_client env shim (closeSdnClient s)
           else pass conn s))"

definition close_and_requeue :: "('w shim_state, 'a) action" where
  "close_and_requeue s = stop (result_requeue, None) (closeSdnClient s)"

definition create_topology :: "'w shim_env \<Rightarrow> sdn_shim \<Rightarrow> topology_cr \<Rightarrow> ('w shim_state, topology_cr) action" where
  "create_topology env shim topo =
     (case SetControllerReference env (shimMeta shim) (topoMeta topo) of
        Inl err \<Rightarrow> fail err
      | Inr m \<Rightarrow> seq (attempt (on_world (apiCreate (topologyClient env) (topo\<lparr>topoMeta := m\<rparr>))) fail)
          (\<lambda>_. stop (result_requeue, None)))"

definition sync_topology :: "'w shim_env \<Rightarrow> sdn_shim \<Rightarrow> sdn_connection \<Rightarrow> ('w shim_state, topology_cr) action" where
  "sync_topology env shim conn =
     seq (attempt (on_world (rpcGetTopology env conn)) (\<lambda>err. close_and_requeue)) (\<lambda>sdnTopo.
       let topo = buildClusterTopoCR sdnTopo in
       seq (attempt (on_world (apiGet (topologyClient env) TOPOLOGY_KEY))
              (\<lambda>err. if err = IsNotFound then create_topology env shim topo else fail err)) (\<lambda>storedTopo.
         if topologyChanged storedTopo topo then
           attempt (on_world (apiUpdate (topologyClient env) (storedTopo\<lparr>Graph := Graph topo\<rparr>))) fail
         else pass storedTopo))"

text \<open>The table of the listed objects by name; the last one of a name wins.\<close>

definition lut_of :: "('o \<Rightarrow> object_meta) \<Rightarrow> 'o list \<Rightarrow> (string, 'o) gomap" where
  "lut_of meta items = fold (\<lambda>item. gm_put (objectName (meta item)) item) items []"

definition remove_switch :: "'w shim_env \<Rightarrow> (string, inc_switch_cr) gomap \<Rightarrow> string \<Rightarrow> ('w shim_state, unit) action" where
  "remove_switch env lut swName =
     (case gm_get lut swName of
        Some sw \<Rightarrow> attempt (on_world (apiDelete (switchClient env) sw)) fail
      | None \<Rightarrow> pass ())"

definition check_switch ::
  "'w shim_env \<Rightarrow> (string, inc_switch_cr) gomap \<Rightarrow> (string, switch_details) gomap \<Rightarrow> string \<Rightarrow> string set \<Rightarrow>
     ('w shim_state, string set) action" where
  "check_switch env lut resp swName programNames =
     (case gm_get resp swName of
        None \<Rightarrow> pass programNames
      | Some det \<Rightarrow>
          (let programNames' = insert (detailsProgram det) programNames in
           case gm_get lut swName of
             None \<Rightarrow> pass programNames'
           | Some stored \<Rightarrow>
               (if detailsArch det \<noteq> switchArch stored \<or> detailsProgram det \<noteq> switchProgram stored then
                  seq (attempt (on_world (apiUpdate (switchClient env)
                        (stored\<lparr>switchArch := detailsArch det, switchProgram := detailsProgram det\<rparr>))) fail)
                    (\<lambda>_. pass programNames')
                else pass programNames')))"

definition add_switch ::
  "'w shim_env \<Rightarrow> sdn_shim \<Rightarrow> (string, switch_details) gomap \<Rightarrow> string \<Rightarrow> string set \<Rightarrow> ('w shim_state, string set) action" where
  "add_switch env shim resp swName programNames =
     (case gm_get resp swName of
        None \<Rightarrow> pass programNames
      | Some det \<Rightarrow>
          (let incSwitch = buildIncSwitchCR det in
           case SetControllerReference env (shimMeta shim) (switchMeta incSwitch) of
             Inl err \<Rightarrow> fail err
           | Inr m \<Rightarrow>
               seq (attempt (on_world (apiCreate (switchClient env) (incSwitch\<lparr>switchMeta := m\<rparr>))) fail)
                 (\<lambda>_. pass (insert (detailsProgram det) programNames))))"

text \<open>The result is the set of the programs that the switches run.\<close>

definition sync_switches :: "'w shim_env \<Rightarrow> sdn_shim \<Rightarrow> sdn_connection \<Rightarrow> topology_cr \<Rightarrow> ('w shim_state, string set) action" where
  "sync_switches env shim conn storedTopo =
     seq (attempt (on_world (apiList (switchClient env))) fail) (\<lambda>items.
       let lut = lut_of switchMeta items;
           present = set (map (objectName \<circ> switchMeta) items);
           desired = set (map DevName (filter (\<lambda>dev. DeviceType dev = CRD_INC_SWITCH) (Graph storedTopo)));
           toAdd = desired - present; toCheck = desired \<inter> present; toRemove = present - desired
       in seq (each (Slice env 0 toRemove) (\<lambda>swName _. remove_switch env lut swName) ()) (\<lambda>_.
          seq (attempt (on_world (rpcGetSwitchDetails env conn (Slice env 1 (toAdd \<union> toCheck))))
                 (\<lambda>err. if fst err = NotFound \<or> fst err = InvalidArgument then stop (result_requeue, None) else close_and_requeue)) (\<lambda>resp.
          seq (each (Slice env 2 toCheck) (check_switch env lut resp) {}) (\<lambda>programNames.
            each (Slice env 3 toAdd) (add_switch env shim resp) programNames))))"

definition remove_program :: "'w shim_env \<Rightarrow> (string, p4_program_cr) gomap \<Rightarrow> string \<Rightarrow> ('w shim_state, unit) action" where
  "remove_program env lut programName =
     (case gm_get lut programName of
        Some p \<Rightarrow> attempt (on_world (apiDelete (programClient env) p)) fail
      | None \<Rightarrow> pass ())"

definition fetch_program ::
  "'w shim_env \<Rightarrow> sdn_connection \<Rightarrow> string \<Rightarrow> (string, p4_program_cr) gomap \<Rightarrow> ('w shim_state, (string, p4_program_cr) gomap) action" where
  "fetch_program env conn programName desiredPrograms =
     seq (attempt (on_world (rpcGetProgramDetails env conn programName))
            (\<lambda>err. if fst err = NotFound then stop (result_requeue, None) else close_and_requeue))
       (\<lambda>resp. pass (gm_put programName (buildP4ProgramCR programName resp) desiredPrograms))"

definition add_program ::
  "'w shim_env \<Rightarrow> sdn_shim \<Rightarrow> (string, p4_program_cr) gomap \<Rightarrow> string \<Rightarrow> ('w shim_state, unit) action" where
  "add_program env shim desiredPrograms programName =
     (case gm_get desiredPrograms programName of
        None \<Rightarrow> pass ()
      | Some p \<Rightarrow>
          (case SetControllerReference env (shimMeta shim) (programMeta p) of
             Inl err \<Rightarrow> fail err
           | Inr m \<Rightarrow> seq (attempt (on_world (apiCreate (programClient env) (p\<lparr>programMeta := m\<rparr>))) fail) (\<lambda>_. pass ())))"

definition check_program ::
  "'w shim_env \<Rightarrow> (string, p4_program_cr) gomap \<Rightarrow> (string, p4_program_cr) gomap \<Rightarrow> string \<Rightarrow> ('w shim_state, unit) action" where
  "check_program env lut desiredPrograms programName =
     (case (gm_get lut programName, gm_get desiredPrograms programName) of
        (Some current, Some desired) \<Rightarrow>
          (if ImplementedInterfacesOf current \<noteq> ImplementedInterfacesOf desired then
             seq (attempt (on_world (apiUpdate (programClient env) desired)) fail) (\<lambda>_. pass ())
           else pass ())
      | _ \<Rightarrow> pass ())"

definition sync_programs :: "'w shim_env \<Rightarrow> sdn_shim \<Rightarrow> sdn_connection \<Rightarrow> string set \<Rightarrow> ('w shim_state, unit) action" where
  "sync_programs env shim conn desired =
     seq (attempt (on_world (apiList (programClient env))) fail) (\<lambda>items.
       let lut = lut_of programMeta items;
           stored = set (map (objectName \<circ> programMeta) items);
           toAdd = desired - stored; toCheck = desired \<inter> stored; toRemove = stored - desired
       in seq (each (Slice env 4 toRemove) (\<lambda>p _. remove_program env lut p) ()) (\<lambda>_.
          seq (each (Slice env 5 (toAdd \<union> toCheck)) (fetch_program env conn) []) (\<lambda>desiredPrograms.
          seq (each (Slice env 6 toAdd) (\<lambda>p _. add_program env shim desiredPrograms p) ()) (\<lambda>_.
            each (Slice env 7 toCheck) (\<lambda>p _. check_program env lut desiredPrograms p) ()))))"

definition report_reconciled :: "'w shim_env \<Rightarrow> sdn_shim \<Rightarrow> ('w shim_state, outcome) action" where
  "report_reconciled env shim =
     seq (attempt (update_shim_status env
            (set_condition env ConditionTypeNetworkReconciled ConditionTrue ''Network state reconciled'' shim)) fail)
       (\<lambda>_. pass (result_done, None))"

definition reconcile_network :: "'w shim_env \<Rightarrow> sdn_shim \<Rightarrow> sdn_connection \<Rightarrow> ('w shim_state, outcome) action" where
  "reconcile_network env shim conn =
     seq (sync_topology env shim conn) (\<lambda>storedTopo.
     seq (sync_switches env shim conn storedTopo) (\<lambda>programNames.
     seq (sync_programs env shim conn programNames) (\<lambda>_.
       report_reconciled env shim)))"

definition Reconcile :: "'w shim_env \<Rightarrow> object_key \<Rightarrow> 'w shim_state \<Rightarrow> outcome \<times> 'w shim_state" where
  "Reconcile env req =
     finish
       (seq (attempt (on_world (apiGet (shimClient env) req)) (\<lambda>err. stop (result_done, None))) (\<lambda>shimConfig.
        seq (init_conditions env shimConfig) (\<lambda>_.
        seq (ensure_client env shimConfig) (\<lambda>conn.
          reconcile_network env shimConfig conn))))"

end
