(* ===== verification/ShimProofs.thy ===== *)
theory ShimProofs
  imports Shim
begin

text \<open>
  What a complete run of the shim's \<open>Reconcile\<close> achieves: whatever the cluster stored before, it then stores the
  network of the SDN controller, as the gRPC services of \<open>Controller\<close> answer it, and nothing else.
\<close>

section \<open>Assumptions\<close>

text \<open>\<open>tv\<close>, \<open>sv\<close> and \<open>pv\<close> are the topologies, switches and programs that the API server stores. The SDN
  controller's state \<open>k\<close> stays the same while \<open>Reconcile\<close> runs; any call may fail.\<close>

definition slices_ok :: "(nat \<Rightarrow> string set \<Rightarrow> string list) \<Rightarrow> bool" where
  "slices_ok sl \<longleftrightarrow> (\<forall>i s. finite s \<longrightarrow> set (sl i s) = s \<and> distinct (sl i s))"

definition shim_laws ::
  "'w shim_env \<Rightarrow> kinda_sdn \<Rightarrow> ('w \<Rightarrow> object_key \<Rightarrow> network_device list option) \<Rightarrow>
     ('w \<Rightarrow> object_key \<Rightarrow> (string \<times> string) option) \<Rightarrow> ('w \<Rightarrow> object_key \<Rightarrow> string list option) \<Rightarrow> bool" where
  "shim_laws env k tv sv pv \<longleftrightarrow>
     client_laws (topologyClient env) (\<lambda>t. ObjectKey (topoMeta t)) Graph tv (\<lambda>w w'. sv w' = sv w \<and> pv w' = pv w)
   \<and> client_laws (switchClient env) (\<lambda>t. ObjectKey (switchMeta t)) (\<lambda>t. (switchArch t, switchProgram t)) sv
       (\<lambda>w w'. tv w' = tv w \<and> pv w' = pv w)
   \<and> client_laws (programClient env) (\<lambda>t. ObjectKey (programMeta t)) ImplementedInterfacesOf pv
       (\<lambda>w w'. tv w' = tv w \<and> sv w' = sv w)
   \<and> (\<forall>req w r w'. apiGet (shimClient env) req w = (r, w') \<longrightarrow> tv w' = tv w \<and> sv w' = sv w \<and> pv w' = pv w)
   \<and> (\<forall>shim w r w'. apiStatusUpdate (shimClient env) shim w = (r, w') \<longrightarrow> tv w' = tv w \<and> sv w' = sv w \<and> pv w' = pv w)
   \<and> (\<forall>conn w ans w'. rpcGetTopology env conn w = (Inr ans, w') \<longrightarrow>
        tv w' = tv w \<and> sv w' = sv w \<and> pv w' = pv w \<and> ans = GetTopology k)
   \<and> (\<forall>conn names w ans w'. rpcGetSwitchDetails env conn names w = (Inr ans, w') \<longrightarrow>
        tv w' = tv w \<and> sv w' = sv w \<and> pv w' = pv w \<and> GetSwitchDetails k names = Inr ans)
   \<and> (\<forall>conn name w ans w'. rpcGetProgramDetails env conn name w = (Inr ans, w') \<longrightarrow>
        tv w' = tv w \<and> sv w' = sv w \<and> pv w' = pv w \<and> GetProgramDetails k name = Inr ans)
   \<and> (\<forall>owner m m'. SetControllerReference env owner m = Inr m' \<longrightarrow> ObjectKey m' = ObjectKey m)
   \<and> slices_ok (Slice env)"

text \<open>Everything of a kind is in one namespace.\<close>

definition only_default :: "(object_key \<Rightarrow> 's option) \<Rightarrow> bool" where
  "only_default v \<longleftrightarrow> (\<forall>ns name. v (ns, name) \<noteq> None \<longrightarrow> ns = ''default'')"

section \<open>The network the cluster should store\<close>

definition wanted_graph :: "kinda_sdn \<Rightarrow> network_device list" where
  "wanted_graph k = map device_from_proto (GetTopology k)"

definition wanted_switch :: "kinda_sdn \<Rightarrow> string \<Rightarrow> (string \<times> string) option" where
  "wanted_switch k name =
     (case find (\<lambda>d. GetName d = name) (Devices (kTopo k)) of
        Some (IncSwitch sw) \<Rightarrow> if AllowClientProgrammability sw then Some (Arch sw, InstalledProgram sw) else None
      | _ \<Rightarrow> None)"

text \<open>The programs that the wanted switches run.\<close>

definition wanted_programs :: "kinda_sdn \<Rightarrow> string set" where
  "wanted_programs k = (\<lambda>n. snd (the (wanted_switch k n))) ` dom (wanted_switch k)"

definition wanted_program :: "kinda_sdn \<Rightarrow> string \<Rightarrow> string list option" where
  "wanted_program k name =
     (if name \<in> wanted_programs k then map_option ImplementedInterfaces (Lookup (kRegistry k) name) else None)"

lemma topologyChanged_iff: "topologyChanged t u \<longleftrightarrow> Graph t \<noteq> Graph u"
proof -
  have eq: "(\<forall>j < length (PeerNames d). PeerNames d ! j = PeerNames e ! j) \<and> length (PeerNames d) = length (PeerNames e)
      \<longleftrightarrow> PeerNames d = PeerNames e" for d e :: network_device
    by (auto intro: nth_equalityI)
  have dev: "d = e \<longleftrightarrow> DevName d = DevName e \<and> DeviceType d = DeviceType e \<and> PeerNames d = PeerNames e" for d e :: network_device
    by (cases d; cases e) auto
  have "\<not> topologyChanged t u \<longleftrightarrow> length (Graph t) = length (Graph u) \<and> (\<forall>i < length (Graph t). Graph t ! i = Graph u ! i)"
    unfolding topologyChanged_def Let_def dev eq [symmetric] by (auto simp: list_ex_iff)
  also have "\<dots> \<longleftrightarrow> Graph t = Graph u" by (auto intro: nth_equalityI)
  finally show ?thesis by blast
qed

lemma lut_of_get: "gm_get (lut_of meta items) n = find (\<lambda>x. objectName (meta x) = n) (rev items)"
  unfolding lut_of_def by (subst gm.get_fold_put) (auto split: option.split)

lemma lut_of_some:
  assumes "distinct (map (\<lambda>x. ObjectKey (meta x)) items)" and "\<forall>x \<in> set items. objectNamespace (meta x) = ns"
  shows "gm_get (lut_of meta items) n = Some x \<longleftrightarrow> x \<in> set items \<and> objectName (meta x) = n"
proof
  assume "gm_get (lut_of meta items) n = Some x"
  from find_SomeD [OF this [unfolded lut_of_get]] show "x \<in> set items \<and> objectName (meta x) = n" by simp
next
  assume x: "x \<in> set items \<and> objectName (meta x) = n"
  then have "gm_get (lut_of meta items) n \<noteq> None" unfolding lut_of_get by (auto simp: find_None_iff)
  then obtain y where y: "gm_get (lut_of meta items) n = Some y" by blast
  from find_SomeD [OF this [unfolded lut_of_get]] have "y \<in> set items" "objectName (meta y) = n" by auto
  moreover from this x assms(2) have "ObjectKey (meta y) = ObjectKey (meta x)" by (simp add: ObjectKey_def)
  ultimately have "y = x" using x assms(1) by (auto simp: distinct_map inj_on_def)
  with y show "gm_get (lut_of meta items) n = Some x" by simp
qed

text \<open>In one namespace, the table by name shows what the server stores.\<close>

lemma lut_of_view:
  assumes "distinct (map (\<lambda>x. ObjectKey (meta x)) items)" and "only_default v"
    and v: "\<And>k x. v k = Some x \<longleftrightarrow> (\<exists>obj \<in> set items. ObjectKey (meta obj) = k \<and> spec obj = x)"
  shows "map_option spec (gm_get (lut_of meta items) n) = v (''default'', n)"
    and "n \<in> set (map (objectName \<circ> meta) items) \<longleftrightarrow> v (''default'', n) \<noteq> None"
    and "gm_get (lut_of meta items) n = Some x \<Longrightarrow> ObjectKey (meta x) = (''default'', n)"
proof -
  have ns: "\<forall>x \<in> set items. objectNamespace (meta x) = ''default''"
    using assms(2) v by (fastforce simp: only_default_def ObjectKey_def)
  note lut = lut_of_some [OF assms(1) ns]
  show "map_option spec (gm_get (lut_of meta items) n) = v (''default'', n)"
  proof (cases "gm_get (lut_of meta items) n")
    case None
    then have "x \<notin> set items \<or> objectName (meta x) \<noteq> n" for x using lut [of n x] by simp
    have "v (''default'', n) = None"
    proof (rule ccontr)
      assume "v (''default'', n) \<noteq> None"
      then obtain y where "v (''default'', n) = Some y" by blast
      with v obtain obj where "obj \<in> set items" "ObjectKey (meta obj) = (''default'', n)" by blast
      with \<open>\<And>x. x \<notin> set items \<or> objectName (meta x) \<noteq> n\<close> show False by (auto simp: ObjectKey_def)
    qed
    with None show ?thesis by simp
  next
    case (Some x)
    with lut [of n x] ns have "x \<in> set items" "ObjectKey (meta x) = (''default'', n)" by (auto simp: ObjectKey_def)
    then have "v (''default'', n) = Some (spec x)" using v by blast
    with Some show ?thesis by simp
  qed
  show "n \<in> set (map (objectName \<circ> meta) items) \<longleftrightarrow> v (''default'', n) \<noteq> None"
    using v ns by (fastforce simp: ObjectKey_def)
  show "gm_get (lut_of meta items) n = Some x \<Longrightarrow> ObjectKey (meta x) = (''default'', n)"
    using lut ns by (simp add: ObjectKey_def)
qed

section \<open>What a call leaves in the cluster\<close>

lemma after_call:
  assumes "\<And>s x w'. P s \<Longrightarrow> f (world s) = (Inr x, w') \<Longrightarrow> Q x (s\<lparr>world := w'\<rparr>)"
    and "\<And>e s. \<exists>r s'. h e s = (Inl r, s')"
  shows "after P (attempt (on_world f) h) Q"
  using assms by (intro after_attempt) (auto simp: on_world_def split: prod.splits)

lemma after_ex: "(\<And>V. after (P V) m Q) \<Longrightarrow> after (\<lambda>s. \<exists>V. P V s) m Q"
  by (auto simp: after_def)

lemma after_fact: "(A \<Longrightarrow> after P m Q) \<Longrightarrow> after (\<lambda>s. P s \<and> A) m Q"
  by (auto simp: after_def)

lemma stops: "\<exists>r s'. stop x s = (Inl r, s')" "\<exists>r s'. close_and_requeue s = (Inl r, s')"
  by (auto simp: stop_def close_and_requeue_def)

lemma seq_stops:
  assumes "\<And>x s. \<exists>r s'. f x s = (Inl r, s')"
  shows "\<exists>r s'. seq m f s = (Inl r, s')"
  using assms by (fastforce simp: seq_def split: prod.splits sum.splits)

text \<open>\<open>stores B v V s\<close>: the namespace \<open>default\<close> stores \<open>V\<close>, no other stores anything of the kind, and \<open>B\<close>
  holds of the other kinds.\<close>

definition stores :: "('w \<Rightarrow> bool) \<Rightarrow> ('w \<Rightarrow> object_key \<Rightarrow> 's option) \<Rightarrow> (string \<Rightarrow> 's option) \<Rightarrow> 'w shim_state \<Rightarrow> bool" where
  "stores B v V s \<longleftrightarrow> B (world s) \<and> only_default (v (world s)) \<and> (\<forall>n. v (world s) (''default'', n) = V n)"

lemma only_default_upd:
  "only_default v \<Longrightarrow> only_default (v((''default'', n) := x))"
  by (auto simp: only_default_def)

definition frame_keeps :: "('w \<Rightarrow> 'w \<Rightarrow> bool) \<Rightarrow> ('w \<Rightarrow> bool) \<Rightarrow> bool" where
  "frame_keeps frame B \<longleftrightarrow> (\<forall>w w'. frame w w' \<longrightarrow> B w \<longrightarrow> B w')"

lemma stores_update:
  assumes "client_laws c key spec v frame" and "frame_keeps frame B" and "key x = (''default'', m)"
  shows "after (stores B v V) (attempt (on_world (apiUpdate c x)) fail) (\<lambda>_. stores B v (V(m \<mapsto> spec x)))"
proof (rule after_call [OF _ stops(1)])
  fix s x' w' assume s: "stores B v V s" and run: "apiUpdate c x (world s) = (Inr x', w')"
  from client_lawsD [OF assms(1)] run assms(3) have "frame (world s) w'" "v w' = (v (world s))((''default'', m) \<mapsto> spec x)"
    by metis+
  with s assms(2) show "stores B v (V(m \<mapsto> spec x)) (s\<lparr>world := w'\<rparr>)" by (auto simp: stores_def only_default_upd frame_keeps_def)
qed

lemma stores_create:
  assumes "client_laws c key spec v frame" and "frame_keeps frame B" and "key x = (''default'', m)"
  shows "after (stores B v V) (attempt (on_world (apiCreate c x)) fail) (\<lambda>_. stores B v (V(m \<mapsto> spec x)))"
proof (rule after_call [OF _ stops(1)])
  fix s x' w' assume s: "stores B v V s" and run: "apiCreate c x (world s) = (Inr x', w')"
  from client_lawsD [OF assms(1)] run assms(3) have "frame (world s) w'" "v w' = (v (world s))((''default'', m) \<mapsto> spec x)"
    by metis+
  with s assms(2) show "stores B v (V(m \<mapsto> spec x)) (s\<lparr>world := w'\<rparr>)" by (auto simp: stores_def only_default_upd frame_keeps_def)
qed

lemma stores_delete:
  assumes "client_laws c key spec v frame" and "frame_keeps frame B" and "key x = (''default'', m)"
  shows "after (stores B v V) (attempt (on_world (apiDelete c x)) fail) (\<lambda>_. stores B v (V(m := None)))"
proof (rule after_call [OF _ stops(1)])
  fix s w' and u :: unit assume s: "stores B v V s" and run: "apiDelete c x (world s) = (Inr u, w')"
  from client_lawsD(5) [OF assms(1)] run assms(3) have "frame (world s) w'" "v w' = (v (world s))((''default'', m) := None)"
    by (metis (full_types) old.unit.exhaust)+
  with s assms(2) show "stores B v (V(m := None)) (s\<lparr>world := w'\<rparr>)" by (auto simp: stores_def only_default_upd frame_keeps_def)
qed

lemma stores_list:
  assumes "client_laws c (\<lambda>x. ObjectKey (meta x)) spec v frame" and "frame_keeps frame B"
  shows "after (stores B v V) (attempt (on_world (apiList c)) fail) (\<lambda>items s. stores B v V s
     \<and> (V = (\<lambda>n. map_option spec (gm_get (lut_of meta items) n)) \<and> set (map (objectName \<circ> meta) items) = dom V
       \<and> (\<forall>n x. gm_get (lut_of meta items) n = Some x \<longrightarrow> ObjectKey (meta x) = (''default'', n))))"
proof (rule after_call [OF _ stops(1)])
  fix s items w' assume s: "stores B v V s" and run: "apiList c (world s) = (Inr items, w')"
  have w': "frame (world s) w'" "v w' = v (world s)" "distinct (map (\<lambda>x. ObjectKey (meta x)) items)"
    "\<And>k x. v (world s) k = Some x \<longleftrightarrow> (\<exists>obj \<in> set items. ObjectKey (meta obj) = k \<and> spec obj = x)"
    using client_lawsD(2) [OF assms(1) run] by blast+
  from s have od: "only_default (v (world s))" and V: "\<And>n. v (world s) (''default'', n) = V n" by (simp_all add: stores_def)
  note view = lut_of_view [OF w'(3) od w'(4)]
  have "V = (\<lambda>n. map_option spec (gm_get (lut_of meta items) n))" using view(1) V by (intro ext) simp
  moreover have "set (map (objectName \<circ> meta) items) = dom V" unfolding dom_def set_eq_iff mem_Collect_eq view(2) V by simp
  moreover have "stores B v V (s\<lparr>world := w'\<rparr>)" using s w'(1,2) assms(2) by (auto simp: stores_def frame_keeps_def)
  ultimately show "stores B v V (s\<lparr>world := w'\<rparr>) \<and> (V = (\<lambda>n. map_option spec (gm_get (lut_of meta items) n))
     \<and> set (map (objectName \<circ> meta) items) = dom V
     \<and> (\<forall>n x. gm_get (lut_of meta items) n = Some x \<longrightarrow> ObjectKey (meta x) = (''default'', n)))"
    using view(3) by blast
qed

text \<open>The loops that remove what is not wanted.\<close>

lemma remove_loop:
  assumes "client_laws c (\<lambda>x. ObjectKey (meta x)) spec v frame" and "frame_keeps frame B"
    and "\<forall>n x. gm_get lut n = Some x \<longrightarrow> ObjectKey (meta x) = (''default'', n)"
    and "V = (\<lambda>n. map_option spec (gm_get lut n))"
  shows "after (stores B v V)
     (each xs (\<lambda>n _. case gm_get lut n of Some x \<Rightarrow> attempt (on_world (apiDelete c x)) fail | None \<Rightarrow> pass ()) ())
     (\<lambda>_. stores B v (\<lambda>n. if n \<in> set xs then None else V n))"
proof -
  let ?I = "\<lambda>pre _. stores B v (\<lambda>n. if n \<in> set pre then None else V n)"
  have "after (?I [] ()) (each xs (\<lambda>n _. case gm_get lut n of Some x \<Rightarrow> attempt (on_world (apiDelete c x)) fail | None \<Rightarrow> pass ()) ()) (?I xs)"
  proof (rule after_each)
    fix pre n rest and a :: unit assume "xs = pre @ n # rest"
    let ?V = "\<lambda>m. if m \<in> set pre then None else V m"
    have V: "(\<lambda>m. if m \<in> set (pre @ [n]) then None else V m) = ?V(n := None)" by auto
    show "after (?I pre a) (case gm_get lut n of Some x \<Rightarrow> attempt (on_world (apiDelete c x)) fail | None \<Rightarrow> pass ()) (?I (pre @ [n]))"
    proof (cases "gm_get lut n")
      case None
      then have "?V(n := None) = ?V" using assms(4) by auto
      with None V show ?thesis by (auto intro: after_pass)
    next
      case (Some x)
      with assms(3) have "ObjectKey (meta x) = (''default'', n)" by blast
      from stores_delete [where V = ?V, OF assms(1) assms(2) this] Some V show ?thesis by simp
    qed
  qed
  then show ?thesis by simp
qed

section \<open>Answers of the SDN controller\<close>

lemma switch_details_of_Inr:
  "switch_details_of k names res = Inr m \<Longrightarrow>
     (\<forall>n. gm_get m n = (if n \<in> set names then
        (case find (\<lambda>d. GetName d = n) (Devices (kTopo k)) of Some (IncSwitch sw) \<Rightarrow> Some (IncSwitchToDetailsProto sw) | _ \<Rightarrow> None)
        else gm_get res n))
     \<and> (\<forall>n \<in> set names. \<exists>sw. find (\<lambda>d. GetName d = n) (Devices (kTopo k)) = Some (IncSwitch sw))"
proof (induction names arbitrary: res)
  case (Cons n names)
  from Cons.prems obtain sw where sw: "find (\<lambda>d. GetName d = n) (Devices (kTopo k)) = Some (IncSwitch sw)"
    and rest: "switch_details_of k names (gm_put n (IncSwitchToDetailsProto sw) res) = Inr m"
    by (auto split: option.splits device.splits)
  from Cons.IH [OF rest] sw show ?case by auto
qed simp

lemma details_wanted:
  assumes "GetSwitchDetails k names = Inr resp" and "n \<in> set names" and "wanted_switch k n \<noteq> None"
  shows "\<exists>det. gm_get resp n = Some det \<and> detailsName det = n \<and> wanted_switch k n = Some (detailsArch det, detailsProgram det)"
proof -
  from switch_details_of_Inr [OF assms(1) [unfolded GetSwitchDetails_def]] assms(2) obtain sw
    where sw: "find (\<lambda>d. GetName d = n) (Devices (kTopo k)) = Some (IncSwitch sw)"
      "gm_get resp n = Some (IncSwitchToDetailsProto sw)" by fastforce
  from find_SomeD [OF sw(1)] have "Name sw = n" by simp
  with sw assms(3) show ?thesis
    by (auto simp: wanted_switch_def IncSwitchToDetailsProto_def split: if_splits)
qed

lemma wanted_switch_names:
  assumes "distinct (map GetName (Devices (kTopo k)))"
  shows "set (map DevName (filter (\<lambda>dev. DeviceType dev = CRD_INC_SWITCH) (wanted_graph k))) = dom (wanted_switch k)"
proof -
  have inc: "deviceTypeFromProto (convertDeviceType d) = CRD_INC_SWITCH \<longleftrightarrow> (\<exists>sw. d = IncSwitch sw \<and> AllowClientProgrammability sw)" for d
    by (cases d) (auto simp: convertDeviceType_def)
  have found: "find (\<lambda>d. GetName d = n) (Devices (kTopo k)) = Some d \<longleftrightarrow> d \<in> set (Devices (kTopo k)) \<and> GetName d = n" for n d
  proof
    assume d: "d \<in> set (Devices (kTopo k)) \<and> GetName d = n"
    then obtain e where e: "find (\<lambda>d. GetName d = n) (Devices (kTopo k)) = Some e"
      by (metis (mono_tags, lifting) find_None_iff option.exhaust)
    from find_SomeD [OF e] d assms have "e = d" by (auto simp: distinct_map inj_on_def)
    with e show "find (\<lambda>d. GetName d = n) (Devices (kTopo k)) = Some d" by simp
  qed (auto dest: find_SomeD)
  show ?thesis
  proof (rule set_eqI)
    fix n
    have "n \<in> dom (wanted_switch k) \<longleftrightarrow> (\<exists>sw. find (\<lambda>d. GetName d = n) (Devices (kTopo k)) = Some (IncSwitch sw) \<and> AllowClientProgrammability sw)"
      by (simp add: wanted_switch_def dom_def split: option.split device.split)
    also have "\<dots> \<longleftrightarrow> (\<exists>d \<in> set (Devices (kTopo k)). GetName d = n \<and> deviceTypeFromProto (convertDeviceType d) = CRD_INC_SWITCH)"
      unfolding found inc by blast
    also have "\<dots> \<longleftrightarrow> n \<in> set (map DevName (filter (\<lambda>dev. DeviceType dev = CRD_INC_SWITCH) (wanted_graph k)))"
      by (simp add: wanted_graph_def GetTopology_def TopologyModelToProto_def device_from_proto_def DeviceToProto_def
          filter_map comp_def) blast
    finally show "n \<in> set (map DevName (filter (\<lambda>dev. DeviceType dev = CRD_INC_SWITCH) (wanted_graph k))) \<longleftrightarrow> n \<in> dom (wanted_switch k)" ..
  qed
qed

section \<open>The steps\<close>

text \<open>What the laws give, one fact per call.\<close>

lemma shim_lawsD:
  assumes "shim_laws env k tv sv pv"
  shows "client_laws (topologyClient env) (\<lambda>t. ObjectKey (topoMeta t)) Graph tv (\<lambda>w w'. sv w' = sv w \<and> pv w' = pv w)"
    and "client_laws (switchClient env) (\<lambda>t. ObjectKey (switchMeta t)) (\<lambda>t. (switchArch t, switchProgram t)) sv
       (\<lambda>w w'. tv w' = tv w \<and> pv w' = pv w)"
    and "client_laws (programClient env) (\<lambda>t. ObjectKey (programMeta t)) ImplementedInterfacesOf pv
       (\<lambda>w w'. tv w' = tv w \<and> sv w' = sv w)"
    and "apiStatusUpdate (shimClient env) shim w = (rs, w') \<Longrightarrow> tv w' = tv w \<and> sv w' = sv w \<and> pv w' = pv w"
    and "rpcGetTopology env conn w = (Inr topo, w') \<Longrightarrow> tv w' = tv w \<and> sv w' = sv w \<and> pv w' = pv w \<and> topo = GetTopology k"
    and "rpcGetSwitchDetails env conn names w = (Inr resp, w') \<Longrightarrow>
        tv w' = tv w \<and> sv w' = sv w \<and> pv w' = pv w \<and> GetSwitchDetails k names = Inr resp"
    and "rpcGetProgramDetails env conn name w = (Inr ifs, w') \<Longrightarrow>
        tv w' = tv w \<and> sv w' = sv w \<and> pv w' = pv w \<and> GetProgramDetails k name = Inr ifs"
    and "SetControllerReference env owner m = Inr m' \<Longrightarrow> ObjectKey m' = ObjectKey m"
    and "slices_ok (Slice env)"
    and "apiGet (shimClient env) req w = (rs, w') \<Longrightarrow> tv w' = tv w \<and> sv w' = sv w \<and> pv w' = pv w"
  using assms unfolding shim_laws_def by meson+

definition one_namespace :: "('w \<Rightarrow> object_key \<Rightarrow> 'a option) \<Rightarrow> ('w \<Rightarrow> object_key \<Rightarrow> 'b option) \<Rightarrow> 'w \<Rightarrow> bool" where
  "one_namespace sv pv w \<longleftrightarrow> only_default (sv w) \<and> only_default (pv w)"

lemma create_topology_stops: "\<exists>r s'. create_topology env shim topo s = (Inl r, s')"
proof (cases "SetControllerReference env (shimMeta shim) (topoMeta topo)")
  case (Inl e)
  show ?thesis unfolding create_topology_def Inl sum.case by (rule stops)
next
  case (Inr m)
  show ?thesis unfolding create_topology_def Inr sum.case by (rule seq_stops) (rule stops)
qed

lemma after_sync_topology:
  assumes laws: "shim_laws env k tv sv pv"
  shows "after (\<lambda>s. one_namespace sv pv (world s)) (sync_topology env shim conn)
    (\<lambda>stored s. one_namespace sv pv (world s) \<and> tv (world s) TOPOLOGY_KEY = Some (wanted_graph k) \<and> Graph stored = wanted_graph k)"
proof -
  note L = shim_lawsD [OF laws]
  have fetched: "after (\<lambda>s. one_namespace sv pv (world s)) (attempt (on_world (rpcGetTopology env conn)) (\<lambda>err. close_and_requeue))
     (\<lambda>ans s. one_namespace sv pv (world s) \<and> ans = GetTopology k)"
    by (rule after_call [OF _ stops(2)]) (auto simp: one_namespace_def dest: L(5))
  have loaded: "after (\<lambda>s. one_namespace sv pv (world s))
     (attempt (on_world (apiGet (topologyClient env) TOPOLOGY_KEY)) (\<lambda>err. if err = IsNotFound then create_topology env shim topo else fail err))
     (\<lambda>stored s. one_namespace sv pv (world s) \<and> (ObjectKey (topoMeta stored) = TOPOLOGY_KEY \<and> tv (world s) TOPOLOGY_KEY = Some (Graph stored)))"
    for topo
  proof (rule after_call)
    fix s x w' assume "one_namespace sv pv (world s)" "apiGet (topologyClient env) TOPOLOGY_KEY (world s) = (Inr x, w')"
    moreover from this have "sv w' = sv (world s) \<and> pv w' = pv (world s) \<and> tv w' = tv (world s)
        \<and> ObjectKey (topoMeta x) = TOPOLOGY_KEY \<and> tv (world s) TOPOLOGY_KEY = Some (Graph x)"
      using client_lawsD(1) [OF L(1)] by blast
    ultimately show "one_namespace sv pv (world (s\<lparr>world := w'\<rparr>)) \<and> (ObjectKey (topoMeta x) = TOPOLOGY_KEY
        \<and> tv (world (s\<lparr>world := w'\<rparr>)) TOPOLOGY_KEY = Some (Graph x))" by (simp add: one_namespace_def)
  next
    show "\<exists>r s'. (if err = IsNotFound then create_topology env shim topo else fail err) s = (Inl r, s')" for err and s :: "'a shim_state"
      using create_topology_stops stops(1) by (cases "err = IsNotFound") (simp_all only: if_True if_False simp_thms)
  qed
  have updated: "after (\<lambda>s. one_namespace sv pv (world s) \<and> (ObjectKey (topoMeta stored) = TOPOLOGY_KEY \<and> tv (world s) TOPOLOGY_KEY = Some (Graph stored)))
     (if topologyChanged stored (buildClusterTopoCR (GetTopology k)) then
        attempt (on_world (apiUpdate (topologyClient env) (stored\<lparr>Graph := Graph (buildClusterTopoCR (GetTopology k))\<rparr>))) fail
      else pass stored)
     (\<lambda>stored s. one_namespace sv pv (world s) \<and> tv (world s) TOPOLOGY_KEY = Some (wanted_graph k) \<and> Graph stored = wanted_graph k)" for stored
  proof (rule after_if)
    show "after (\<lambda>s. one_namespace sv pv (world s) \<and> (ObjectKey (topoMeta stored) = TOPOLOGY_KEY \<and> tv (world s) TOPOLOGY_KEY = Some (Graph stored)))
     (attempt (on_world (apiUpdate (topologyClient env) (stored\<lparr>Graph := Graph (buildClusterTopoCR (GetTopology k))\<rparr>))) fail)
     (\<lambda>stored s. one_namespace sv pv (world s) \<and> tv (world s) TOPOLOGY_KEY = Some (wanted_graph k) \<and> Graph stored = wanted_graph k)"
    proof (rule after_call [OF _ stops(1)])
      fix s x w' assume s: "one_namespace sv pv (world s) \<and> (ObjectKey (topoMeta stored) = TOPOLOGY_KEY \<and> tv (world s) TOPOLOGY_KEY = Some (Graph stored))"
        and run: "apiUpdate (topologyClient env) (stored\<lparr>Graph := Graph (buildClusterTopoCR (GetTopology k))\<rparr>) (world s) = (Inr x, w')"
      from client_lawsD(4) [OF L(1) run] have "sv w' = sv (world s) \<and> pv w' = pv (world s) \<and> Graph x = wanted_graph k
          \<and> tv w' = (tv (world s))(ObjectKey (topoMeta stored) \<mapsto> wanted_graph k)"
        by (simp add: buildClusterTopoCR_def wanted_graph_def)
      with s show "one_namespace sv pv (world (s\<lparr>world := w'\<rparr>)) \<and> tv (world (s\<lparr>world := w'\<rparr>)) TOPOLOGY_KEY = Some (wanted_graph k)
          \<and> Graph x = wanted_graph k" by (simp add: one_namespace_def)
    qed
  qed (auto intro!: after_pass simp: topologyChanged_iff buildClusterTopoCR_def wanted_graph_def)
  show ?thesis
    unfolding sync_topology_def Let_def
  proof (rule after_seq [OF fetched], rule after_fact)
    fix ans assume ans: "ans = GetTopology k"
    show "after (\<lambda>s. one_namespace sv pv (world s))
      (seq (attempt (on_world (apiGet (topologyClient env) TOPOLOGY_KEY))
              (\<lambda>err. if err = IsNotFound then create_topology env shim (buildClusterTopoCR ans) else fail err)) (\<lambda>storedTopo.
         if topologyChanged storedTopo (buildClusterTopoCR ans) then
           attempt (on_world (apiUpdate (topologyClient env) (storedTopo\<lparr>Graph := Graph (buildClusterTopoCR ans)\<rparr>))) fail
         else pass storedTopo))
      (\<lambda>stored s. one_namespace sv pv (world s) \<and> tv (world s) TOPOLOGY_KEY = Some (wanted_graph k) \<and> Graph stored = wanted_graph k)"
      unfolding ans by (rule after_seq [OF loaded updated])
  qed
qed

text \<open>The loops that bring the entry of each name to what is wanted.\<close>

lemma sync_loop:
  assumes step: "\<And>n V a. n \<in> set xs \<Longrightarrow> V n = V0 n \<Longrightarrow>
      after (stores B v V) (f n a) (\<lambda>a' s. stores B v (V(n := W n)) s \<and> a' = ins n a)"
    and "distinct xs"
  shows "after (stores B v V0) (each xs f a0)
    (\<lambda>a s. stores B v (\<lambda>n. if n \<in> set xs then W n else V0 n) s \<and> a = fold ins xs a0)"
proof -
  let ?V = "\<lambda>pre n. if n \<in> set pre then W n else V0 n"
  let ?I = "\<lambda>pre a s. stores B v (?V pre) s \<and> a = fold ins pre a0"
  have "after (?I [] a0) (each xs f a0) (?I xs)"
  proof (rule after_each)
    fix pre n rest a assume xs: "xs = pre @ n # rest"
    have V: "?V (pre @ [n]) = (?V pre)(n := W n)" by auto
    have "after (stores B v (?V pre)) (f n a) (\<lambda>a' s. stores B v ((?V pre)(n := W n)) s \<and> a' = ins n a)"
      using xs assms(2) by (intro step) auto
    then show "after (?I pre a) (f n a) (?I (pre @ [n]))"
      unfolding V by (auto simp: after_def)
  qed
  then show ?thesis by simp
qed

lemma fold_insert: "fold (\<lambda>n. insert (g n)) xs A = A \<union> g ` set xs"
  by (induction xs arbitrary: A) auto

lemma check_switch_step:
  assumes "shim_laws env k tv sv pv" and "gm_get resp n = Some det" and "gm_get lut n = Some stored"
    and "ObjectKey (switchMeta stored) = (''default'', n)" and "V n = Some (switchArch stored, switchProgram stored)"
    and B: "frame_keeps (\<lambda>w w'. tv w' = tv w \<and> pv w' = pv w) B"
  shows "after (stores B sv V) (check_switch env lut resp n progs)
    (\<lambda>progs' s. stores B sv (V(n := Some (detailsArch det, detailsProgram det))) s \<and> progs' = insert (detailsProgram det) progs)"
proof (cases "detailsArch det \<noteq> switchArch stored \<or> detailsProgram det \<noteq> switchProgram stored")
  case True
  let ?new = "stored\<lparr>switchArch := detailsArch det, switchProgram := detailsProgram det\<rparr>"
  have "after (stores B sv V) (attempt (on_world (apiUpdate (switchClient env) ?new)) fail)
      (\<lambda>_. stores B sv (V(n \<mapsto> (switchArch ?new, switchProgram ?new))))"
    by (rule stores_update [OF shim_lawsD(2) [OF assms(1)] B]) (simp_all add: assms(4))
  with True show ?thesis by (auto simp: check_switch_def assms(2,3) intro!: after_seq after_pass)
next
  case False
  then have "V(n := Some (detailsArch det, detailsProgram det)) = V" using assms(5) by auto
  with False show ?thesis by (auto simp: check_switch_def assms(2,3) intro!: after_pass)
qed

lemma add_switch_step:
  assumes "shim_laws env k tv sv pv" and "gm_get resp n = Some det" and "detailsName det = n"
    and B: "frame_keeps (\<lambda>w w'. tv w' = tv w \<and> pv w' = pv w) B"
  shows "after (stores B sv V) (add_switch env shim resp n progs)
    (\<lambda>progs' s. stores B sv (V(n := Some (detailsArch det, detailsProgram det))) s \<and> progs' = insert (detailsProgram det) progs)"
proof (cases "SetControllerReference env (shimMeta shim) (switchMeta (buildIncSwitchCR det))")
  case (Inl e)
  then show ?thesis by (simp add: add_switch_def assms(2) after_stop)
next
  case (Inr m)
  let ?new = "(buildIncSwitchCR det)\<lparr>switchMeta := m\<rparr>"
  from shim_lawsD(8) [OF assms(1) Inr] assms(3) have "ObjectKey m = (''default'', n)"
    by (simp add: buildIncSwitchCR_def ObjectKey_def NewMeta_def TOPOLOGY_KEY_def)
  then have "after (stores B sv V) (attempt (on_world (apiCreate (switchClient env) ?new)) fail)
      (\<lambda>_. stores B sv (V(n \<mapsto> (switchArch ?new, switchProgram ?new))))"
    by (intro stores_create [OF shim_lawsD(2) [OF assms(1)] B]) simp_all
  moreover have "switchArch ?new = detailsArch det" "switchProgram ?new = detailsProgram det"
    by (simp_all add: buildIncSwitchCR_def)
  ultimately have "after (stores B sv V) (attempt (on_world (apiCreate (switchClient env) ?new)) fail)
      (\<lambda>_. stores B sv (V(n \<mapsto> (detailsArch det, detailsProgram det))))" by simp
  then show ?thesis
    by (auto simp: add_switch_def assms(2) Inr Let_def intro!: after_seq after_pass)
qed

lemma after_sync_switches:
  assumes laws: "shim_laws env k tv sv pv" and "distinct (map GetName (Devices (kTopo k)))"
    and stored: "Graph storedTopo = wanted_graph k"
    and B: "frame_keeps (\<lambda>w w'. tv w' = tv w \<and> pv w' = pv w) B"
  shows "after (stores B sv V) (sync_switches env shim conn storedTopo)
    (\<lambda>progs s. stores B sv (wanted_switch k) s \<and> progs = wanted_programs k)"
proof -
  note L = shim_lawsD [OF laws]
  let ?W = "wanted_switch k"
  let ?rem = "dom V - dom ?W" and ?check = "dom ?W \<inter> dom V" and ?add = "dom ?W - dom V"
  define V1 where "V1 = (\<lambda>n. if n \<in> ?rem then None else V n)"
  define g where "g = (\<lambda>n. snd (the (?W n)))"
  have names: "set (map DevName (filter (\<lambda>dev. DeviceType dev = CRD_INC_SWITCH) (Graph storedTopo))) = dom ?W"
    unfolding stored by (rule wanted_switch_names [OF assms(2)])
  have listed: "after (stores B sv V) (attempt (on_world (apiList (switchClient env))) fail) (\<lambda>items s. stores B sv V s
     \<and> (V = (\<lambda>n. map_option (\<lambda>t. (switchArch t, switchProgram t)) (gm_get (lut_of switchMeta items) n))
       \<and> set (map (objectName \<circ> switchMeta) items) = dom V
       \<and> (\<forall>n x. gm_get (lut_of switchMeta items) n = Some x \<longrightarrow> ObjectKey (switchMeta x) = (''default'', n))))"
    by (rule stores_list [OF L(2) B])
  show ?thesis
    unfolding sync_switches_def
  proof (rule after_seq [OF listed], rule after_fact, elim conjE, unfold Let_def names)
    fix items :: "inc_switch_cr list"
    let ?lut = "lut_of switchMeta items"
    assume V: "V = (\<lambda>n. map_option (\<lambda>t. (switchArch t, switchProgram t)) (gm_get ?lut n))"
      and present: "set (map (objectName \<circ> switchMeta) items) = dom V"
      and keys: "\<forall>n x. gm_get ?lut n = Some x \<longrightarrow> ObjectKey (switchMeta x) = (''default'', n)"
    have fin: "finite (dom V)" "finite (dom ?W)" using present names by (metis List.finite_set)+
    have slice: "set (Slice env i S) = S" "distinct (Slice env i S)" if "S \<subseteq> dom V \<union> dom ?W" for i S
      using L(9) finite_subset [OF that] fin by (simp_all add: slices_ok_def)
    have sl: "set (Slice env i ?rem) = ?rem" "set (Slice env i ?check) = ?check" "set (Slice env i ?add) = ?add"
        "set (Slice env i (dom ?W)) = dom ?W" "distinct (Slice env i ?check)" "distinct (Slice env i ?add)" for i
      by (rule slice; blast)+
    have sets: "?add \<union> ?check = dom ?W" by blast
    have r: "after (stores B sv V) (each (Slice env 0 ?rem) (\<lambda>n _. remove_switch env ?lut n) ()) (\<lambda>_. stores B sv V1)"
      using remove_loop [where xs = "Slice env 0 ?rem", OF L(2) B keys V] sl(1) [of 0]
      by (simp add: remove_switch_def V1_def)
    have d: "after (stores B sv V1) (attempt (on_world (rpcGetSwitchDetails env conn (Slice env 1 (dom ?W))))
          (\<lambda>err. if fst err = NotFound \<or> fst err = InvalidArgument then stop (result_requeue, None) else close_and_requeue))
        (\<lambda>resp s. stores B sv V1 s \<and> GetSwitchDetails k (Slice env 1 (dom ?W)) = Inr resp)"
    proof (rule after_call)
      fix s resp w' assume s: "stores B sv V1 s" and run: "rpcGetSwitchDetails env conn (Slice env 1 (dom ?W)) (world s) = (Inr resp, w')"
      from L(6) [OF run] s B show "stores B sv V1 (s\<lparr>world := w'\<rparr>) \<and> GetSwitchDetails k (Slice env 1 (dom ?W)) = Inr resp"
        by (auto simp: stores_def frame_keeps_def)
    qed (auto simp: stop_def close_and_requeue_def)
    have det: "\<exists>det. gm_get resp n = Some det \<and> detailsName det = n \<and> ?W n = Some (detailsArch det, detailsProgram det)"
      if "GetSwitchDetails k (Slice env 1 (dom ?W)) = Inr resp" "n \<in> dom ?W" for resp n
      using details_wanted [OF that(1)] sl(4) [of 1] that(2) by blast
    have c: "after (stores B sv V1) (each (Slice env 2 ?check) (check_switch env ?lut resp) {})
        (\<lambda>progs s. stores B sv (\<lambda>n. if n \<in> ?check then ?W n else V1 n) s \<and> progs = g ` ?check)"
      if resp: "GetSwitchDetails k (Slice env 1 (dom ?W)) = Inr resp" for resp
    proof -
      have "after (stores B sv V1) (each (Slice env 2 ?check) (check_switch env ?lut resp) {})
        (\<lambda>progs s. stores B sv (\<lambda>n. if n \<in> set (Slice env 2 ?check) then ?W n else V1 n) s
           \<and> progs = fold (\<lambda>n. insert (g n)) (Slice env 2 ?check) {})"
      proof (rule sync_loop)
        fix n V' and progs :: "string set" assume n: "n \<in> set (Slice env 2 ?check)" and V': "V' n = V1 n"
        with sl(2) [of 2] have n: "n \<in> dom ?W" "n \<in> dom V" by auto
        from det [OF resp n(1)] obtain x where x: "gm_get resp n = Some x" "?W n = Some (detailsArch x, detailsProgram x)" by blast
        from n(2) V obtain y where y: "gm_get ?lut n = Some y" by auto
        with V have "V n = Some (switchArch y, switchProgram y)" by simp
        with V' n have v: "V' n = Some (switchArch y, switchProgram y)" by (simp add: V1_def)
        from keys y have "ObjectKey (switchMeta y) = (''default'', n)" by blast
        from check_switch_step [where V = V' and n = n, OF laws x(1) y this v B] x(2)
        show "after (stores B sv V') (check_switch env ?lut resp n progs)
            (\<lambda>progs' s. stores B sv (V'(n := ?W n)) s \<and> progs' = insert (g n) progs)" by (simp add: g_def)
      qed (rule sl(5))
      then show ?thesis using sl(2) [of 2] by (simp add: fold_insert)
    qed
    have a: "after (stores B sv (\<lambda>n. if n \<in> ?check then ?W n else V1 n)) (each (Slice env 3 ?add) (add_switch env shim resp) (g ` ?check))
        (\<lambda>progs s. stores B sv ?W s \<and> progs = wanted_programs k)"
      if resp: "GetSwitchDetails k (Slice env 1 (dom ?W)) = Inr resp" for resp
    proof -
      let ?V2 = "\<lambda>n. if n \<in> ?check then ?W n else V1 n"
      have "after (stores B sv ?V2) (each (Slice env 3 ?add) (add_switch env shim resp) (g ` ?check))
        (\<lambda>progs s. stores B sv (\<lambda>n. if n \<in> set (Slice env 3 ?add) then ?W n else ?V2 n) s
           \<and> progs = fold (\<lambda>n. insert (g n)) (Slice env 3 ?add) (g ` ?check))"
      proof (rule sync_loop)
        fix n V' and progs :: "string set" assume n: "n \<in> set (Slice env 3 ?add)"
        with sl(3) [of 3] have n: "n \<in> dom ?W" by auto
        from det [OF resp n] obtain x where x: "gm_get resp n = Some x" "detailsName x = n"
          "?W n = Some (detailsArch x, detailsProgram x)" by blast
        from add_switch_step [OF laws x(1,2) B] x(3)
        show "after (stores B sv V') (add_switch env shim resp n progs)
            (\<lambda>progs' s. stores B sv (V'(n := ?W n)) s \<and> progs' = insert (g n) progs)" by (simp add: g_def)
      qed (rule sl(6))
      moreover have "(\<lambda>n. if n \<in> ?add then ?W n else ?V2 n) = ?W" by (rule ext) (auto simp: V1_def domIff simp del: not_None_eq)
      moreover have "g ` ?check \<union> g ` ?add = wanted_programs k"
        by (simp add: wanted_programs_def g_def image_Un [symmetric] Int_Diff_Un)
      ultimately show ?thesis using sl(3) [of 3] by (simp add: fold_insert)
    qed
    show "after (stores B sv V)
      (seq (each (Slice env 0 (set (map (objectName \<circ> switchMeta) items) - dom ?W)) (\<lambda>n _. remove_switch env ?lut n) ()) (\<lambda>_.
       seq (attempt (on_world (rpcGetSwitchDetails env conn (Slice env 1
              ((dom ?W - set (map (objectName \<circ> switchMeta) items)) \<union> dom ?W \<inter> set (map (objectName \<circ> switchMeta) items)))))
             (\<lambda>err. if fst err = NotFound \<or> fst err = InvalidArgument then stop (result_requeue, None) else close_and_requeue)) (\<lambda>resp.
       seq (each (Slice env 2 (dom ?W \<inter> set (map (objectName \<circ> switchMeta) items))) (check_switch env ?lut resp) {}) (\<lambda>programNames.
         each (Slice env 3 (dom ?W - set (map (objectName \<circ> switchMeta) items))) (add_switch env shim resp) programNames))))
      (\<lambda>progs s. stores B sv ?W s \<and> progs = wanted_programs k)"
      unfolding present sets
    proof (rule after_seq [OF r], rule after_seq [OF d], rule after_fact)
      fix resp assume resp: "GetSwitchDetails k (Slice env 1 (dom ?W)) = Inr resp"
      show "after (stores B sv V1) (seq (each (Slice env 2 ?check) (check_switch env ?lut resp) {})
          (each (Slice env 3 ?add) (add_switch env shim resp))) (\<lambda>progs s. stores B sv ?W s \<and> progs = wanted_programs k)"
      proof (rule after_seq [OF c [OF resp]], rule after_fact)
        fix progs assume "progs = g ` ?check"
        with a [OF resp] show "after (stores B sv (\<lambda>n. if n \<in> ?check then ?W n else V1 n))
            (each (Slice env 3 ?add) (add_switch env shim resp) progs) (\<lambda>progs s. stores B sv ?W s \<and> progs = wanted_programs k)" by simp
      qed
    qed
  qed
qed

lemma fetch_program_step:
  assumes "shim_laws env k tv sv pv" and B: "frame_keeps (\<lambda>w w'. tv w' = tv w \<and> sv w' = sv w \<and> pv w' = pv w) B"
  shows "after (\<lambda>s. B (world s)) (fetch_program env conn n dp)
    (\<lambda>dp' s. B (world s) \<and> (\<exists>d. Lookup (kRegistry k) n = Some d \<and> dp' = gm_put n (buildP4ProgramCR n (ImplementedInterfaces d)) dp))"
proof -
  have "after (\<lambda>s. B (world s)) (attempt (on_world (rpcGetProgramDetails env conn n))
          (\<lambda>err. if fst err = NotFound then stop (result_requeue, None) else close_and_requeue))
        (\<lambda>ifs s. B (world s) \<and> (\<exists>d. Lookup (kRegistry k) n = Some d \<and> ifs = ImplementedInterfaces d))"
  proof (rule after_call)
    fix s ifs w' assume s: "B (world s)" and run: "rpcGetProgramDetails env conn n (world s) = (Inr ifs, w')"
    from shim_lawsD(7) [OF assms(1) run] have w': "tv w' = tv (world s) \<and> sv w' = sv (world s) \<and> pv w' = pv (world s)"
      and ans: "GetProgramDetails k n = Inr ifs" by auto
    from ans have "\<exists>d. Lookup (kRegistry k) n = Some d \<and> ifs = ImplementedInterfaces d"
      by (auto simp: GetProgramDetails_def ProgramDetailsToProto_def split: option.splits)
    with s B w' show "B (world (s\<lparr>world := w'\<rparr>)) \<and> (\<exists>d. Lookup (kRegistry k) n = Some d \<and> ifs = ImplementedInterfaces d)"
      by (auto simp: frame_keeps_def)
  qed (auto simp: stop_def close_and_requeue_def)
  then show ?thesis unfolding fetch_program_def by (rule after_seq) (auto intro!: after_pass)
qed

lemma fetch_loop:
  assumes "shim_laws env k tv sv pv" and B: "frame_keeps (\<lambda>w w'. tv w' = tv w \<and> sv w' = sv w \<and> pv w' = pv w) B"
  shows "after (\<lambda>s. B (world s)) (each xs (fetch_program env conn) [])
    (\<lambda>dp s. B (world s) \<and> (\<forall>n \<in> set xs. \<exists>d. Lookup (kRegistry k) n = Some d
       \<and> gm_get dp n = Some (buildP4ProgramCR n (ImplementedInterfaces d))))"
proof -
  let ?I = "\<lambda>pre dp s. B (world s) \<and> (\<forall>n \<in> set pre. \<exists>d. Lookup (kRegistry k) n = Some d
       \<and> gm_get dp n = Some (buildP4ProgramCR n (ImplementedInterfaces d)))"
  have "after (?I [] []) (each xs (fetch_program env conn) []) (?I xs)"
  proof (rule after_each)
    fix pre n rest dp
    have "after (\<lambda>s. B (world s) \<and> (\<forall>n \<in> set pre. \<exists>d. Lookup (kRegistry k) n = Some d
       \<and> gm_get dp n = Some (buildP4ProgramCR n (ImplementedInterfaces d)))) (fetch_program env conn n dp) (?I (pre @ [n]))"
    proof (rule after_fact)
      assume "\<forall>n \<in> set pre. \<exists>d. Lookup (kRegistry k) n = Some d
         \<and> gm_get dp n = Some (buildP4ProgramCR n (ImplementedInterfaces d))"
      then show "after (\<lambda>s. B (world s)) (fetch_program env conn n dp) (?I (pre @ [n]))"
        by (intro after_weaken [OF fetch_program_step [OF assms]]) auto
    qed
    then show "after (?I pre dp) (fetch_program env conn n dp) (?I (pre @ [n]))" .
  qed
  then show ?thesis by simp
qed

lemma add_program_step:
  assumes "shim_laws env k tv sv pv" and "gm_get dp n = Some (buildP4ProgramCR n ifs)"
    and B: "frame_keeps (\<lambda>w w'. tv w' = tv w \<and> sv w' = sv w) B"
  shows "after (stores B pv V) (add_program env shim dp n) (\<lambda>_. stores B pv (V(n \<mapsto> ifs)))"
proof (cases "SetControllerReference env (shimMeta shim) (programMeta (buildP4ProgramCR n ifs))")
  case (Inl e)
  then show ?thesis by (simp add: add_program_def assms(2) after_stop)
next
  case (Inr m)
  let ?new = "(buildP4ProgramCR n ifs)\<lparr>programMeta := m\<rparr>"
  from shim_lawsD(8) [OF assms(1) Inr] have "ObjectKey m = (''default'', n)"
    by (simp add: buildP4ProgramCR_def ObjectKey_def NewMeta_def TOPOLOGY_KEY_def)
  then have "after (stores B pv V) (attempt (on_world (apiCreate (programClient env) ?new)) fail)
      (\<lambda>_. stores B pv (V(n \<mapsto> ImplementedInterfacesOf ?new)))"
    by (intro stores_create [OF shim_lawsD(3) [OF assms(1)] B]) simp_all
  moreover have "ImplementedInterfacesOf ?new = ifs" by (simp add: buildP4ProgramCR_def)
  ultimately show ?thesis by (auto simp: add_program_def assms(2) Inr intro!: after_seq after_pass)
qed

lemma check_program_step:
  assumes "shim_laws env k tv sv pv" and "gm_get dp n = Some (buildP4ProgramCR n ifs)" and "gm_get lut n = Some current"
    and "V n = Some (ImplementedInterfacesOf current)" and B: "frame_keeps (\<lambda>w w'. tv w' = tv w \<and> sv w' = sv w) B"
  shows "after (stores B pv V) (check_program env lut dp n) (\<lambda>_. stores B pv (V(n \<mapsto> ifs)))"
proof (cases "ImplementedInterfacesOf current = ifs")
  case True
  with assms(4) have "V(n \<mapsto> ifs) = V" by auto
  with True show ?thesis by (auto simp: check_program_def assms(2,3) buildP4ProgramCR_def intro!: after_pass)
next
  case False
  let ?new = "buildP4ProgramCR n ifs"
  have "after (stores B pv V) (attempt (on_world (apiUpdate (programClient env) ?new)) fail)
      (\<lambda>_. stores B pv (V(n \<mapsto> ImplementedInterfacesOf ?new)))"
    by (rule stores_update [OF shim_lawsD(3) [OF assms(1)] B])
      (simp add: buildP4ProgramCR_def ObjectKey_def NewMeta_def TOPOLOGY_KEY_def)
  moreover have new: "ImplementedInterfacesOf ?new = ifs" by (simp add: buildP4ProgramCR_def)
  ultimately show ?thesis using False
    by (auto simp: check_program_def assms(2,3) intro!: after_seq after_pass)
qed

lemma after_sync_programs:
  assumes laws: "shim_laws env k tv sv pv" and fin: "finite D"
    and B: "frame_keeps (\<lambda>w w'. tv w' = tv w \<and> sv w' = sv w) B"
  shows "after (stores B pv V) (sync_programs env shim conn D)
    (\<lambda>_. stores B pv (\<lambda>n. if n \<in> D then map_option ImplementedInterfaces (Lookup (kRegistry k) n) else None))"
proof -
  note L = shim_lawsD [OF laws]
  let ?W = "\<lambda>n. if n \<in> D then map_option ImplementedInterfaces (Lookup (kRegistry k) n) else None"
  let ?rem = "dom V - D" and ?check = "D \<inter> dom V" and ?add = "D - dom V"
  define V1 where "V1 = (\<lambda>n. if n \<in> ?rem then None else V n)"
  have listed: "after (stores B pv V) (attempt (on_world (apiList (programClient env))) fail) (\<lambda>items s. stores B pv V s
     \<and> (V = (\<lambda>n. map_option ImplementedInterfacesOf (gm_get (lut_of programMeta items) n))
       \<and> set (map (objectName \<circ> programMeta) items) = dom V
       \<and> (\<forall>n x. gm_get (lut_of programMeta items) n = Some x \<longrightarrow> ObjectKey (programMeta x) = (''default'', n))))"
    by (rule stores_list [OF L(3) B])
  have sets: "?add \<union> ?check = D" by blast
  show ?thesis
    unfolding sync_programs_def
  proof (rule after_seq [OF listed], rule after_fact, elim conjE, unfold Let_def)
    fix items :: "p4_program_cr list"
    let ?lut = "lut_of programMeta items"
    assume V: "V = (\<lambda>n. map_option ImplementedInterfacesOf (gm_get ?lut n))"
      and stored: "set (map (objectName \<circ> programMeta) items) = dom V"
      and keys: "\<forall>n x. gm_get ?lut n = Some x \<longrightarrow> ObjectKey (programMeta x) = (''default'', n)"
    have finV: "finite (dom V)" using stored by (metis List.finite_set)
    have slice: "set (Slice env i S) = S" "distinct (Slice env i S)" if "S \<subseteq> dom V \<union> D" for i S
      using L(9) finite_subset [OF that] fin finV by (simp_all add: slices_ok_def)
    have sl: "set (Slice env i ?rem) = ?rem" "set (Slice env i ?check) = ?check" "set (Slice env i ?add) = ?add"
        "set (Slice env i D) = D" "distinct (Slice env i ?check)" "distinct (Slice env i ?add)" for i
      by (rule slice; blast)+
    have r: "after (stores B pv V) (each (Slice env 4 ?rem) (\<lambda>n _. remove_program env ?lut n) ()) (\<lambda>_. stores B pv V1)"
      using remove_loop [where xs = "Slice env 4 ?rem", OF L(3) B keys V] sl(1) [of 4]
      by (simp add: remove_program_def V1_def)
    let ?F = "\<lambda>dp. \<forall>n \<in> D. \<exists>d. Lookup (kRegistry k) n = Some d \<and> gm_get dp n = Some (buildP4ProgramCR n (ImplementedInterfaces d))"
    have f: "after (stores B pv V1) (each (Slice env 5 D) (fetch_program env conn) []) (\<lambda>dp s. stores B pv V1 s \<and> ?F dp)"
    proof -
      have "frame_keeps (\<lambda>w w'. tv w' = tv w \<and> sv w' = sv w \<and> pv w' = pv w)
          (\<lambda>w. B w \<and> only_default (pv w) \<and> (\<forall>n. pv w (''default'', n) = V1 n))"
        using B by (auto simp: frame_keeps_def)
      from fetch_loop [OF laws this, of "Slice env 5 D" conn] sl(4) [of 5]
      have "after (\<lambda>s. B (world s) \<and> only_default (pv (world s)) \<and> (\<forall>n. pv (world s) (''default'', n) = V1 n))
          (each (Slice env 5 D) (fetch_program env conn) [])
          (\<lambda>dp s. (B (world s) \<and> only_default (pv (world s)) \<and> (\<forall>n. pv (world s) (''default'', n) = V1 n)) \<and> ?F dp)" by simp
      moreover have "stores B pv V1 = (\<lambda>s. B (world s) \<and> only_default (pv (world s)) \<and> (\<forall>n. pv (world s) (''default'', n) = V1 n))"
        by (simp add: fun_eq_iff stores_def)
      ultimately show ?thesis by simp
    qed
    have a: "after (stores B pv V1) (each (Slice env 6 ?add) (\<lambda>n _. add_program env shim dp n) ())
        (\<lambda>_. stores B pv (\<lambda>n. if n \<in> ?add then ?W n else V1 n))" if F: "?F dp" for dp
    proof -
      have "after (stores B pv V1) (each (Slice env 6 ?add) (\<lambda>n _. add_program env shim dp n) ())
        (\<lambda>u s. stores B pv (\<lambda>n. if n \<in> set (Slice env 6 ?add) then ?W n else V1 n) s \<and> u = fold (\<lambda>n _. ()) (Slice env 6 ?add) ())"
      proof (rule sync_loop)
        fix n V' and u :: unit assume n: "n \<in> set (Slice env 6 ?add)"
        with sl(3) have n: "n \<in> D" by blast
        with F obtain d where d: "Lookup (kRegistry k) n = Some d" "gm_get dp n = Some (buildP4ProgramCR n (ImplementedInterfaces d))" by blast
        from add_program_step [OF laws d(2) B, of V' shim] n d(1)
        show "after (stores B pv V') (add_program env shim dp n) (\<lambda>a' s. stores B pv (V'(n := ?W n)) s \<and> a' = ())" by simp
      qed (rule sl(6))
      then show ?thesis using sl(3) [of 6] by (simp add: after_def)
    qed
    have c: "after (stores B pv (\<lambda>n. if n \<in> ?add then ?W n else V1 n)) (each (Slice env 7 ?check) (\<lambda>n _. check_program env ?lut dp n) ())
        (\<lambda>_. stores B pv ?W)" if F: "?F dp" for dp
    proof -
      let ?V2 = "\<lambda>n. if n \<in> ?add then ?W n else V1 n"
      have "after (stores B pv ?V2) (each (Slice env 7 ?check) (\<lambda>n _. check_program env ?lut dp n) ())
        (\<lambda>u s. stores B pv (\<lambda>n. if n \<in> set (Slice env 7 ?check) then ?W n else ?V2 n) s \<and> u = fold (\<lambda>n _. ()) (Slice env 7 ?check) ())"
      proof (rule sync_loop)
        fix n V' and u :: unit assume n: "n \<in> set (Slice env 7 ?check)" and V': "V' n = ?V2 n"
        with sl(2) have n: "n \<in> D" "n \<in> dom V" by blast+
        with F obtain d where d: "Lookup (kRegistry k) n = Some d" "gm_get dp n = Some (buildP4ProgramCR n (ImplementedInterfaces d))" by blast
        from n(2) V obtain y where y: "gm_get ?lut n = Some y" by auto
        with V have "V n = Some (ImplementedInterfacesOf y)" by simp
        with V' n have v: "V' n = Some (ImplementedInterfacesOf y)" by (simp add: V1_def)
        from check_program_step [where V = V' and n = n, OF laws d(2) y v B] n(1) d(1)
        show "after (stores B pv V') (check_program env ?lut dp n) (\<lambda>a' s. stores B pv (V'(n := ?W n)) s \<and> a' = ())" by simp
      qed (rule sl(5))
      moreover have "(\<lambda>n. if n \<in> ?check then ?W n else ?V2 n) = ?W" by (rule ext) (auto simp: V1_def domIff simp del: not_None_eq)
      ultimately show ?thesis using sl(2) [of 7] by (simp add: after_def)
    qed
    show "after (stores B pv V)
      (seq (each (Slice env 4 (set (map (objectName \<circ> programMeta) items) - D)) (\<lambda>n _. remove_program env ?lut n) ()) (\<lambda>_.
       seq (each (Slice env 5 ((D - set (map (objectName \<circ> programMeta) items)) \<union> D \<inter> set (map (objectName \<circ> programMeta) items)))
              (fetch_program env conn) []) (\<lambda>dp.
       seq (each (Slice env 6 (D - set (map (objectName \<circ> programMeta) items))) (\<lambda>n _. add_program env shim dp n) ()) (\<lambda>_.
         each (Slice env 7 (D \<inter> set (map (objectName \<circ> programMeta) items))) (\<lambda>n _. check_program env ?lut dp n) ()))))
      (\<lambda>_. stores B pv ?W)"
      unfolding stored sets
      by (rule after_seq [OF r], rule after_seq [OF f], rule after_fact, rule after_seq [OF a c])
  qed
qed

section \<open>Early returns\<close>

text \<open>No early return of the steps after the shim was loaded looks like a completed reconciliation.\<close>

definition not_complete :: "('s, 'a) action \<Rightarrow> bool" where
  "not_complete m \<longleftrightarrow> (\<forall>s s'. m s \<noteq> (Inl (result_done, None), s'))"

named_theorems incomplete "rules for steps whose early returns are errors or requeues"

lemma not_complete_basic [incomplete]:
  "not_complete (pass x)" "r \<noteq> (result_done, None) \<Longrightarrow> not_complete (stop r)" "not_complete close_and_requeue"
  by (auto simp: not_complete_def pass_def stop_def close_and_requeue_def result_done_def result_requeue_def)

lemma result_neq [incomplete]:
  "(result_requeue, None) \<noteq> (result_done, None)" "(r, Some e) \<noteq> (result_done, None)"
  "(result_after SDN_CONN_RETRY_PERIOD, None) \<noteq> (result_done, None)"
  by (simp_all add: result_done_def result_requeue_def result_after_def SDN_CONN_RETRY_PERIOD_def)

lemma not_complete_seq [incomplete]: "not_complete m \<Longrightarrow> (\<And>x. not_complete (f x)) \<Longrightarrow> not_complete (seq m f)"
  by (auto simp: not_complete_def seq_def split: prod.splits sum.splits) (metis option.exhaust)

lemma not_complete_attempt [incomplete]: "(\<And>e. not_complete (h e)) \<Longrightarrow> not_complete (attempt m h)"
  by (auto simp: not_complete_def attempt_def split: prod.splits sum.splits)

lemma not_complete_each [incomplete]: "(\<And>x a. not_complete (f x a)) \<Longrightarrow> not_complete (each xs f a)"
  by (induction xs arbitrary: a) (auto intro: incomplete)

lemma not_complete_cases [incomplete]:
  "(b \<Longrightarrow> not_complete m) \<Longrightarrow> (\<not> b \<Longrightarrow> not_complete m') \<Longrightarrow> not_complete (if b then m else m')"
  "not_complete m \<Longrightarrow> (\<And>x. not_complete (f x)) \<Longrightarrow> not_complete (case y of None \<Rightarrow> m | Some x \<Rightarrow> f x)"
  "(\<And>e. not_complete (g e)) \<Longrightarrow> (\<And>x. not_complete (f x)) \<Longrightarrow> not_complete (case z of Inl e \<Rightarrow> g e | Inr x \<Rightarrow> f x)"
  "(\<And>x y. not_complete (k x y)) \<Longrightarrow> not_complete (case p of (x, y) \<Rightarrow> k x y)"
  by (auto split: option.split sum.split prod.split)

lemma not_complete_connect: "not_complete (connect_client env shim)"
  by (auto simp: not_complete_def connect_client_def stop_def result_done_def result_requeue_def result_after_def
      SDN_CONN_RETRY_PERIOD_def Let_def split: prod.splits sum.splits)

lemma not_complete_ensure [incomplete]: "not_complete (ensure_client env shim)"
  using not_complete_connect [of env shim]
  by (auto simp: not_complete_def ensure_client_def pass_def split: option.splits)

lemma not_complete_steps [incomplete]:
  "not_complete (init_conditions env shim)" "not_complete (sync_topology env shim conn)"
  "not_complete (sync_switches env shim conn topo)" "not_complete (sync_programs env shim conn D)"
  "not_complete (report_reconciled env shim)"
  unfolding init_conditions_def sync_topology_def create_topology_def sync_switches_def sync_programs_def report_reconciled_def
    remove_switch_def check_switch_def add_switch_def remove_program_def fetch_program_def add_program_def check_program_def Let_def
  by (intro incomplete; fail)+

section \<open>A complete reconciliation\<close>

definition mirrors ::
  "kinda_sdn \<Rightarrow> ('w \<Rightarrow> object_key \<Rightarrow> network_device list option) \<Rightarrow>
     ('w \<Rightarrow> object_key \<Rightarrow> (string \<times> string) option) \<Rightarrow> ('w \<Rightarrow> object_key \<Rightarrow> string list option) \<Rightarrow> 'w \<Rightarrow> bool" where
  "mirrors k tv sv pv w \<longleftrightarrow> tv w TOPOLOGY_KEY = Some (wanted_graph k)
     \<and> (\<forall>n. sv w (''default'', n) = wanted_switch k n) \<and> (\<forall>n. pv w (''default'', n) = wanted_program k n)"

lemma after_reconcile_network:
  assumes laws: "shim_laws env k tv sv pv" and dist: "distinct (map GetName (Devices (kTopo k)))"
  shows "after (\<lambda>s. one_namespace sv pv (world s)) (reconcile_network env shim conn)
    (\<lambda>r s. r = (result_done, None) \<and> mirrors k tv sv pv (world s))"
  unfolding reconcile_network_def
proof (rule after_seq [OF after_sync_topology [OF laws]])
  fix stored
  let ?G = "\<lambda>w. tv w TOPOLOGY_KEY = Some (wanted_graph k)"
  let ?sw = "\<lambda>s. only_default (pv (world s)) \<and> ?G (world s) \<and> (\<forall>n. sv (world s) (''default'', n) = wanted_switch k n)"
  let ?post = "\<lambda>r s. r = (result_done, None) \<and> mirrors k tv sv pv (world s)"
  have B1: "frame_keeps (\<lambda>w w'. tv w' = tv w \<and> pv w' = pv w) (\<lambda>w. ?G w \<and> only_default (pv w))"
    and B2: "frame_keeps (\<lambda>w w'. tv w' = tv w \<and> sv w' = sv w) (\<lambda>w. ?G w \<and> (\<forall>n. sv w (''default'', n) = wanted_switch k n))"
    by (simp_all add: frame_keeps_def)
  have fin: "finite (wanted_programs k)"
    using wanted_switch_names [OF dist] unfolding wanted_programs_def by (metis List.finite_set finite_imageI)
  have sw: "after (\<lambda>s. one_namespace sv pv (world s) \<and> ?G (world s)) (sync_switches env shim conn stored)
      (\<lambda>progs s. ?sw s \<and> progs = wanted_programs k)" if "Graph stored = wanted_graph k"
  proof -
    have "after (\<lambda>s. \<exists>V. stores (\<lambda>w. ?G w \<and> only_default (pv w)) sv V s) (sync_switches env shim conn stored)
        (\<lambda>progs s. stores (\<lambda>w. ?G w \<and> only_default (pv w)) sv (wanted_switch k) s \<and> progs = wanted_programs k)"
      by (rule after_ex, rule after_sync_switches [OF laws dist that B1])
    then show ?thesis by (rule after_strengthen [THEN after_weaken]) (auto simp: stores_def one_namespace_def)
  qed
  have pr: "after ?sw (sync_programs env shim conn (wanted_programs k)) (\<lambda>_ s. mirrors k tv sv pv (world s))"
  proof -
    have "after (\<lambda>s. \<exists>V. stores (\<lambda>w. ?G w \<and> (\<forall>n. sv w (''default'', n) = wanted_switch k n)) pv V s)
        (sync_programs env shim conn (wanted_programs k))
        (\<lambda>_. stores (\<lambda>w. ?G w \<and> (\<forall>n. sv w (''default'', n) = wanted_switch k n)) pv
           (\<lambda>n. if n \<in> wanted_programs k then map_option ImplementedInterfaces (Lookup (kRegistry k) n) else None))"
      by (rule after_ex, rule after_sync_programs [OF laws fin B2])
    then show ?thesis
      by (rule after_strengthen [THEN after_weaken]) (auto simp: stores_def mirrors_def wanted_program_def)
  qed
  have rep: "after (\<lambda>s. mirrors k tv sv pv (world s)) (report_reconciled env shim) ?post"
    unfolding report_reconciled_def
  proof (rule after_seq)
    show "after (\<lambda>s. mirrors k tv sv pv (world s)) (attempt (update_shim_status env (set_condition env ConditionTypeNetworkReconciled
        ConditionTrue ''Network state reconciled'' shim)) fail) (\<lambda>_ s. mirrors k tv sv pv (world s))"
      by (rule after_call [OF _ stops(1)]) (auto simp: mirrors_def dest: shim_lawsD(4) [OF laws])
  qed (auto intro: after_pass)
  have "after (\<lambda>s. (one_namespace sv pv (world s) \<and> ?G (world s)) \<and> Graph stored = wanted_graph k)
     (seq (sync_switches env shim conn stored) (\<lambda>programNames. seq (sync_programs env shim conn programNames)
        (\<lambda>_. report_reconciled env shim))) ?post"
  proof (rule after_fact)
    assume g: "Graph stored = wanted_graph k"
    show "after (\<lambda>s. one_namespace sv pv (world s) \<and> ?G (world s))
       (seq (sync_switches env shim conn stored) (\<lambda>programNames. seq (sync_programs env shim conn programNames)
          (\<lambda>_. report_reconciled env shim))) ?post"
    proof (rule after_seq [OF sw [OF g]], rule after_fact)
      fix progs assume "progs = wanted_programs k"
      then show "after ?sw (seq (sync_programs env shim conn progs) (\<lambda>_. report_reconciled env shim)) ?post"
        by (auto intro: after_seq [OF pr rep])
    qed
  qed
  then show "after (\<lambda>s. one_namespace sv pv (world s) \<and> tv (world s) TOPOLOGY_KEY = Some (wanted_graph k) \<and> Graph stored = wanted_graph k)
     (seq (sync_switches env shim conn stored) (\<lambda>programNames. seq (sync_programs env shim conn programNames)
        (\<lambda>_. report_reconciled env shim))) ?post" by (simp add: after_def)
qed

end
