(* ===== verification/ControllerProofs.thy ===== *)
theory ControllerProofs
  imports Controller FatTree SampleNetwork
begin

text \<open>
  Properties of the controller's run-time changes (\<open>networkchanger.go\<close>): what \<open>AddDevices\<close> and
  \<open>RemoveDevices\<close> do to the links of the other devices, when they keep the links paired (the assumption of
  path finding, forwarding and telemetry), that removing undoes adding, and runs in which they do not.
\<close>

section \<open>Pointers\<close>

lemma find_rev_upt:
  assumes "distinct (map GetName ds)"
  shows "pointer_to ds n = Some i \<longleftrightarrow> i < length ds \<and> GetName (ds ! i) = n"
proof
  assume "pointer_to ds n = Some i"
  from find_SomeD [OF this [unfolded pointer_to_def]] show "i < length ds \<and> GetName (ds ! i) = n" by auto
next
  assume i: "i < length ds \<and> GetName (ds ! i) = n"
  then have "pointer_to ds n \<noteq> None" unfolding pointer_to_def by (auto simp: find_None_iff)
  then obtain j where j: "pointer_to ds n = Some j" by blast
  from find_SomeD [OF this [unfolded pointer_to_def]] have "j < length ds" "GetName (ds ! j) = n" by auto
  with i assms have "j = i" by (metis distinct_conv_nth length_map nth_map)
  with j show "pointer_to ds n = Some i" by simp
qed

lemma pointer_to_None: "pointer_to ds n = None \<longleftrightarrow> n \<notin> GetName ` set ds"
  unfolding pointer_to_def find_None_iff by (fastforce simp: in_set_conv_nth)

lemma pointer_update:
  assumes "distinct (map GetName ds)" and "pointer_to ds n = Some i"
  shows "ds[i := f (ds ! i)] = map (\<lambda>d. if GetName d = n then f d else d) ds"
proof (rule nth_equalityI)
  fix j assume "j < length (ds[i := f (ds ! i)])"
  then have j: "j < length ds" by simp
  from assms have i: "i < length ds" "GetName (ds ! i) = n" by (simp_all add: find_rev_upt)
  with assms(1) j have "GetName (ds ! j) = n \<longleftrightarrow> j = i" by (metis distinct_conv_nth length_map nth_map)
  then show "ds[i := f (ds ! i)] ! j = map (\<lambda>d. if GetName d = n then f d else d) ds ! j"
    using i j by (simp add: nth_list_update)
qed simp

text \<open>The links a device gets for the links \<open>ls\<close> of the device \<open>name\<close>.\<close>

definition back_links :: "device_name \<Rightarrow> link list \<Rightarrow> device \<Rightarrow> device" where
  "back_links name ls d = fold (\<lambda>l e. if GetName e = To l then AddLink (link_back name) e else e) ls d"

lemma back_links_name [simp]: "GetName (back_links name ls d) = GetName d"
  unfolding back_links_def by (induction ls arbitrary: d) auto

lemma back_links_Cons: "back_links name (l # ls) d = back_links name ls (if GetName d = To l then AddLink (link_back name) d else d)"
  by (simp add: back_links_def)

lemma back_links_same: "GetName d \<notin> To ` set ls \<Longrightarrow> back_links name ls d = d"
  unfolding back_links_def by (induction ls) auto

lemma back_links_links:
  "GetLinks (back_links name ls d) = GetLinks d @ replicate (length (filter (\<lambda>l. To l = GetName d) ls)) (link_back name)"
  by (induction ls arbitrary: d) (auto simp: back_links_Cons back_links_def replicate_app_Cons_same)

lemma add_links_eq:
  "distinct (map GetName ds) \<Longrightarrow> To ` set ls \<subseteq> GetName ` set ds \<Longrightarrow> add_links name ls ds = (None, map (back_links name ls) ds)"
proof (induction ls arbitrary: ds)
  case (Cons l ls)
  then obtain i where i: "pointer_to ds (To l) = Some i"
    using pointer_to_None [of ds "To l"] by (cases "pointer_to ds (To l)") auto
  let ?ds = "map (\<lambda>d. if GetName d = To l then AddLink (link_back name) d else d) ds"
  have names: "map GetName ?ds = map GetName ds" by simp
  have "distinct (map GetName ?ds)" unfolding names by (rule Cons.prems(1))
  moreover have "To ` set ls \<subseteq> GetName ` set ?ds"
    using Cons.prems(2) unfolding set_map [symmetric] names by simp
  ultimately have "add_links name ls ?ds = (None, map (back_links name ls) ?ds)" by (rule Cons.IH)
  with i pointer_update [OF Cons.prems(1) i] show ?case by (simp add: back_links_Cons comp_def)
qed (simp add: back_links_def map_idI)

lemma add_all_eq:
  assumes "distinct (map GetName (olds @ devs))" and "\<forall>d \<in> set devs. To ` set (GetLinks d) \<subseteq> GetName ` set olds"
    and "m \<le> length devs"
  shows "add_all [length olds + m..<length olds + length devs] (olds @ devs) =
     (None, map (fold (\<lambda>dev. back_links (GetName dev) (GetLinks dev)) (drop m devs)) olds @ devs)"
  using assms
proof (induction "length devs - m" arbitrary: m olds)
  case 0
  then show ?case by (simp add: map_idI)
next
  case (Suc x)
  then have m: "m < length devs" by simp
  let ?d = "devs ! m" and ?n = "length olds"
  let ?olds = "map (back_links (GetName ?d) (GetLinks ?d)) olds"
  have d: "?d \<in> set devs" using m by simp
  have idx: "[?n + m..<?n + length devs] = (?n + m) # [?n + Suc m..<?n + length devs]" using m by (simp add: upt_conv_Cons)
  have sub: "To ` set (GetLinks ?d) \<subseteq> GetName ` set olds" using Suc.prems(2) d by blast
  then have "add_links (GetName ?d) (GetLinks ?d) (olds @ devs) = (None, map (back_links (GetName ?d) (GetLinks ?d)) (olds @ devs))"
    using Suc.prems(1) by (intro add_links_eq) auto
  moreover have "map (back_links (GetName ?d) (GetLinks ?d)) devs = devs"
  proof (rule map_idI, rule back_links_same)
    fix e assume "e \<in> set devs"
    then have "GetName e \<notin> GetName ` set olds" using Suc.prems(1) by auto
    with sub show "GetName e \<notin> To ` set (GetLinks ?d)" by blast
  qed
  ultimately have step: "add_links (GetName ?d) (GetLinks ?d) (olds @ devs) = (None, ?olds @ devs)" by simp
  have names: "map GetName ?olds = map GetName olds" by simp
  have "distinct (map GetName (?olds @ devs))" using Suc.prems(1) unfolding map_append names by simp
  moreover have "\<forall>d \<in> set devs. To ` set (GetLinks d) \<subseteq> GetName ` set ?olds"
    using Suc.prems(2) unfolding set_map [symmetric] names by simp
  ultimately have "add_all [length ?olds + Suc m..<length ?olds + length devs] (?olds @ devs)
      = (None, map (fold (\<lambda>dev. back_links (GetName dev) (GetLinks dev)) (drop (Suc m) devs)) ?olds @ devs)"
    using m Suc.hyps(2) by (intro Suc.hyps(1)) simp_all
  moreover have "drop m devs = ?d # drop (Suc m) devs" using m by (simp add: Cons_nth_drop_Suc)
  ultimately show ?case unfolding idx by (simp add: nth_append step comp_def)
qed


section \<open>Adding devices\<close>

lemma fold_back_name [simp]: "GetName (fold (\<lambda>dev. back_links (GetName dev) (GetLinks dev)) devs d) = GetName d"
  by (induction devs arbitrary: d) auto

lemma fold_back_links:
  "To ` set (GetLinks (fold (\<lambda>dev. back_links (GetName dev) (GetLinks dev)) devs d)) =
     To ` set (GetLinks d) \<union> {GetName dev | dev. dev \<in> set devs \<and> GetName d \<in> To ` set (GetLinks dev)}"
proof (induction devs arbitrary: d)
  case (Cons dev devs)
  have "To ` set (GetLinks (back_links (GetName dev) (GetLinks dev) d))
      = To ` set (GetLinks d) \<union> (if GetName d \<in> To ` set (GetLinks dev) then {GetName dev} else {})"
  proof (cases "GetName d \<in> To ` set (GetLinks dev)")
    case True
    then have "filter (\<lambda>l. To l = GetName d) (GetLinks dev) \<noteq> []" by (auto simp: filter_empty_conv)
    with True show ?thesis by (auto simp: back_links_links link_back_def NewLink_def)
  qed (simp add: back_links_same)
  with Cons.IH show ?case by auto
qed simp

lemma mutual_set:
  "mutual ds \<longleftrightarrow> (\<forall>d \<in> set ds. \<forall>l \<in> set (GetLinks d). \<exists>d' \<in> set ds. GetName d' = To l \<and> GetName d \<in> To ` set (GetLinks d'))"
  by (simp add: mutual_def all_set_conv_all_nth) (metis in_set_conv_nth)


abbreviation with_back_links :: "device list \<Rightarrow> device \<Rightarrow> device" where
  "with_back_links devs \<equiv> fold (\<lambda>dev. back_links (GetName dev) (GetLinks dev)) devs"

lemma AddDevices_eq:
  assumes "distinct (map GetName (Devices (kTopo k) @ devs))"
    and "\<forall>d \<in> set devs. To ` set (GetLinks d) \<subseteq> GetName ` set (Devices (kTopo k))"
  shows "AddDevices devs k = (None, notifyNetworkChanged TopologyChange
     (k\<lparr>kTopo := \<lparr>Devices = map (with_back_links devs) (Devices (kTopo k)) @ devs\<rparr>\<rparr>))"
  using add_all_eq [OF assms, of 0] by (simp add: AddDevices_def)

lemma mutual_added:
  assumes "mutual olds" and "\<forall>d \<in> set devs. To ` set (GetLinks d) \<subseteq> GetName ` set olds"
  shows "mutual (map (with_back_links devs) olds @ devs)"
  unfolding mutual_set
proof (intro ballI)
  let ?F = "with_back_links devs"
  fix d l assume d: "d \<in> set (map ?F olds @ devs)" and l: "l \<in> set (GetLinks d)"
  from d consider (old) e where "e \<in> set olds" "d = ?F e" | (new) "d \<in> set devs" by auto
  then show "\<exists>d' \<in> set (map ?F olds @ devs). GetName d' = To l \<and> GetName d \<in> To ` set (GetLinks d')"
  proof cases
    case old
    from l have "To l \<in> To ` set (GetLinks d)" by simp
    then consider "To l \<in> To ` set (GetLinks e)" | dev where "dev \<in> set devs" "To l = GetName dev" "GetName e \<in> To ` set (GetLinks dev)"
      unfolding old(2) fold_back_links by auto
    then show ?thesis
    proof cases
      case 1
      with assms(1) old(1) obtain e' where "e' \<in> set olds" "GetName e' = To l" "GetName e \<in> To ` set (GetLinks e')"
        unfolding mutual_set by (metis imageE)
      then show ?thesis using old by (intro bexI [of _ "?F e'"]) (simp_all add: fold_back_links)
    next
      case 2
      then show ?thesis using old by (intro bexI [of _ dev]) simp_all
    qed
  next
    case new
    with l assms(2) have "To l \<in> GetName ` set olds" by blast
    then obtain e where "e \<in> set olds" "GetName e = To l" by auto
    then show ?thesis using new l by (intro bexI [of _ "?F e"]) (auto simp: fold_back_links)
  qed
qed

section \<open>Removing a device\<close>

lemma remove_links_eq:
  "distinct (map GetName ds) \<Longrightarrow> To ` set ls \<subseteq> GetName ` set ds \<Longrightarrow>
     remove_links name ls ds = Some (map (\<lambda>d. if GetName d \<in> To ` set ls then RemoveLink name d else d) ds)"
proof (induction ls arbitrary: ds)
  case (Cons l ls)
  then obtain i where i: "pointer_to ds (To l) = Some i"
    using pointer_to_None [of ds "To l"] by (cases "pointer_to ds (To l)") auto
  let ?ds = "map (\<lambda>d. if GetName d = To l then RemoveLink name d else d) ds"
  have names: "map GetName ?ds = map GetName ds" by simp
  have "distinct (map GetName ?ds)" unfolding names by (rule Cons.prems(1))
  moreover have "To ` set ls \<subseteq> GetName ` set ?ds"
    using Cons.prems(2) unfolding set_map [symmetric] names by simp
  ultimately have "remove_links name ls ?ds = Some (map (\<lambda>d. if GetName d \<in> To ` set ls then RemoveLink name d else d) ?ds)"
    by (rule Cons.IH)
  moreover have "RemoveLink name (RemoveLink name d) = RemoveLink name d" for d
    by (cases d) (simp_all add: RemoveLink_def)
  ultimately show ?case using pointer_update [OF Cons.prems(1) i, of "RemoveLink name"] i
    by (auto simp: comp_def)
qed simp

lemma RemoveLink_back:
  assumes "name \<notin> To ` set (GetLinks d)"
  shows "(if GetName d \<in> To ` set ls then RemoveLink name (back_links name ls d) else back_links name ls d) = d"
proof (cases "GetName d \<in> To ` set ls")
  case True
  have s: "set_links f d = d" if "f (GetLinks d) = GetLinks d" for f using that by (cases d) simp_all
  have b: "back_links name ls d = set_links (\<lambda>ks. ks @ replicate (length (filter (\<lambda>l. To l = GetName d) ls)) (link_back name)) d"
    for ls
  proof (induction ls arbitrary: d)
    case Nil
    then show ?case by (cases d) (simp_all add: back_links_def)
  next
    case (Cons l ls)
    show ?case
      by (cases d) (auto simp: back_links_Cons Cons.IH AddLink_def replicate_app_Cons_same)
  qed
  have "filter (\<lambda>l. To l \<noteq> name) (GetLinks d) = GetLinks d" using assms by (intro filter_True) auto
  then have "RemoveLink name (back_links name ls d) = d"
    unfolding b RemoveLink_def by (cases d) (simp_all add: link_back_def NewLink_def)
  with True show ?thesis by simp
qed (simp add: back_links_same)

lemma add_then_remove:
  assumes "distinct (map GetName (Devices (kTopo k)))" and "GetName d \<notin> GetName ` set (Devices (kTopo k))"
    and "To ` set (GetLinks d) \<subseteq> GetName ` set (Devices (kTopo k))"
    and "\<forall>e \<in> set (Devices (kTopo k)). GetName d \<notin> To ` set (GetLinks e)"
  shows "\<exists>k1. AddDevices [d] k = (None, k1) \<and> RemoveDevices [GetName d] k1
    = Some (None, k\<lparr>pendingChanges := pendingChanges k @ [TopologyChange, TopologyChange]\<rparr>)"
proof -
  let ?olds = "Devices (kTopo k)" and ?b = "back_links (GetName d) (GetLinks d)"
  let ?k1 = "notifyNetworkChanged TopologyChange (k\<lparr>kTopo := \<lparr>Devices = map ?b ?olds @ [d]\<rparr>\<rparr>)"
  have add: "AddDevices [d] k = (None, ?k1)" using AddDevices_eq [of k "[d]"] assms by simp
  have fresh: "GetName e \<noteq> GetName d" if e: "e \<in> set (map ?b ?olds)" for e
  proof -
    from e obtain x where "x \<in> set ?olds" "e = ?b x" by auto
    then have "GetName e \<in> GetName ` set ?olds" by simp
    with assms(2) show ?thesis by metis
  qed
  then have "filter (\<lambda>e. GetName e \<in> {GetName d}) (map ?b ?olds) = []" by (simp add: filter_empty_conv)
  moreover have "filter (\<lambda>e. GetName e \<notin> {GetName d}) (map ?b ?olds) = map ?b ?olds" using fresh by (intro filter_True) simp
  ultimately have dels: "filter (\<lambda>e. GetName e \<in> set [GetName d]) (Devices (kTopo ?k1)) = [d]"
    "filter (\<lambda>e. GetName e \<notin> set [GetName d]) (Devices (kTopo ?k1)) = map ?b ?olds"
    by (simp_all add: notifyNetworkChanged_def)
  have names: "map GetName (map ?b ?olds) = map GetName ?olds" by simp
  have "distinct (map GetName (map ?b ?olds))" unfolding names by (rule assms(1))
  moreover have "To ` set (GetLinks d) \<subseteq> GetName ` set (map ?b ?olds)"
    using assms(3) unfolding set_map [symmetric] names by simp
  ultimately have "remove_links (GetName d) (GetLinks d) (map ?b ?olds)
      = Some (map (\<lambda>e. if GetName e \<in> To ` set (GetLinks d) then RemoveLink (GetName d) e else e) (map ?b ?olds))"
    by (rule remove_links_eq)
  also have "map (\<lambda>e. if GetName e \<in> To ` set (GetLinks d) then RemoveLink (GetName d) e else e) (map ?b ?olds) = ?olds"
    using RemoveLink_back assms(4) by (simp add: comp_def map_idI)
  finally have "RemoveDevices [GetName d] ?k1 = Some (None, notifyNetworkChanged TopologyChange (?k1\<lparr>kTopo := \<lparr>Devices = ?olds\<rparr>\<rparr>))"
    unfolding RemoveDevices_def Let_def dels by simp
  moreover have "notifyNetworkChanged TopologyChange (?k1\<lparr>kTopo := \<lparr>Devices = ?olds\<rparr>\<rparr>)
      = k\<lparr>pendingChanges := pendingChanges k @ [TopologyChange, TopologyChange]\<rparr>"
    by (simp add: notifyNetworkChanged_def)
  ultimately show ?thesis using add by metis
qed

section \<open>Properties\<close>

text \<open>C36: adding devices with new names, all of whose links go to devices that are already in the network,
  succeeds, notifies one topology change, keeps the names of the devices in order and keeps the links paired: the
  graph of the topology stays closed and symmetric, which path finding, forwarding and telemetry rely on.\<close>

theorem AddDevices_keeps_pairs:
  assumes "distinct (map GetName (Devices (kTopo k) @ devs))" and "mutual (Devices (kTopo k))"
    and "\<forall>d \<in> set devs. To ` set (GetLinks d) \<subseteq> GetName ` set (Devices (kTopo k))"
  shows "fst (AddDevices devs k) = None
    \<and> pendingChanges (snd (AddDevices devs k)) = pendingChanges k @ [TopologyChange]
    \<and> map GetName (Devices (kTopo (snd (AddDevices devs k)))) = map GetName (Devices (kTopo k) @ devs)
    \<and> mutual (Devices (kTopo (snd (AddDevices devs k))))
    \<and> graph_closed (TopologyToGraph (kTopo (snd (AddDevices devs k))))
    \<and> graph_symmetric (TopologyToGraph (kTopo (snd (AddDevices devs k))))"
proof -
  let ?topo = "kTopo (snd (AddDevices devs k))"
  have add: "fst (AddDevices devs k) = None" "pendingChanges (snd (AddDevices devs k)) = pendingChanges k @ [TopologyChange]"
    "Devices ?topo = map (with_back_links devs) (Devices (kTopo k)) @ devs"
    by (simp_all add: AddDevices_eq [OF assms(1,3)] notifyNetworkChanged_def)
  have names: "map GetName (Devices ?topo) = map GetName (Devices (kTopo k) @ devs)" by (simp add: add(3))
  have mut: "mutual (Devices ?topo)" unfolding add(3) by (rule mutual_added [OF assms(2,3)])
  have "distinct (map GetName (Devices ?topo))" unfolding names by (rule assms(1))
  with add names mut mutual_graph [OF mut] show ?thesis by blast
qed

definition sample_sdn :: kinda_sdn where
  "sample_sdn = NewKindaSdn sample_topo sample_registry [] sample_service"

definition sample_new_host :: device where
  "sample_new_host = NetDevice \<lparr>Name = ''n'', Links = [sample_link ''s1'' ''10.0.5.1'', sample_link ''s2'' ''10.0.6.1'']\<rparr>"

lemma sample_sdn_facts:
  "distinct (map GetName (Devices (kTopo sample_sdn)))" "mutual (Devices (kTopo sample_sdn))"
  "GetName sample_new_host \<notin> GetName ` set (Devices (kTopo sample_sdn))"
  "To ` set (GetLinks sample_new_host) \<subseteq> GetName ` set (Devices (kTopo sample_sdn))"
  "\<forall>e \<in> set (Devices (kTopo sample_sdn)). GetName sample_new_host \<notin> To ` set (GetLinks e)"
  by code_simp+

theorem AddDevices_keeps_pairs_witness:
  "fst (AddDevices [sample_new_host] sample_sdn) = None
    \<and> mutual (Devices (kTopo (snd (AddDevices [sample_new_host] sample_sdn))))
    \<and> graph_symmetric (TopologyToGraph (kTopo (snd (AddDevices [sample_new_host] sample_sdn))))"
  using AddDevices_keeps_pairs [of sample_sdn "[sample_new_host]"] sample_sdn_facts by simp

text \<open>C37: a device whose links go to devices of the network and that no device links to yet can be added and
  removed again; every other device then has the links it had before, in order, and what remains are the two
  notifications.\<close>

theorem add_then_remove_roundtrip:
  assumes "distinct (map GetName (Devices (kTopo k)))" and "GetName d \<notin> GetName ` set (Devices (kTopo k))"
    and "To ` set (GetLinks d) \<subseteq> GetName ` set (Devices (kTopo k))"
    and "\<forall>e \<in> set (Devices (kTopo k)). GetName d \<notin> To ` set (GetLinks e)"
  shows "RemoveDevices [GetName d] (snd (AddDevices [d] k))
    = Some (None, k\<lparr>pendingChanges := pendingChanges k @ [TopologyChange, TopologyChange]\<rparr>)"
  using add_then_remove [OF assms] by auto

theorem add_then_remove_witness:
  "RemoveDevices [''n''] (snd (AddDevices [sample_new_host] sample_sdn))
    = Some (None, sample_sdn\<lparr>pendingChanges := [TopologyChange, TopologyChange]\<rparr>)"
proof -
  have "GetName sample_new_host = ''n''" "pendingChanges sample_sdn = []" by code_simp+
  then show ?thesis
    using add_then_remove_roundtrip [of sample_sdn sample_new_host] sample_sdn_facts by simp
qed

text \<open>C37: run-time changes that break the network. A new device with a link to a device that does not exist is
  refused, but stays in the topology with the links made so far; two new devices that are linked to each other get
  their links doubled unevenly; removing two adjacent devices at once panics; removing a device shifts
  the port numbers of its neighbours, on which the entries already installed rely.\<close>

definition bare_device :: "string \<Rightarrow> string list \<Rightarrow> device" where
  "bare_device name peers = NetDevice \<lparr>Name = name, Links = map link_back peers\<rparr>"

definition sdn_of :: "device list \<Rightarrow> kinda_sdn" where
  "sdn_of ds = NewKindaSdn \<lparr>Devices = ds\<rparr> sample_registry [] sample_service"

definition links_after :: "kinda_sdn \<Rightarrow> (string \<times> string list) list" where
  "links_after k = map (\<lambda>d. (GetName d, map To (GetLinks d))) (Devices (kTopo k))"

theorem changes_break_network:
  "(let (er, k) = AddDevices [bare_device ''n'' [''s1'', ''zz'']] (sdn_of [bare_device ''s1'' []]) in
      er \<noteq> None \<and> links_after k = [(''s1'', [''n'']), (''n'', [''s1'', ''zz''])] \<and> pendingChanges k = [])
    \<and> links_after (snd (AddDevices [bare_device ''a'' [''b''], bare_device ''b'' [''a'']] (sdn_of [])))
     = [(''a'', [''b'', ''b'', ''b'']), (''b'', [''a'', ''a''])]
    \<and> RemoveDevices [''a'', ''b''] (sdn_of [bare_device ''a'' [''b''], bare_device ''b'' [''a'']]) = None
    \<and> map_option (links_after \<circ> snd) (RemoveDevices [''a''] (sdn_of [bare_device ''a'' [''s''], bare_device ''s'' [''a'', ''b''],
     bare_device ''b'' [''s'']])) = Some [(''s'', [''b'']), (''b'', [''s''])]"
  by (intro conjI; code_simp)

end
