(* ===== verification/ShimProperties.thy ===== *)
theory ShimProperties
  imports ShimProofs ControllerProofs "HOL-Library.List_Lexorder"
begin

text \<open>
  The property of the shim, and a cluster in memory, on which calls never fail, that satisfies its assumptions.
\<close>

section \<open>A cluster in memory\<close>

primrec unique_by :: "('o \<Rightarrow> 'k) \<Rightarrow> 'o list \<Rightarrow> 'o list" where
  "unique_by key [] = []"
| "unique_by key (x # xs) = x # filter (\<lambda>y. key y \<noteq> key x) (unique_by key xs)"

definition memory_client :: "('o \<Rightarrow> object_key) \<Rightarrow> ('w \<Rightarrow> 'o list) \<Rightarrow> ('o list \<Rightarrow> 'w \<Rightarrow> 'w) \<Rightarrow> ('o, 'w) api_client" where
  "memory_client key g p =
     (let write = (\<lambda>x w. (Inr x, p (x # filter (\<lambda>y. key y \<noteq> key x) (g w)) w)) in
      \<lparr>apiGet = (\<lambda>k w. (case find (\<lambda>x. key x = k) (g w) of Some x \<Rightarrow> Inr x | None \<Rightarrow> Inl IsNotFound, w)),
       apiList = (\<lambda>w. (Inr (unique_by key (g w)), w)),
       apiCreate = write, apiUpdate = write, apiStatusUpdate = (\<lambda>x w. (Inr x, w)),
       apiDelete = (\<lambda>x w. (Inr (), p (filter (\<lambda>y. key y \<noteq> key x) (g w)) w))\<rparr>)"

definition memory_view :: "('o \<Rightarrow> object_key) \<Rightarrow> ('o \<Rightarrow> 's) \<Rightarrow> ('w \<Rightarrow> 'o list) \<Rightarrow> 'w \<Rightarrow> object_key \<Rightarrow> 's option" where
  "memory_view key spec g w k = map_option spec (find (\<lambda>x. key x = k) (g w))"

lemma find_filter_other: "find (\<lambda>x. key x = k) (filter (\<lambda>y. key y \<noteq> k') xs) = (if k = k' then None else find (\<lambda>x. key x = k) xs)"
  by (induction xs) auto

lemma unique_by_distinct: "distinct (map key (unique_by key xs))"
  by (induction xs) (auto simp: distinct_map_filter)

lemma unique_by_find: "(\<exists>x \<in> set (unique_by key xs). key x = k \<and> P x) \<longleftrightarrow> (\<exists>x. find (\<lambda>x. key x = k) xs = Some x \<and> P x)"
proof (induction xs arbitrary: P)
  case (Cons x xs)
  show ?case
  proof (cases "key x = k")
    case False
    have "(\<exists>y \<in> set (unique_by key (x # xs)). key y = k \<and> P y) \<longleftrightarrow> (\<exists>y \<in> set (unique_by key xs). key y = k \<and> P y)"
    proof
      assume "\<exists>y \<in> set (unique_by key (x # xs)). key y = k \<and> P y"
      then show "\<exists>y \<in> set (unique_by key xs). key y = k \<and> P y" using False by auto
    next
      assume "\<exists>y \<in> set (unique_by key xs). key y = k \<and> P y"
      then obtain y where y: "y \<in> set (unique_by key xs)" "key y = k" "P y" by blast
      with False have "y \<in> set (unique_by key (x # xs))" by auto
      with y show "\<exists>y \<in> set (unique_by key (x # xs)). key y = k \<and> P y" by blast
    qed
    with False Cons.IH [of P] show ?thesis by simp
  qed auto
qed simp

lemma memory_client_laws:
  assumes gp: "\<And>xs w. g (p xs w) = xs" and frame: "\<And>xs w. frame w (p xs w)" "\<And>w. frame w w"
  shows "client_laws (memory_client key g p) key spec (memory_view key spec g) frame"
proof -
  have view_write: "memory_view key spec g (p (x # filter (\<lambda>y. key y \<noteq> key x) (g w)) w) = (memory_view key spec g w)(key x \<mapsto> spec x)" for x w
    by (auto simp: memory_view_def gp find_filter_other fun_eq_iff)
  have view_delete: "memory_view key spec g (p (filter (\<lambda>y. key y \<noteq> key x) (g w)) w) = (memory_view key spec g w)(key x := None)" for x w
    by (auto simp: memory_view_def gp find_filter_other fun_eq_iff)
  have view_list: "memory_view key spec g w k = Some y \<longleftrightarrow> (\<exists>x \<in> set (unique_by key (g w)). key x = k \<and> spec x = y)" for w k y
    unfolding unique_by_find memory_view_def by (cases "find (\<lambda>x. key x = k) (g w)") auto
  have view_get: "case (case find (\<lambda>x. key x = k) (g w) of Some x \<Rightarrow> Inr x | None \<Rightarrow> Inl IsNotFound) of
      Inr x \<Rightarrow> key x = k \<and> memory_view key spec g w k = Some (spec x) | Inl e \<Rightarrow> e = IsNotFound \<longrightarrow> memory_view key spec g w k = None" for w k
    by (auto simp: memory_view_def split: option.split dest: find_SomeD)
  show ?thesis
    unfolding client_laws_def memory_client_def Let_def
    by (simp add: view_write view_delete view_list view_get frame unique_by_distinct del: split_paired_All)
qed

text \<open>The world of the sample: the objects of each kind, and the SDN controller, which always answers.\<close>

record memory =
  memShims :: "sdn_shim list"
  memTopologies :: "topology_cr list"
  memSwitches :: "inc_switch_cr list"
  memPrograms :: "p4_program_cr list"

definition upsert_condition :: "status_condition \<Rightarrow> status_condition list \<Rightarrow> status_condition list" where
  "upsert_condition c cs = c # filter (\<lambda>d. ConditionType d \<noteq> ConditionType c) cs"

definition memory_env :: "kinda_sdn \<Rightarrow> memory shim_env" where
  "memory_env k =
     \<lparr>shimClient = (memory_client (\<lambda>t. ObjectKey (shimMeta t)) memShims (\<lambda>xs w. w\<lparr>memShims := xs\<rparr>))
        \<lparr>apiStatusUpdate := (\<lambda>x w. (Inr x, w\<lparr>memShims := x # filter (\<lambda>y. shimMeta y \<noteq> shimMeta x) (memShims w)\<rparr>))\<rparr>,
      topologyClient = memory_client (\<lambda>t. ObjectKey (topoMeta t)) memTopologies (\<lambda>xs w. w\<lparr>memTopologies := xs\<rparr>),
      switchClient = memory_client (\<lambda>t. ObjectKey (switchMeta t)) memSwitches (\<lambda>xs w. w\<lparr>memSwitches := xs\<rparr>),
      programClient = memory_client (\<lambda>t. ObjectKey (programMeta t)) memPrograms (\<lambda>xs w. w\<lparr>memPrograms := xs\<rparr>),
      SetStatusCondition = upsert_condition,
      SetControllerReference = (\<lambda>owner m. Inr m),
      grpcDial = (\<lambda>addr w. (Inr (), w)),
      rpcSubscribeNetworkChanges = (\<lambda>addr w. (Inr (), w)),
      rpcGetTopology = (\<lambda>conn w. (Inr (GetTopology k), w)),
      rpcGetSwitchDetails = (\<lambda>conn names w. (GetSwitchDetails k names, w)),
      rpcGetProgramDetails = (\<lambda>conn name w. (GetProgramDetails k name, w)),
      Slice = (\<lambda>i s. sorted_list_of_set s)\<rparr>"

abbreviation memory_topologies where
  "memory_topologies \<equiv> memory_view (\<lambda>t. ObjectKey (topoMeta t)) Graph memTopologies"
abbreviation memory_switches where
  "memory_switches \<equiv> memory_view (\<lambda>t. ObjectKey (switchMeta t)) (\<lambda>t. (switchArch t, switchProgram t)) memSwitches"
abbreviation memory_programs where
  "memory_programs \<equiv> memory_view (\<lambda>t. ObjectKey (programMeta t)) ImplementedInterfacesOf memPrograms"

lemma memory_shim_laws: "shim_laws (memory_env k) k memory_topologies memory_switches memory_programs"
  unfolding shim_laws_def
proof (intro conjI)
  show "client_laws (topologyClient (memory_env k)) (\<lambda>t. ObjectKey (topoMeta t)) Graph memory_topologies
      (\<lambda>w w'. memory_switches w' = memory_switches w \<and> memory_programs w' = memory_programs w)"
    unfolding memory_env_def shim_env.simps by (rule memory_client_laws) (simp_all add: memory_view_def fun_eq_iff)
  show "client_laws (switchClient (memory_env k)) (\<lambda>t. ObjectKey (switchMeta t)) (\<lambda>t. (switchArch t, switchProgram t)) memory_switches
      (\<lambda>w w'. memory_topologies w' = memory_topologies w \<and> memory_programs w' = memory_programs w)"
    unfolding memory_env_def shim_env.simps by (rule memory_client_laws) (simp_all add: memory_view_def fun_eq_iff)
  show "client_laws (programClient (memory_env k)) (\<lambda>t. ObjectKey (programMeta t)) ImplementedInterfacesOf memory_programs
      (\<lambda>w w'. memory_topologies w' = memory_topologies w \<and> memory_switches w' = memory_switches w)"
    unfolding memory_env_def shim_env.simps by (rule memory_client_laws) (simp_all add: memory_view_def fun_eq_iff)
  show "slices_ok (Slice (memory_env k))" by (simp add: slices_ok_def memory_env_def)
qed (auto simp: memory_env_def memory_client_def Let_def memory_view_def fun_eq_iff)

section \<open>Properties\<close>

lemma ensure_client_keeps:
  "ensure_client env shim s = (Inr conn, s') \<Longrightarrow> s' = s"
  by (auto simp: ensure_client_def connect_client_def stop_def pass_def Let_def split: option.splits prod.splits sum.splits if_splits)

lemma init_conditions_keeps:
  "init_conditions env shim s = (Inr u, s') \<Longrightarrow> s' = s"
  by (auto simp: init_conditions_def pass_def seq_def stop_def split: if_splits prod.splits sum.splits)

text \<open>C5: when every \<open>IncSwitch\<close> and every \<open>P4Program\<close> of the cluster is in the namespace
  \<open>default\<close>, in which the shim creates its own, and whatever they contain otherwise, then when the
  \<open>Reconcile\<close> of an existing shim completes, the cluster stores
  exactly the network of the SDN controller: its topology, an \<open>IncSwitch\<close> with the right architecture and program for
  each programmable switch and no other, and a \<open>P4Program\<close> with the implemented interfaces for each program such a switch runs
  and no other. The code lists the objects of all namespaces and tells them apart by name alone, so without the
  proviso an object of the same name in another namespace is taken for the shim's own: the theorem
  \<open>same_name_elsewhere\<close> below.\<close>

theorem shim_mirrors_controller:
  assumes "shim_laws env k tv sv pv" and "distinct (map GetName (Devices (kTopo k)))"
    and "only_default (sv (world s))" and "only_default (pv (world s))"
    and "apiGet (shimClient env) req (world s) = (Inr shim, w)"
    and "Reconcile env req s = ((result_done, None), s')"
  shows "mirrors k tv sv pv (world s')"
proof -
  let ?s1 = "s\<lparr>world := w\<rparr>"
  let ?rest = "seq (init_conditions env shim) (\<lambda>_. seq (ensure_client env shim) (\<lambda>conn. reconcile_network env shim conn))"
  from shim_lawsD(10) [OF assms(1,5)] assms(3,4) have P: "one_namespace sv pv (world ?s1)" by (simp add: one_namespace_def)
  have run: "finish ?rest ?s1 = ((result_done, None), s')"
    using assms(5,6) by (simp add: Reconcile_def finish_def seq_def attempt_def on_world_def)
  have "not_complete ?rest" unfolding reconcile_network_def by (intro incomplete)
  with run obtain r where r: "?rest ?s1 = (Inr r, s')"
    by (cases "?rest ?s1") (auto simp: finish_def not_complete_def split: sum.splits)
  then obtain u s2 where 1: "init_conditions env shim ?s1 = (Inr u, s2)"
    and r2: "seq (ensure_client env shim) (\<lambda>conn. reconcile_network env shim conn) s2 = (Inr r, s')"
    by (cases "init_conditions env shim ?s1") (auto simp: seq_def split: sum.splits)
  then obtain conn s3 where 2: "ensure_client env shim s2 = (Inr conn, s3)" and r3: "reconcile_network env shim conn s3 = (Inr r, s')"
    by (cases "ensure_client env shim s2") (auto simp: seq_def split: sum.splits)
  from 1 2 init_conditions_keeps ensure_client_keeps have "s3 = ?s1" by metis
  with P r3 afterD [OF after_reconcile_network [OF assms(1,2)]] show ?thesis by blast
qed

definition sample_shim :: sdn_shim where
  "sample_shim = \<lparr>shimMeta = NewMeta ''shim'' ''default'', SdnGrpcAddr = ''sdn:9001'', TelemetryServiceGrpcAddr = ''sdn:9001'', Conditions = []\<rparr>"

text \<open>A cluster that stores a switch and a program that are gone, and an old version of a program.\<close>

definition sample_cluster :: memory where
  "sample_cluster = \<lparr>memShims = [sample_shim], memTopologies = [],
     memSwitches = [\<lparr>switchMeta = NewMeta ''old'' ''default'', switchArch = ''bmv2'', switchProgram = ''gone''\<rparr>,
       \<lparr>switchMeta = NewMeta ''s1'' ''default'', switchArch = ''bmv2'', switchProgram = ''gone''\<rparr>],
     memPrograms = [buildP4ProgramCR ''gone'' [], buildP4ProgramCR ''telemetry'' []]\<rparr>"

fun rounds :: "nat \<Rightarrow> 'w shim_env \<Rightarrow> object_key \<Rightarrow> 'w shim_state \<Rightarrow> outcome list \<times> 'w shim_state" where
  "rounds 0 env req s = ([], s)"
| "rounds (Suc n) env req s = (let (r, s1) = Reconcile env req s; (rs, s2) = rounds n env req s1 in (r # rs, s2))"

definition sample_before :: "memory shim_state" where
  "sample_before = snd (rounds 3 (memory_env sample_sdn) (''default'', ''shim'') \<lparr>sdnClient = None, world = sample_cluster\<rparr>)"

lemma sample_rounds:
  "fst (rounds 3 (memory_env sample_sdn) (''default'', ''shim'') \<lparr>sdnClient = None, world = sample_cluster\<rparr>)
     = [(result_requeue, None), (result_requeue, None), (result_requeue, None)]"
  by code_simp

theorem shim_mirrors_controller_witness:
  "mirrors sample_sdn memory_topologies memory_switches memory_programs
     (world (snd (Reconcile (memory_env sample_sdn) (''default'', ''shim'') sample_before)))"
proof -
  let ?s' = "snd (Reconcile (memory_env sample_sdn) (''default'', ''shim'') sample_before)"
  have "fst (Reconcile (memory_env sample_sdn) (''default'', ''shim'') sample_before) = (result_done, None)" by code_simp
  then have run: "Reconcile (memory_env sample_sdn) (''default'', ''shim'') sample_before = ((result_done, None), ?s')"
    by (metis prod.collapse)
  have sws: "\<forall>x \<in> set (memSwitches (world sample_before)). objectNamespace (switchMeta x) = ''default''"
    and prs: "\<forall>x \<in> set (memPrograms (world sample_before)). objectNamespace (programMeta x) = ''default''" by code_simp+
  have od: "only_default (memory_switches (world sample_before))" "only_default (memory_programs (world sample_before))"
    using sws prs by (auto simp: only_default_def memory_view_def ObjectKey_def dest!: find_SomeD)
  obtain shim where "apiGet (shimClient (memory_env sample_sdn)) (''default'', ''shim'') (world sample_before) = (Inr shim, world sample_before)"
  proof -
    have "case fst (apiGet (shimClient (memory_env sample_sdn)) (''default'', ''shim'') (world sample_before)) of Inr shim \<Rightarrow> True | Inl e \<Rightarrow> False"
      by code_simp
    then show ?thesis using that by (auto simp: memory_env_def memory_client_def Let_def split: option.splits)
  qed
  from shim_mirrors_controller [OF memory_shim_laws sample_sdn_facts(1) od this run] show ?thesis .
qed

text \<open>Without the proviso: the cluster stores a switch \<open>s1\<close> in another namespace. It has the architecture
  and the program of the switch \<open>s1\<close> of the network, so the \<open>Reconcile\<close> completes without creating an
  \<open>IncSwitch\<close> \<open>s1\<close> in the namespace \<open>default\<close>.\<close>

definition foreign_cluster :: memory where
  "foreign_cluster = sample_cluster\<lparr>memSwitches :=
     [\<lparr>switchMeta = NewMeta ''s1'' ''other'', switchArch = ''bmv2'', switchProgram = ''telemetry''\<rparr>]\<rparr>"

theorem same_name_elsewhere:
  "case rounds 4 (memory_env sample_sdn) (''default'', ''shim'') \<lparr>sdnClient = None, world = foreign_cluster\<rparr> of
     (rs, s) \<Rightarrow> last rs = (result_done, None)
       \<and> memory_switches (world s) (''default'', ''s1'') = None
       \<and> wanted_switch sample_sdn ''s1'' = Some (''bmv2'', ''telemetry'')"
  by code_simp

end
