(* ===== verification/Operator.thy ===== *)
theory Operator
  imports Shim GoStrings
begin

text \<open>
  What the controllers of the telemetry operator (\<open>inc-operator\<close>) share: its custom resources (\<open>api/v1alpha1\<close>), the
  helpers of \<open>shimutils\<close> and \<open>controllers/utils\<close>, and the record of what is outside of the program, the API
  server and the telemetry service of the SDN controller behind gRPC. The objects of Kubernetes itself have the
  fields that the operator reads or sets.
\<close>

section \<open>Objects\<close>

record pod_reference =
  refKind :: string
  refNamespace :: string
  refName :: string
  refUID :: string
  refAPIVersion :: string

record pod =
  podMeta :: object_meta
  podKind :: string
  podAPIVersion :: string
  podUID :: string
  podPhase :: string
  podNodeName :: string
  podIP :: string

abbreviation PodRunning :: string where "PodRunning \<equiv> ''Running''"

datatype protocol = TCP | UDP

record service_port =
  svcProtocol :: protocol
  svcPort :: int32
  svcNodePort :: int32

record service_cr =
  serviceMeta :: object_meta
  serviceType :: string
  clusterIP :: string
  serviceSelector :: "(string, string) gomap"
  servicePorts :: "service_port list"

record node_cr =
  nodeMeta :: object_meta

record label_selector =
  matchLabels :: "(string, string) gomap"
  matchExpressions :: "string list"

text \<open>The template of a deployment: what the operator changes of it, and the rest. The map of its labels may be nil; the
  affinity is the key and the values of the term the operator sets.\<close>

record deployment_spec =
  templateLabels :: "(string, string) gomap option"
  deploymentSelector :: label_selector
  schedulerName :: string
  affinityValues :: "(string \<times> string list) option"
  otherSpec :: string

record deployment_cr =
  deploymentMeta :: object_meta
  deploymentSpec :: deployment_spec

datatype entry_status = EP_PENDING | EP_READY | EP_FAILED | EP_TERMINATING

record ingress_info =
  IngressType :: string
  IngressNodeNames :: "string list"
  NodePortServiceName :: string
  NodePortServiceNamespace :: string

abbreviation NODE_PORT :: string where "NODE_PORT \<equiv> ''NodePort''"
abbreviation MONITOR_EXTERNAL_TO_PODS :: string where "MONITOR_EXTERNAL_TO_PODS \<equiv> ''external-to-pods''"
abbreviation MONITOR_PODS_TO_EXTERNAL :: string where "MONITOR_PODS_TO_EXTERNAL \<equiv> ''pods-to-external''"
abbreviation MONITOR_ALL :: string where "MONITOR_ALL \<equiv> ''all''"

record external_deployment =
  extDeplMeta :: object_meta
  DeploymentTemplate :: deployment_spec
  RequiredProgram :: string
  extIngressInfo :: ingress_info
  extMonitoringPolicy :: string
  RequireAtLeastIntDevices :: "string option"
  BasicStatus :: string

text \<open>The entry of a pod; only those of internal endpoints have the address of the pod.\<close>

record endpoints_entry =
  PodReference :: pod_reference
  EntryStatus :: entry_status
  entryNodeName :: string

record internal_entry = endpoints_entry +
  entryPodIp :: string

record external_endpoints =
  extEpMeta :: object_meta
  extEntries :: "endpoints_entry list"
  extCollectorNodeName :: string
  extProgramName :: string
  epIngressInfo :: ingress_info
  epMonitoringPolicy :: string
  ExternalIngressInfo :: "ingress_info option"
  ExternalMonitoringPolicy :: "string option"
  InternalIngressInfo :: "ingress_info option"
  InternalMonitoringPolicy :: "string option"

record internal_deployment =
  intDeplMeta :: object_meta
  DeploymentTemplates :: "(string \<times> deployment_spec) list"
  intCollectorRef :: string
  intCollectionId :: string

record internal_endpoints =
  intEpMeta :: object_meta
  DeploymentEndpoints :: "(string \<times> internal_entry list) list"
  epCollectorRef :: string
  epCollectionId :: string

record collector_cr =
  collectorMeta :: object_meta
  ReportingContainerPort :: int32
  ApiContainerPort :: int32
  containerImages :: "string list"
  otherPodSpec :: string
  collectorConditions :: "status_condition list"
  NodeRef :: "string option"
  ReportingPort :: "int32 option"
  ApiServiceRef :: "string option"

abbreviation TypeAvailableCollector :: string where "TypeAvailableCollector \<equiv> ''Available''"

section \<open>The environment\<close>

text \<open>\<open>LabelSelectorAsSelector\<close> may refuse a selector. Listing pods takes a selector and a namespace. gRPC calls go to an address; each dials first.\<close>

record 'w operator_env =
  shimObjects :: "(sdn_shim, 'w) api_client"
  topologyObjects :: "(topology_cr, 'w) api_client"
  switchObjects :: "(inc_switch_cr, 'w) api_client"
  nodeObjects :: "(node_cr, 'w) api_client"
  podObjects :: "(pod, 'w) api_client"
  asSelector :: "label_selector \<Rightarrow> api_error + label_selector"
  listPods :: "label_selector \<Rightarrow> string \<Rightarrow> 'w \<Rightarrow> (api_error + pod list) \<times> 'w"
  serviceObjects :: "(service_cr, 'w) api_client"
  deploymentObjects :: "(deployment_cr, 'w) api_client"
  extDeployments :: "(external_deployment, 'w) api_client"
  extEndpoints :: "(external_endpoints, 'w) api_client"
  intDeployments :: "(internal_deployment, 'w) api_client"
  intEndpoints :: "(internal_endpoints, 'w) api_client"
  collectors :: "(collector_cr, 'w) api_client"
  setController :: "object_meta \<Rightarrow> object_meta \<Rightarrow> api_error + object_meta"
  isConditionTrue :: "status_condition list \<Rightarrow> string \<Rightarrow> bool"
  rpcDial :: "string \<Rightarrow> 'w \<Rightarrow> (err + unit) \<times> 'w"
  rpcConfigure :: "string \<Rightarrow> configure_telemetry_request \<Rightarrow> 'w \<Rightarrow> (err + configure_response) \<times> 'w"
  rpcDisable :: "string \<Rightarrow> string \<Rightarrow> 'w \<Rightarrow> (err + bool) \<times> 'w"
  mapOrder :: "nat \<Rightarrow> string list \<Rightarrow> string list"
  setSlice :: "string set \<Rightarrow> string list"

text \<open>A panic ends the process.\<close>

abbreviation panic :: "('s, 'a) action" where
  "panic \<equiv> fail Panicked"

text \<open>A call whose result nobody looks at.\<close>

definition discard :: "('s \<Rightarrow> 'r \<times> 's) \<Rightarrow> ('s, unit) action" where
  "discard m s = (Inr (), snd (m s))"

section \<open>shimutils\<close>

type_synonym crd_graph = "(string, network_device) gomap"

definition crd_TopologyToGraph :: "topology_cr \<Rightarrow> crd_graph" where
  "crd_TopologyToGraph topo = fold (\<lambda>dev. gm_put (DevName dev) dev) (Graph topo) []"

definition first_of :: "string \<Rightarrow> (api_error + 'o list) \<Rightarrow> api_error + 'o" where
  "first_of msg r =
     (case r of
        Inl err \<Rightarrow> Inl err
      | Inr [] \<Rightarrow> Inl (OtherError msg)
      | Inr (x # xs) \<Rightarrow> Inr x)"

definition LoadSDNShim :: "'w operator_env \<Rightarrow> 'w \<Rightarrow> (api_error + sdn_shim) \<times> 'w" where
  "LoadSDNShim env w = apfst (first_of ''SDNShim unavailable'') (apiList (shimObjects env) w)"

definition LoadTopology :: "'w operator_env \<Rightarrow> 'w \<Rightarrow> (api_error + topology_cr) \<times> 'w" where
  "LoadTopology env w = apfst (first_of ''topology unavailable'') (apiList (topologyObjects env) w)"

text \<open>The map stores the address of the loop variable, which all iterations share (the module is built with Go 1.21):
  every name leads to the last object of the list.\<close>

definition pointers_to_loop_variable :: "('o \<Rightarrow> string) \<Rightarrow> 'o list \<Rightarrow> (string, 'o) gomap" where
  "pointers_to_loop_variable name items = fold (\<lambda>s. gm_put (name s) (last items)) items []"

definition LoadNodes :: "'w operator_env \<Rightarrow> 'w \<Rightarrow> (api_error + (string, node_cr) gomap) \<times> 'w" where
  "LoadNodes env w = apfst (map_sum id (pointers_to_loop_variable (objectName \<circ> nodeMeta))) (apiList (nodeObjects env) w)"

definition LoadSwitches :: "'w operator_env \<Rightarrow> 'w \<Rightarrow> (api_error + (string, inc_switch_cr) gomap) \<times> 'w" where
  "LoadSwitches env w = apfst (map_sum id (pointers_to_loop_variable (objectName \<circ> switchMeta))) (apiList (switchObjects env) w)"

definition GetNameOfNodeWithSname :: "'w operator_env \<Rightarrow> string \<Rightarrow> 'w \<Rightarrow> (api_error + string) \<times> 'w" where
  "GetNameOfNodeWithSname env sname w =
     apfst (\<lambda>r. case r of
        Inl err \<Rightarrow> Inl err
      | Inr nodes \<Rightarrow>
          (case find (\<lambda>node. gm_get (objectLabels (nodeMeta node)) ''sname'' = Some sname) nodes of
             Some node \<Rightarrow> Inr (objectName (nodeMeta node))
           | None \<Rightarrow> Inl (OtherError (''no node with sname '' @ sname)))) (apiList (nodeObjects env) w)"

definition GetExternalDevices :: "(string list \<Rightarrow> string list) \<Rightarrow> crd_graph \<Rightarrow> network_device list" where
  "GetExternalDevices ord topo = filter (\<lambda>dev. DeviceType dev = CRD_EXTERNAL) (map snd (gm_range ord topo))"

definition GetDeviceNames :: "network_device list \<Rightarrow> string list" where
  "GetDeviceNames devices = map DevName devices"

definition GetSwitchIdToNameMapping :: "topology_cr \<Rightarrow> (int, string) gomap" where
  "GetSwitchIdToNameMapping topo =
     fst (fold (\<lambda>dev (res, i). if DeviceType dev = CRD_INC_SWITCH then (gm_put i (DevName dev) res, i + 1) else (res, i))
       (Graph topo) ([], 0))"

section \<open>Names of intents, and changes\<close>

abbreviation INGRESS_TO_EXTERNAL :: string where "INGRESS_TO_EXTERNAL \<equiv> ''ie''"
abbreviation EXTERNAL_TO_INGRESS :: string where "EXTERNAL_TO_INGRESS \<equiv> ''ei''"
abbreviation INGRESS_TO_PODS :: string where "INGRESS_TO_PODS \<equiv> ''ip''"
abbreviation PODS_TO_INGRESS :: string where "PODS_TO_INGRESS \<equiv> ''pi''"

definition BuildIntentId :: "string \<Rightarrow> string \<Rightarrow> string" where
  "BuildIntentId baseName reqType = baseName @ ''-'' @ reqType"

definition BuildCollectionId :: "string \<Rightarrow> string" where
  "BuildCollectionId baseName = ''external-'' @ baseName"

definition IngressInfoChanged :: "ingress_info \<Rightarrow> ingress_info option \<Rightarrow> bool" where
  "IngressInfoChanged desired actual =
     (case actual of
        None \<Rightarrow> True
      | Some a \<Rightarrow> IngressType desired \<noteq> IngressType a \<or> IngressNodeNames desired \<noteq> IngressNodeNames a)"

definition MonitoringPolicyChanged :: "string \<Rightarrow> string option \<Rightarrow> bool" where
  "MonitoringPolicyChanged desired actual \<longleftrightarrow> actual \<noteq> Some desired"

definition BuildInternalIntentId :: "string \<Rightarrow> string \<Rightarrow> string \<Rightarrow> string" where
  "BuildInternalIntentId baseName sourceDeplName targetDeplName = baseName @ ''-'' @ sourceDeplName @ ''-'' @ targetDeplName"

definition BuildInternalCollectionId :: "string \<Rightarrow> string" where
  "BuildInternalCollectionId baseName = ''internal-'' @ baseName"

text \<open>Other than two endpoints panic.\<close>

definition PairedDeployments :: "internal_endpoints \<Rightarrow> (string \<times> string) list option" where
  "PairedDeployments endpoints =
     (case DeploymentEndpoints endpoints of
        [(depl1, _), (depl2, _)] \<Rightarrow> Some [(depl1, depl2), (depl2, depl1)]
      | _ \<Rightarrow> None)"

end
