(* ===== verification/Feasible.thy ===== *)
theory Feasible
  imports Operator
begin

text \<open>
  The nodes on which the operator lets the pods of an external deployment run
  (\<open>inc-operator/controllers/externalinnetworktelemetrydeployment_controller.go\<close>): a breadth-first traversal from every ingress
  node, with a requirement on the switches of the path.
\<close>

section \<open>The requirement on a path\<close>

definition countIncSwitchesOnPathWithRequiredProgram ::
  "string list \<Rightarrow> (string, inc_switch_cr) gomap \<Rightarrow> string \<Rightarrow> nat" where
  "countIncSwitchesOnPathWithRequiredProgram path incSwitches programName =
     length (filter (\<lambda>node. case gm_get incSwitches node of Some inc \<Rightarrow> switchProgram inc = programName | None \<Rightarrow> False) path)"

text \<open>\<open>strconv.ParseInt(s, 0, bits)\<close>.\<close>

definition ParseInt0 :: "string \<Rightarrow> nat \<Rightarrow> int option" where
  "ParseInt0 s bits =
     (case s of
        [] \<Rightarrow> None
      | c # cs \<Rightarrow>
          (case ParseUint0 (if c = CHR ''+'' \<or> c = CHR ''-'' then cs else s) (int bits) of
             None \<Rightarrow> None
           | Some un \<Rightarrow>
               if c \<noteq> CHR ''-'' \<and> 2 ^ (bits - 1) \<le> un then None
               else if c = CHR ''-'' \<and> 2 ^ (bits - 1) < un then None
               else Some (if c = CHR ''-'' then - int un else int un)))"

definition HasSuffix :: "string \<Rightarrow> string \<Rightarrow> bool" where
  "HasSuffix s suffix \<longleftrightarrow> length suffix \<le> length s \<and> drop (length s - length suffix) s = suffix"

text \<open>The requirement of a percentage compares 32-bit floating-point quotients; the comparison is an argument. The slice of a
  requirement that is empty panics.\<close>

definition pathCompliesWithRequirement ::
  "(nat \<Rightarrow> nat \<Rightarrow> int \<Rightarrow> bool) \<Rightarrow> (string, inc_switch_cr) gomap \<Rightarrow> string list \<Rightarrow> external_deployment \<Rightarrow> bool option" where
  "pathCompliesWithRequirement closeEnough incSwitches path eintDepl =
     (case RequireAtLeastIntDevices eintDepl of
        None \<Rightarrow> Some True
      | Some required \<Rightarrow>
          if HasSuffix ''%'' required then
            (if required = [] then None
             else case ParseInt0 (butlast required) 32 of
               None \<Rightarrow> Some True
             | Some percentage \<Rightarrow>
                 if percentage = 0 \<or> path = [] then Some True
                 else Some (closeEnough (countIncSwitchesOnPathWithRequiredProgram path incSwitches (RequiredProgram eintDepl))
                              (length path) percentage))
          else (case ParseInt0 required 32 of
               None \<Rightarrow> Some True
             | Some rawNum \<Rightarrow>
                 if int (length path) < rawNum then Some False
                 else if rawNum = 0 then Some True
                 else Some (rawNum \<le> int (countIncSwitchesOnPathWithRequiredProgram path incSwitches (RequiredProgram eintDepl)))))"

section \<open>The traversal\<close>

text \<open>Indexing the graph with a missing name gives the zero value, a device without links.\<close>

definition links_of :: "crd_graph \<Rightarrow> string \<Rightarrow> string list" where
  "links_of G cur = (case gm_get G cur of Some v \<Rightarrow> PeerNames v | None \<Rightarrow> [])"

type_synonym traversal = "string list \<times> string list \<times> (string, string list) gomap"

fun push_links :: "string list \<Rightarrow> string list \<Rightarrow> traversal \<Rightarrow> traversal" where
  "push_links nextPath [] st = st"
| "push_links nextPath (peer # peers) (visited, q, paths) =
     (if peer \<in> set visited then push_links nextPath peers (visited, q, paths)
      else push_links nextPath peers (peer # visited, q @ [peer], gm_put peer nextPath paths))"

definition traverse_work :: "crd_graph \<Rightarrow> traversal \<Rightarrow> nat" where
  "traverse_work G = (\<lambda>(visited, q, paths).
     card ((set (concat (map (PeerNames \<circ> snd) G))) - set visited) + length q)"

lemma links_of_subset: "set (links_of G cur) \<subseteq> set (concat (map (PeerNames \<circ> snd) G))"
proof (cases "gm_get G cur")
  case (Some v)
  from gm_get_in [OF this] show ?thesis by (auto simp: links_of_def Some intro!: bexI [of _ "(cur, v)"])
qed (simp add: links_of_def)

lemma push_links_work:
  "set peers \<subseteq> set (concat (map (PeerNames \<circ> snd) G)) \<Longrightarrow> traverse_work G (push_links p peers st) \<le> traverse_work G st"
proof (induction p peers st rule: push_links.induct)
  case (2 p peer peers visited q paths)
  show ?case
  proof (cases "peer \<in> set visited")
    case False
    let ?S = "set (concat (map (PeerNames \<circ> snd) G)) - set visited"
    have "card ?S = Suc (card (?S - {peer}))"
      using False 2(3) by (intro card.remove) auto
    moreover have "?S - {peer} = set (concat (map (PeerNames \<circ> snd) G)) - set (peer # visited)" by auto
    ultimately have "traverse_work G (peer # visited, q @ [peer], gm_put peer p paths) = traverse_work G (visited, q, paths)"
      by (simp only: traverse_work_def prod.case) simp
    with 2 False show ?thesis by auto
  qed (use 2 in auto)
qed simp

text \<open>The consumer is a state transformer that says whether to stop.\<close>

function traverse_loop :: "crd_graph \<Rightarrow> (string \<Rightarrow> string list \<Rightarrow> 'a \<Rightarrow> bool \<times> 'a) \<Rightarrow> traversal \<Rightarrow> 'a \<Rightarrow> 'a" where
  "traverse_loop G consumer (visited, [], paths) a = a"
| "traverse_loop G consumer (visited, cur # q, paths) a =
     (let path = (case gm_get paths cur of Some p \<Rightarrow> p | None \<Rightarrow> []) in
      case consumer cur path a of
        (True, a1) \<Rightarrow> a1
      | (False, a1) \<Rightarrow> traverse_loop G consumer (push_links (path @ [cur]) (links_of G cur) (visited, q, paths)) a1)"
  by pat_completeness auto

termination traverse_loop
proof (relation "measure (\<lambda>(G, consumer, st, a). traverse_work G st)")
  fix G :: crd_graph and consumer :: "string \<Rightarrow> string list \<Rightarrow> 'a \<Rightarrow> bool \<times> 'a" and visited q paths a x a1 cur path b
  have "traverse_work G (push_links path (links_of G cur) (visited, q, paths)) \<le> traverse_work G (visited, q, paths)" for path
    by (rule push_links_work [OF links_of_subset])
  also have "\<dots> < traverse_work G (visited, cur # q, paths)" by (simp add: traverse_work_def)
  finally show "((G, consumer, push_links (path @ [cur]) (links_of G cur) (visited, q, paths), a1), G, consumer, (visited, cur # q, paths), a)
      \<in> measure (\<lambda>(G, consumer, st, a). traverse_work G st)" by simp
qed simp

definition traverseTopology :: "string \<Rightarrow> crd_graph \<Rightarrow> (string \<Rightarrow> string list \<Rightarrow> 'a \<Rightarrow> bool \<times> 'a) \<Rightarrow> 'a \<Rightarrow> 'a" where
  "traverseTopology startNode topoGraph consumer a =
     traverse_loop topoGraph consumer ([startNode], [startNode], [(startNode, [])]) a"

section \<open>Picking the nodes\<close>

text \<open>The set of feasible nodes; a panic of the requirement is \<^term>\<open>None\<close> and stays.\<close>

definition consider_node ::
  "(nat \<Rightarrow> nat \<Rightarrow> int \<Rightarrow> bool) \<Rightarrow> crd_graph \<Rightarrow> (string, inc_switch_cr) gomap \<Rightarrow> external_deployment \<Rightarrow>
     string \<Rightarrow> string list \<Rightarrow> string set option \<Rightarrow> bool \<times> string set option" where
  "consider_node closeEnough G incSwitches eintDepl endpoint path feasible =
     (False,
      (case gm_get G endpoint of
         Some node \<Rightarrow>
           (if DeviceType node = CRD_NODE then do {
              f \<leftarrow> feasible;
              complies \<leftarrow> pathCompliesWithRequirement closeEnough incSwitches path eintDepl;
              Some (if complies then insert endpoint f else f)
            } else feasible)
       | None \<Rightarrow> feasible))"

definition feasible_nodes ::
  "(nat \<Rightarrow> nat \<Rightarrow> int \<Rightarrow> bool) \<Rightarrow> topology_cr \<Rightarrow> (string, inc_switch_cr) gomap \<Rightarrow> external_deployment \<Rightarrow> string set option" where
  "feasible_nodes closeEnough topo incSwitches eintDepl =
     (let G = crd_TopologyToGraph topo in
      fold (\<lambda>ingressNode. traverseTopology ingressNode G (consider_node closeEnough G incSwitches eintDepl))
        (IngressNodeNames (extIngressInfo eintDepl)) (Some {}))"

text \<open>The outer option is the panic.\<close>

definition pickFeasibleNodes ::
  "'w operator_env \<Rightarrow> (nat \<Rightarrow> nat \<Rightarrow> int \<Rightarrow> bool) \<Rightarrow> topology_cr \<Rightarrow> external_deployment \<Rightarrow> 'w \<Rightarrow> ((api_error + string list) \<times> 'w) option" where
  "pickFeasibleNodes env closeEnough topo eintDepl w =
     (case LoadSwitches env w of
        (Inl err, w1) \<Rightarrow> Some (Inl err, w1)
      | (Inr incSwitches, w1) \<Rightarrow>
          (if IngressType (extIngressInfo eintDepl) \<noteq> NODE_PORT then
             Some (Inl (OtherError (''unsupported ingress type '' @ IngressType (extIngressInfo eintDepl))), w1)
           else do {
             feasible \<leftarrow> feasible_nodes closeEnough topo incSwitches eintDepl;
             Some (Inr (setSlice env feasible), w1)
           }))"

end
