(* ===== verification/Deployments.thy ===== *)
theory Deployments
  imports Feasible
begin

text \<open>
  The controllers of external and internal telemetry deployments
  (\<open>inc-operator/controllers/externalinnetworktelemetrydeployment_controller.go\<close>,
  \<open>internalinnetworktelemetrydeployment_controller.go\<close>): each creates the deployments of the pods and one endpoints
  resource, whose entries follow the pods. Both use the same algorithm on the entries, with entries of their own.
\<close>

section \<open>The entries of the pods\<close>

definition pod_ref :: "pod \<Rightarrow> pod_reference" where
  "pod_ref pod = \<lparr>refKind = podKind pod, refNamespace = objectNamespace (podMeta pod), refName = objectName (podMeta pod),
     refUID = podUID pod, refAPIVersion = podAPIVersion pod\<rparr>"

definition has_pod :: "pod list \<Rightarrow> 'a endpoints_entry_scheme \<Rightarrow> bool" where
  "has_pod pods ep = list_ex (\<lambda>pod. podUID pod = refUID (PodReference ep)) pods"

definition managed_entry :: "'a endpoints_entry_scheme list \<Rightarrow> pod \<Rightarrow> 'a endpoints_entry_scheme option" where
  "managed_entry entries pod = find (\<lambda>ep. refUID (PodReference ep) = podUID pod) entries"

text \<open>The first loop: the entries without a pod, and whether one was not terminating yet.\<close>

fun check_entries :: "pod list \<Rightarrow> 'a endpoints_entry_scheme list \<Rightarrow> 'a endpoints_entry_scheme list \<times> bool \<Rightarrow> 'a endpoints_entry_scheme list \<times> bool" where
  "check_entries pods [] acc = acc"
| "check_entries pods (ep # eps) (validEntries, changed) =
     (if has_pod pods ep then check_entries pods eps (validEntries, changed)
      else check_entries pods eps
        (validEntries @ [ep\<lparr>EntryStatus := EP_TERMINATING\<rparr>], changed \<or> EntryStatus ep \<noteq> EP_TERMINATING))"

text \<open>The second loop: a new entry for a running pod without one.\<close>

fun check_pods ::
  "(pod \<Rightarrow> 'a endpoints_entry_scheme) \<Rightarrow> 'a endpoints_entry_scheme list \<Rightarrow> pod list \<Rightarrow> 'a endpoints_entry_scheme list \<times> bool \<Rightarrow>
     'a endpoints_entry_scheme list \<times> bool" where
  "check_pods new_entry entries [] acc = acc"
| "check_pods new_entry entries (pod # pods) (validEntries, changed) =
     (case managed_entry entries pod of
        None \<Rightarrow>
          (if podPhase pod = PodRunning then check_pods new_entry entries pods (validEntries @ [new_entry pod], True)
           else check_pods new_entry entries pods (validEntries, changed))
      | Some ep \<Rightarrow> check_pods new_entry entries pods (validEntries @ [ep], changed))"

definition reconcile_entries ::
  "(pod \<Rightarrow> 'a endpoints_entry_scheme) \<Rightarrow> pod list \<Rightarrow> 'a endpoints_entry_scheme list \<Rightarrow> 'a endpoints_entry_scheme list \<times> bool" where
  "reconcile_entries new_entry pods entries = check_pods new_entry entries pods (check_entries pods entries ([], False))"

definition new_external_entry :: "pod \<Rightarrow> endpoints_entry" where
  "new_external_entry pod = \<lparr>PodReference = pod_ref pod, EntryStatus = EP_PENDING, entryNodeName = podNodeName pod\<rparr>"

definition new_internal_entry :: "pod \<Rightarrow> internal_entry" where
  "new_internal_entry pod =
     \<lparr>PodReference = pod_ref pod, EntryStatus = EP_PENDING, entryNodeName = podNodeName pod, entryPodIp = podIP pod\<rparr>"

definition reconcileDeploymentEndpointEntries :: "pod list \<Rightarrow> internal_entry list \<Rightarrow> internal_entry list \<times> bool" where
  "reconcileDeploymentEndpointEntries = reconcile_entries new_internal_entry"

text \<open>\<open>client.IgnoreNotFound\<close> of the error of an update.\<close>

definition fail_unless_gone :: "api_error \<Rightarrow> ('s, 'a) action" where
  "fail_unless_gone err = (if err = IsNotFound then stop (result_done, None) else fail err)"

section \<open>External deployments\<close>

definition reconcileEndpoints :: "'w operator_env \<Rightarrow> pod list \<Rightarrow> external_endpoints \<Rightarrow> ('w, outcome) action" where
  "reconcileEndpoints env managedPods managedEndpoints =
     (case reconcile_entries new_external_entry managedPods (extEntries managedEndpoints) of
        (validEntries, changed) \<Rightarrow>
          (if changed then
             seq (attempt (apiUpdate (extEndpoints env) (managedEndpoints\<lparr>extEntries := validEntries\<rparr>)) fail_unless_gone)
               (\<lambda>_. pass (result_done, None))
           else pass (result_done, None)))"

definition POD_EINT_DEPL_OWNER_LABEL :: string where
  "POD_EINT_DEPL_OWNER_LABEL = ''inc.kntp.com/deployed-by''"

text \<open>Writing a label into a nil map panics.\<close>

definition create_external_deployment ::
  "'w operator_env \<Rightarrow> (nat \<Rightarrow> nat \<Rightarrow> int \<Rightarrow> bool) \<Rightarrow> object_key \<Rightarrow> topology_cr \<Rightarrow> external_deployment \<Rightarrow> ('w, 'a) action" where
  "create_external_deployment env closeEnough key topo eintDepl w =
     (case pickFeasibleNodes env closeEnough topo eintDepl w of
        None \<Rightarrow> panic w
      | Some (Inl err, w1) \<Rightarrow> fail err w1
      | Some (Inr nodes, w1) \<Rightarrow>
          (if nodes = [] then stop (result_done, None) w1
           else case templateLabels (DeploymentTemplate eintDepl) of
             None \<Rightarrow> panic w1
           | Some labels \<Rightarrow>
               (let name = objectName (extDeplMeta eintDepl);
                    spec = (DeploymentTemplate eintDepl)\<lparr>templateLabels := Some (gm_put POD_EINT_DEPL_OWNER_LABEL name labels),
                       affinityValues := Some (''clustername'', nodes)\<rparr>
                in case setController env (extDeplMeta eintDepl) (NewMeta name (fst key)) of
                     Inl err \<Rightarrow> fail err w1
                   | Inr m \<Rightarrow>
                       seq (attempt (apiCreate (deploymentObjects env) \<lparr>deploymentMeta = m, deploymentSpec = spec\<rparr>) fail) (\<lambda>_.
                       seq (discard (apiStatusUpdate (extDeployments env) (eintDepl\<lparr>BasicStatus := ''deployment created''\<rparr>))) (\<lambda>_.
                         stop (result_requeue, None))) w1)))"

definition create_external_endpoints :: "'w operator_env \<Rightarrow> object_key \<Rightarrow> external_deployment \<Rightarrow> ('w, 'a) action" where
  "create_external_endpoints env key eintDepl =
     seq (attempt (GetNameOfNodeWithSname env ''w2'') fail) (\<lambda>collectorNodeName.
       case setController env (extDeplMeta eintDepl) (NewMeta (snd key) (fst key)) of
         Inl err \<Rightarrow> fail err
       | Inr m \<Rightarrow>
           seq (attempt (apiCreate (extEndpoints env)
                  \<lparr>extEpMeta = m, extEntries = [], extCollectorNodeName = collectorNodeName, extProgramName = RequiredProgram eintDepl,
                   epIngressInfo = extIngressInfo eintDepl, epMonitoringPolicy = extMonitoringPolicy eintDepl, ExternalIngressInfo = None,
                   ExternalMonitoringPolicy = None, InternalIngressInfo = None, InternalMonitoringPolicy = None\<rparr>) fail)
             (\<lambda>_. stop (result_requeue, None)))"

text \<open>When the pods cannot be listed the error is logged, and the list of pods stays empty.\<close>

definition Reconcile_external_deployment ::
  "'w operator_env \<Rightarrow> (nat \<Rightarrow> nat \<Rightarrow> int \<Rightarrow> bool) \<Rightarrow> object_key \<Rightarrow> 'w \<Rightarrow> outcome \<times> 'w" where
  "Reconcile_external_deployment env closeEnough key = finish (
     seq (attempt (apiGet (extDeployments env) key) (\<lambda>err. stop (result_done, None))) (\<lambda>eintDepl.
     seq (attempt (LoadTopology env) fail) (\<lambda>topo.
     seq (attempt (apiGet (deploymentObjects env) (fst key, objectName (extDeplMeta eintDepl)))
            (\<lambda>err. if err = IsNotFound then create_external_deployment env closeEnough key topo eintDepl else fail err)) (\<lambda>deploy.
     seq (attempt (apiGet (extEndpoints env) key)
            (\<lambda>err. if err = IsNotFound then create_external_endpoints env key eintDepl else fail err)) (\<lambda>managedEndpoints.
       case asSelector env (deploymentSelector (deploymentSpec deploy)) of
         Inl err \<Rightarrow> fail err
       | Inr podSelector \<Rightarrow>
           seq (attempt (listPods env podSelector (fst key)) (\<lambda>err. pass [])) (\<lambda>managedPods.
             reconcileEndpoints env managedPods managedEndpoints))))))"

definition findDeploymentOfManagedPods :: "pod \<Rightarrow> object_key list" where
  "findDeploymentOfManagedPods pod =
     (case gm_get (objectLabels (podMeta pod)) POD_EINT_DEPL_OWNER_LABEL of
        None \<Rightarrow> []
      | Some owner \<Rightarrow> [(objectNamespace (podMeta pod), owner)])"

section \<open>Internal deployments\<close>

definition INTERNAL_TELEMETRY_SCHEDULER_NAME :: string where
  "INTERNAL_TELEMETRY_SCHEDULER_NAME = ''internal-telemetry''"

definition INTERNAL_TELEMETRY_ENDPOINTS_FINALIZER :: string where
  "INTERNAL_TELEMETRY_ENDPOINTS_FINALIZER = ''inc.kntp.com/iint-finalizer''"

definition labelsForDeploymentPods :: "internal_deployment \<Rightarrow> string \<Rightarrow> (string, string) gomap" where
  "labelsForDeploymentPods intdepl deplName =
     [(''app.kubernetes.io/name'', ''internal-INT-pod''), (''app.kubernetes.io/instance'', objectName (intDeplMeta intdepl)),
      (''app.kubernetes.io/created-by'', ''controller-manager''),
      (''inc.kntp.com/owned-by-iintdepl'', objectName (intDeplMeta intdepl)), (''inc.kntp.com/part-of-deployment'', deplName)]"

definition resourceKeyForIntdepl :: "internal_deployment \<Rightarrow> string \<Rightarrow> object_key" where
  "resourceKeyForIntdepl intdepl deplName =
     (objectNamespace (intDeplMeta intdepl), objectName (intDeplMeta intdepl) @ ''-'' @ deplName)"

text \<open>A label of the template with one of the reserved names panics.\<close>

definition createDeploymentForIntdepl :: "internal_deployment \<Rightarrow> string \<times> deployment_spec \<Rightarrow> object_key \<Rightarrow> deployment_cr option" where
  "createDeploymentForIntdepl intdepl depl resourceKey =
     (let originalLabels = (case templateLabels (snd depl) of Some ls \<Rightarrow> ls | None \<Rightarrow> []);
          reserved = labelsForDeploymentPods intdepl (fst depl)
      in if list_ex (\<lambda>k. gm_get reserved k \<noteq> None) (gm_keys originalLabels) then None
         else (let labels = fold (\<lambda>(k, v). gm_put k v) originalLabels reserved in
           Some \<lparr>deploymentMeta = NewMeta (snd resourceKey) (fst resourceKey),
             deploymentSpec = (snd depl)\<lparr>schedulerName := INTERNAL_TELEMETRY_SCHEDULER_NAME, templateLabels := Some labels,
               deploymentSelector := \<lparr>matchLabels = labels, matchExpressions = []\<rparr>\<rparr>\<rparr>))"

definition create_internal_deployment ::
  "'w operator_env \<Rightarrow> internal_deployment \<Rightarrow> string \<times> deployment_spec \<Rightarrow> object_key \<Rightarrow> ('w, deployment_cr) action" where
  "create_internal_deployment env intdepl depl resourceKey =
     (case createDeploymentForIntdepl intdepl depl resourceKey of
        None \<Rightarrow> panic
      | Some deployment \<Rightarrow>
          (case setController env (intDeplMeta intdepl) (deploymentMeta deployment) of
             Inl err \<Rightarrow> fail err
           | Inr m \<Rightarrow> attempt (apiCreate (deploymentObjects env) (deployment\<lparr>deploymentMeta := m\<rparr>)) fail))"

text \<open>The deployments by the names of their templates, and whether one was created.\<close>

definition ensure_deployment ::
  "'w operator_env \<Rightarrow> internal_deployment \<Rightarrow> string \<times> deployment_spec \<Rightarrow> (string, deployment_cr) gomap \<times> bool \<Rightarrow>
     ('w, (string, deployment_cr) gomap \<times> bool) action" where
  "ensure_deployment env intdepl depl = (\<lambda>(deployments, someCreated) w.
     (let resourceKey = resourceKeyForIntdepl intdepl (fst depl) in
      case apiGet (deploymentObjects env) resourceKey w of
        (Inr deployment, w1) \<Rightarrow> pass (gm_put (fst depl) deployment deployments, someCreated) w1
      | (Inl err, w1) \<Rightarrow>
          (if err = IsNotFound then
             seq (create_internal_deployment env intdepl depl resourceKey)
               (\<lambda>deployment. pass (gm_put (fst depl) deployment deployments, True)) w1
           else fail err w1)))"

definition create_internal_endpoints :: "'w operator_env \<Rightarrow> object_key \<Rightarrow> internal_deployment \<Rightarrow> ('w, 'a) action" where
  "create_internal_endpoints env key intdepl =
     (case setController env (intDeplMeta intdepl) (NewMeta (snd key) (fst key)) of
        Inl err \<Rightarrow> fail err
      | Inr m \<Rightarrow>
          seq (attempt (apiCreate (intEndpoints env)
                 \<lparr>intEpMeta = m\<lparr>finalizers := (if INTERNAL_TELEMETRY_ENDPOINTS_FINALIZER \<in> set (finalizers m) then finalizers m
                      else finalizers m @ [INTERNAL_TELEMETRY_ENDPOINTS_FINALIZER])\<rparr>,
                  DeploymentEndpoints = map (\<lambda>t. (fst t, [])) (DeploymentTemplates intdepl),
                  epCollectorRef = intCollectorRef intdepl, epCollectionId = intCollectionId intdepl\<rparr>) fail)
            (\<lambda>_. stop (result_requeue, None)))"

definition loadPerDeploymentPods ::
  "'w operator_env \<Rightarrow> (string, deployment_cr) gomap \<Rightarrow> ('w, (string, pod list) gomap) action" where
  "loadPerDeploymentPods env deployments =
     each (gm_range (mapOrder env 0) deployments) (\<lambda>(deplName, depl) perDeploymentPods.
       case asSelector env \<lparr>matchLabels = (case templateLabels (deploymentSpec depl) of Some ls \<Rightarrow> ls | None \<Rightarrow> []), matchExpressions = []\<rparr> of
         Inl err \<Rightarrow> fail err
       | Inr podSelector \<Rightarrow>
           seq (attempt (listPods env podSelector (objectNamespace (deploymentMeta depl))) fail)
             (\<lambda>pods. pass (gm_put deplName pods perDeploymentPods))) []"

text \<open>The endpoints of every template, at the place of its name among the managed endpoints; the places without a
  template keep the zero value.\<close>

fun index_of :: "string \<Rightarrow> (string \<times> 'b) list \<Rightarrow> nat option" where
  "index_of name [] = None"
| "index_of name (x # xs) = (if fst x = name then Some 0 else map_option Suc (index_of name xs))"

definition reconcile_template ::
  "(string, pod list) gomap \<Rightarrow> (string \<times> internal_entry list) list \<Rightarrow> string \<times> deployment_spec \<Rightarrow>
     (string \<times> internal_entry list) list \<times> bool \<Rightarrow> (api_error + (string \<times> internal_entry list) list \<times> bool)" where
  "reconcile_template perDeploymentPods managed depl = (\<lambda>(reconciledEntries, changed).
     case index_of (fst depl) managed of
       None \<Rightarrow> Inl (OtherError (''invalid endpoints state, no deployment '' @ fst depl))
     | Some idx \<Rightarrow>
         (let pods = (case gm_get perDeploymentPods (fst depl) of Some ps \<Rightarrow> ps | None \<Rightarrow> []);
              endpoints = managed ! idx;
              (entries, chngd) = reconcileDeploymentEndpointEntries pods (snd endpoints)
          in Inr (reconciledEntries[idx := (fst endpoints, entries)], changed \<or> chngd)))"

fun reconcile_templates ::
  "(string, pod list) gomap \<Rightarrow> (string \<times> internal_entry list) list \<Rightarrow> (string \<times> deployment_spec) list \<Rightarrow>
     (string \<times> internal_entry list) list \<times> bool \<Rightarrow> (api_error + (string \<times> internal_entry list) list \<times> bool)" where
  "reconcile_templates pods managed [] acc = Inr acc"
| "reconcile_templates pods managed (depl # depls) acc =
     (case reconcile_template pods managed depl acc of
        Inl err \<Rightarrow> Inl err
      | Inr acc1 \<Rightarrow> reconcile_templates pods managed depls acc1)"

definition reconcileDeploymentEndpoints ::
  "'w operator_env \<Rightarrow> (string, pod list) gomap \<Rightarrow> internal_deployment \<Rightarrow> internal_endpoints \<Rightarrow> ('w, unit) action" where
  "reconcileDeploymentEndpoints env perDeploymentPods intdepl managedEndpoints =
     (let managed = DeploymentEndpoints managedEndpoints in
      case reconcile_templates perDeploymentPods managed (DeploymentTemplates intdepl) (replicate (length managed) ('''', []), False) of
        Inl err \<Rightarrow> fail err
      | Inr (reconciledEntries, changed) \<Rightarrow>
          (if changed then
             seq (attempt (apiUpdate (intEndpoints env) (managedEndpoints\<lparr>DeploymentEndpoints := reconciledEntries\<rparr>)) fail_unless_gone)
               (\<lambda>_. pass ())
           else pass ()))"

definition Reconcile_internal_deployment :: "'w operator_env \<Rightarrow> object_key \<Rightarrow> 'w \<Rightarrow> outcome \<times> 'w" where
  "Reconcile_internal_deployment env key = finish (
     seq (attempt (apiGet (intDeployments env) key) (\<lambda>err. stop (result_done, None))) (\<lambda>intdepl.
     if deletionTimestamp (intDeplMeta intdepl) then stop (result_done, None)
     else if length (DeploymentTemplates intdepl) \<noteq> 2 then stop (result_done, None)
     else
     seq (each (DeploymentTemplates intdepl) (ensure_deployment env intdepl) ([], False)) (\<lambda>(deployments, someCreated).
     if someCreated then stop (result_requeue, None)
     else
     seq (attempt (apiGet (intEndpoints env) key)
            (\<lambda>err. if err = IsNotFound then create_internal_endpoints env key intdepl else fail err)) (\<lambda>managedEndpoints.
     seq (loadPerDeploymentPods env deployments) (\<lambda>perDeploymentPods.
     seq (reconcileDeploymentEndpoints env perDeploymentPods intdepl managedEndpoints) (\<lambda>_.
       pass (result_done, None)))))))"

end
