(* ===== verification/Endpoints.thy ===== *)
theory Endpoints
  imports Deployments
begin

text \<open>
  The controllers of external and internal telemetry endpoints
  (\<open>inc-operator/controllers/externalinnetworktelemetryendpoints_controller.go\<close>,
  \<open>internalinnetworktelemetryendpoints_controller.go\<close>): they turn the entries of the pods into requests to the
  telemetry service and mark the entries as ready.
\<close>

section \<open>Calling the telemetry service\<close>

text \<open>The connection is closed when the consumer returns.\<close>

definition withTelemetryClient :: "'w operator_env \<Rightarrow> string \<Rightarrow> ('w \<Rightarrow> (err + 'a) \<times> 'w) \<Rightarrow> 'w \<Rightarrow> (err + 'a) \<times> 'w" where
  "withTelemetryClient env addr consumer w =
     (case rpcDial env addr w of
        (Inl err, w1) \<Rightarrow> (Inl err, w1)
      | (Inr conn, w1) \<Rightarrow> consumer w1)"

text \<open>The entities of a node are kept in the order in which they come.\<close>

definition add_tunneled :: "string \<Rightarrow> tunneled_entity \<Rightarrow> (string, tunneled_entity list) gomap \<Rightarrow> (string, tunneled_entity list) gomap" where
  "add_tunneled nodeName entity m =
     gm_put nodeName ((case gm_get m nodeName of Some es \<Rightarrow> es | None \<Rightarrow> []) @ [entity]) m"

section \<open>External endpoints\<close>

definition ANY_IPv4 :: string where
  "ANY_IPv4 = ''any''"

definition buildIngressEntities :: "'w operator_env \<Rightarrow> external_endpoints \<Rightarrow> 'w \<Rightarrow> (api_error + raw_telemetry_entity list) \<times> 'w" where
  "buildIngressEntities env endpoints w =
     (let ingressInfo = epIngressInfo endpoints in
      if IngressType ingressInfo \<noteq> NODE_PORT then
        (Inl (OtherError (''unsupported ingress type '' @ IngressType ingressInfo)), w)
      else case apiGet (serviceObjects env) (NodePortServiceNamespace ingressInfo, NodePortServiceName ingressInfo) w of
        (Inl err, w1) \<Rightarrow> (Inl err, w1)
      | (Inr nodePortSvc, w1) \<Rightarrow>
          (if serviceType nodePortSvc \<noteq> NODE_PORT then (Inl (OtherError ''unexpected service type''), w1)
           else case servicePorts nodePortSvc of
             [] \<Rightarrow> (Inl (OtherError ''nodePort service's ports are unconfigured''), w1)
           | p # _ \<Rightarrow>
               (Inr (map (\<lambda>nodeName. \<lparr>rawDeviceName = nodeName, rawPort = Some (svcNodePort p)\<rparr>) (IngressNodeNames ingressInfo)), w1)))"

text \<open>The named results of the two parts of \<open>Reconcile\<close>: whether it goes on, and what it returns if not. A request that
  stops the part leaves them set.\<close>

type_synonym named_results = "bool \<times> outcome"

primrec send_requests :: "('w \<Rightarrow> named_results option \<times> 'w) list \<Rightarrow> 'w \<Rightarrow> named_results option \<times> 'w" where
  "send_requests [] w = (None, w)"
| "send_requests (send # sends) w =
     (case send w of (Some r, w1) \<Rightarrow> (Some r, w1) | (None, w1) \<Rightarrow> send_requests sends w1)"

definition retry_later :: outcome where
  "retry_later = (result_after 5000, None)"

text \<open>\<open>sendTelemetryRequest\<close> of both parts; the first argument is \<open>continueReconciliation\<close> at that point.\<close>

definition sendTelemetryRequest ::
  "'w operator_env \<Rightarrow> bool \<Rightarrow> sdn_shim \<Rightarrow> configure_telemetry_request \<Rightarrow> 'w \<Rightarrow> named_results option \<times> 'w" where
  "sendTelemetryRequest env continueReconciliation shim req w =
     (case withTelemetryClient env (SdnGrpcAddr shim) (rpcConfigure env (SdnGrpcAddr shim) req) w of
        (Inl err, w1) \<Rightarrow> (Some (continueReconciliation, result_done, Some (OtherError err)), w1)
      | (Inr resp, w1) \<Rightarrow>
          (if telemetryState resp = InProgress \<or> telemetryState resp = Failed then (Some (False, retry_later), w1)
           else (None, w1)))"

text \<open>The requests that the policy asks for.\<close>

definition requests_of_policy :: "string \<Rightarrow> 'r \<Rightarrow> 'r \<Rightarrow> 'r list" where
  "requests_of_policy policy externalToPods podsToExternal =
     (if policy = MONITOR_ALL \<or> policy = MONITOR_EXTERNAL_TO_PODS then [externalToPods] else [])
     @ (if policy = MONITOR_ALL \<or> policy = MONITOR_PODS_TO_EXTERNAL then [podsToExternal] else [])"

definition ingress_request :: "external_endpoints \<Rightarrow> raw_telemetry_entity list \<Rightarrow> raw_telemetry_entity list \<Rightarrow> string \<Rightarrow> configure_telemetry_request" where
  "ingress_request endpoints externalDeviceEntities ingressDeviceEntities mode =
     (let name = objectName (extEpMeta endpoints);
          (sources, targets) = (if mode = INGRESS_TO_EXTERNAL then (ingressDeviceEntities, externalDeviceEntities)
                                else (externalDeviceEntities, ingressDeviceEntities))
      in \<lparr>IntentId = BuildIntentId name mode, CollectionId = BuildCollectionId name,
          CollectorNodeName = extCollectorNodeName endpoints, CollectorPort = 6000,
          reqSources = RawEntities sources, reqTargets = RawEntities targets\<rparr>)"

definition reconcileIngressTelemetry ::
  "'w operator_env \<Rightarrow> external_endpoints \<Rightarrow> topology_cr \<Rightarrow> sdn_shim \<Rightarrow> 'w \<Rightarrow> named_results \<times> 'w" where
  "reconcileIngressTelemetry env endpoints topo shim w =
     (if \<not> (MonitoringPolicyChanged (epMonitoringPolicy endpoints) (ExternalMonitoringPolicy endpoints)
            \<or> IngressInfoChanged (epIngressInfo endpoints) (ExternalIngressInfo endpoints)) then
        ((True, result_done, None), w)
      else
        (let externalDeviceEntities = map (\<lambda>dev. \<lparr>rawDeviceName = DevName dev, rawPort = None\<rparr>)
               (GetExternalDevices (mapOrder env 1) (crd_TopologyToGraph topo)) in
         case buildIngressEntities env endpoints w of
           (Inl er, w1) \<Rightarrow> ((True, result_done, Some er), w1)
         | (Inr ingressDeviceEntities, w1) \<Rightarrow>
             (let send = (\<lambda>mode. sendTelemetryRequest env True shim
                    (ingress_request endpoints externalDeviceEntities ingressDeviceEntities mode)) in
              case send_requests (requests_of_policy (epMonitoringPolicy endpoints) (send EXTERNAL_TO_INGRESS) (send INGRESS_TO_EXTERNAL)) w1 of
                (Some r, w2) \<Rightarrow> (r, w2)
              | (None, w2) \<Rightarrow>
                  (case apiStatusUpdate (extEndpoints env) (endpoints\<lparr>ExternalIngressInfo := Some (epIngressInfo endpoints),
                          ExternalMonitoringPolicy := Some (epMonitoringPolicy endpoints)\<rparr>) w2 of
                     (Inl err, w3) \<Rightarrow> ((False, result_requeue, Some err), w3)
                   | (Inr stored, w3) \<Rightarrow> ((False, result_requeue, None), w3)))))"

text \<open>The pods of the entries by node, and whether an entry asks for a request.\<close>

fun collect_targets ::
  "'w operator_env \<Rightarrow> endpoints_entry list \<Rightarrow> (string, tunneled_entity list) gomap \<times> bool \<Rightarrow> 'w \<Rightarrow>
     (api_error + (string, tunneled_entity list) gomap \<times> bool) \<times> 'w" where
  "collect_targets env [] acc w = (Inr acc, w)"
| "collect_targets env (ep # eps) (targetEntities, changed) w =
     (let addToTargets = (EntryStatus ep = EP_READY \<or> EntryStatus ep = EP_PENDING);
          changed' = (changed \<or> EntryStatus ep = EP_TERMINATING \<or> EntryStatus ep = EP_PENDING)
      in if addToTargets then
           (case apiGet (podObjects env) (refNamespace (PodReference ep), refName (PodReference ep)) w of
              (Inl err, w1) \<Rightarrow> (Inl err, w1)
            | (Inr podDetails, w1) \<Rightarrow>
                collect_targets env eps
                  (add_tunneled (entryNodeName ep) \<lparr>TunneledIp = podIP podDetails, tunneledPort = None\<rparr> targetEntities, changed') w1)
         else collect_targets env eps (targetEntities, changed') w)"

definition ingress_entities :: "string list \<Rightarrow> (string, tunneled_entity list) gomap" where
  "ingress_entities nodeNames = fold (\<lambda>node. gm_put node [\<lparr>TunneledIp = ANY_IPv4, tunneledPort = None\<rparr>]) nodeNames []"

text \<open>The request has no intent id.\<close>

definition pod_request ::
  "external_endpoints \<Rightarrow> (string, tunneled_entity list) gomap \<Rightarrow> (string, tunneled_entity list) gomap \<Rightarrow> string \<Rightarrow> configure_telemetry_request" where
  "pod_request endpoints targetEntities ingressEntities mode =
     (let (sources, targets) = (if mode = INGRESS_TO_PODS then (ingressEntities, targetEntities) else (targetEntities, ingressEntities))
      in \<lparr>IntentId = '''', CollectionId = BuildIntentId (objectName (extEpMeta endpoints)) mode,
          CollectorNodeName = extCollectorNodeName endpoints, CollectorPort = 6000,
          reqSources = TunneledEntities sources, reqTargets = TunneledEntities targets\<rparr>)"

definition ready_entries :: "endpoints_entry list \<Rightarrow> endpoints_entry list" where
  "ready_entries eps = map (\<lambda>ep. ep\<lparr>EntryStatus := EP_READY\<rparr>) eps"

text \<open>All entries become ready, then the status is set to what was asked for.\<close>

definition entries_ready :: "'w operator_env \<Rightarrow> external_endpoints \<Rightarrow> 'w \<Rightarrow> named_results \<times> 'w" where
  "entries_ready env endpoints w =
     (case apiUpdate (extEndpoints env) (endpoints\<lparr>extEntries := ready_entries (extEntries endpoints)\<rparr>) w of
        (Inl err, w1) \<Rightarrow> ((False, result_done, Some err), w1)
      | (Inr stored, w1) \<Rightarrow>
          (case apiStatusUpdate (extEndpoints env) (stored\<lparr>InternalIngressInfo := Some (epIngressInfo stored),
                  InternalMonitoringPolicy := Some (epMonitoringPolicy stored)\<rparr>) w1 of
             (Inl err, w2) \<Rightarrow> ((False, result_requeue, Some err), w2)
           | (Inr stored', w2) \<Rightarrow> ((False, result_requeue, None), w2)))"

definition reconcilePodTelemetry :: "'w operator_env \<Rightarrow> external_endpoints \<Rightarrow> sdn_shim \<Rightarrow> 'w \<Rightarrow> named_results \<times> 'w" where
  "reconcilePodTelemetry env endpoints shim w =
     (case collect_targets env (extEntries endpoints) ([],
            MonitoringPolicyChanged (epMonitoringPolicy endpoints) (InternalMonitoringPolicy endpoints)
            \<or> IngressInfoChanged (epIngressInfo endpoints) (InternalIngressInfo endpoints)) w of
        (Inl err, w1) \<Rightarrow> ((False, result_done, Some err), w1)
      | (Inr (targetEntities, changed), w1) \<Rightarrow>
          (if \<not> changed then ((True, result_done, None), w1)
           else if IngressType (epIngressInfo endpoints) \<noteq> NODE_PORT then
             ((False, result_done, Some (OtherError (''unsupported ingress type '' @ IngressType (epIngressInfo endpoints)))), w1)
           else
             (let send = (\<lambda>mode. sendTelemetryRequest env False shim
                    (pod_request endpoints targetEntities (ingress_entities (IngressNodeNames (epIngressInfo endpoints))) mode)) in
              case send_requests (requests_of_policy (epMonitoringPolicy endpoints) (send INGRESS_TO_PODS) (send PODS_TO_INGRESS)) w1 of
                (Some r, w2) \<Rightarrow> (r, w2)
              | (None, w2) \<Rightarrow> entries_ready env endpoints w2)))"

text \<open>Only a part that does not go on returns its error.\<close>

definition unless_continue :: "('w \<Rightarrow> named_results \<times> 'w) \<Rightarrow> ('w, unit) action" where
  "unless_continue m w = (case m w of ((continueReconciliation, r), w1) \<Rightarrow> if continueReconciliation then pass () w1 else stop r w1)"

definition Reconcile_external_endpoints :: "'w operator_env \<Rightarrow> object_key \<Rightarrow> 'w \<Rightarrow> outcome \<times> 'w" where
  "Reconcile_external_endpoints env key = finish (
     seq (attempt (apiGet (extEndpoints env) key) (\<lambda>err. if err = IsNotFound then stop (result_done, None) else fail err)) (\<lambda>endpoints.
     seq (attempt (LoadSDNShim env) fail) (\<lambda>shim.
     seq (attempt (LoadTopology env) fail) (\<lambda>topo.
     seq (unless_continue (reconcileIngressTelemetry env endpoints topo shim)) (\<lambda>_.
     seq (unless_continue (reconcilePodTelemetry env endpoints shim)) (\<lambda>_.
       pass (result_done, None)))))))"

section \<open>Internal endpoints\<close>

definition SDN_RETRY_PERIOD :: int where
  "SDN_RETRY_PERIOD = 2000"

text \<open>The entities of a deployment, and whether an entry asks for a request; another status panics.\<close>

fun entities_for_entries ::
  "internal_entry list \<Rightarrow> (string, tunneled_entity list) gomap \<times> bool \<Rightarrow> ((string, tunneled_entity list) gomap \<times> bool) option" where
  "entities_for_entries [] acc = Some acc"
| "entities_for_entries (ep # eps) (res, changed) =
     (let entity = \<lparr>TunneledIp = entryPodIp ep, tunneledPort = None\<rparr> in
      case EntryStatus ep of
        EP_READY \<Rightarrow> entities_for_entries eps (add_tunneled (entryNodeName ep) entity res, changed)
      | EP_TERMINATING \<Rightarrow> entities_for_entries eps (res, True)
      | EP_PENDING \<Rightarrow> entities_for_entries eps (add_tunneled (entryNodeName ep) entity res, True)
      | EP_FAILED \<Rightarrow> None)"

definition getEntitiesForEndpoints :: "internal_entry list \<Rightarrow> ((string, tunneled_entity list) gomap \<times> bool) option" where
  "getEntitiesForEndpoints eps = entities_for_entries eps ([], False)"

fun entities_per_deployment ::
  "(string \<times> internal_entry list) list \<Rightarrow> (string, (string, tunneled_entity list) gomap) gomap \<times> bool \<Rightarrow>
     ((string, (string, tunneled_entity list) gomap) gomap \<times> bool) option" where
  "entities_per_deployment [] acc = Some acc"
| "entities_per_deployment ((name, eps) # rest) (perDeplEntities, changed) =
     (case getEntitiesForEndpoints eps of
        None \<Rightarrow> None
      | Some (entities, chngd) \<Rightarrow> entities_per_deployment rest (gm_put name entities perDeplEntities, changed \<or> chngd))"

text \<open>The request that \<open>sendConfigureTelemetryRequest\<close> sends; a collector without node or port panics.\<close>

definition internal_request ::
  "internal_endpoints \<Rightarrow> collector_cr \<Rightarrow> string \<Rightarrow> string \<Rightarrow> (string, (string, tunneled_entity list) gomap) gomap \<Rightarrow>
     configure_telemetry_request option" where
  "internal_request endpoints collector sourceDepl targetDepl perDeplEntities =
     (case (NodeRef collector, ReportingPort collector) of
        (Some node, Some port) \<Rightarrow>
          (let entities = (\<lambda>depl. TunneledEntities (case gm_get perDeplEntities depl of Some es \<Rightarrow> es | None \<Rightarrow> [])) in
           Some \<lparr>IntentId = BuildInternalIntentId (objectName (intEpMeta endpoints)) sourceDepl targetDepl,
             CollectionId = epCollectionId endpoints, CollectorNodeName = node, CollectorPort = port,
             reqSources = entities sourceDepl, reqTargets = entities targetDepl\<rparr>)
      | _ \<Rightarrow> None)"

text \<open>The loop over the pairs: success, and whether to try again later. The middle of the result is a panic.\<close>

fun configure_pairs ::
  "'w operator_env \<Rightarrow> string \<Rightarrow> internal_endpoints \<Rightarrow> collector_cr \<Rightarrow> (string, (string, tunneled_entity list) gomap) gomap \<Rightarrow>
     (string \<times> string) list \<Rightarrow> bool \<times> bool \<Rightarrow> 'w \<Rightarrow> (err + (bool \<times> bool) option) \<times> 'w" where
  "configure_pairs env addr endpoints collector entities [] acc w = (Inr (Some acc), w)"
| "configure_pairs env addr endpoints collector entities ((sourceDepl, targetDepl) # pairs) (success, shouldRequeue) w =
     (case internal_request endpoints collector sourceDepl targetDepl entities of
        None \<Rightarrow> (Inr None, w)
      | Some req \<Rightarrow>
          (case rpcConfigure env addr req w of
             (Inl err, w1) \<Rightarrow> (Inl err, w1)
           | (Inr resp, w1) \<Rightarrow>
               (case telemetryState resp of
                  TelemetryOK \<Rightarrow> configure_pairs env addr endpoints collector entities pairs (success, shouldRequeue) w1
                | InProgress \<Rightarrow> configure_pairs env addr endpoints collector entities pairs (False, True) w1
                | Failed \<Rightarrow> (Inr (Some (False, shouldRequeue)), w1))))"

definition configure_internal ::
  "'w operator_env \<Rightarrow> sdn_shim \<Rightarrow> internal_endpoints \<Rightarrow> collector_cr \<Rightarrow> (string, (string, tunneled_entity list) gomap) gomap \<Rightarrow>
     ('w, bool \<times> bool) action" where
  "configure_internal env shim endpoints collector entities w =
     (case withTelemetryClient env (SdnGrpcAddr shim) (\<lambda>w. case PairedDeployments endpoints of
             None \<Rightarrow> (Inr None, w)
           | Some pairs \<Rightarrow> configure_pairs env (SdnGrpcAddr shim) endpoints collector entities pairs (True, False) w) w of
        (Inl err, w1) \<Rightarrow> fail (OtherError err) w1
      | (Inr None, w1) \<Rightarrow> panic w1
      | (Inr (Some r), w1) \<Rightarrow> pass r w1)"

fun disable_pairs ::
  "'w operator_env \<Rightarrow> string \<Rightarrow> internal_endpoints \<Rightarrow> (string \<times> string) list \<Rightarrow> bool \<Rightarrow> 'w \<Rightarrow> (err + bool option) \<times> 'w" where
  "disable_pairs env addr endpoints [] shouldRetry w = (Inr (Some shouldRetry), w)"
| "disable_pairs env addr endpoints ((sourceDepl, targetDepl) # pairs) shouldRetry w =
     (case rpcDisable env addr (BuildInternalIntentId (objectName (intEpMeta endpoints)) sourceDepl targetDepl) w of
        (Inl err, w1) \<Rightarrow> (Inl err, w1)
      | (Inr shouldRetryLater, w1) \<Rightarrow> disable_pairs env addr endpoints pairs (shouldRetry \<or> shouldRetryLater) w1)"

definition disableTelemetry :: "'w operator_env \<Rightarrow> sdn_shim \<Rightarrow> internal_endpoints \<Rightarrow> ('w, bool) action" where
  "disableTelemetry env shim endpoints w =
     (case withTelemetryClient env (SdnGrpcAddr shim) (\<lambda>w. case PairedDeployments endpoints of
             None \<Rightarrow> (Inr None, w)
           | Some pairs \<Rightarrow> disable_pairs env (SdnGrpcAddr shim) endpoints pairs False w) w of
        (Inl err, w1) \<Rightarrow> fail (OtherError err) w1
      | (Inr None, w1) \<Rightarrow> panic w1
      | (Inr (Some r), w1) \<Rightarrow> pass r w1)"

definition finalize_internal :: "'w operator_env \<Rightarrow> sdn_shim \<Rightarrow> internal_endpoints \<Rightarrow> ('w, outcome) action" where
  "finalize_internal env shim endpoints =
     (if INTERNAL_TELEMETRY_ENDPOINTS_FINALIZER \<in> set (finalizers (intEpMeta endpoints)) then
        seq (disableTelemetry env shim endpoints) (\<lambda>shouldRetry.
          if shouldRetry then stop (result_after SDN_RETRY_PERIOD, None)
          else seq (attempt (apiUpdate (intEndpoints env) (endpoints\<lparr>intEpMeta := (intEpMeta endpoints)\<lparr>finalizers :=
                 filter (\<lambda>f. f \<noteq> INTERNAL_TELEMETRY_ENDPOINTS_FINALIZER) (finalizers (intEpMeta endpoints))\<rparr>\<rparr>)) fail)
               (\<lambda>_. pass (result_done, None)))
      else pass (result_done, None))"

text \<open>After success terminating entries go and the others are ready.\<close>

definition settle_entries :: "internal_entry list \<Rightarrow> internal_entry list" where
  "settle_entries eps = map (\<lambda>ep. ep\<lparr>EntryStatus := EP_READY\<rparr>) (filter (\<lambda>ep. EntryStatus ep \<noteq> EP_TERMINATING) eps)"

definition Reconcile_internal_endpoints :: "'w operator_env \<Rightarrow> object_key \<Rightarrow> 'w \<Rightarrow> outcome \<times> 'w" where
  "Reconcile_internal_endpoints env key = finish (
     seq (attempt (apiGet (intEndpoints env) key) (\<lambda>err. if err = IsNotFound then stop (result_done, None) else fail err)) (\<lambda>endpoints.
     seq (attempt (LoadSDNShim env) fail) (\<lambda>shim.
     if deletionTimestamp (intEpMeta endpoints) then finalize_internal env shim endpoints
     else
     seq (attempt (apiGet (collectors env) (fst key, epCollectorRef endpoints)) fail) (\<lambda>collector.
     if \<not> isConditionTrue env (collectorConditions collector) TypeAvailableCollector then stop (result_done, None)
     else case entities_per_deployment (DeploymentEndpoints endpoints) ([], False) of
       None \<Rightarrow> panic
     | Some (perDeplEntities, changed) \<Rightarrow>
         (if \<not> changed then stop (result_done, None)
          else
          seq (configure_internal env shim endpoints collector perDeplEntities) (\<lambda>(success, shouldRequeue).
          if shouldRequeue then stop retry_later
          else if \<not> success then stop retry_later
          else
          seq (attempt (apiUpdate (intEndpoints env) (endpoints\<lparr>DeploymentEndpoints :=
                 map (\<lambda>(name, eps). (name, settle_entries eps)) (DeploymentEndpoints endpoints)\<rparr>)) fail) (\<lambda>_.
            pass (result_done, None))))))))"

text \<open>The requests that a change of a collector causes; when the endpoints cannot be listed there are none.\<close>

definition findEndpointsThatUseCollector :: "'w operator_env \<Rightarrow> collector_cr \<Rightarrow> 'w \<Rightarrow> object_key list \<times> 'w" where
  "findEndpointsThatUseCollector env collector w =
     (case apiList (intEndpoints env) w of
        (Inl err, w1) \<Rightarrow> ([], w1)
      | (Inr items, w1) \<Rightarrow>
          (map (ObjectKey \<circ> intEpMeta)
             (filter (\<lambda>ep. objectNamespace (intEpMeta ep) = objectNamespace (collectorMeta collector)
                \<and> epCollectorRef ep = objectName (collectorMeta collector)) items), w1))"

end
