(* ===== verification/Stats.thy ===== *)
theory Stats
  imports Endpoints
begin

text \<open>
  The statistics of telemetry collections (\<open>inc-operator/controllers/telemetrycollectionstats_controller.go\<close>): per collector and
  collection a handler, a goroutine that fetches the metrics of the collector on every tick and writes them, with the names of
  the devices, into the status of a \<open>TelemetryCollectionStats\<close>. Also the connection to the telemetry service that the goroutines share
  (\<open>shimutils/connector.go\<close>).
\<close>

section \<open>Metrics\<close>

text \<open>As the collector sends them (\<open>controllers/utils/collectormetrics.go\<close>), and as the custom resource has them.\<close>

record collector_port_metrics =
  NumPackets :: int
  EgressPortID :: int
  AverageLatency :: int
  AverageQueueFill :: int
  SlowestLatency :: int
  LargestQueueFill :: int

record collector_switch_metrics =
  SwitchID :: int
  collectorPortMetrics :: "collector_port_metrics list"

record collector_metrics =
  CollectedReports :: int
  AveragePathLatency :: int
  SlowestPathLatency :: int
  collectorDeviceMetrics :: "collector_switch_metrics list"

record collector_summary =
  collectorTotalReports :: int
  collectorTimeWindows :: int
  collectorWindowMetrics :: collector_metrics

record port_metrics =
  TargetDeviceName :: string
  NumberPackets :: int
  AverageLatencyMicroS :: int
  AverageQueueFillState :: int
  OnePercentileSlowestLatencyMicroS :: int
  OnePercentileLargestQueueFillState :: int

record switch_metrics =
  metricsDeviceName :: string
  PortMetrics :: "port_metrics list"

record metrics_summary =
  TotalReports :: int
  TimeWindowsSeconds :: int
  CreatedAt :: int
  NumberCollectedReports :: int
  AveragePathLatencyMicroS :: int
  OnePercentileSlowestPathLatencyMicroS :: int
  DeviceMetrics :: "switch_metrics list"

definition UNKNOWN_SWITCH_ID_DESCRIPTOR :: string where
  "UNKNOWN_SWITCH_ID_DESCRIPTOR = ''unknown''"

definition convert_port :: "string list \<Rightarrow> collector_port_metrics \<Rightarrow> port_metrics" where
  "convert_port links pm =
     (let neighIdx = EgressPortID pm - 1 in
      \<lparr>TargetDeviceName = (if 0 \<le> neighIdx \<and> neighIdx < int (length links) then links ! nat neighIdx else UNKNOWN_SWITCH_ID_DESCRIPTOR),
       NumberPackets = NumPackets pm, AverageLatencyMicroS = AverageLatency pm, AverageQueueFillState = AverageQueueFill pm,
       OnePercentileSlowestLatencyMicroS = SlowestLatency pm, OnePercentileLargestQueueFillState = LargestQueueFill pm\<rparr>)"

definition convert_switch :: "(int, string) gomap \<Rightarrow> crd_graph \<Rightarrow> collector_switch_metrics \<Rightarrow> switch_metrics" where
  "convert_switch switchIdToName topo m =
     (let switchName = (case gm_get switchIdToName (SwitchID m) of Some n \<Rightarrow> n | None \<Rightarrow> UNKNOWN_SWITCH_ID_DESCRIPTOR);
          links = (case gm_get topo switchName of Some switchNode \<Rightarrow> PeerNames switchNode | None \<Rightarrow> [])
      in \<lparr>metricsDeviceName = switchName, PortMetrics = map (convert_port links) (collectorPortMetrics m)\<rparr>)"

text \<open>The time is an argument.\<close>

definition convertToK8sRepr :: "int \<Rightarrow> (int, string) gomap \<Rightarrow> crd_graph \<Rightarrow> collector_summary \<Rightarrow> metrics_summary" where
  "convertToK8sRepr now switchIdToName topo metrics =
     (let window = collectorWindowMetrics metrics in
      \<lparr>TotalReports = collectorTotalReports metrics, TimeWindowsSeconds = collectorTimeWindows metrics, CreatedAt = now,
       NumberCollectedReports = CollectedReports window, AveragePathLatencyMicroS = AveragePathLatency window,
       OnePercentileSlowestPathLatencyMicroS = SlowestPathLatency window,
       DeviceMetrics = map (convert_switch switchIdToName topo) (collectorDeviceMetrics window)\<rparr>)"

section \<open>The shared connection\<close>

text \<open>\<open>closed\<close>, the connection if there is one, and the namespace of the shim.\<close>

record plugin_connector =
  connectorClosed :: bool
  sdnConn :: "string option"
  shimNamespace :: string

definition NewTelemetryPluginConnector :: plugin_connector where
  "NewTelemetryPluginConnector = \<lparr>connectorClosed = False, sdnConn = None, shimNamespace = ''''\<rparr>"

text \<open>Closing a connection changes nothing that is modelled.\<close>

definition connector_reset :: "plugin_connector \<Rightarrow> plugin_connector" where
  "connector_reset t = t\<lparr>sdnConn := None\<rparr>"

definition connector_Close :: "plugin_connector \<Rightarrow> plugin_connector" where
  "connector_Close t = t\<lparr>connectorClosed := True, sdnConn := None\<rparr>"

text \<open>The namespace is set before the dial, so it stays when the dial fails.\<close>

definition getConnection :: "'w operator_env \<Rightarrow> plugin_connector \<Rightarrow> 'w \<Rightarrow> ((api_error + string) \<times> plugin_connector) \<times> 'w" where
  "getConnection env t w =
     (case LoadSDNShim env w of
        (Inl err, w1) \<Rightarrow> ((Inl err, t), w1)
      | (Inr shim, w1) \<Rightarrow>
          (let t1 = t\<lparr>shimNamespace := objectNamespace (shimMeta shim)\<rparr>; addr = TelemetryServiceGrpcAddr shim in
           case rpcDial env addr w1 of
             (Inl err, w2) \<Rightarrow> ((Inl (OtherError err), t1), w2)
           | (Inr conn, w2) \<Rightarrow> ((Inr addr, t1), w2)))"

definition acquire :: "'w operator_env \<Rightarrow> plugin_connector \<Rightarrow> 'w \<Rightarrow> ((api_error + string) \<times> plugin_connector) \<times> 'w" where
  "acquire env t w =
     (if connectorClosed t then ((Inl (OtherError ''connector closed''), t), w)
      else case sdnConn t of
        Some addr \<Rightarrow> ((Inr addr, t), w)
      | None \<Rightarrow>
          (case getConnection env t w of
             ((Inl err, t1), w1) \<Rightarrow> ((Inl err, t1), w1)
           | ((Inr addr, t1), w1) \<Rightarrow> ((Inr addr, t1\<lparr>sdnConn := Some addr\<rparr>), w1)))"

text \<open>The reset after an error of the consumer runs in a goroutine of its own; here it comes last.\<close>

definition WithTelemetryClient ::
  "'w operator_env \<Rightarrow> (string \<Rightarrow> 'w \<Rightarrow> (err + 'a) \<times> 'w) \<Rightarrow> plugin_connector \<Rightarrow> 'w \<Rightarrow> ((api_error + 'a) \<times> plugin_connector) \<times> 'w" where
  "WithTelemetryClient env consumer t w =
     (case acquire env t w of
        ((Inl err, t1), w1) \<Rightarrow> ((Inl err, t1), w1)
      | ((Inr addr, t1), w1) \<Rightarrow>
          (case consumer addr w1 of
             (Inl err, w2) \<Rightarrow> ((Inl (OtherError err), connector_reset t1), w2)
           | (Inr x, w2) \<Rightarrow> ((Inr x, t1), w2)))"

section \<open>Handlers\<close>

type_synonym int64 = "64 word"

text \<open>A handler has the number of its goroutine. \<open>procs\<close> are the numbers of those that run, the next number, and which goroutines hang:
  those that are in a tick that never ends when they are told to stop, a POST without a time limit to a collector that does not answer.
  The environment chooses them, also among the numbers that are not given yet; a tick that ends only delays the stop.\<close>

record stat_handler =
  handlerId :: nat
  resourceKey :: object_key
  refreshPeriodMillis :: int64
  collectorAddress :: string
  handlerCollection :: string

record procs =
  running :: "nat set"
  fresh :: nat
  hanging :: "nat set"

record collector_handlers =
  handlersTopo :: crd_graph
  switchIdToName :: "(int, string) gomap"
  collectorApiAddress :: string
  statHandlers :: "(string, stat_handler) gomap"

text \<open>A ticker with a period that is not positive panics; the period in nanoseconds wraps. The channel of a goroutine has no
  buffer: the send of the stop signal waits until the goroutine is back from its tick, and blocks for ever if the goroutine hangs or does not run.\<close>

datatype handler_error = TickerPanics | SendBlocks

definition ticker_ok :: "int64 \<Rightarrow> bool" where
  "ticker_ok period \<longleftrightarrow> 0 <s period * 1000000"

definition handler_Run :: "stat_handler \<Rightarrow> procs \<Rightarrow> handler_error + procs" where
  "handler_Run h p =
     (if ticker_ok (refreshPeriodMillis h) then Inr (p\<lparr>running := insert (handlerId h) (running p)\<rparr>) else Inl TickerPanics)"

definition handler_Stop :: "stat_handler \<Rightarrow> procs \<Rightarrow> handler_error + procs" where
  "handler_Stop h p =
     (if handlerId h \<in> running p \<and> handlerId h \<notin> hanging p then Inr (p\<lparr>running := running p - {handlerId h}\<rparr>) else Inl SendBlocks)"

definition newCollectorStatHandlers :: "topology_cr \<Rightarrow> string \<Rightarrow> collector_handlers" where
  "newCollectorStatHandlers topo apiAddress =
     \<lparr>handlersTopo = crd_TopologyToGraph topo, switchIdToName = GetSwitchIdToNameMapping topo, collectorApiAddress = apiAddress, statHandlers = []\<rparr>"

definition CreateOrUpdateStatHandler ::
  "object_key \<Rightarrow> string \<Rightarrow> int64 \<Rightarrow> collector_handlers \<times> procs \<Rightarrow> handler_error + collector_handlers \<times> procs" where
  "CreateOrUpdateStatHandler key collection period = (\<lambda>(c, p).
     (let stopped = (case gm_get (statHandlers c) collection of
            None \<Rightarrow> Inr (Some p)
          | Some handler \<Rightarrow>
              (if refreshPeriodMillis handler = period \<and> resourceKey handler = key \<and> collectorAddress handler = collectorApiAddress c
               then Inr None else map_sum id Some (handler_Stop handler p)))
      in case stopped of
           Inl e \<Rightarrow> Inl e
         | Inr None \<Rightarrow> Inr (c, p)
         | Inr (Some p1) \<Rightarrow>
             (let handler = \<lparr>handlerId = fresh p1, resourceKey = key, refreshPeriodMillis = period,
                    collectorAddress = collectorApiAddress c, handlerCollection = collection\<rparr>
              in map_sum id (Pair (c\<lparr>statHandlers := gm_put collection handler (statHandlers c)\<rparr>)) (handler_Run handler (p1\<lparr>fresh := fresh p1 + 1\<rparr>)))))"

primrec update_handlers ::
  "(string \<times> stat_handler) list \<Rightarrow> collector_handlers \<times> procs \<Rightarrow> handler_error + collector_handlers \<times> procs" where
  "update_handlers [] s = Inr s"
| "update_handlers (x # xs) s =
     (case CreateOrUpdateStatHandler (resourceKey (snd x)) (fst x) (refreshPeriodMillis (snd x)) s of
        Inl e \<Rightarrow> Inl e
      | Inr s1 \<Rightarrow> update_handlers xs s1)"

definition UpdateCollectorAddress ::
  "(string list \<Rightarrow> string list) \<Rightarrow> string \<Rightarrow> collector_handlers \<times> procs \<Rightarrow> handler_error + collector_handlers \<times> procs" where
  "UpdateCollectorAddress ord address = (\<lambda>(c, p).
     (if collectorApiAddress c = address then Inr (c, p)
      else update_handlers (gm_range ord (statHandlers c)) (c\<lparr>collectorApiAddress := address\<rparr>, p)))"

text \<open>The last component of the result says whether there are more handlers.\<close>

definition RemoveStatHandler :: "string \<Rightarrow> collector_handlers \<times> procs \<Rightarrow> handler_error + (collector_handlers \<times> procs) \<times> bool" where
  "RemoveStatHandler collection = (\<lambda>(c, p).
     (case gm_get (statHandlers c) collection of
        None \<Rightarrow> Inr ((c, p), statHandlers c \<noteq> [])
      | Some handler \<Rightarrow>
          (case handler_Stop handler p of
             Inl e \<Rightarrow> Inl e
           | Inr p1 \<Rightarrow>
               (let c1 = c\<lparr>statHandlers := gm_del collection (statHandlers c)\<rparr> in Inr ((c1, p1), statHandlers c1 \<noteq> [])))))"

primrec stop_handlers :: "(string \<times> stat_handler) list \<Rightarrow> procs \<Rightarrow> handler_error + procs" where
  "stop_handlers [] p = Inr p"
| "stop_handlers (x # xs) p = (case handler_Stop (snd x) p of Inl e \<Rightarrow> Inl e | Inr p1 \<Rightarrow> stop_handlers xs p1)"

definition StopAll :: "(string list \<Rightarrow> string list) \<Rightarrow> collector_handlers \<times> procs \<Rightarrow> handler_error + collector_handlers \<times> procs" where
  "StopAll ord = (\<lambda>(c, p). map_sum id (Pair (c\<lparr>statHandlers := []\<rparr>)) (stop_handlers (gm_range ord (statHandlers c)) p))"

section \<open>One tick\<close>

text \<open>What the goroutine of a handler does on a tick; every error ends it. The POST and the JSON are outside of the program. The
  file that the code writes for its evaluation is left out.\<close>

record stats_cr =
  statsMeta :: object_meta
  statsCollectorRef :: string
  statsCollectionId :: string
  statsPeriod :: int64
  statsSummary :: "metrics_summary option"

record 'w stats_env = "'w operator_env" +
  statsObjects :: "(stats_cr, 'w) api_client"
  rpcGetCollectionId :: "string \<Rightarrow> string \<Rightarrow> 'w \<Rightarrow> (err + int) \<times> 'w"
  httpPostMetrics :: "string \<Rightarrow> string \<Rightarrow> 'w \<Rightarrow> (err + collector_summary) \<times> 'w"
  nowUnix :: "'w \<Rightarrow> int"

abbreviation operator_part :: "'w stats_env \<Rightarrow> 'w operator_env" where
  "operator_part env \<equiv> operator_env.truncate env"

definition sendGetMetricsRequest :: "'w stats_env \<Rightarrow> stat_handler \<Rightarrow> int \<Rightarrow> 'w \<Rightarrow> (err + collector_summary) \<times> 'w" where
  "sendGetMetricsRequest env h collectionId =
     httpPostMetrics env (collectorAddress h) (''{\"collection_id\": '' @ fmt_int collectionId @ ''}'')"

definition stat_tick ::
  "'w stats_env \<Rightarrow> (int, string) gomap \<Rightarrow> crd_graph \<Rightarrow> stat_handler \<Rightarrow> plugin_connector \<Rightarrow> 'w \<Rightarrow> plugin_connector \<times> 'w" where
  "stat_tick env ids topo h t w =
     (case WithTelemetryClient (operator_part env) (\<lambda>addr. rpcGetCollectionId env addr (handlerCollection h)) t w of
        ((Inl err, t1), w1) \<Rightarrow> (t1, w1)
      | ((Inr collectionId, t1), w1) \<Rightarrow>
          (case sendGetMetricsRequest env h collectionId w1 of
             (Inl err, w2) \<Rightarrow> (t1, w2)
           | (Inr metrics, w2) \<Rightarrow>
               (case apiGet (statsObjects env) (resourceKey h) w2 of
                  (Inl err, w3) \<Rightarrow> (t1, w3)
                | (Inr stats, w3) \<Rightarrow>
                    (t1, snd (apiStatusUpdate (statsObjects env)
                       (stats\<lparr>statsSummary := Some (convertToK8sRepr (nowUnix env w3) ids topo metrics)\<rparr>) w3)))))"

section \<open>Reconcile\<close>

definition TELEMETRY_COLLECTION_STATS_FINALIZER :: string where
  "TELEMETRY_COLLECTION_STATS_FINALIZER = ''inc.kntp.com/telemetry-stats-finalizer''"

definition RECONCILIATION_FAILURE_REQUEUE_AFTER :: int where
  "RECONCILIATION_FAILURE_REQUEUE_AFTER = 2000"

record 'w stats_state =
  collectorHandlers :: "(object_key, collector_handlers) gomap"
  procsState :: procs
  statsWorld :: 'w

definition on_stats_world :: "('w \<Rightarrow> 'r \<times> 'w) \<Rightarrow> 'w stats_state \<Rightarrow> 'r \<times> 'w stats_state" where
  "on_stats_world f s = (let (r, w) = f (statsWorld s) in (r, s\<lparr>statsWorld := w\<rparr>))"

text \<open>An operation on the handlers of a collector; its errors, a panic, which ends the operator, or a block for ever, after which this
  reconciler handles no other request, end in \<open>Panicked\<close>, with the state from before the operation.\<close>

definition on_handlers ::
  "object_key \<Rightarrow> collector_handlers \<Rightarrow> (collector_handlers \<times> procs \<Rightarrow> handler_error + collector_handlers \<times> procs) \<Rightarrow>
     ('w stats_state, collector_handlers) action" where
  "on_handlers key c f s =
     (case f (c, procsState s) of
        Inl e \<Rightarrow> panic s
      | Inr (c1, p1) \<Rightarrow> pass c1 (s\<lparr>collectorHandlers := gm_put key c1 (collectorHandlers s), procsState := p1\<rparr>))"

definition forget_handlers :: "object_key \<Rightarrow> ('w stats_state, unit) action" where
  "forget_handlers key s = pass () (s\<lparr>collectorHandlers := gm_del key (collectorHandlers s)\<rparr>)"

definition stop_all_handlers :: "'w stats_env \<Rightarrow> object_key \<Rightarrow> ('w stats_state, unit) action" where
  "stop_all_handlers env key s =
     (case gm_get (collectorHandlers s) key of
        None \<Rightarrow> pass () s
      | Some c \<Rightarrow> seq (on_handlers key c (StopAll (mapOrder env 2))) (\<lambda>_. forget_handlers key) s)"

definition remove_handler :: "object_key \<Rightarrow> string \<Rightarrow> ('w stats_state, unit) action" where
  "remove_handler key collection s =
     (case gm_get (collectorHandlers s) key of
        None \<Rightarrow> pass () s
      | Some c \<Rightarrow>
          seq (on_handlers key c (\<lambda>x. map_sum id fst (RemoveStatHandler collection x)))
            (\<lambda>c1. if statHandlers c1 \<noteq> [] then pass () else forget_handlers key) s)"

definition finalize_stats :: "'w stats_env \<Rightarrow> object_key \<Rightarrow> stats_cr \<Rightarrow> ('w stats_state, outcome) action" where
  "finalize_stats env handlersKey stats =
     (if TELEMETRY_COLLECTION_STATS_FINALIZER \<in> set (finalizers (statsMeta stats)) then
        seq (remove_handler handlersKey (statsCollectionId stats)) (\<lambda>_.
        seq (attempt (on_stats_world (apiUpdate (statsObjects env) (stats\<lparr>statsMeta := (statsMeta stats)\<lparr>finalizers :=
               filter (\<lambda>f. f \<noteq> TELEMETRY_COLLECTION_STATS_FINALIZER) (finalizers (statsMeta stats))\<rparr>\<rparr>))) fail) (\<lambda>_.
          pass (result_done, None)))
      else pass (result_done, None))"

definition run_handler :: "'w stats_env \<Rightarrow> object_key \<Rightarrow> object_key \<Rightarrow> stats_cr \<Rightarrow> topology_cr \<Rightarrow> string \<Rightarrow> ('w stats_state, outcome) action" where
  "run_handler env handlersKey key stats topo apiAddress s =
     (let c = (case gm_get (collectorHandlers s) handlersKey of Some c \<Rightarrow> c | None \<Rightarrow> newCollectorStatHandlers topo apiAddress) in
      seq (on_handlers handlersKey c (UpdateCollectorAddress (mapOrder env 3) apiAddress)) (\<lambda>c1.
      seq (on_handlers handlersKey c1 (CreateOrUpdateStatHandler key (statsCollectionId stats) (statsPeriod stats))) (\<lambda>_.
        pass (result_done, None))) s)"

text \<open>An available collector without a reference to its API service panics. The port is a 32-bit integer.\<close>

definition Reconcile_stats_action :: "'w stats_env \<Rightarrow> object_key \<Rightarrow> ('w stats_state, outcome) action" where
  "Reconcile_stats_action env key =
     (let retryLater = (result_after RECONCILIATION_FAILURE_REQUEUE_AFTER, None) in
     seq (attempt (on_stats_world (apiGet (statsObjects env) key)) (\<lambda>err. stop (result_done, None))) (\<lambda>stats.
     let handlersKey = (fst key, statsCollectorRef stats) in
     if deletionTimestamp (statsMeta stats) then finalize_stats env handlersKey stats
     else if TELEMETRY_COLLECTION_STATS_FINALIZER \<notin> set (finalizers (statsMeta stats)) then
       seq (attempt (on_stats_world (apiUpdate (statsObjects env) (stats\<lparr>statsMeta := (statsMeta stats)\<lparr>finalizers :=
              finalizers (statsMeta stats) @ [TELEMETRY_COLLECTION_STATS_FINALIZER]\<rparr>\<rparr>))) fail) (\<lambda>_. stop (result_requeue, None))
     else
     seq (attempt (on_stats_world (LoadTopology (operator_part env))) (\<lambda>err. stop retryLater)) (\<lambda>topo.
     seq (attempt (on_stats_world (apiGet (collectors env) handlersKey))
            (\<lambda>err. if err = IsNotFound then seq (stop_all_handlers env handlersKey) (\<lambda>_. stop (result_done, None)) else fail err)) (\<lambda>collector.
     if \<not> isConditionTrue env (collectorConditions collector) TypeAvailableCollector then
       seq (stop_all_handlers env handlersKey) (\<lambda>_. pass (result_done, None))
     else case ApiServiceRef collector of
       None \<Rightarrow> panic
     | Some apiService \<Rightarrow>
         seq (attempt (on_stats_world (apiGet (serviceObjects env) (fst key, apiService))) (\<lambda>err. stop retryLater)) (\<lambda>collectorService.
           case servicePorts collectorService of
             [] \<Rightarrow> stop retryLater
           | p # _ \<Rightarrow>
               run_handler env handlersKey key stats topo
                 (''http://'' @ clusterIP collectorService @ '':'' @ fmt_int (sint (svcPort p))))))))"

definition Reconcile_stats :: "'w stats_env \<Rightarrow> object_key \<Rightarrow> 'w stats_state \<Rightarrow> outcome \<times> 'w stats_state" where
  "Reconcile_stats env key = finish (Reconcile_stats_action env key)"

definition findStatsThatUseCollector :: "'w stats_env \<Rightarrow> collector_cr \<Rightarrow> 'w \<Rightarrow> object_key list \<times> 'w" where
  "findStatsThatUseCollector env collector w =
     (case apiList (statsObjects env) w of
        (Inl err, w1) \<Rightarrow> ([], w1)
      | (Inr items, w1) \<Rightarrow>
          (map (ObjectKey \<circ> statsMeta)
             (filter (\<lambda>stats. objectNamespace (statsMeta stats) = objectNamespace (collectorMeta collector)
                \<and> statsCollectorRef stats = objectName (collectorMeta collector)) items), w1))"

end
