(* ===== verification/OperatorSamples.thy ===== *)
theory OperatorSamples
  imports Stats "HOL-Library.Char_ord" "HOL-Library.List_Lexorder"
begin

text \<open>
  A small cluster for the witnesses of the operator: the objects of every kind are a list, reads find them by their key, and writes
  return the object and change nothing. The rest of the environment answers in the simplest way that its documentation allows.
\<close>

definition static_client :: "('o \<Rightarrow> object_meta) \<Rightarrow> 'o list \<Rightarrow> ('o, 'w) api_client" where
  "static_client meta xs =
     \<lparr>apiGet = (\<lambda>k w. (case find (\<lambda>x. ObjectKey (meta x) = k) xs of Some x \<Rightarrow> Inr x | None \<Rightarrow> Inl IsNotFound, w)),
      apiList = (\<lambda>w. (Inr xs, w)), apiCreate = (\<lambda>x w. (Inr x, w)), apiUpdate = (\<lambda>x w. (Inr x, w)),
      apiStatusUpdate = (\<lambda>x w. (Inr x, w)), apiDelete = (\<lambda>x w. (Inr (), w))\<rparr>"

definition sample_collector :: collector_cr where
  "sample_collector =
     \<lparr>collectorMeta = NewMeta ''col'' ''default'', ReportingContainerPort = 6000, ApiContainerPort = 8000,
      containerImages = [''collector:1''], otherPodSpec = [],
      collectorConditions = [\<lparr>ConditionType = TypeAvailableCollector, ConditionStatus = ConditionTrue, ConditionMessage = []\<rparr>],
      NodeRef = Some ''w2'', ReportingPort = Some 31000, ApiServiceRef = Some ''col-api-service''\<rparr>"

definition sample_api_service :: service_cr where
  "sample_api_service = \<lparr>serviceMeta = NewMeta ''col-api-service'' ''default'', serviceType = ''ClusterIP'', clusterIP = ''10.1.1.1'',
     serviceSelector = [], servicePorts = [\<lparr>svcProtocol = TCP, svcPort = 8000, svcNodePort = 0\<rparr>]\<rparr>"

definition sample_sdn_shim :: sdn_shim where
  "sample_sdn_shim = \<lparr>shimMeta = NewMeta ''shim'' ''default'', SdnGrpcAddr = ''sdn:9001'', TelemetryServiceGrpcAddr = ''sdn:9002'', Conditions = []\<rparr>"

definition sample_topology_cr :: "network_device list \<Rightarrow> topology_cr" where
  "sample_topology_cr g = \<lparr>topoMeta = NewMeta ''cluster-topo'' ''default'', Graph = g\<rparr>"

definition sample_switches :: "inc_switch_cr list" where
  "sample_switches = [\<lparr>switchMeta = NewMeta ''s1'' ''default'', switchArch = ''v1model'', switchProgram = ''forward''\<rparr>,
     \<lparr>switchMeta = NewMeta ''s2'' ''default'', switchArch = ''v1model'', switchProgram = ''telemetry''\<rparr>]"

definition sample_operator_env :: "'w operator_env" where
  "sample_operator_env =
     \<lparr>shimObjects = static_client shimMeta [sample_sdn_shim], topologyObjects = static_client topoMeta [sample_topology_cr []],
      switchObjects = static_client switchMeta sample_switches, nodeObjects = static_client nodeMeta [],
      podObjects = static_client podMeta [], asSelector = (\<lambda>sel. Inr sel), listPods = (\<lambda>sel ns w. (Inr [], w)),
      serviceObjects = static_client serviceMeta [sample_api_service], deploymentObjects = static_client deploymentMeta [],
      extDeployments = static_client extDeplMeta [], extEndpoints = static_client extEpMeta [],
      intDeployments = static_client intDeplMeta [], intEndpoints = static_client intEpMeta [],
      collectors = static_client collectorMeta [sample_collector], setController = (\<lambda>owner m. Inr m),
      isConditionTrue = (\<lambda>cs t. list_ex (\<lambda>c. ConditionType c = t \<and> ConditionStatus c = ConditionTrue) cs),
      rpcDial = (\<lambda>addr w. (Inr (), w)), rpcConfigure = (\<lambda>addr req w. (Inr \<lparr>telemetryState = TelemetryOK, Description = None\<rparr>, w)),
      rpcDisable = (\<lambda>addr intent w. (Inr False, w)), mapOrder = (\<lambda>i ks. ks), setSlice = sorted_list_of_set\<rparr>"

definition sample_stats :: "string \<Rightarrow> string \<Rightarrow> int64 \<Rightarrow> stats_cr" where
  "sample_stats n cid period =
     \<lparr>statsMeta = (NewMeta n ''default'')\<lparr>finalizers := [TELEMETRY_COLLECTION_STATS_FINALIZER]\<rparr>, statsCollectorRef = ''col'',
      statsCollectionId = cid, statsPeriod = period, statsSummary = None\<rparr>"

definition sample_stats_env :: "stats_cr list \<Rightarrow> unit stats_env" where
  "sample_stats_env xs = operator_env.extend sample_operator_env
     (stats_env.fields (static_client statsMeta xs) (\<lambda>addr cid w. (Inr 0, w)) (\<lambda>addr body w. (Inl ''down'', w)) (\<lambda>w. 0))"

definition no_handlers :: "unit stats_state" where
  "no_handlers = \<lparr>collectorHandlers = [], procsState = \<lparr>running = {}, fresh = 0, hanging = {}\<rparr>, statsWorld = ()\<rparr>"

end
