(* ===== verification/Steps.thy ===== *)
theory Steps
  imports Cluster
begin

text \<open>
  Triples for steps of a \<open>Reconcile\<close> that look at every way to return: from a state with \<open>P\<close>, a step that returns leaves the
  invariant \<open>I\<close>, and one that goes on leaves \<open>Q\<close>. (\<open>after\<close> of the theory Cluster says nothing of steps that return.)
\<close>

definition step_keeps :: "('s \<Rightarrow> bool) \<Rightarrow> ('s \<Rightarrow> bool) \<Rightarrow> ('s, 'a) action \<Rightarrow> ('a \<Rightarrow> 's \<Rightarrow> bool) \<Rightarrow> bool" where
  "step_keeps I P m Q \<longleftrightarrow> (\<forall>s r s'. P s \<longrightarrow> m s = (r, s') \<longrightarrow> (case r of Inl res \<Rightarrow> I s' | Inr x \<Rightarrow> Q x s'))"

lemma step_keepsI: "(\<And>s r s'. P s \<Longrightarrow> m s = (r, s') \<Longrightarrow> case r of Inl res \<Rightarrow> I s' | Inr x \<Rightarrow> Q x s') \<Longrightarrow> step_keeps I P m Q"
  by (simp add: step_keeps_def)

lemma step_keepsD: "step_keeps I P m Q \<Longrightarrow> P s \<Longrightarrow> m s = (r, s') \<Longrightarrow> case r of Inl res \<Rightarrow> I s' | Inr x \<Rightarrow> Q x s'"
  by (simp add: step_keeps_def)

lemma step_pass: "(\<And>s. P s \<Longrightarrow> Q x s) \<Longrightarrow> step_keeps I P (pass x) Q"
  by (auto simp: step_keeps_def pass_def)

lemma step_stop: "(\<And>s. P s \<Longrightarrow> I s) \<Longrightarrow> step_keeps I P (stop r) Q"
  by (auto simp: step_keeps_def stop_def)

lemma step_seq: "step_keeps I P m R \<Longrightarrow> (\<And>x. step_keeps I (R x) (f x) Q) \<Longrightarrow> step_keeps I P (seq m f) Q"
  by (fastforce simp: step_keeps_def seq_def split: prod.splits sum.splits)

lemma step_if: "(b \<Longrightarrow> step_keeps I P m Q) \<Longrightarrow> (\<not> b \<Longrightarrow> step_keeps I P n Q) \<Longrightarrow> step_keeps I P (if b then m else n) Q"
  by simp

text \<open>A call, and the handler of its error.\<close>

lemma step_attempt:
  assumes "\<And>s x s'. P s \<Longrightarrow> m s = (Inr x, s') \<Longrightarrow> Q x s'" and "\<And>s e s'. P s \<Longrightarrow> m s = (Inl e, s') \<Longrightarrow> I s'"
    and "\<And>e. step_keeps I I (h e) Q"
  shows "step_keeps I P (attempt m h) Q"
proof (rule step_keepsI)
  fix s r s'
  assume P: "P s" and run: "attempt m h s = (r, s')"
  show "case r of Inl res \<Rightarrow> I s' | Inr x \<Rightarrow> Q x s'"
  proof (cases "m s")
    case (Pair q s1)
    show ?thesis
    proof (cases q)
      case (Inl e)
      have "I s1" using assms(2) [OF P] Pair Inl by blast
      moreover have "h e s1 = (r, s')" using run Pair Inl by (simp add: attempt_def)
      ultimately show ?thesis by (rule step_keepsD [OF assms(3)])
    next
      case (Inr x)
      with Pair P run assms(1) show ?thesis by (auto simp: attempt_def)
    qed
  qed
qed

lemma step_finish: "step_keeps I P m (\<lambda>_. I) \<Longrightarrow> P s \<Longrightarrow> finish m s = (r, s') \<Longrightarrow> I s'"
  by (auto simp: finish_def step_keeps_def split: prod.splits sum.splits)

end
