(* ===== verification/StatsProofs.thy ===== *)
theory StatsProofs
  imports Stats Steps
begin

text \<open>
  The goroutines of the statistics handlers: those that run are exactly those of the handlers that the reconciler holds, whatever
  \<open>Reconcile\<close> does and however it returns; and an operation blocks exactly when a goroutine that it stops hangs.
\<close>

section \<open>The invariant of one collector\<close>

definition handler_ids :: "(string, stat_handler) gomap \<Rightarrow> nat set" where
  "handler_ids m = {handlerId h |k h. gm_get m k = Some h}"

definition one_key :: "(string, stat_handler) gomap \<Rightarrow> bool" where
  "one_key m \<longleftrightarrow> (\<forall>k k' h h'. gm_get m k = Some h \<longrightarrow> gm_get m k' = Some h' \<longrightarrow> handlerId h = handlerId h' \<longrightarrow> k = k')"

text \<open>\<open>R\<close> are the goroutines of the other collectors.\<close>

definition hinv :: "nat set \<Rightarrow> (string, stat_handler) gomap \<Rightarrow> nat set \<Rightarrow> nat \<Rightarrow> bool" where
  "hinv R m run fr \<longleftrightarrow>
     gm_wf m \<and> one_key m \<and> (\<forall>k h. gm_get m k = Some h \<longrightarrow> ticker_ok (refreshPeriodMillis h))
     \<and> R \<inter> handler_ids m = {} \<and> run = R \<union> handler_ids m \<and> (\<forall>n \<in> run. n < fr)"

definition handlers_inv :: "nat set \<Rightarrow> collector_handlers \<times> procs \<Rightarrow> bool" where
  "handlers_inv R = (\<lambda>(c, p). hinv R (statHandlers c) (running p) (fresh p))"

lemma handler_ids_iff: "n \<in> handler_ids m \<longleftrightarrow> (\<exists>k h. gm_get m k = Some h \<and> handlerId h = n)"
  by (auto simp: handler_ids_def)

lemma handler_ids_del_iff: "n \<in> handler_ids (gm_del k m) \<longleftrightarrow> (\<exists>k' h. k' \<noteq> k \<and> gm_get m k' = Some h \<and> handlerId h = n)"
  unfolding handler_ids_iff gm_get_del by (metis option.distinct(1))

lemma handler_ids_put: "handler_ids (gm_put k h m) = insert (handlerId h) (handler_ids (gm_del k m))"
proof (rule set_eqI)
  fix n
  show "n \<in> handler_ids (gm_put k h m) \<longleftrightarrow> n \<in> insert (handlerId h) (handler_ids (gm_del k m))"
    unfolding insert_iff handler_ids_del_iff unfolding handler_ids_iff gm_get_put by (metis option.inject)
qed

lemma handler_ids_del:
  assumes "one_key m" and "gm_get m k = Some h"
  shows "handler_ids (gm_del k m) = handler_ids m - {handlerId h}"
proof (intro equalityI subsetI)
  fix n
  assume "n \<in> handler_ids (gm_del k m)"
  then obtain k' h' where h': "k' \<noteq> k" "gm_get m k' = Some h'" "handlerId h' = n" unfolding handler_ids_del_iff by blast
  then have "n \<in> handler_ids m" unfolding handler_ids_iff by blast
  moreover have "n \<noteq> handlerId h" using assms h' unfolding one_key_def by blast
  ultimately show "n \<in> handler_ids m - {handlerId h}" by simp
next
  fix n
  assume n: "n \<in> handler_ids m - {handlerId h}"
  then obtain k' h' where h': "gm_get m k' = Some h'" "handlerId h' = n" unfolding Diff_iff handler_ids_iff by blast
  with n assms(2) have "k' \<noteq> k" by auto
  with h' show "n \<in> handler_ids (gm_del k m)" unfolding handler_ids_del_iff by blast
qed

lemma handler_ids_del_None:
  assumes "gm_get m k = None"
  shows "handler_ids (gm_del k m) = handler_ids m"
proof (rule set_eqI)
  fix n
  have "k' \<noteq> k" if "gm_get m k' = Some h" for k' h using that assms by auto
  then show "n \<in> handler_ids (gm_del k m) \<longleftrightarrow> n \<in> handler_ids m" unfolding handler_ids_del_iff unfolding handler_ids_iff by blast
qed

lemma handler_ids_Nil [simp]: "handler_ids [] = {}"
  by (simp add: handler_ids_def)

lemma handler_idsI: "gm_get m k = Some h \<Longrightarrow> handlerId h \<in> handler_ids m"
  by (auto simp: handler_ids_def)

lemma one_keyI:
  assumes "\<And>k k' h h'. gm_get m k = Some h \<Longrightarrow> gm_get m k' = Some h' \<Longrightarrow> handlerId h = handlerId h' \<Longrightarrow> k = k'"
  shows "one_key m"
proof (unfold one_key_def, intro allI impI)
  fix k k' h h'
  assume "gm_get m k = Some h" "gm_get m k' = Some h'" "handlerId h = handlerId h'"
  then show "k = k'" by (rule assms)
qed

lemma one_keyD: "one_key m \<Longrightarrow> gm_get m k = Some h \<Longrightarrow> gm_get m k' = Some h' \<Longrightarrow> handlerId h = handlerId h' \<Longrightarrow> k = k'"
  unfolding one_key_def by blast

lemma gm_get_del_Some: "gm_get (gm_del k m) x = Some v \<longleftrightarrow> x \<noteq> k \<and> gm_get m x = Some v"
  by simp

lemma gm_get_put_Some: "gm_get (gm_put k v m) x = Some w \<longleftrightarrow> x = k \<and> w = v \<or> x \<noteq> k \<and> gm_get m x = Some w"
  by auto

lemma one_key_del: "one_key m \<Longrightarrow> one_key (gm_del k m)"
  by (rule one_keyI, unfold gm_get_del_Some) (elim conjE, rule one_keyD)

lemma one_key_put:
  assumes "one_key (gm_del k m)" and "handlerId h \<notin> handler_ids (gm_del k m)"
  shows "one_key (gm_put k h m)"
proof (rule one_keyI)
  fix a b ha hb
  assume get: "gm_get (gm_put k h m) a = Some ha" "gm_get (gm_put k h m) b = Some hb" and eq: "handlerId ha = handlerId hb"
  have other: "handlerId x \<noteq> handlerId h" if "y \<noteq> k" "gm_get m y = Some x" for x y
    using that assms(2) unfolding handler_ids_del_iff by blast
  show "a = b"
  proof (cases "a = k \<or> b = k")
    case True
    with get eq other [of a ha] other [of b hb] show ?thesis unfolding gm_get_put_Some by metis
  next
    case False
    with get have "gm_get (gm_del k m) a = Some ha" "gm_get (gm_del k m) b = Some hb" unfolding gm_get_put_Some gm_get_del_Some by blast+
    with assms(1) eq show ?thesis by (blast dest: one_keyD)
  qed
qed

lemma hinvI:
  "gm_wf m \<Longrightarrow> one_key m \<Longrightarrow> (\<And>k h. gm_get m k = Some h \<Longrightarrow> ticker_ok (refreshPeriodMillis h)) \<Longrightarrow> R \<inter> handler_ids m = {}
     \<Longrightarrow> run = R \<union> handler_ids m \<Longrightarrow> (\<And>n. n \<in> run \<Longrightarrow> n < fr) \<Longrightarrow> hinv R m run fr"
  unfolding hinv_def by blast

lemma hinvD:
  assumes "hinv R m run fr"
  shows "gm_wf m" and "one_key m" and "R \<inter> handler_ids m = {}" and "run = R \<union> handler_ids m"
    and "n \<in> run \<Longrightarrow> n < fr" and "gm_get m k = Some h \<Longrightarrow> ticker_ok (refreshPeriodMillis h)"
  using assms unfolding hinv_def by blast+

lemma hinv_del:
  assumes inv: "hinv R m run fr" and k: "gm_get m k = Some h"
  shows "hinv R (gm_del k m) (run - {handlerId h}) fr" and "handlerId h \<in> run"
proof -
  have h: "handlerId h \<in> handler_ids m" by (rule handler_idsI [OF k])
  with hinvD(4) [OF inv] show "handlerId h \<in> run" by simp
  note ids = handler_ids_del [OF hinvD(2) [OF inv] k]
  show "hinv R (gm_del k m) (run - {handlerId h}) fr"
  proof (rule hinvI)
    show "gm_wf (gm_del k m)" by (rule gm_wf_del [OF hinvD(1) [OF inv]])
    show "one_key (gm_del k m)" by (rule one_key_del [OF hinvD(2) [OF inv]])
    show "ticker_ok (refreshPeriodMillis h')" if "gm_get (gm_del k m) k' = Some h'" for k' h'
      using that hinvD(6) [OF inv] unfolding gm_get_del_Some by blast
    show "R \<inter> handler_ids (gm_del k m) = {}" "run - {handlerId h} = R \<union> handler_ids (gm_del k m)"
      using hinvD(3,4) [OF inv] h unfolding ids by blast+
    show "n < fr" if "n \<in> run - {handlerId h}" for n using that hinvD(5) [OF inv] by blast
  qed
qed

lemma hinv_del_None:
  assumes inv: "hinv R m run fr" and k: "gm_get m k = None"
  shows "hinv R (gm_del k m) run fr"
  using hinvD [OF inv] unfolding hinv_def handler_ids_del_None [OF k] gm_get_del_Some
  by (blast intro: one_key_del gm_wf_del)

lemma hinv_put:
  assumes inv: "hinv R (gm_del k m) run fr" and wf: "gm_wf m" and h: "handlerId h = fr" "ticker_ok (refreshPeriodMillis h)"
  shows "hinv R (gm_put k h m) (insert fr run) (Suc fr)"
proof -
  have new: "fr \<notin> run" using hinvD(5) [OF inv] by blast
  then have "handlerId h \<notin> handler_ids (gm_del k m)" using hinvD(4) [OF inv] h by blast
  note one = one_key_put [OF hinvD(2) [OF inv] this]
  have ids: "handler_ids (gm_put k h m) = insert fr (handler_ids (gm_del k m))" by (simp add: handler_ids_put h)
  show ?thesis
  proof (rule hinvI)
    show "gm_wf (gm_put k h m)" by (rule gm_wf_put [OF wf])
    show "ticker_ok (refreshPeriodMillis h')" if "gm_get (gm_put k h m) k' = Some h'" for k' h'
      using that h(2) hinvD(6) [OF inv] unfolding gm_get_put_Some gm_get_del_Some by blast
    show "R \<inter> handler_ids (gm_put k h m) = {}" "insert fr run = R \<union> handler_ids (gm_put k h m)"
      using hinvD(3,4) [OF inv] new unfolding ids by blast+
    show "n < Suc fr" if "n \<in> insert fr run" for n using that hinvD(5) [OF inv, of n] by auto
  qed (rule one)
qed

section \<open>The operations\<close>

text \<open>An operation keeps the invariant, or blocks, or fails because of a ticker.\<close>

definition keeps_handlers :: "bool \<Rightarrow> nat set \<Rightarrow> handler_error + collector_handlers \<times> procs \<Rightarrow> bool" where
  "keeps_handlers ok R r \<longleftrightarrow> (case r of Inl e \<Rightarrow> e = TickerPanics \<longrightarrow> \<not> ok | Inr s \<Rightarrow> handlers_inv R s)"

definition hangs :: "procs \<Rightarrow> stat_handler \<Rightarrow> bool" where
  "hangs p h \<longleftrightarrow> handlerId h \<in> hanging p"

lemma handlers_inv_wf: "handlers_inv R (c, p) \<Longrightarrow> gm_wf (statHandlers c)"
  using hinvD(1) by (auto simp: handlers_inv_def)

lemma stop_handler:
  assumes "handlers_inv R (c, p)" and "gm_get (statHandlers c) k = Some h"
  shows "handler_Stop h p = (if hangs p h then Inl SendBlocks else Inr (p\<lparr>running := running p - {handlerId h}\<rparr>))"
    and "handlers_inv R (c\<lparr>statHandlers := gm_del k (statHandlers c)\<rparr>, p\<lparr>running := running p - {handlerId h}\<rparr>)"
  using hinv_del assms unfolding handlers_inv_def handler_Stop_def hangs_def by simp_all

text \<open>Whether the handler of a collection is replaced.\<close>

definition restarts :: "object_key \<Rightarrow> int64 \<Rightarrow> collector_handlers \<Rightarrow> stat_handler \<Rightarrow> bool" where
  "restarts key period c h \<longleftrightarrow>
     \<not> (refreshPeriodMillis h = period \<and> resourceKey h = key \<and> collectorAddress h = collectorApiAddress c)"

definition new_handler :: "object_key \<Rightarrow> string \<Rightarrow> int64 \<Rightarrow> collector_handlers \<Rightarrow> procs \<Rightarrow> stat_handler" where
  "new_handler key collection period c p = \<lparr>handlerId = fresh p, resourceKey = key, refreshPeriodMillis = period,
     collectorAddress = collectorApiAddress c, handlerCollection = collection\<rparr>"

lemma run_new_handler:
  assumes "hinv R (gm_del k (statHandlers c)) (running p) (fresh p)" and "gm_wf (statHandlers c)" and "ticker_ok period"
  shows "handlers_inv R (c\<lparr>statHandlers := gm_put k (new_handler key k period c p) (statHandlers c)\<rparr>,
      p\<lparr>fresh := fresh p + 1, running := insert (fresh p) (running p)\<rparr>)"
  using hinv_put [OF assms(1,2), of "new_handler key k period c p"] assms(3) by (simp add: handlers_inv_def new_handler_def)

text \<open>What becomes of the handlers when one is started.\<close>

definition handler_started :: "string \<Rightarrow> collector_handlers \<times> procs \<Rightarrow> collector_handlers \<times> procs \<Rightarrow> bool" where
  "handler_started collection = (\<lambda>(c, p) (c', p').
     hanging p' = hanging p \<and> collectorApiAddress c' = collectorApiAddress c
     \<and> (\<forall>k. k \<noteq> collection \<longrightarrow> gm_get (statHandlers c') k = gm_get (statHandlers c) k)
     \<and> (\<exists>h. gm_get (statHandlers c') collection = Some h \<and> collectorAddress h = collectorApiAddress c))"

lemma create_or_update_outcome:
  assumes inv: "handlers_inv R (c, p)"
  shows "if \<exists>h. gm_get (statHandlers c) collection = Some h \<and> \<not> restarts key period c h
     then CreateOrUpdateStatHandler key collection period (c, p) = Inr (c, p)
     else if \<exists>h. gm_get (statHandlers c) collection = Some h \<and> hangs p h
     then CreateOrUpdateStatHandler key collection period (c, p) = Inl SendBlocks
     else if \<not> ticker_ok period then CreateOrUpdateStatHandler key collection period (c, p) = Inl TickerPanics
     else \<exists>s. CreateOrUpdateStatHandler key collection period (c, p) = Inr s \<and> handlers_inv R s \<and> handler_started collection (c, p) s"
proof -
  from inv have hinv: "hinv R (statHandlers c) (running p) (fresh p)" by (simp add: handlers_inv_def)
  note run = run_new_handler [OF _ hinvD(1) [OF hinv], of R collection]
  show ?thesis
  proof (cases "gm_get (statHandlers c) collection")
    case None
    show ?thesis
      using run [of p period key] hinv_del_None [OF hinv None] None
      by (simp add: CreateOrUpdateStatHandler_def Let_def handler_Run_def handler_started_def new_handler_def)
  next
    case (Some h)
    let ?p1 = "p\<lparr>running := running p - {handlerId h}\<rparr>"
    show ?thesis
      using run [of ?p1 period key] hinv_del(1) [OF hinv Some] Some stop_handler(1) [OF inv Some]
      by (simp add: CreateOrUpdateStatHandler_def Let_def handler_Run_def handler_started_def new_handler_def restarts_def)
  qed
qed

lemma create_or_update_keeps:
  assumes inv: "handlers_inv R (c, p)"
  shows "keeps_handlers (ticker_ok period) R (CreateOrUpdateStatHandler key collection period (c, p))"
  using create_or_update_outcome [OF inv, of collection key period] inv
  by (auto simp: keeps_handlers_def split: if_splits)

text \<open>The loop of \<open>UpdateCollectorAddress\<close> over handlers that are stored: those at the keys \<open>K\<close> get the new address.\<close>

definition readdressed :: "string set \<Rightarrow> collector_handlers \<Rightarrow> collector_handlers \<Rightarrow> bool" where
  "readdressed K c c' \<longleftrightarrow> collectorApiAddress c' = collectorApiAddress c
     \<and> (\<forall>k. k \<notin> K \<longrightarrow> gm_get (statHandlers c') k = gm_get (statHandlers c) k)
     \<and> (\<forall>k \<in> K. \<exists>h. gm_get (statHandlers c') k = Some h \<and> collectorAddress h = collectorApiAddress c)"

lemma readdressed_none: "readdressed {} c c"
  by (simp add: readdressed_def)

lemma readdressed_same:
  assumes "readdressed K c c'" and "gm_get (statHandlers c) k = Some h" and "collectorAddress h = collectorApiAddress c" and "k \<notin> K"
  shows "readdressed (insert k K) c c'"
proof -
  have "gm_get (statHandlers c') k = Some h" using assms unfolding readdressed_def by metis
  with assms(1,3) show ?thesis unfolding readdressed_def by blast
qed

lemma readdressed_started:
  assumes "handler_started k (c, p) (c1, p1)" and "readdressed K c1 c'" and "k \<notin> K"
  shows "readdressed (insert k K) c c'"
proof -
  from assms(1) obtain h where h: "gm_get (statHandlers c1) k = Some h" "collectorAddress h = collectorApiAddress c"
    and same: "collectorApiAddress c1 = collectorApiAddress c" "\<And>j. j \<noteq> k \<Longrightarrow> gm_get (statHandlers c1) j = gm_get (statHandlers c) j"
    unfolding handler_started_def by blast
  have "gm_get (statHandlers c') k = Some h" using assms(2,3) h(1) unfolding readdressed_def by metis
  moreover have "gm_get (statHandlers c') j = gm_get (statHandlers c) j" if "j \<notin> insert k K" for j
    using that assms(2) same(2) unfolding readdressed_def by (metis insertCI)
  ultimately show ?thesis using assms(2) h(2) same(1) unfolding readdressed_def by (metis insertE)
qed

lemma readdressed_lookup:
  assumes "readdressed {k. m k \<noteq> None} c c'" and "gm_get (statHandlers c) = m"
  shows "case gm_get (statHandlers c') k of None \<Rightarrow> m k = None | Some h \<Rightarrow> m k \<noteq> None \<and> collectorAddress h = collectorApiAddress c"
proof (cases "m k = None")
  case True
  then have "gm_get (statHandlers c') k = None" using assms unfolding readdressed_def by simp
  with True show ?thesis by simp
next
  case False
  then obtain h where "gm_get (statHandlers c') k = Some h" "collectorAddress h = collectorApiAddress c"
    using assms unfolding readdressed_def by blast
  with False show ?thesis by simp
qed

definition stored_entries :: "(string \<times> stat_handler) list \<Rightarrow> (string, stat_handler) gomap \<Rightarrow> bool" where
  "stored_entries xs m \<longleftrightarrow> distinct (map fst xs) \<and> (\<forall>x \<in> set xs. gm_get m (fst x) = Some (snd x))"

definition must_stop :: "collector_handlers \<Rightarrow> procs \<Rightarrow> string \<times> stat_handler \<Rightarrow> bool" where
  "must_stop c p x \<longleftrightarrow> collectorAddress (snd x) \<noteq> collectorApiAddress c \<and> hangs p (snd x)"

lemma update_one:
  assumes inv: "handlers_inv R (c, p)" and h: "gm_get (statHandlers c) k = Some h"
  obtains (same) "collectorAddress h = collectorApiAddress c"
      "CreateOrUpdateStatHandler (resourceKey h) k (refreshPeriodMillis h) (c, p) = Inr (c, p)"
  | (blocks) "must_stop c p (k, h)" "CreateOrUpdateStatHandler (resourceKey h) k (refreshPeriodMillis h) (c, p) = Inl SendBlocks"
  | (started) c1 p1 where "\<not> must_stop c p (k, h)"
      "CreateOrUpdateStatHandler (resourceKey h) k (refreshPeriodMillis h) (c, p) = Inr (c1, p1)"
      "handlers_inv R (c1, p1)" "handler_started k (c, p) (c1, p1)"
proof -
  have ok: "ticker_ok (refreshPeriodMillis h)" using inv hinvD(6) h by (auto simp: handlers_inv_def)
  have restart: "restarts (resourceKey h) (refreshPeriodMillis h) c h \<longleftrightarrow> collectorAddress h \<noteq> collectorApiAddress c"
    by (simp add: restarts_def)
  have only: "(\<exists>g. gm_get (statHandlers c) k = Some g \<and> P g) \<longleftrightarrow> P h" for P using h by simp
  note outcome = create_or_update_outcome [OF inv, of k "resourceKey h" "refreshPeriodMillis h", unfolded only restart]
  show thesis
  proof (cases "collectorAddress h = collectorApiAddress c")
    case True
    with outcome show thesis by (intro same) simp_all
  next
    case changed: False
    show thesis
    proof (cases "hangs p h")
      case True
      with changed outcome show thesis by (intro blocks) (simp_all add: must_stop_def)
    next
      case False
      with changed outcome ok obtain s where "CreateOrUpdateStatHandler (resourceKey h) k (refreshPeriodMillis h) (c, p) = Inr s"
          "handlers_inv R s" "handler_started k (c, p) s" by auto
      with False show thesis by (cases s) (auto intro: started simp: must_stop_def)
    qed
  qed
qed

lemma update_handlers_outcome:
  "\<lbrakk>handlers_inv R (c, p); stored_entries xs (statHandlers c)\<rbrakk> \<Longrightarrow>
     if \<exists>x \<in> set xs. must_stop c p x then update_handlers xs (c, p) = Inl SendBlocks
     else \<exists>c' p'. update_handlers xs (c, p) = Inr (c', p') \<and> handlers_inv R (c', p') \<and> readdressed (fst ` set xs) c c'"
proof (induction xs arbitrary: c p)
  case Nil
  then show ?case by (auto simp: readdressed_none)
next
  case (Cons x xs)
  obtain k h where x: "x = (k, h)" by (cases x)
  have h: "gm_get (statHandlers c) k = Some h" and k: "k \<notin> fst ` set xs" and rest: "stored_entries xs (statHandlers c)"
    using Cons.prems(2) unfolding stored_entries_def x by simp_all
  show ?case
  proof (cases rule: update_one [OF Cons.prems(1) h, case_names same blocks started])
    case same
    then have "\<not> must_stop c p x" by (simp add: must_stop_def x)
    moreover have "update_handlers (x # xs) (c, p) = update_handlers xs (c, p)" using same by (simp add: x)
    moreover have "readdressed (fst ` set (x # xs)) c c'" if "readdressed (fst ` set xs) c c'" for c'
      using readdressed_same [OF that h same(1) k] by (simp add: x)
    ultimately show ?thesis using Cons.IH [OF Cons.prems(1) rest] by (simp split: if_splits) metis
  next
    case blocks
    then show ?thesis by (simp add: x)
  next
    case (started c1 p1)
    have same: "hanging p1 = hanging p" "collectorApiAddress c1 = collectorApiAddress c"
      "\<And>j. j \<noteq> k \<Longrightarrow> gm_get (statHandlers c1) j = gm_get (statHandlers c) j"
      using started(4) unfolding handler_started_def by blast+
    have "stored_entries xs (statHandlers c1)"
      unfolding stored_entries_def
    proof (intro conjI ballI)
      fix y assume "y \<in> set xs"
      moreover from this k have "fst y \<noteq> k" by auto
      ultimately show "gm_get (statHandlers c1) (fst y) = Some (snd y)"
        using same(3) rest unfolding stored_entries_def by metis
    qed (use rest in \<open>simp add: stored_entries_def\<close>)
    note IH = Cons.IH [OF started(3) this]
    have "must_stop c1 p1 = must_stop c p" using same by (simp add: fun_eq_iff must_stop_def hangs_def)
    moreover have "update_handlers (x # xs) (c, p) = update_handlers xs (c1, p1)" using started(2) by (simp add: x)
    moreover have "readdressed (fst ` set (x # xs)) c c'" if "readdressed (fst ` set xs) c1 c'" for c'
      using readdressed_started [OF started(4) that k] by (simp add: x)
    ultimately show ?thesis using IH started(1) by (simp add: x split: if_splits) metis
  qed
qed

lemma gm_range_stored:
  assumes "is_order ord" and "gm_wf m"
  shows "stored_entries (gm_range ord m) m" and "x \<in> set (gm_range ord m) \<longleftrightarrow> gm_get m (fst x) = Some (snd x)"
    and "fst ` set (gm_range ord m) = {k. gm_get m k \<noteq> None}"
proof -
  have "mset (map fst (gm_range ord m)) = mset (map fst m)" by (simp only: mset_map mset_gm_range [OF assms])
  then have d: "distinct (map fst (gm_range ord m))" using assms(2) by (metis mset_eq_imp_distinct_iff)
  show mem: "x \<in> set (gm_range ord m) \<longleftrightarrow> gm_get m (fst x) = Some (snd x)" for x
    using assms(2) by (simp add: set_gm_range [OF assms])
  then show "stored_entries (gm_range ord m) m" using d unfolding stored_entries_def by blast
  show "fst ` set (gm_range ord m) = {k. gm_get m k \<noteq> None}"
  proof (intro equalityI subsetI)
    fix k assume "k \<in> {k. gm_get m k \<noteq> None}"
    then obtain v where "gm_get m k = Some v" by blast
    with mem [of "(k, v)"] show "k \<in> fst ` set (gm_range ord m)" by force
  next
    fix k assume "k \<in> fst ` set (gm_range ord m)"
    then obtain x where "x \<in> set (gm_range ord m)" "k = fst x" by blast
    with mem [of x] show "k \<in> {k. gm_get m k \<noteq> None}" by simp
  qed
qed

lemma ex_stored:
  fixes m :: "(string, stat_handler) gomap"
  assumes "is_order ord" and "gm_wf m"
  shows "(\<exists>x \<in> set (gm_range ord m). P (snd x)) \<longleftrightarrow> (\<exists>k h. gm_get m k = Some h \<and> P h)"
proof
  assume "\<exists>x \<in> set (gm_range ord m). P (snd x)"
  then obtain x where "x \<in> set (gm_range ord m)" "P (snd x)" by blast
  with gm_range_stored(2) [OF assms, of x] show "\<exists>k h. gm_get m k = Some h \<and> P h" by blast
next
  assume "\<exists>k h. gm_get m k = Some h \<and> P h"
  then obtain k h where "gm_get m k = Some h" "P h" by blast
  with gm_range_stored(2) [OF assms, of "(k, h)"] show "\<exists>x \<in> set (gm_range ord m). P (snd x)"
    by (intro bexI [of _ "(k, h)"]) simp_all
qed

lemma update_address_outcome:
  assumes ord: "is_order ord" and inv: "handlers_inv R (c, p)"
  shows "if collectorApiAddress c = address then UpdateCollectorAddress ord address (c, p) = Inr (c, p)
     else if \<exists>k h. gm_get (statHandlers c) k = Some h \<and> collectorAddress h \<noteq> address \<and> hangs p h
     then UpdateCollectorAddress ord address (c, p) = Inl SendBlocks
     else \<exists>c' p'. UpdateCollectorAddress ord address (c, p) = Inr (c', p') \<and> handlers_inv R (c', p')
       \<and> readdressed {k. gm_get (statHandlers c) k \<noteq> None} (c\<lparr>collectorApiAddress := address\<rparr>) c'"
proof (cases "collectorApiAddress c = address")
  case True
  then show ?thesis by (simp add: UpdateCollectorAddress_def)
next
  case False
  let ?c = "c\<lparr>collectorApiAddress := address\<rparr>" and ?xs = "gm_range ord (statHandlers c)"
  note wf = handlers_inv_wf [OF inv]
  have inv1: "handlers_inv R (?c, p)" using inv by (simp add: handlers_inv_def)
  have stored: "stored_entries ?xs (statHandlers ?c)" using gm_range_stored(1) [OF ord wf] by simp
  have hung: "(\<exists>x \<in> set ?xs. must_stop ?c p x)
      \<longleftrightarrow> (\<exists>k h. gm_get (statHandlers c) k = Some h \<and> collectorAddress h \<noteq> address \<and> hangs p h)"
    unfolding must_stop_def using ex_stored [OF ord wf, of "\<lambda>h. collectorAddress h \<noteq> address \<and> hangs p h"] by simp
  have "UpdateCollectorAddress ord address (c, p) = update_handlers ?xs (?c, p)"
    using False by (simp add: UpdateCollectorAddress_def)
  with update_handlers_outcome [OF inv1 stored] False show ?thesis
    unfolding hung gm_range_stored(3) [OF ord wf] by (simp only: if_False)
qed

lemma update_address_keeps:
  assumes ord: "is_order ord" and inv: "handlers_inv R (c, p)"
  shows "keeps_handlers True R (UpdateCollectorAddress ord address (c, p))"
  using update_address_outcome [OF ord inv, of address] inv
  by (auto simp: keeps_handlers_def split: if_splits)

lemma remove_outcome:
  assumes inv: "handlers_inv R (c, p)"
  shows "if \<exists>h. gm_get (statHandlers c) collection = Some h \<and> hangs p h
     then RemoveStatHandler collection (c, p) = Inl SendBlocks
     else \<exists>c' p'. RemoveStatHandler collection (c, p) = Inr ((c', p'), statHandlers c' \<noteq> []) \<and> handlers_inv R (c', p')
       \<and> gm_get (statHandlers c') = (gm_get (statHandlers c))(collection := None)"
proof (cases "gm_get (statHandlers c) collection")
  case None
  then have "(gm_get (statHandlers c))(collection := None) = gm_get (statHandlers c)" by auto
  with None inv show ?thesis by (simp add: RemoveStatHandler_def)
next
  case (Some h)
  have "gm_get (gm_del collection (statHandlers c)) = (gm_get (statHandlers c))(collection := None)" by (rule ext) simp
  with stop_handler [OF inv Some] Some show ?thesis by (auto simp: RemoveStatHandler_def Let_def)
qed

lemma remove_keeps:
  assumes inv: "handlers_inv R (c, p)"
  shows "keeps_handlers True R (map_sum id fst (RemoveStatHandler collection (c, p)))"
  using remove_outcome [OF inv, of collection] by (auto simp: keeps_handlers_def split: if_splits)

lemma stop_handlers_all:
  "handlers_inv R (c, p) \<Longrightarrow> set xs \<subseteq> set (statHandlers c) \<Longrightarrow> distinct (map fst xs) \<Longrightarrow>
     if \<exists>x \<in> set xs. hangs p (snd x) then stop_handlers xs p = Inl SendBlocks
     else \<exists>run. stop_handlers xs p = Inr (p\<lparr>running := run\<rparr>)
       \<and> handlers_inv R (c\<lparr>statHandlers := fold (\<lambda>x. gm_del (fst x)) xs (statHandlers c)\<rparr>, p\<lparr>running := run\<rparr>)"
proof (induction xs arbitrary: c p)
  case Nil
  show ?case by (simp, rule exI [of _ "running p"]) (use Nil.prems(1) in simp)
next
  case (Cons x xs)
  have x: "gm_get (statHandlers c) (fst x) = Some (snd x)"
    using Cons.prems(2) handlers_inv_wf [OF Cons.prems(1)] by (simp add: map_of_is_SomeI)
  note stop = stop_handler [OF Cons.prems(1) x]
  have "set xs \<subseteq> set (gm_del (fst x) (statHandlers c))"
  proof
    fix y assume y: "y \<in> set xs"
    then have "fst y \<in> fst ` set xs" by (rule imageI)
    moreover have "fst x \<notin> fst ` set xs" using Cons.prems(3) by simp
    ultimately have "fst y \<noteq> fst x" by metis
    with y Cons.prems(2) show "y \<in> set (gm_del (fst x) (statHandlers c))" by (auto simp: AList.delete_eq)
  qed
  then have rest: "if \<exists>y \<in> set xs. hangs p (snd y) then stop_handlers xs (p\<lparr>running := running p - {handlerId (snd x)}\<rparr>) = Inl SendBlocks
    else \<exists>run. stop_handlers xs (p\<lparr>running := running p - {handlerId (snd x)}\<rparr>) = Inr (p\<lparr>running := run\<rparr>)
      \<and> handlers_inv R (c\<lparr>statHandlers := fold (\<lambda>x. gm_del (fst x)) xs (gm_del (fst x) (statHandlers c))\<rparr>, p\<lparr>running := run\<rparr>)"
    using Cons.IH [OF stop(2)] Cons.prems(3) by (simp add: hangs_def cong: if_cong)
  show ?case
  proof (cases "hangs p (snd x) \<or> (\<exists>y \<in> set xs. hangs p (snd y))")
    case True
    with rest stop(1) show ?thesis by (cases "hangs p (snd x)") simp_all
  next
    case False
    with rest stop(1) show ?thesis by simp
  qed
qed

lemma stop_all_outcome:
  assumes ord: "is_order ord" and inv: "handlers_inv R (c, p)"
  shows "if \<exists>k h. gm_get (statHandlers c) k = Some h \<and> hangs p h then StopAll ord (c, p) = Inl SendBlocks
     else \<exists>p1. StopAll ord (c, p) = Inr (c\<lparr>statHandlers := []\<rparr>, p1) \<and> handlers_inv R (c\<lparr>statHandlers := []\<rparr>, p1)"
proof -
  note wf = handlers_inv_wf [OF inv]
  have set: "set (gm_range ord (statHandlers c)) = set (statHandlers c)" by (rule set_gm_range [OF ord wf])
  have dist: "distinct (map fst (gm_range ord (statHandlers c)))"
    using gm_range_stored(1) [OF ord wf] by (simp add: stored_entries_def)
  have "set (fold (\<lambda>x. gm_del (fst x)) xs m) = {y \<in> set m. fst y \<notin> fst ` set xs}" for xs and m :: "(string, stat_handler) gomap"
    by (induction xs arbitrary: m) (auto simp: AList.delete_eq)
  then have none: "fold (\<lambda>x. gm_del (fst x)) (gm_range ord (statHandlers c)) (statHandlers c) = []"
    using set by (metis (mono_tags, lifting) Collect_empty_eq image_eqI set_empty)
  have "StopAll ord (c, p) = map_sum id (Pair (c\<lparr>statHandlers := []\<rparr>)) (stop_handlers (gm_range ord (statHandlers c)) p)"
    by (simp add: StopAll_def)
  with stop_handlers_all [OF inv _ dist] set none show ?thesis
    unfolding ex_stored [OF ord wf, symmetric] by (auto split: if_splits)
qed

lemma stop_all_keeps:
  "is_order ord \<Longrightarrow> handlers_inv R (c, p) \<Longrightarrow> StopAll ord (c, p) = Inl SendBlocks
     \<or> (\<exists>p1. StopAll ord (c, p) = Inr (c\<lparr>statHandlers := []\<rparr>, p1) \<and> handlers_inv R (c\<lparr>statHandlers := []\<rparr>, p1))"
  using stop_all_outcome [of ord R c p] by (auto split: if_splits)

section \<open>The invariant of the reconciler\<close>

abbreviation ids_of :: "collector_handlers \<Rightarrow> nat set" where
  "ids_of c \<equiv> handler_ids (statHandlers c)"

definition other_ids :: "(object_key, collector_handlers) gomap \<Rightarrow> object_key \<Rightarrow> nat set" where
  "other_ids m k = {n. \<exists>k' c. k' \<noteq> k \<and> gm_get m k' = Some c \<and> n \<in> ids_of c}"

definition all_ids :: "(object_key, collector_handlers) gomap \<Rightarrow> nat set" where
  "all_ids m = {n. \<exists>k c. gm_get m k = Some c \<and> n \<in> ids_of c}"

text \<open>The goroutines that run are those of the handlers, each of one collector only, and every ticker runs.\<close>

definition ginv :: "(object_key, collector_handlers) gomap \<Rightarrow> nat set \<Rightarrow> nat \<Rightarrow> bool" where
  "ginv m run fr \<longleftrightarrow> run = all_ids m \<and> (\<forall>k c. gm_get m k = Some c \<longrightarrow> hinv (other_ids m k) (statHandlers c) run fr) \<and> (\<forall>n \<in> run. n < fr)"

definition stats_inv :: "'w stats_state \<Rightarrow> bool" where
  "stats_inv s \<longleftrightarrow> ginv (collectorHandlers s) (running (procsState s)) (fresh (procsState s))"

lemma other_ids_put: "k \<noteq> k' \<Longrightarrow> other_ids (gm_put k c m) k' = ids_of c \<union> {n. \<exists>k'' c. k'' \<noteq> k \<and> k'' \<noteq> k' \<and> gm_get m k'' = Some c \<and> n \<in> ids_of c}"
  unfolding other_ids_def gm_get_put_Some by blast

lemma other_ids_put_same: "other_ids (gm_put k c m) k = other_ids m k"
  unfolding other_ids_def gm_get_put_Some by blast

lemma all_ids_put: "all_ids (gm_put k c m) = other_ids m k \<union> ids_of c"
  unfolding all_ids_def other_ids_def gm_get_put_Some by blast

lemma hinv_frame: "hinv R m run fr \<Longrightarrow> R' \<inter> handler_ids m = {} \<Longrightarrow> run' = R' \<union> handler_ids m \<Longrightarrow> (\<And>n. n \<in> run' \<Longrightarrow> n < fr') \<Longrightarrow> hinv R' m run' fr'"
  unfolding hinv_def by blast

lemma ginv_put:
  assumes ginv: "ginv m run fr" and hinv: "hinv (other_ids m k) (statHandlers c) run1 fr1"
  shows "ginv (gm_put k c m) run1 fr1"
  unfolding ginv_def
proof (intro conjI allI impI)
  note ids = hinvD(3,4) [OF hinv]
  show "run1 = all_ids (gm_put k c m)" using ids by (simp add: all_ids_put)
  show "\<forall>n \<in> run1. n < fr1" using hinvD(5) [OF hinv] by blast
  fix k' c'
  assume get: "gm_get (gm_put k c m) k' = Some c'"
  show "hinv (other_ids (gm_put k c m) k') (statHandlers c') run1 fr1"
  proof (cases "k' = k")
    case True
    with get hinv show ?thesis by (simp add: other_ids_put_same)
  next
    case False
    with get have c': "gm_get m k' = Some c'" by simp
    with ginv have old: "hinv (other_ids m k') (statHandlers c') run fr" unfolding ginv_def by blast
    let ?rest = "{n. \<exists>k'' c. k'' \<noteq> k \<and> k'' \<noteq> k' \<and> gm_get m k'' = Some c \<and> n \<in> ids_of c}"
    have split: "other_ids m k = ?rest \<union> ids_of c'"
    proof (intro equalityI subsetI)
      fix n
      assume "n \<in> other_ids m k"
      then obtain k'' c'' where k'': "k'' \<noteq> k" "gm_get m k'' = Some c''" "n \<in> ids_of c''" unfolding other_ids_def by blast
      then show "n \<in> ?rest \<union> ids_of c'" using c' by (cases "k'' = k'") (simp, blast)
    next
      fix n
      assume "n \<in> ?rest \<union> ids_of c'"
      then show "n \<in> other_ids m k" using c' False unfolding other_ids_def by blast
    qed
    have sub: "?rest \<subseteq> other_ids m k'" unfolding other_ids_def by blast
    show ?thesis
    proof (rule hinv_frame [OF old])
      show "other_ids (gm_put k c m) k' \<inter> ids_of c' = {}"
        using ids(1) sub hinvD(3) [OF old] False unfolding other_ids_put [OF False [symmetric]] split by blast
      show "run1 = other_ids (gm_put k c m) k' \<union> ids_of c'"
        using ids(2) unfolding other_ids_put [OF False [symmetric]] split by blast
    qed (rule hinvD(5) [OF hinv])
  qed
qed

lemma ginv_get: "ginv m run fr \<Longrightarrow> gm_get m k = Some c \<Longrightarrow> hinv (other_ids m k) (statHandlers c) run fr"
  unfolding ginv_def by blast

lemma ginv_del:
  assumes ginv: "ginv m run fr" and c: "gm_get m k = Some c" "statHandlers c = []"
  shows "ginv (gm_del k m) run fr"
proof -
  have other: "gm_get m k' = Some c' \<Longrightarrow> n \<in> ids_of c' \<Longrightarrow> k' \<noteq> k" for k' c' n using c by auto
  have "all_ids m \<subseteq> all_ids (gm_del k m)"
  proof
    fix n assume "n \<in> all_ids m"
    then obtain k' c' where "gm_get m k' = Some c'" "n \<in> ids_of c'" unfolding all_ids_def by blast
    with other show "n \<in> all_ids (gm_del k m)" unfolding all_ids_def gm_get_del_Some by blast
  qed
  moreover have "all_ids (gm_del k m) \<subseteq> all_ids m" unfolding all_ids_def gm_get_del_Some by blast
  ultimately have "all_ids (gm_del k m) = all_ids m" by (rule equalityI [rotated])
  moreover have "other_ids (gm_del k m) k' = other_ids m k'" for k'
  proof (rule equalityI)
    show "other_ids m k' \<subseteq> other_ids (gm_del k m) k'"
    proof
      fix n assume "n \<in> other_ids m k'"
      then obtain k'' c' where "k'' \<noteq> k'" "gm_get m k'' = Some c'" "n \<in> ids_of c'" unfolding other_ids_def by blast
      with other show "n \<in> other_ids (gm_del k m) k'" unfolding other_ids_def gm_get_del_Some by blast
    qed
    show "other_ids (gm_del k m) k' \<subseteq> other_ids m k'" unfolding other_ids_def gm_get_del_Some by blast
  qed
  moreover have "hinv (other_ids m k') (statHandlers c') run fr" if "gm_get (gm_del k m) k' = Some c'" for k' c'
    using that ginv_get [OF ginv] unfolding gm_get_del_Some by blast
  ultimately show ?thesis using ginv by (simp add: ginv_def del: gm_get_del split_paired_All)
qed

lemma ginv_new:
  assumes ginv: "ginv m run fr" and k: "gm_get m k = None"
  shows "hinv (other_ids m k) [] run fr"
proof (rule hinvI)
  have "other_ids m k = all_ids m" using k unfolding other_ids_def all_ids_def by (auto, metis option.distinct(1))
  with ginv show "run = other_ids m k \<union> handler_ids []" "\<And>n. n \<in> run \<Longrightarrow> n < fr" by (auto simp: ginv_def)
qed (simp_all add: one_key_def)

section \<open>Reconcile keeps the invariant\<close>

lemma step_call:
  assumes "\<And>e. step_keeps stats_inv stats_inv (h e) (\<lambda>_. stats_inv)"
  shows "step_keeps stats_inv stats_inv (attempt (on_stats_world f) h) (\<lambda>_. stats_inv)"
  by (rule step_attempt) (use assms in \<open>auto simp: on_stats_world_def stats_inv_def split: prod.splits\<close>)

text \<open>The handlers that a step works on, among the invariant of the others.\<close>

definition at_key :: "object_key \<Rightarrow> collector_handlers \<Rightarrow> 'w stats_state \<Rightarrow> bool" where
  "at_key key c s \<longleftrightarrow> ginv (collectorHandlers s) (running (procsState s)) (fresh (procsState s))
     \<and> gm_get (collectorHandlers s) key = Some c"

lemma step_handlers:
  assumes "\<And>R p. handlers_inv R (c, p) \<Longrightarrow> keeps_handlers ok R (f (c, p))"
    and "\<And>s. P s \<Longrightarrow> stats_inv s \<and> handlers_inv (other_ids (collectorHandlers s) key) (c, procsState s)"
  shows "step_keeps stats_inv P (on_handlers key c f) (at_key key)"
proof (rule step_keepsI)
  fix s r s'
  assume P: "P s" and run: "on_handlers key c f s = (r, s')"
  from assms(2) [OF P] have inv: "stats_inv s" and local: "handlers_inv (other_ids (collectorHandlers s) key) (c, procsState s)" by blast+
  note keeps = assms(1) [OF local]
  show "case r of Inl res \<Rightarrow> stats_inv s' | Inr x \<Rightarrow> at_key key x s'"
  proof (cases "f (c, procsState s)")
    case (Inl e)
    with run inv show ?thesis by (auto simp: on_handlers_def stop_def)
  next
    case (Inr x)
    obtain c1 p1 where x: "x = (c1, p1)" by (cases x)
    from keeps Inr x have "hinv (other_ids (collectorHandlers s) key) (statHandlers c1) (running p1) (fresh p1)"
      by (simp add: keeps_handlers_def handlers_inv_def)
    from ginv_put [OF inv [unfolded stats_inv_def] this] run Inr x show ?thesis
      by (auto simp: on_handlers_def pass_def at_key_def)
  qed
qed

lemma at_keyD: "at_key key c s \<Longrightarrow> stats_inv s \<and> handlers_inv (other_ids (collectorHandlers s) key) (c, procsState s)"
  by (auto simp: at_key_def stats_inv_def handlers_inv_def intro: ginv_get)

lemma step_forget: "step_keeps stats_inv (\<lambda>s. at_key key c s \<and> statHandlers c = []) (forget_handlers key) (\<lambda>_. stats_inv)"
  by (auto simp: step_keeps_def forget_handlers_def pass_def at_key_def stats_inv_def intro: ginv_del)

lemma step_stop_all:
  assumes "\<And>i. is_order (mapOrder env i)"
  shows "step_keeps stats_inv stats_inv (stop_all_handlers env key) (\<lambda>_. stats_inv)"
proof (rule step_keepsI)
  fix s r s'
  assume inv: "stats_inv s" and run: "stop_all_handlers env key s = (r, s')"
  show "case r of Inl res \<Rightarrow> stats_inv s' | Inr x \<Rightarrow> stats_inv s'"
  proof (cases "gm_get (collectorHandlers s) key")
    case None
    with inv run show ?thesis by (auto simp: stop_all_handlers_def pass_def)
  next
    case (Some c)
    with inv have local: "handlers_inv (other_ids (collectorHandlers s) key) (c, procsState s)"
      by (auto simp: stats_inv_def handlers_inv_def intro: ginv_get)
    show ?thesis
    proof (cases "StopAll (mapOrder env 2) (c, procsState s) = Inl SendBlocks")
      case True
      with Some run inv show ?thesis by (auto simp: stop_all_handlers_def seq_def on_handlers_def stop_def)
    next
      case False
    with stop_all_keeps [OF assms local] obtain p1 where
      stopped: "StopAll (mapOrder env 2) (c, procsState s) = Inr (c\<lparr>statHandlers := []\<rparr>, p1)"
      "handlers_inv (other_ids (collectorHandlers s) key) (c\<lparr>statHandlers := []\<rparr>, p1)" by blast
    from stopped(2) have "hinv (other_ids (collectorHandlers s) key) (statHandlers (c\<lparr>statHandlers := []\<rparr>)) (running p1) (fresh p1)"
      by (simp add: handlers_inv_def)
    from ginv_put [OF inv [unfolded stats_inv_def] this] have "ginv (gm_put key (c\<lparr>statHandlers := []\<rparr>) (collectorHandlers s)) (running p1) (fresh p1)" .
    from ginv_del [OF this, of key "c\<lparr>statHandlers := []\<rparr>"] Some stopped(1) run show ?thesis
      by (auto simp: stop_all_handlers_def seq_def on_handlers_def pass_def forget_handlers_def stats_inv_def)
    qed
  qed
qed

lemma step_remove: "step_keeps stats_inv stats_inv (remove_handler key collection) (\<lambda>_. stats_inv)"
proof (rule step_keepsI)
  fix s :: "'a stats_state" and r s'
  assume inv: "stats_inv s" and run: "remove_handler key collection s = (r, s')"
  show "case r of Inl res \<Rightarrow> stats_inv s' | Inr x \<Rightarrow> stats_inv s'"
  proof (cases "gm_get (collectorHandlers s) key")
    case None
    with inv run show ?thesis by (auto simp: remove_handler_def pass_def)
  next
    case (Some c)
    have at: "at_key key c s" using inv Some by (simp add: at_key_def stats_inv_def)
    have "step_keeps stats_inv (at_key key c) (seq (on_handlers key c (\<lambda>x. map_sum id fst (RemoveStatHandler collection x)))
        (\<lambda>c1. if statHandlers c1 \<noteq> [] then pass () else forget_handlers key)) (\<lambda>_. stats_inv)"
    proof (rule step_seq [OF step_handlers])
      show "step_keeps stats_inv (at_key key c1) (if statHandlers c1 \<noteq> [] then pass () else forget_handlers key) (\<lambda>_. stats_inv)" for c1
        using step_forget [of key c1] by (cases "statHandlers c1 = []") (auto simp: step_keeps_def pass_def dest: at_keyD)
    qed (auto intro: remove_keeps dest: at_keyD)
    from step_keepsD [OF this at] run Some show ?thesis by (simp add: remove_handler_def)
  qed
qed

lemma step_run:
  assumes "\<And>i. is_order (mapOrder env i)"
  shows "step_keeps stats_inv stats_inv (run_handler env handlersKey key stats topo addr) (\<lambda>_. stats_inv)"
proof (rule step_keepsI)
  fix s r s'
  assume inv: "stats_inv s" and run: "run_handler env handlersKey key stats topo addr s = (r, s')"
  define c where "c = (case gm_get (collectorHandlers s) handlersKey of Some c \<Rightarrow> c | None \<Rightarrow> newCollectorStatHandlers topo addr)"
  have local: "handlers_inv (other_ids (collectorHandlers s) handlersKey) (c, procsState s)"
    using inv ginv_get ginv_new
    by (cases "gm_get (collectorHandlers s) handlersKey") (auto simp: c_def stats_inv_def handlers_inv_def newCollectorStatHandlers_def)
  have "step_keeps stats_inv (\<lambda>t. t = s) (seq (on_handlers handlersKey c (UpdateCollectorAddress (mapOrder env 3) addr)) (\<lambda>c1.
      seq (on_handlers handlersKey c1 (CreateOrUpdateStatHandler key (statsCollectionId stats) (statsPeriod stats))) (\<lambda>_.
        pass (result_done, None)))) (\<lambda>_. stats_inv)"
  proof (rule step_seq [OF step_handlers step_seq [OF step_handlers step_pass]])
    show "handlers_inv R (c, p) \<Longrightarrow> keeps_handlers True R (UpdateCollectorAddress (mapOrder env 3) addr (c, p))" for R p
      by (rule update_address_keeps [OF assms])
    show "handlers_inv R (c1, p) \<Longrightarrow> keeps_handlers (ticker_ok (statsPeriod stats)) R
        (CreateOrUpdateStatHandler key (statsCollectionId stats) (statsPeriod stats) (c1, p))" for R c1 p
      by (rule create_or_update_keeps)
  qed (use inv local in \<open>auto dest: at_keyD\<close>)
  from step_keepsD [OF this refl] run show "case r of Inl res \<Rightarrow> stats_inv s' | Inr x \<Rightarrow> stats_inv s'"
    by (simp add: run_handler_def c_def Let_def)
qed

lemmas stats_step_rules = step_if step_seq [OF step_call] step_seq [OF step_remove] step_pass step_stop

lemma step_finalize: "step_keeps stats_inv stats_inv (finalize_stats env handlersKey stats) (\<lambda>_. stats_inv)"
  unfolding finalize_stats_def by (intro stats_step_rules)

lemma step_seq_stop_all:
  assumes "\<And>i. is_order (mapOrder env i)" and "\<And>x. step_keeps stats_inv stats_inv (f x) Q"
  shows "step_keeps stats_inv stats_inv (seq (stop_all_handlers env key) f) Q"
  by (rule step_seq [OF step_stop_all [OF assms(1)] assms(2)])

lemma reconcile_stats_keeps:
  assumes "\<And>i. is_order (mapOrder env i)" and "stats_inv s" and "Reconcile_stats env key s = (r, s')"
  shows "stats_inv s'"
proof -
  let ?retry = "(result_after RECONCILIATION_FAILURE_REQUEUE_AFTER, None)"
  have service: "step_keeps stats_inv stats_inv (case servicePorts svc of [] \<Rightarrow> stop ?retry
      | p # _ \<Rightarrow> run_handler env hk key stats topo (''http://'' @ clusterIP svc @ '':'' @ fmt_int (sint (svcPort p)))) (\<lambda>_. stats_inv)" for svc hk stats topo
    by (auto simp: step_stop intro!: step_run assms(1) split: list.split)
  have available: "step_keeps stats_inv stats_inv (if \<not> isConditionTrue env (collectorConditions collector) TypeAvailableCollector then
        seq (stop_all_handlers env hk) (\<lambda>_. pass (result_done, None))
      else case ApiServiceRef collector of
        None \<Rightarrow> panic
      | Some apiService \<Rightarrow>
          seq (attempt (on_stats_world (apiGet (serviceObjects env) (fst key, apiService))) (\<lambda>err. stop ?retry)) (\<lambda>svc.
            case servicePorts svc of [] \<Rightarrow> stop ?retry
            | p # _ \<Rightarrow> run_handler env hk key stats topo (''http://'' @ clusterIP svc @ '':'' @ fmt_int (sint (svcPort p))))) (\<lambda>_. stats_inv)"
    for collector hk stats topo
    by (cases "ApiServiceRef collector")
      (simp_all only: option.case, (intro step_if step_seq_stop_all step_seq [OF step_call] step_pass step_stop service assms(1); assumption)+)
  have "step_keeps stats_inv stats_inv (Reconcile_stats_action env key) (\<lambda>_. stats_inv)"
    unfolding Reconcile_stats_action_def Let_def
    by (intro stats_step_rules step_finalize step_seq_stop_all available assms(1); assumption)
  from step_finish [OF this assms(2)] assms(3) show ?thesis by (simp add: Reconcile_stats_def)
qed

end
