(* ===== verification/FeasibleProofs.thy ===== *)
theory FeasibleProofs
  imports Feasible
begin

text \<open>
  The traversal of the operator visits every reachable device once, along a shortest path, and the feasible
  nodes are those whose path complies; what the requirement really checks.
\<close>

section \<open>The visits of a traversal\<close>

function trace :: "crd_graph \<Rightarrow> traversal \<Rightarrow> (string \<times> string list) list \<times> (string, string list) gomap" where
  "trace G (visited, [], paths) = ([], paths)"
| "trace G (visited, cur # q, paths) =
     (let path = (case gm_get paths cur of Some p \<Rightarrow> p | None \<Rightarrow> []);
          (vs, fp) = trace G (push_links (path @ [cur]) (links_of G cur) (visited, q, paths))
      in ((cur, path) # vs, fp))"
  by pat_completeness auto

termination trace
proof (relation "measure (\<lambda>(G, st). traverse_work G st)")
  fix G :: crd_graph and visited :: "string list" and cur q paths path
  have "traverse_work G (push_links path (links_of G cur) (visited, q, paths)) \<le> traverse_work G (visited, q, paths)" for path
    by (rule push_links_work [OF links_of_subset])
  also have "\<dots> < traverse_work G (visited, cur # q, paths)" by (simp add: traverse_work_def)
  finally show "((G, push_links (path @ [cur]) (links_of G cur) (visited, q, paths)), G, visited, cur # q, paths)
      \<in> measure (\<lambda>(G, st). traverse_work G st)" by simp
qed simp

lemma traverse_loop_trace:
  assumes "\<And>n p a. \<not> fst (consumer n p a)"
  shows "traverse_loop G consumer st a = fold (\<lambda>(n, p) a. snd (consumer n p a)) (fst (trace G st)) a"
proof (induction G st arbitrary: a rule: trace.induct)
  case (2 G visited cur q paths)
  let ?p = "case gm_get paths cur of Some p \<Rightarrow> p | None \<Rightarrow> []"
  from assms [of cur ?p a] obtain a1 where "consumer cur ?p a = (False, a1)" by (cases "consumer cur ?p a") auto
  with 2 show ?case by (simp add: Let_def case_prod_beta)
qed simp

section \<open>Walks\<close>

text \<open>\<open>walk G s p n\<close>: \<open>p\<close> are the devices before \<open>n\<close> on a walk from \<open>s\<close>.\<close>

definition walk :: "crd_graph \<Rightarrow> string \<Rightarrow> string list \<Rightarrow> string \<Rightarrow> bool" where
  "walk G s p n \<longleftrightarrow> hd (p @ [n]) = s \<and> successively (\<lambda>u v. v \<in> set (links_of G u)) (p @ [n])"

lemma walk_Nil [simp]: "walk G s [] n \<longleftrightarrow> n = s"
  by (simp add: walk_def)

lemma walk_snoc: "walk G s (p @ [m]) n \<longleftrightarrow> walk G s p m \<and> n \<in> set (links_of G m)"
proof -
  have "successively P ((p @ [m]) @ [n]) \<longleftrightarrow> successively P (p @ [m]) \<and> P m n" for P
    by (simp only: successively_append_iff) simp
  moreover have "hd ((p @ [m]) @ [n]) = hd (p @ [m])" by (cases p) simp_all
  ultimately show ?thesis by (simp only: walk_def) blast
qed

abbreviation level :: "(string, string list) gomap \<Rightarrow> string \<Rightarrow> nat" where
  "level paths v \<equiv> length (the (gm_get paths v))"

definition paths_ok :: "crd_graph \<Rightarrow> string \<Rightarrow> string list \<Rightarrow> string list \<Rightarrow> (string, string list) gomap \<Rightarrow> bool" where
  "paths_ok G s visited q paths \<longleftrightarrow>
     s \<in> set visited \<and> gm_get paths s = Some []
   \<and> (\<forall>v. gm_get paths v \<noteq> None \<longleftrightarrow> v \<in> set visited) \<and> set q \<subseteq> set visited \<and> distinct q
   \<and> (\<forall>v p. gm_get paths v = Some p \<longrightarrow> walk G s p v) \<and> sorted (map (level paths) q)"

definition trav_inv :: "crd_graph \<Rightarrow> string \<Rightarrow> traversal \<Rightarrow> bool" where
  "trav_inv G s = (\<lambda>(visited, q, paths). paths_ok G s visited q paths
   \<and> (\<forall>v \<in> set visited - set q. \<forall>w \<in> set (links_of G v). w \<in> set visited \<and> level paths w \<le> Suc (level paths v))
   \<and> (q \<noteq> [] \<longrightarrow> (\<forall>v \<in> set visited. level paths v \<le> Suc (level paths (hd q)))))"

lemma paths_okD:
  assumes "paths_ok G s visited q paths"
  shows "s \<in> set visited" and "gm_get paths s = Some []" and "gm_get paths v \<noteq> None \<longleftrightarrow> v \<in> set visited"
    and "set q \<subseteq> set visited" and "distinct q" and "gm_get paths v = Some p \<Longrightarrow> walk G s p v"
    and "sorted (map (level paths) q)"
  using assms unfolding paths_ok_def by blast+

text \<open>While the links of \<open>cur\<close> are looked at; \<open>D\<close> are those that were.\<close>

definition push_inv :: "crd_graph \<Rightarrow> string \<Rightarrow> string \<Rightarrow> string set \<Rightarrow> traversal \<Rightarrow> bool" where
  "push_inv G s cur D = (\<lambda>(visited, q, paths). paths_ok G s visited q paths \<and> cur \<in> set visited \<and> cur \<notin> set q
   \<and> (\<forall>v \<in> set visited - set q - {cur}. \<forall>w \<in> set (links_of G v). w \<in> set visited \<and> level paths w \<le> Suc (level paths v))
   \<and> (\<forall>v \<in> set visited. level paths v \<le> Suc (level paths cur)) \<and> (\<forall>v \<in> set q. level paths cur \<le> level paths v)
   \<and> D \<subseteq> set visited)"

lemma push_links_inv:
  assumes "push_inv G s cur D (visited, q, paths)" and "set peers \<subseteq> set (links_of G cur)" and "gm_get paths cur = Some path"
    and "push_links (path @ [cur]) peers (visited, q, paths) = (visited', q', paths')"
  shows "push_inv G s cur (D \<union> set peers) (visited', q', paths') \<and> set visited \<subseteq> set visited'
    \<and> (\<forall>v \<in> set visited. gm_get paths' v = gm_get paths v) \<and> set visited' - set q' = set visited - set q"
  using assms
proof (induction peers arbitrary: visited q paths D)
  case (Cons peer peers)
  show ?case
  proof (cases "peer \<in> set visited")
    case True
    then have "push_inv G s cur (insert peer D) (visited, q, paths)" using Cons.prems(1) by (simp add: push_inv_def)
    from Cons.IH [OF this _ Cons.prems(3)] Cons.prems(2,4) True show ?thesis by simp
  next
    case False
    let ?paths = "gm_put peer (path @ [cur]) paths"
    note inv = Cons.prems(1) [unfolded push_inv_def paths_ok_def prod.case]
    from inv have closed: "\<forall>v \<in> set visited - set q - {cur}. \<forall>w \<in> set (links_of G v).
        w \<in> set visited \<and> level paths w \<le> Suc (level paths v)" by blast
    from inv have near: "\<forall>v \<in> set visited. level paths v \<le> Suc (level paths cur)" by blast
    from inv have far: "\<forall>v \<in> set q. level paths cur \<le> level paths v" by blast
    from inv have sub: "D \<subseteq> set visited" "cur \<in> set visited" "cur \<notin> set q" "set q \<subseteq> set visited" by blast+
    have cur: "gm_get ?paths cur = Some path" using False Cons.prems(3) inv by auto
    have lev: "level ?paths v = (if v = peer then Suc (level paths cur) else level paths v)" for v
      using Cons.prems(3) by simp
    have levv: "level ?paths v = level paths v" if "v \<in> set visited" for v using that False lev by auto
    have map: "map (level ?paths) q = map (level paths) q" using inv False by (intro map_cong) (auto simp: levv)
    have wc: "walk G s path cur" using inv Cons.prems(3) by blast
    have sorted: "sorted (map (level ?paths) (q @ [peer]))"
    proof -
      have "\<forall>x \<in> set q. level paths x \<le> Suc (level paths cur)" "sorted (map (level paths) q)" using inv by blast+
      with lev [of peer] show ?thesis unfolding map_append map by (simp add: sorted_append)
    qed
    have walks: "walk G s p v" if "gm_get ?paths v = Some p" for v p
    proof (cases "v = peer")
      case True
      with that have "p = path @ [cur]" by simp
      with True wc Cons.prems(2) show ?thesis by (simp add: walk_snoc)
    next
      case False
      with that inv show ?thesis by simp
    qed
    have "s \<noteq> peer" using inv False by blast
    then have ok: "paths_ok G s (peer # visited) (q @ [peer]) ?paths"
      unfolding paths_ok_def using inv False sorted walks by (simp del: gm_get_put map_append) auto
    have "push_inv G s cur (insert peer D) (peer # visited, q @ [peer], ?paths)"
      unfolding push_inv_def prod.case
    proof (intro conjI ballI)
      fix v w assume v: "v \<in> set (peer # visited) - set (q @ [peer]) - {cur}" and w: "w \<in> set (links_of G v)"
      from v have v: "v \<in> set visited - set q - {cur}" by simp
      with w closed have "w \<in> set visited" "level paths w \<le> Suc (level paths v)" "v \<in> set visited" by blast+
      with levv show "w \<in> set (peer # visited)" "level ?paths w \<le> Suc (level ?paths v)" by simp_all
    next
      fix v assume "v \<in> set (peer # visited)"
      then show "level ?paths v \<le> Suc (level ?paths cur)" using near sub(2) False Cons.prems(3) by (auto simp: lev)
    next
      fix v assume "v \<in> set (q @ [peer])"
      then show "level ?paths cur \<le> level ?paths v" using far sub(2,4) False Cons.prems(3) by (auto simp: lev)
    qed (use sub ok False in auto)
    from Cons.IH [OF this _ cur] Cons.prems(2,4) False
    have IH: "push_inv G s cur (insert peer D \<union> set peers) (visited', q', paths')" "set (peer # visited) \<subseteq> set visited'"
      "\<forall>v \<in> set (peer # visited). gm_get paths' v = gm_get ?paths v"
      "set visited' - set q' = set (peer # visited) - set (q @ [peer])" by simp_all
    have "set (peer # visited) - set (q @ [peer]) = set visited - set q" using False by auto
    with IH False show ?thesis by auto
  qed
qed simp

lemma trace_inv:
  "trav_inv G s (visited, q, paths) \<Longrightarrow> trace G (visited, q, paths) = (vs, fp) \<Longrightarrow>
     \<exists>visited'. trav_inv G s (visited', [], fp) \<and> set visited \<subseteq> set visited' \<and> (\<forall>v \<in> set visited. gm_get fp v = gm_get paths v)
       \<and> set (map fst vs) = set visited' - (set visited - set q) \<and> distinct (map fst vs) \<and> (\<forall>(n, p) \<in> set vs. gm_get fp n = Some p)"
proof (induction "traverse_work G (visited, q, paths)" arbitrary: visited q paths vs fp rule: less_induct)
  case less
  show ?case
  proof (cases q)
    case Nil
    with less.prems show ?thesis by (intro exI [of _ visited]) (auto simp: trav_inv_def paths_ok_def)
  next
    case (Cons cur qs)
    note inv = less.prems(1) [unfolded trav_inv_def prod.case Cons]
    note ok = paths_okD [OF conjunct1 [OF inv]]
    from ok(4) have "cur \<in> set visited" by simp
    with ok(3) [of cur] obtain path where path: "gm_get paths cur = Some path" by blast
    obtain visited1 q1 paths1 where push: "push_links (path @ [cur]) (links_of G cur) (visited, qs, paths) = (visited1, q1, paths1)"
      using prod_cases3 by blast
    have "trace G (visited, q, paths) = (let (vs, fp) = trace G (visited1, q1, paths1) in ((cur, path) # vs, fp))"
      unfolding Cons by (simp only: trace.simps(2) path push option.case Let_def)
    with less.prems(2) obtain vs1 where vs1: "trace G (visited1, q1, paths1) = (vs1, fp)" "vs = (cur, path) # vs1"
      by (cases "trace G (visited1, q1, paths1)") simp
    have "push_inv G s cur {} (visited, qs, paths)"
      unfolding push_inv_def prod.case
    proof (intro conjI ballI)
      show "paths_ok G s visited qs paths" using conjunct1 [OF inv] unfolding paths_ok_def by simp
      show "cur \<in> set visited" "cur \<notin> set qs" using ok(4,5) by auto
      fix v w assume "v \<in> set visited - set qs - {cur}" "w \<in> set (links_of G v)"
      then have "v \<in> set visited - set (cur # qs)" by simp
      with inv \<open>w \<in> set (links_of G v)\<close> show "w \<in> set visited" "level paths w \<le> Suc (level paths v)" by blast+
    next
      fix v assume "v \<in> set visited"
      with conjunct2 [OF conjunct2 [OF inv]] show "level paths v \<le> Suc (level paths cur)" by simp
    next
      fix v assume "v \<in> set qs"
      with ok(7) show "level paths cur \<le> level paths v" by simp
    qed simp
    from push_links_inv [OF this order.refl path push]
    have p: "push_inv G s cur (set (links_of G cur)) (visited1, q1, paths1)" "set visited \<subseteq> set visited1"
      "\<forall>v \<in> set visited. gm_get paths1 v = gm_get paths v" "set visited1 - set q1 = set visited - set qs" by simp_all
    note pinv = p(1) [unfolded push_inv_def prod.case]
    from pinv have closed1: "\<forall>v \<in> set visited1 - set q1 - {cur}. \<forall>w \<in> set (links_of G v).
        w \<in> set visited1 \<and> level paths1 w \<le> Suc (level paths1 v)" by blast
    from pinv have near1: "\<forall>v \<in> set visited1. level paths1 v \<le> Suc (level paths1 cur)" by blast
    from pinv have far1: "\<forall>v \<in> set q1. level paths1 cur \<le> level paths1 v" by blast
    from pinv have links1: "set (links_of G cur) \<subseteq> set visited1" by blast
    have "trav_inv G s (visited1, q1, paths1)"
      unfolding trav_inv_def prod.case
    proof (intro conjI ballI impI)
      fix v w assume "v \<in> set visited1 - set q1" "w \<in> set (links_of G v)"
      then show "w \<in> set visited1" "level paths1 w \<le> Suc (level paths1 v)"
        using closed1 near1 links1 by (cases "v = cur"; blast)+
    next
      fix v assume "q1 \<noteq> []" "v \<in> set visited1"
      with near1 far1 have "level paths1 v \<le> Suc (level paths1 cur)" "level paths1 cur \<le> level paths1 (hd q1)" by simp_all
      then show "level paths1 v \<le> Suc (level paths1 (hd q1))" by simp
    qed (use pinv in blast)
    moreover have "traverse_work G (visited1, q1, paths1) < traverse_work G (visited, q, paths)"
      using push_links_work [OF links_of_subset, of G "path @ [cur]" cur "(visited, qs, paths)"] push
      by (simp add: Cons traverse_work_def)
    ultimately obtain visited' where IH: "trav_inv G s (visited', [], fp)" "set visited1 \<subseteq> set visited'"
      "\<forall>v \<in> set visited1. gm_get fp v = gm_get paths1 v" "set (map fst vs1) = set visited' - (set visited1 - set q1)"
      "distinct (map fst vs1)" "\<forall>(n, p) \<in> set vs1. gm_get fp n = Some p"
      using less.hyps vs1(1) by metis
    have cur: "cur \<in> set visited" "cur \<notin> set qs" using ok(4,5) by auto
    have "set (map fst vs) = set visited' - (set visited - set q)"
      using IH(2,4) p(2,4) cur by (auto simp: vs1(2) Cons)
    moreover have "distinct (map fst vs)" using IH(4,5) p(4) cur by (auto simp: vs1(2))
    moreover have "gm_get fp cur = Some path" using IH(3) p(2,3) cur(1) path by auto
    ultimately show ?thesis using IH p(2,3) by (intro exI [of _ visited']) (auto simp: vs1(2))
  qed
qed

text \<open>The path on which a traversal from \<open>s\<close> visits \<open>n\<close>.\<close>

definition bfs_path :: "crd_graph \<Rightarrow> string \<Rightarrow> string \<Rightarrow> string list option" where
  "bfs_path G s n = gm_get (snd (trace G ([s], [s], [(s, [])]))) n"

definition reachable :: "crd_graph \<Rightarrow> string \<Rightarrow> string \<Rightarrow> bool" where
  "reachable G s n \<longleftrightarrow> (\<exists>p. walk G s p n)"

definition start_trace :: "crd_graph \<Rightarrow> string \<Rightarrow> (string \<times> string list) list \<times> (string, string list) gomap" where
  "start_trace G s = trace G ([s], [s], [(s, [])])"

lemma trace_start:
  obtains visited where "trav_inv G s (visited, [], snd (start_trace G s))"
    and "set (map fst (fst (start_trace G s))) = set visited" and "distinct (map fst (fst (start_trace G s)))"
    and "\<forall>(n, p) \<in> set (fst (start_trace G s)). bfs_path G s n = Some p"
proof -
  have "trav_inv G s ([s], [s], [(s, [])])" by (simp add: trav_inv_def paths_ok_def)
  from trace_inv [OF this prod.collapse [symmetric]] show ?thesis
    using that unfolding bfs_path_def start_trace_def by auto
qed

lemma bfs_path_visits: "bfs_path G s n = Some p \<longleftrightarrow> (n, p) \<in> set (fst (start_trace G s))"
proof -
  obtain visited where inv: "trav_inv G s (visited, [], snd (start_trace G s))"
    and vs: "set (map fst (fst (start_trace G s))) = set visited"
    and paths: "\<forall>(n, p) \<in> set (fst (start_trace G s)). bfs_path G s n = Some p"
    by (rule trace_start)
  show ?thesis
  proof
    assume p: "bfs_path G s n = Some p"
    with inv have "n \<in> set visited" by (auto simp: trav_inv_def paths_ok_def bfs_path_def start_trace_def)
    with vs have "n \<in> fst ` set (fst (start_trace G s))" by simp
    then obtain q where "(n, q) \<in> set (fst (start_trace G s))" by force
    with paths p show "(n, p) \<in> set (fst (start_trace G s))" by auto
  qed (use paths in auto)
qed

lemma bfs_path_shortest:
  "bfs_path G s n = Some p \<Longrightarrow> walk G s p n \<and> (\<forall>p'. walk G s p' n \<longrightarrow> length p \<le> length p')"
  "bfs_path G s n \<noteq> None \<longleftrightarrow> reachable G s n"
proof -
  obtain visited where inv: "trav_inv G s (visited, [], snd (start_trace G s))" by (rule trace_start)
  note i = inv [unfolded trav_inv_def paths_ok_def prod.case start_trace_def, folded bfs_path_def]
  have closer: "n \<in> set visited \<and> length (the (bfs_path G s n)) \<le> length p'" if "walk G s p' n" for p' n
    using that
  proof (induction p' arbitrary: n rule: rev_induct)
    case Nil
    with i show ?case by simp
  next
    case (snoc m p')
    then have "walk G s p' m" "n \<in> set (links_of G m)" by (simp_all add: walk_snoc)
    with snoc.IH [of m] i show ?case by fastforce
  qed
  show "bfs_path G s n = Some p \<Longrightarrow> walk G s p n \<and> (\<forall>p'. walk G s p' n \<longrightarrow> length p \<le> length p')"
    using i closer by fastforce
  show "bfs_path G s n \<noteq> None \<longleftrightarrow> reachable G s n"
    using i closer unfolding reachable_def by blast
qed

section \<open>The feasible nodes\<close>

definition shortest_walk :: "crd_graph \<Rightarrow> string \<Rightarrow> string list \<Rightarrow> string \<Rightarrow> bool" where
  "shortest_walk G s p n \<longleftrightarrow> walk G s p n \<and> (\<forall>p'. walk G s p' n \<longrightarrow> length p \<le> length p')"

definition is_node :: "crd_graph \<Rightarrow> string \<Rightarrow> bool" where
  "is_node G n \<longleftrightarrow> (case gm_get G n of Some dev \<Rightarrow> DeviceType dev = CRD_NODE | None \<Rightarrow> False)"

lemma consider_node_is_node:
  "snd (consider_node ce G sws depl n p a) =
     (if is_node G n then do {
        f \<leftarrow> a;
        complies \<leftarrow> pathCompliesWithRequirement ce sws p depl;
        Some (if complies then insert n f else f)
      } else a)"
  by (auto simp: consider_node_def is_node_def split: option.split)

lemma consider_fold_None:
  "fold (\<lambda>(n, p) a. snd (consider_node ce G sws depl n p a)) vs None = None"
  by (induction vs) (auto simp: consider_node_is_node)

lemma consider_fold:
  "fold (\<lambda>(n, p) a. snd (consider_node ce G sws depl n p a)) vs (Some S) = Some T \<Longrightarrow>
     T = S \<union> {n. \<exists>p. (n, p) \<in> set vs \<and> is_node G n \<and> pathCompliesWithRequirement ce sws p depl = Some True}"
proof (induction vs arbitrary: S)
  case (Cons v vs)
  obtain n p where v: "v = (n, p)" by (cases v)
  show ?case
  proof (cases "is_node G n")
    case False
    with Cons v have "T = S \<union> {n. \<exists>p. (n, p) \<in> set vs \<and> is_node G n \<and> pathCompliesWithRequirement ce sws p depl = Some True}"
      by (simp add: consider_node_is_node)
    with False v show ?thesis by auto
  next
    case True
    show ?thesis
    proof (cases "pathCompliesWithRequirement ce sws p depl")
      case None
      with True have "snd (consider_node ce G sws depl n p (Some S)) = None" by (simp add: consider_node_is_node)
      with Cons.prems v show ?thesis by (simp add: consider_fold_None)
    next
      case (Some c)
      with True Cons.prems v Cons.IH [of "if c then insert n S else S"] show ?thesis
        by (cases c) (auto simp: consider_node_is_node)
    qed
  qed
qed simp

lemma traverse_consider:
  "traverseTopology s G (consider_node ce G sws depl) a = fold (\<lambda>(n, p) a. snd (consider_node ce G sws depl n p a)) (fst (start_trace G s)) a"
  unfolding traverseTopology_def start_trace_def by (rule traverse_loop_trace) (simp add: consider_node_def)

lemma feasible_fold_None: "fold (\<lambda>s. traverseTopology s G (consider_node ce G sws depl)) ss None = None"
  by (induction ss) (simp_all add: traverse_consider consider_fold_None)

lemma feasible_fold:
  "fold (\<lambda>s. traverseTopology s G (consider_node ce G sws depl)) ss (Some S) = Some T \<Longrightarrow>
     T = S \<union> {n. \<exists>s \<in> set ss. \<exists>p. bfs_path G s n = Some p \<and> is_node G n \<and> pathCompliesWithRequirement ce sws p depl = Some True}"
proof (induction ss arbitrary: S)
  case (Cons s ss)
  show ?case
  proof (cases "traverseTopology s G (consider_node ce G sws depl) (Some S)")
    case None
    with Cons.prems show ?thesis by (simp add: feasible_fold_None)
  next
    case (Some S1)
    with consider_fold have "S1 = S \<union> {n. \<exists>p. bfs_path G s n = Some p \<and> is_node G n \<and> pathCompliesWithRequirement ce sws p depl = Some True}"
      unfolding traverse_consider bfs_path_visits by blast
    with Some Cons.prems Cons.IH [of S1] show ?thesis by auto
  qed
qed simp

section \<open>Properties\<close>

text \<open>C18: the nodes the operator picks are exactly the nodes of the topology that can be reached from an ingress node on a
  path that complies with the requirement, where the path considered is the one shortest path on which the
  traversal finds the node.\<close>

theorem feasible_nodes_spec:
  assumes "feasible_nodes ce topo sws depl = Some S"
  defines "G \<equiv> crd_TopologyToGraph topo"
  shows "(n \<in> S \<longleftrightarrow> (\<exists>i \<in> set (IngressNodeNames (extIngressInfo depl)). \<exists>p. bfs_path G i n = Some p \<and> is_node G n
       \<and> pathCompliesWithRequirement ce sws p depl = Some True))
    \<and> (bfs_path G i n = Some p \<longrightarrow> shortest_walk G i p n) \<and> (bfs_path G i n \<noteq> None \<longleftrightarrow> reachable G i n)"
proof (intro conjI)
  show "n \<in> S \<longleftrightarrow> (\<exists>i \<in> set (IngressNodeNames (extIngressInfo depl)). \<exists>p. bfs_path G i n = Some p \<and> is_node G n
       \<and> pathCompliesWithRequirement ce sws p depl = Some True)"
    using feasible_fold [OF assms(1) [unfolded feasible_nodes_def Let_def]] by (simp add: G_def)
  show "bfs_path G i n = Some p \<longrightarrow> shortest_walk G i p n" by (simp add: shortest_walk_def bfs_path_shortest)
  show "bfs_path G i n \<noteq> None \<longleftrightarrow> reachable G i n" by (rule bfs_path_shortest)
qed

lemma uint_digits_stuck: "\<exists>c \<in> set cs. digit_of c = None \<and> c \<noteq> CHR ''_'' \<Longrightarrow> uint_digits base m us n sn cs = None"
  by (induction base m us n sn cs rule: uint_digits.induct) (auto split: option.splits)

lemma literal_base_keeps:
  assumes "c \<in> set s" and "lower c \<notin> {98, 111, 120}" and "c \<noteq> CHR ''0''"
  shows "c \<in> set (snd (literal_base s))"
  using assms by (auto simp: literal_base_def split: list.split)

lemma ParseUint0_stuck:
  assumes "c \<in> set s" and "digit_of c = None" and "c \<noteq> CHR ''_''" and "lower c \<notin> {98, 111, 120}" and "c \<noteq> CHR ''0''"
  shows "ParseUint0 s b = None"
proof -
  obtain base ds where lb: "literal_base s = (base, ds)" by (cases "literal_base s")
  with literal_base_keeps [OF assms(1,4,5)] have "c \<in> set ds" by simp
  with assms(2,3) have "uint_digits base m True 0 False ds = None" for m by (intro uint_digits_stuck) auto
  with lb show ?thesis by (simp add: ParseUint0_def split: option.split)
qed

lemma ParseInt0_percent: "ParseInt0 (r @ ''%'') b = None"
proof -
  have stuck: "ParseUint0 s n = None" if "CHR ''%'' \<in> set s" for s n
    using that by (rule ParseUint0_stuck) (simp_all add: digit_of_def lower_def)
  show ?thesis by (cases r) (simp_all add: ParseInt0_def stuck)
qed

lemma ParseInt0_fmt:
  assumes "k < 2 ^ 31"
  shows "ParseInt0 (fmt_uint k) 32 = Some (int k)"
proof -
  have parsed: "ParseUint0 (fmt_uint k) 32 = Some k" using assms by (intro ParseUint0_fmt) simp_all
  obtain d ds where d: "dec_digits k = d # ds" by (cases "dec_digits k") auto
  with dec_digits_bound [of d k] have "d < 10" by simp
  then have "digit_char d \<noteq> CHR ''+'' \<and> digit_char d \<noteq> CHR ''-''" by (auto dest!: less_10_cases simp: digit_char_def)
  moreover have "fmt_uint k = digit_char d # map digit_char ds" by (simp add: fmt_uint_def d)
  ultimately show ?thesis using parsed assms by (simp add: ParseInt0_def)
qed

lemma fmt_uint_not_percent: "fmt_uint k \<noteq> ''%'' \<and> fmt_uint k \<noteq> []"
proof -
  obtain d ds where d: "dec_digits k = d # ds" by (cases "dec_digits k") auto
  with dec_digits_bound [of d k] have "d < 10" by simp
  then have "digit_char d \<noteq> CHR ''%''" by (auto dest!: less_10_cases simp: digit_char_def)
  then show ?thesis by (simp add: fmt_uint_def d)
qed

lemma HasSuffix_percent: "HasSuffix ''%'' r \<longleftrightarrow> r = [] \<or> r = ''%''"
  by (cases r; cases "tl r") (auto simp: HasSuffix_def)

lemma number_complies:
  assumes "k < 2 ^ 31"
  shows "pathCompliesWithRequirement ce sws path (d\<lparr>RequireAtLeastIntDevices := Some (fmt_uint k)\<rparr>) =
    Some (k \<le> countIncSwitchesOnPathWithRequiredProgram path sws (RequiredProgram d))"
proof -
  have "countIncSwitchesOnPathWithRequiredProgram path sws (RequiredProgram d) \<le> length path"
    by (simp add: countIncSwitchesOnPathWithRequiredProgram_def)
  then show ?thesis
    by (auto simp: pathCompliesWithRequirement_def HasSuffix_percent fmt_uint_not_percent ParseInt0_fmt [OF assms])
qed

text \<open>C19: the requirement on the switches of a path, as the code reads it: none is always met; a number is met by a path with at
  least as many switches that run the program; every percentage is met, since the test for the percent sign has its
  arguments swapped; an empty text panics.\<close>

theorem requirement_meaning:
  fixes ce :: "nat \<Rightarrow> nat \<Rightarrow> int \<Rightarrow> bool" and sws :: "(string, inc_switch_cr) gomap" and path :: "string list" and d :: external_deployment
  assumes "k < 2 ^ 31"
  defines "complies \<equiv> \<lambda>r. pathCompliesWithRequirement ce sws path (d\<lparr>RequireAtLeastIntDevices := r\<rparr>)"
  shows "complies None = Some True
    \<and> complies (Some (fmt_uint k)) = Some (k \<le> countIncSwitchesOnPathWithRequiredProgram path sws (RequiredProgram d))
    \<and> complies (Some (num @ ''%'')) = Some True
    \<and> complies (Some []) = None"
proof (intro conjI)
  show "complies (Some (fmt_uint k)) = Some (k \<le> countIncSwitchesOnPathWithRequiredProgram path sws (RequiredProgram d))"
    unfolding complies_def by (rule number_complies [OF assms(1)])
  show "complies (Some (num @ ''%'')) = Some True"
    using ParseInt0_percent [of num 32]
    by (cases "num = []")
      (simp_all add: complies_def pathCompliesWithRequirement_def HasSuffix_percent ParseInt0_def ParseUint0_def)
qed (simp_all add: complies_def pathCompliesWithRequirement_def HasSuffix_percent)

section \<open>The traversal ends\<close>

text \<open>A consumer that also keeps the visits it is called for.\<close>

definition logged :: "(string \<Rightarrow> string list \<Rightarrow> 'a \<Rightarrow> bool \<times> 'a) \<Rightarrow> string \<Rightarrow> string list \<Rightarrow> 'a \<times> (string \<times> string list) list \<Rightarrow>
     bool \<times> 'a \<times> (string \<times> string list) list" where
  "logged consumer n p = (\<lambda>(a, log). (fst (consumer n p a), snd (consumer n p a), log @ [(n, p)]))"

lemma logged_apply: "logged consumer n p (a, log) = (fst (consumer n p a), snd (consumer n p a), log @ [(n, p)])"
  by (simp add: logged_def)

lemma traverse_logged:
  "\<exists>vs rest. traverse_loop G (logged consumer) st (a, log) = (traverse_loop G consumer st a, log @ vs) \<and> fst (trace G st) = vs @ rest
     \<and> ((\<forall>n p a. \<not> fst (consumer n p a)) \<longrightarrow> rest = [])"
proof (induction G st arbitrary: a log rule: trace.induct)
  case (2 G visited cur q paths)
  let ?p = "case gm_get paths cur of Some p \<Rightarrow> p | None \<Rightarrow> []"
  let ?st = "push_links (?p @ [cur]) (links_of G cur) (visited, q, paths)"
  obtain b a1 where c: "consumer cur ?p a = (b, a1)" by (cases "consumer cur ?p a")
  have split: "fst (trace G (visited, cur # q, paths)) = (cur, ?p) # fst (trace G ?st)" by (simp add: Let_def case_prod_beta)
  show ?case
  proof (cases b)
    case True
    then have stops: "fst (consumer cur ?p a)" using c by simp
    show ?thesis
    proof (rule exI [of _ "[(cur, ?p)]"], rule exI [of _ "fst (trace G ?st)"], intro conjI)
      show "(\<forall>n p a. \<not> fst (consumer n p a)) \<longrightarrow> fst (trace G ?st) = []" using stops by blast
    qed (use c True split in \<open>simp_all add: logged_apply Let_def\<close>)
  next
    case False
    from "2.IH" [OF refl, of a1 "log @ [(cur, ?p)]"] obtain vs rest
      where "traverse_loop G (logged consumer) ?st (a1, log @ [(cur, ?p)]) = (traverse_loop G consumer ?st a1, (log @ [(cur, ?p)]) @ vs)"
        "fst (trace G ?st) = vs @ rest" "(\<forall>n p a. \<not> fst (consumer n p a)) \<longrightarrow> rest = []" by blast
    with c False show ?thesis unfolding split
      by (intro exI [of _ "(cur, ?p) # vs"] exI [of _ rest]) (simp add: logged_apply Let_def)
  qed
qed simp

abbreviation named_peers :: "crd_graph \<Rightarrow> string set" where
  "named_peers G \<equiv> set (concat (map (PeerNames \<circ> snd) G))"

lemma reachable_named: "reachable G s n \<Longrightarrow> n = s \<or> n \<in> named_peers G"
proof -
  assume "reachable G s n"
  then obtain p where "walk G s p n" unfolding reachable_def by blast
  then show ?thesis using links_of_subset by (cases p rule: rev_cases) (auto simp: walk_snoc)
qed

text \<open>C20: the traversal of the topology ends for every consumer, whatever links the devices have: it calls the consumer at most once for each device,
  with a shortest path to it, so at most once more than there are names on links; and for every device that can be reached if the
  consumer never asks to stop.\<close>

theorem traversal_ends:
  "\<exists>vs. traverseTopology s G (logged consumer) (a, []) = (traverseTopology s G consumer a, vs)
    \<and> distinct (map fst vs) \<and> length vs \<le> Suc (card (named_peers G)) \<and> (\<forall>(n, p) \<in> set vs. shortest_walk G s p n)
    \<and> ((\<forall>n p a. \<not> fst (consumer n p a)) \<longrightarrow> fst ` set vs = {n. reachable G s n})"
proof -
  obtain vs rest where vs: "traverseTopology s G (logged consumer) (a, []) = (traverseTopology s G consumer a, vs)"
      "fst (start_trace G s) = vs @ rest" "(\<forall>n p a. \<not> fst (consumer n p a)) \<longrightarrow> rest = []"
    using traverse_logged [of G consumer "([s], [s], [(s, [])])" a "[]"] unfolding traverseTopology_def start_trace_def append_Nil by blast
  have dist: "distinct (map fst (fst (start_trace G s)))" by (rule trace_start)
  have path: "bfs_path G s n = Some p \<longleftrightarrow> (n, p) \<in> set (vs @ rest)" for n p using bfs_path_visits [of G s n p] vs(2) by simp
  have all: "fst ` set (vs @ rest) = {n. reachable G s n}"
  proof (rule set_eqI)
    fix n
    have "n \<in> fst ` set (vs @ rest) \<longleftrightarrow> (\<exists>p. bfs_path G s n = Some p)" unfolding path by force
    then show "n \<in> fst ` set (vs @ rest) \<longleftrightarrow> n \<in> {n. reachable G s n}" using bfs_path_shortest(2) [of G s n] by auto
  qed
  have "fst ` set vs \<subseteq> insert s (named_peers G)" using all reachable_named [of G s] unfolding set_append image_Un by blast
  then have "card (fst ` set vs) \<le> card (insert s (named_peers G))" by (intro card_mono) simp_all
  also have "\<dots> \<le> Suc (card (named_peers G))" by (simp add: card_insert_le_m1 card_insert_if)
  finally have "length vs \<le> Suc (card (named_peers G))"
    using dist vs(2) distinct_card [of "map fst vs"] by simp
  moreover have "shortest_walk G s p n" if "(n, p) \<in> set vs" for n p
    using that path [of n p] bfs_path_shortest(1) [of G s n p] by (auto simp: shortest_walk_def)
  ultimately show ?thesis
    using vs dist all by (intro exI [of _ vs]) auto
qed

section \<open>The requirement and the traversal on a small topology\<close>

definition sample_ext_deployment :: "string option \<Rightarrow> external_deployment" where
  "sample_ext_deployment r =
     \<lparr>extDeplMeta = NewMeta ''web'' ''default'',
      DeploymentTemplate = \<lparr>templateLabels = Some [], deploymentSelector = \<lparr>matchLabels = [], matchExpressions = []\<rparr>, schedulerName = [], affinityValues = None, otherSpec = []\<rparr>,
      RequiredProgram = ''telemetry'',
      extIngressInfo = \<lparr>IngressType = NODE_PORT, IngressNodeNames = [''w1''], NodePortServiceName = ''svc'', NodePortServiceNamespace = ''default''\<rparr>,
      extMonitoringPolicy = MONITOR_ALL, RequireAtLeastIntDevices = r, BasicStatus = []\<rparr>"

definition crd_device :: "crd_device_type \<Rightarrow> string \<Rightarrow> string list \<Rightarrow> network_device" where
  "crd_device t n ps = \<lparr>DeviceType = t, DevName = n, PeerNames = ps\<rparr>"

definition sample_crd_topology :: topology_cr where
  "sample_crd_topology = \<lparr>topoMeta = NewMeta ''cluster-topo'' ''default'', Graph =
     [crd_device CRD_NODE ''w1'' [''s1''], crd_device CRD_INC_SWITCH ''s1'' [''w1'', ''n1'', ''w3''],
      crd_device CRD_NET ''n1'' [''s1'', ''w2''], crd_device CRD_NODE ''w2'' [''n1''], crd_device CRD_NODE ''w3'' [''s1'']]\<rparr>"

definition sample_switch_cr :: "string \<Rightarrow> string \<Rightarrow> inc_switch_cr" where
  "sample_switch_cr n p = \<lparr>switchMeta = NewMeta n ''default'', switchArch = ''v1model'', switchProgram = p\<rparr>"

theorem requirement_meaning_witness:
  "pathCompliesWithRequirement (\<lambda>_ _ _. False) [(''s1'', sample_switch_cr ''s1'' ''telemetry'')] [''w1'', ''s1'']
     (sample_ext_deployment None\<lparr>RequireAtLeastIntDevices := Some (fmt_uint 1)\<rparr>) = Some True"
  using requirement_meaning [of 1 "\<lambda>_ _ _. False" "[(''s1'', sample_switch_cr ''s1'' ''telemetry'')]" "[''w1'', ''s1'']" "sample_ext_deployment None" "[]"]
  by (simp add: countIncSwitchesOnPathWithRequiredProgram_def sample_switch_cr_def sample_ext_deployment_def)

lemma sample_start_trace:
  "fst (start_trace (crd_TopologyToGraph sample_crd_topology) ''w1'') =
     [(''w1'', []), (''s1'', [''w1'']), (''n1'', [''w1'', ''s1'']), (''w3'', [''w1'', ''s1'']), (''w2'', [''w1'', ''s1'', ''n1''])]"
  by code_simp

lemma sample_feasible:
  "feasible_nodes (\<lambda>_ _ _. False) sample_crd_topology [(''s1'', sample_switch_cr ''s1'' ''telemetry'')]
     (sample_ext_deployment None\<lparr>RequireAtLeastIntDevices := Some (fmt_uint 1)\<rparr>) = Some {''w2'', ''w3''}"
proof -
  have "is_node (crd_TopologyToGraph sample_crd_topology) n \<longleftrightarrow> n \<in> {''w1'', ''w2'', ''w3''}" for n
    by (auto simp: is_node_def crd_TopologyToGraph_def sample_crd_topology_def crd_device_def)
  moreover have "pathCompliesWithRequirement (\<lambda>_ _ _. False) sws p (sample_ext_deployment None\<lparr>RequireAtLeastIntDevices := Some (fmt_uint 1)\<rparr>) =
      Some (1 \<le> countIncSwitchesOnPathWithRequiredProgram p sws ''telemetry'')" for p sws
    by (subst number_complies) (simp_all add: sample_ext_deployment_def)
  moreover have "IngressNodeNames (extIngressInfo (sample_ext_deployment None)) = [''w1'']" by (simp add: sample_ext_deployment_def)
  ultimately show ?thesis
    by (simp add: feasible_nodes_def sample_switch_cr_def traverse_consider sample_start_trace
        consider_node_is_node countIncSwitchesOnPathWithRequiredProgram_def insert_commute del: One_nat_def)
qed

theorem feasible_nodes_spec_witness:
  "(\<exists>i \<in> {''w1''}. \<exists>p. bfs_path (crd_TopologyToGraph sample_crd_topology) i ''w3'' = Some p
     \<and> is_node (crd_TopologyToGraph sample_crd_topology) ''w3''
     \<and> pathCompliesWithRequirement (\<lambda>_ _ _. False) [(''s1'', sample_switch_cr ''s1'' ''telemetry'')] p
         (sample_ext_deployment None\<lparr>RequireAtLeastIntDevices := Some (fmt_uint 1)\<rparr>) = Some True)"
  using feasible_nodes_spec [OF sample_feasible, of "''w3''" "''w1''" "[]"] by (simp add: sample_ext_deployment_def)

theorem traversal_ends_witness:
  "\<exists>vs. snd (traverseTopology ''w1'' (crd_TopologyToGraph sample_crd_topology) (logged (\<lambda>n p a. (False, a))) ((), [])) = vs
     \<and> length vs \<le> 7 \<and> fst ` set vs = {n. reachable (crd_TopologyToGraph sample_crd_topology) ''w1'' n}"
proof -
  have "card (named_peers (crd_TopologyToGraph sample_crd_topology)) \<le> 6"
    by (simp add: crd_TopologyToGraph_def sample_crd_topology_def crd_device_def card_insert_if)
  with traversal_ends [of "''w1''" "crd_TopologyToGraph sample_crd_topology" "\<lambda>n p a. (False, a)" "()"]
  show ?thesis by (elim exE conjE) (rule exI, intro conjI, simp, linarith, simp)
qed

end
