(* ===== verification/EndpointProofs.thy ===== *)
theory EndpointProofs
  imports Endpoints
begin

text \<open>
  The entries of telemetry endpoints under the two controllers that write them: the deployment controller makes them
  follow the pods, and a second pass changes nothing; together with the endpoints controller the internal entries
  settle, and the external ones do not when a pod is gone.
\<close>

abbreviation entry_uid :: "'a endpoints_entry_scheme \<Rightarrow> string" where
  "entry_uid ep \<equiv> refUID (PodReference ep)"

abbreviation terminated :: "'a endpoints_entry_scheme \<Rightarrow> 'a endpoints_entry_scheme" where
  "terminated ep \<equiv> ep\<lparr>EntryStatus := EP_TERMINATING\<rparr>"

section \<open>The result of the two loops\<close>

lemma check_entries_eq:
  "check_entries pods eps (v, c) =
     (v @ map terminated (filter (\<lambda>ep. \<not> has_pod pods ep) eps),
      c \<or> (\<exists>ep \<in> set eps. \<not> has_pod pods ep \<and> EntryStatus ep \<noteq> EP_TERMINATING))"
  by (induction pods eps "(v, c)" arbitrary: v c rule: check_entries.induct) auto

abbreviation needs_entry :: "'a endpoints_entry_scheme list \<Rightarrow> pod \<Rightarrow> bool" where
  "needs_entry eps pod \<equiv> managed_entry eps pod = None \<and> podPhase pod = PodRunning"

definition entries_of_pod :: "(pod \<Rightarrow> 'a endpoints_entry_scheme) \<Rightarrow> 'a endpoints_entry_scheme list \<Rightarrow> pod \<Rightarrow> 'a endpoints_entry_scheme list" where
  "entries_of_pod new_entry eps pod =
     (case managed_entry eps pod of Some ep \<Rightarrow> [ep] | None \<Rightarrow> if podPhase pod = PodRunning then [new_entry pod] else [])"

lemma check_pods_eq:
  "check_pods new_entry eps pods (v, c) =
     (v @ concat (map (entries_of_pod new_entry eps) pods), c \<or> (\<exists>pod \<in> set pods. needs_entry eps pod))"
  by (induction new_entry eps pods "(v, c)" arbitrary: v c rule: check_pods.induct)
    (auto simp: entries_of_pod_def split: option.split)

lemma reconcile_entries_eq:
  "reconcile_entries new_entry pods eps =
     (map terminated (filter (\<lambda>ep. \<not> has_pod pods ep) eps) @ concat (map (entries_of_pod new_entry eps) pods),
      (\<exists>ep \<in> set eps. \<not> has_pod pods ep \<and> EntryStatus ep \<noteq> EP_TERMINATING) \<or> (\<exists>pod \<in> set pods. needs_entry eps pod))"
  by (simp add: reconcile_entries_def check_entries_eq check_pods_eq)

lemma managed_entry_SomeD: "managed_entry eps pod = Some ep \<Longrightarrow> ep \<in> set eps \<and> entry_uid ep = podUID pod"
  by (auto simp: managed_entry_def find_Some_iff)

lemma managed_entry_None: "managed_entry eps pod = None \<longleftrightarrow> (\<forall>ep \<in> set eps. entry_uid ep \<noteq> podUID pod)"
  by (auto simp: managed_entry_def find_None_iff)

lemma has_pod_iff: "has_pod pods ep \<longleftrightarrow> (\<exists>pod \<in> set pods. podUID pod = entry_uid ep)"
  by (auto simp: has_pod_def list_ex_iff)

lemma managed_entry_distinct:
  assumes "distinct (map entry_uid eps)" and "ep \<in> set eps" and "entry_uid ep = podUID pod"
  shows "managed_entry eps pod = Some ep"
  using assms by (induction eps) (auto simp: managed_entry_def, metis imageI)

lemma managed_entry_in: "distinct (map entry_uid eps) \<Longrightarrow> managed_entry eps pod = Some ep \<longleftrightarrow> ep \<in> set eps \<and> entry_uid ep = podUID pod"
  using managed_entry_SomeD managed_entry_distinct by blast

section \<open>The deployment controller\<close>

text \<open>What holds of the entries after a pass.\<close>

definition follows :: "(pod \<Rightarrow> 'a endpoints_entry_scheme) \<Rightarrow> pod list \<Rightarrow> 'a endpoints_entry_scheme list \<Rightarrow> 'a endpoints_entry_scheme set" where
  "follows new_entry pods eps =
     {ep \<in> set eps. has_pod pods ep} \<union> terminated ` {ep \<in> set eps. \<not> has_pod pods ep}
     \<union> new_entry ` {pod \<in> set pods. needs_entry eps pod}"

lemma set_reconcile_entries:
  assumes "distinct (map entry_uid eps)"
  shows "set (fst (reconcile_entries new_entry pods eps)) = follows new_entry pods eps"
proof -
  have "set (entries_of_pod new_entry eps pod) =
      {ep \<in> set eps. entry_uid ep = podUID pod} \<union> {ep. needs_entry eps pod \<and> ep = new_entry pod}" for pod
  proof (cases "managed_entry eps pod")
    case None
    then have "\<forall>ep \<in> set eps. entry_uid ep \<noteq> podUID pod" by (simp add: managed_entry_None)
    with None show ?thesis by (auto simp: entries_of_pod_def)
  next
    case (Some ep)
    then have "{ep \<in> set eps. entry_uid ep = podUID pod} = {ep}"
      using managed_entry_SomeD [OF Some] Some by (auto dest: managed_entry_distinct [OF assms])
    with Some show ?thesis by (simp add: entries_of_pod_def)
  qed
  then show ?thesis
    unfolding reconcile_entries_eq follows_def by (auto simp: has_pod_iff)
qed

lemma uids_of_pod:
  assumes "\<And>pod. entry_uid (new_entry pod) = podUID pod"
  shows "map entry_uid (entries_of_pod new_entry eps pod) = [] \<or> map entry_uid (entries_of_pod new_entry eps pod) = [podUID pod]"
  using assms managed_entry_SomeD [of eps pod] by (auto simp: entries_of_pod_def split: option.split)

lemma disjoint_sets_by: "A \<subseteq> {x} \<Longrightarrow> B \<subseteq> C \<Longrightarrow> x \<notin> C \<Longrightarrow> A \<inter> B = {}"
  by blast

lemma distinct_reconcile_entries:
  assumes new: "\<And>pod. entry_uid (new_entry pod) = podUID pod"
    and pods: "distinct (map podUID pods)" and eps: "distinct (map entry_uid eps)"
  shows "distinct (map entry_uid (fst (reconcile_entries new_entry pods eps)))"
proof -
  have sub: "entry_uid ` set (entries_of_pod new_entry eps p) \<subseteq> {podUID p}" for p
    using uids_of_pod [of new_entry eps p, OF new] by (auto simp flip: set_map)
  have each: "distinct (map entry_uid (entries_of_pod new_entry eps p))" for p
    using uids_of_pod [of new_entry eps p, OF new] by auto
  have subs: "entry_uid ` set (concat (map (entries_of_pod new_entry eps) ps)) \<subseteq> podUID ` set ps" for ps
  proof (induction ps)
    case (Cons p ps)
    with sub [of p] show ?case unfolding list.map concat.simps set_append image_Un list.set image_insert by blast
  qed simp
  have "distinct (map entry_uid (concat (map (entries_of_pod new_entry eps) ps)))" if "distinct (map podUID ps)" for ps
    using that
  proof (induction ps)
    case (Cons p ps)
    have "podUID p \<notin> podUID ` set ps" using Cons.prems by simp
    then have "entry_uid ` set (entries_of_pod new_entry eps p) \<inter> entry_uid ` set (concat (map (entries_of_pod new_entry eps) ps)) = {}"
      by (rule disjoint_sets_by [OF sub subs])
    moreover have "distinct (map podUID ps)" using Cons.prems by simp
    ultimately show ?case using Cons.IH each [of p] by (simp only: list.map concat.simps map_append distinct_append set_map simp_thms)
  qed simp
  moreover have "distinct (map entry_uid (map terminated (filter (\<lambda>ep. \<not> has_pod pods ep) eps)))"
    using distinct_map_filter [OF eps, of "\<lambda>ep. \<not> has_pod pods ep"] by (simp only: map_map comp_def) simp
  moreover have "entry_uid ` set (map terminated (filter (\<lambda>ep. \<not> has_pod pods ep) eps)) \<inter> podUID ` set pods = {}"
  proof -
    have "entry_uid ep \<notin> podUID ` set pods" if "\<not> has_pod pods ep" for ep :: "'a endpoints_entry_scheme"
      using that unfolding has_pod_iff image_iff by metis
    then have "\<forall>x \<in> set (map terminated (filter (\<lambda>ep. \<not> has_pod pods ep) eps)). entry_uid x \<notin> podUID ` set pods" by simp
    then show ?thesis by blast
  qed
  moreover have "entry_uid ` set (concat (map (entries_of_pod new_entry eps) pods)) \<subseteq> podUID ` set pods"
    by (rule subs)
  ultimately show ?thesis
    using pods unfolding reconcile_entries_eq fst_conv map_append distinct_append set_map by blast
qed

lemma reconcile_entries_changed:
  assumes new: "\<And>pod. entry_uid (new_entry pod) = podUID pod" and eps: "distinct (map entry_uid eps)"
  shows "snd (reconcile_entries new_entry pods eps) \<longleftrightarrow> follows new_entry pods eps \<noteq> set eps"
proof
  assume "snd (reconcile_entries new_entry pods eps)"
  then consider (stale) ep where "ep \<in> set eps" "\<not> has_pod pods ep" "EntryStatus ep \<noteq> EP_TERMINATING"
    | (new) pod where "pod \<in> set pods" "needs_entry eps pod"
    unfolding reconcile_entries_eq by auto
  then show "follows new_entry pods eps \<noteq> set eps"
  proof cases
    case stale
    moreover have "has_pod pods (new_entry pod)" if "pod \<in> set pods" for pod using that unfolding has_pod_iff new by blast
    ultimately have "ep \<notin> follows new_entry pods eps" by (auto simp: follows_def)
    with stale show ?thesis by auto
  next
    case new
    then have "new_entry pod \<in> follows new_entry pods eps" by (simp add: follows_def)
    moreover have "new_entry pod \<notin> set eps" using new assms(1) [of pod] unfolding managed_entry_None by blast
    ultimately show ?thesis by auto
  qed
next
  assume ne: "follows new_entry pods eps \<noteq> set eps"
  show "snd (reconcile_entries new_entry pods eps)"
  proof (rule ccontr)
    assume same: "\<not> snd (reconcile_entries new_entry pods eps)"
    then have "terminated ep = ep" if "ep \<in> set eps" "\<not> has_pod pods ep" for ep
      using that unfolding reconcile_entries_eq by (cases ep) auto
    then have "terminated ` {ep \<in> set eps. \<not> has_pod pods ep} = {ep \<in> set eps. \<not> has_pod pods ep}"
      by (auto intro!: image_eqI [of _ terminated] simp del: image_eqI)
    with same ne show False unfolding follows_def reconcile_entries_eq by auto
  qed
qed

lemma follows_stable:
  assumes new: "\<And>pod. entry_uid (new_entry pod) = podUID pod" and eps: "set res = follows new_entry pods eps"
  shows "\<not> snd (reconcile_entries new_entry pods res)"
proof -
  have "EntryStatus ep = EP_TERMINATING" if "ep \<in> set res" "\<not> has_pod pods ep" for ep
    using that unfolding eps follows_def by (auto simp: has_pod_iff new)
  moreover have "\<not> needs_entry res pod" if "pod \<in> set pods" for pod
  proof
    assume no: "needs_entry res pod"
    have "\<exists>ep \<in> set res. entry_uid ep = podUID pod"
    proof (cases "managed_entry eps pod")
      case None
      with that no have "new_entry pod \<in> set res" by (simp add: eps follows_def)
      with new show ?thesis by blast
    next
      case (Some ep)
      with managed_entry_SomeD [OF this] that have "ep \<in> set res" by (auto simp: eps follows_def has_pod_iff)
      with managed_entry_SomeD [OF Some] show ?thesis by blast
    qed
    with no show False by (simp add: managed_entry_None)
  qed
  ultimately show ?thesis unfolding reconcile_entries_eq by auto
qed

section \<open>The endpoints controllers\<close>





text \<open>What the two controllers make of the entries of external endpoints, one after the other, when all calls succeed.\<close>

definition external_round :: "pod list \<Rightarrow> endpoints_entry list \<Rightarrow> endpoints_entry list" where
  "external_round pods eps = ready_entries (fst (reconcile_entries new_external_entry pods eps))"

lemma external_round_keeps_stale:
  assumes "ep \<in> set eps" and "\<not> has_pod pods ep"
  shows "ep\<lparr>EntryStatus := EP_READY\<rparr> \<in> set (external_round pods eps)"
proof -
  have "terminated ep \<in> set (fst (reconcile_entries new_external_entry pods eps))" using assms by (auto simp: reconcile_entries_eq)
  then have "(terminated ep)\<lparr>EntryStatus := EP_READY\<rparr> \<in> set (external_round pods eps)" unfolding external_round_def ready_entries_def set_map by (rule imageI)
  then show ?thesis by simp
qed

section \<open>Properties\<close>

text \<open>C13: after a pass of a deployment controller no pod has two entries; the entries with a pod are as they were, those
  without one are terminating, and every running pod without an entry has a new one. The pass reports a change exactly if
  the entries differ, and a second pass reports none.\<close>

theorem entries_follow_pods:
  assumes "\<forall>pod. entry_uid (new_entry pod) = podUID pod"
    and "distinct (map podUID pods)" and "distinct (map entry_uid eps)"
    and "reconcile_entries new_entry pods eps = (res, changed)"
  shows "distinct (map entry_uid res)
    \<and> set res = {ep \<in> set eps. has_pod pods ep} \<union> terminated ` {ep \<in> set eps. \<not> has_pod pods ep}
        \<union> new_entry ` {pod \<in> set pods. managed_entry eps pod = None \<and> podPhase pod = PodRunning}
    \<and> (changed \<longleftrightarrow> set res \<noteq> set eps)
    \<and> \<not> snd (reconcile_entries new_entry pods res)"
proof -
  from assms(1) have new: "entry_uid (new_entry pod) = podUID pod" for pod by blast
  have res: "set res = follows new_entry pods eps" using set_reconcile_entries [OF assms(3), of new_entry pods] assms(4) by simp
  with reconcile_entries_changed [of new_entry eps pods, OF new assms(3)] have "changed \<longleftrightarrow> set res \<noteq> set eps" using assms(4) by simp
  with distinct_reconcile_entries [of new_entry pods eps, OF new assms(2,3)] res follows_stable [of new_entry res pods eps, OF new res]
  show ?thesis using assms(4) by (simp add: follows_def)
qed

definition sample_pod :: "string \<Rightarrow> string \<Rightarrow> pod" where
  "sample_pod n phase = \<lparr>podMeta = NewMeta n ''default'', podKind = ''Pod'', podAPIVersion = ''v1'', podUID = n,
     podPhase = phase, podNodeName = ''w1'', podIP = ''10.0.0.1''\<rparr>"

theorem entries_follow_pods_witness:
  "\<not> snd (reconcile_entries new_internal_entry [sample_pod ''a'' PodRunning, sample_pod ''b'' ''Pending'']
     (fst (reconcile_entries new_internal_entry [sample_pod ''a'' PodRunning, sample_pod ''b'' ''Pending''] [new_internal_entry (sample_pod ''c'' PodRunning)])))"
  using entries_follow_pods [of new_internal_entry "[sample_pod ''a'' PodRunning, sample_pod ''b'' ''Pending'']"
    "[new_internal_entry (sample_pod ''c'' PodRunning)]", OF _ _ _ prod.collapse [symmetric]]
  by (simp add: new_internal_entry_def pod_ref_def sample_pod_def)



text \<open>C15: the entries of an external deployment never settle once a pod is gone: the endpoints controller makes the terminating
  entry ready again instead of removing it, so that the next pass of the deployment controller reports a change, for ever.\<close>

theorem external_entries_never_settle:
  assumes "ep \<in> set eps" and "\<not> has_pod pods ep"
  shows "ep\<lparr>EntryStatus := EP_READY\<rparr> \<in> set ((external_round pods ^^ Suc n) eps)
    \<and> snd (reconcile_entries new_external_entry pods ((external_round pods ^^ Suc n) eps))"
proof -
  have kept: "ep\<lparr>EntryStatus := EP_READY\<rparr> \<in> set ((external_round pods ^^ Suc n) eps)"
  proof (induction n)
    case 0
    show ?case using external_round_keeps_stale [OF assms] by simp
  next
    case (Suc n)
    from external_round_keeps_stale [OF Suc.IH] assms(2) show ?case by (simp add: has_pod_iff)
  qed
  moreover have "\<not> has_pod pods (ep\<lparr>EntryStatus := EP_READY\<rparr>)" using assms(2) by (simp add: has_pod_iff)
  ultimately have "\<exists>x \<in> set ((external_round pods ^^ Suc n) eps). \<not> has_pod pods x \<and> EntryStatus x \<noteq> EP_TERMINATING"
    by (intro bexI [of _ "ep\<lparr>EntryStatus := EP_READY\<rparr>"]) simp_all
  with kept show ?thesis unfolding reconcile_entries_eq by simp
qed

theorem external_entries_never_settle_witness:
  "snd (reconcile_entries new_external_entry [] ((external_round [] ^^ Suc 7) [new_external_entry (sample_pod ''a'' PodRunning)]))"
  using external_entries_never_settle [of "new_external_entry (sample_pod ''a'' PodRunning)" "[new_external_entry (sample_pod ''a'' PodRunning)]" "[]" 7]
  by (simp add: has_pod_def)

end
