(* ===== verification/OperatorProperties.thy ===== *)
theory OperatorProperties
  imports OperatorSamples StatsProofs FeasibleProofs EndpointProofs
begin

text \<open>
  Properties of the operator that need the sample cluster.
\<close>

section \<open>Statistics\<close>

text \<open>C16: whatever a Reconcile of the statistics does and however it returns, the goroutines that run are exactly those of the handlers
  that the reconciler holds, no two handlers share one, and new ones get a number that none has. (A Reconcile that blocks in a stop does not
  return.)\<close>

theorem goroutines_are_handlers:
  assumes "\<And>i. is_order (mapOrder env i)" and "stats_inv s" and "Reconcile_stats env key s = (r, s')"
  shows "stats_inv s' \<and> running (procsState s') = all_ids (collectorHandlers s')
    \<and> (\<forall>k c. gm_get (collectorHandlers s') k = Some c \<longrightarrow> one_key (statHandlers c) \<and> ids_of c \<inter> other_ids (collectorHandlers s') k = {})"
proof -
  have inv: "stats_inv s'" by (rule reconcile_stats_keeps [OF assms])
  then have ginv: "ginv (collectorHandlers s') (running (procsState s')) (fresh (procsState s'))" by (simp add: stats_inv_def)
  have "one_key (statHandlers c) \<and> ids_of c \<inter> other_ids (collectorHandlers s') k = {}" if "gm_get (collectorHandlers s') k = Some c" for k c
    using hinvD(2,3) [OF ginv_get [OF ginv that]] by blast
  with inv ginv show ?thesis by (auto simp: ginv_def)
qed

lemma no_handlers_inv: "stats_inv no_handlers"
  by (simp add: stats_inv_def no_handlers_def ginv_def all_ids_def)

abbreviation first_stats_state :: "unit stats_state" where
  "first_stats_state \<equiv> snd (Reconcile_stats (sample_stats_env [sample_stats ''st'' ''cid'' 1000]) (''default'', ''st'') no_handlers)"

lemma sample_order: "is_order (mapOrder (sample_stats_env xs) i)"
  by (simp add: sample_stats_env_def sample_operator_env_def operator_env.extend_def is_order_def stats_env.fields_def)

lemma first_stats: "running (procsState first_stats_state) = {0}"
  by (simp add: sample_stats_env_def sample_operator_env_def operator_env.extend_def stats_env.fields_def no_handlers_def
      Reconcile_stats_def Reconcile_stats_action_def finish_def seq_def attempt_def on_stats_world_def static_client_def
      sample_stats_def NewMeta_def ObjectKey_def Let_def LoadTopology_def first_of_def sample_collector_def sample_api_service_def
      run_handler_def on_handlers_def UpdateCollectorAddress_def newCollectorStatHandlers_def CreateOrUpdateStatHandler_def
      handler_Run_def ticker_ok_def pass_def operator_env.truncate_def word_sless_alt)

theorem goroutines_are_handlers_witness: "running (procsState first_stats_state) = {0} \<and> all_ids (collectorHandlers first_stats_state) = {0}"
  using goroutines_are_handlers [OF sample_order no_handlers_inv prod.collapse [symmetric],
      of "[sample_stats ''st'' ''cid'' 1000]" "(''default'', ''st'')"] first_stats
  by simp

lemma otherwise_mono: "(if a then P else if b then Q else R) \<Longrightarrow> (R \<Longrightarrow> R') \<Longrightarrow> (if a then P else if b then Q else R')"
  by simp

text \<open>C17: an operation on the handlers of a collector blocks for ever exactly if a goroutine that it has to stop hangs in a tick. These
  are, for a new address of the collector, every handler with another address; for the removal of a collection, its handler; for the stop of
  all, every handler; and for a handler that is updated, the one that is replaced. Otherwise the operation does its work, with the one
  exception that starting a handler whose period is not positive panics. Which goroutines hang is up to the environment.\<close>

theorem operations_block_exactly_on_hung:
  assumes "handlers_inv R (c, p)" and "is_order ord"
  shows "(if collectorApiAddress c = address then UpdateCollectorAddress ord address (c, p) = Inr (c, p)
      else if \<exists>k h. gm_get (statHandlers c) k = Some h \<and> collectorAddress h \<noteq> address \<and> handlerId h \<in> hanging p
      then UpdateCollectorAddress ord address (c, p) = Inl SendBlocks
      else \<exists>c' p'. UpdateCollectorAddress ord address (c, p) = Inr (c', p') \<and> handlers_inv R (c', p')
        \<and> (\<forall>k. case gm_get (statHandlers c') k of
              None \<Rightarrow> gm_get (statHandlers c) k = None
            | Some h \<Rightarrow> gm_get (statHandlers c) k \<noteq> None \<and> collectorAddress h = address))
    \<and> (if \<exists>h. gm_get (statHandlers c) collection = Some h \<and> handlerId h \<in> hanging p
      then RemoveStatHandler collection (c, p) = Inl SendBlocks
      else \<exists>c' p'. RemoveStatHandler collection (c, p) = Inr ((c', p'), statHandlers c' \<noteq> []) \<and> handlers_inv R (c', p')
        \<and> gm_get (statHandlers c') = (gm_get (statHandlers c))(collection := None))
    \<and> (if \<exists>k h. gm_get (statHandlers c) k = Some h \<and> handlerId h \<in> hanging p
      then StopAll ord (c, p) = Inl SendBlocks
      else \<exists>p'. StopAll ord (c, p) = Inr (c\<lparr>statHandlers := []\<rparr>, p') \<and> handlers_inv R (c\<lparr>statHandlers := []\<rparr>, p'))
    \<and> (if \<exists>h. gm_get (statHandlers c) collection = Some h \<and> \<not> restarts key period c h
      then CreateOrUpdateStatHandler key collection period (c, p) = Inr (c, p)
      else if \<exists>h. gm_get (statHandlers c) collection = Some h \<and> handlerId h \<in> hanging p
      then CreateOrUpdateStatHandler key collection period (c, p) = Inl SendBlocks
      else if \<not> ticker_ok period then CreateOrUpdateStatHandler key collection period (c, p) = Inl TickerPanics
      else \<exists>s. CreateOrUpdateStatHandler key collection period (c, p) = Inr s \<and> handlers_inv R s \<and> handler_started collection (c, p) s)"
proof (intro conjI)
  have new: "\<forall>k. case gm_get (statHandlers c') k of None \<Rightarrow> gm_get (statHandlers c) k = None
      | Some h \<Rightarrow> gm_get (statHandlers c) k \<noteq> None \<and> collectorAddress h = address"
    if "readdressed {k. gm_get (statHandlers c) k \<noteq> None} (c\<lparr>collectorApiAddress := address\<rparr>) c'" for c'
  proof
    fix k
    show "case gm_get (statHandlers c') k of None \<Rightarrow> gm_get (statHandlers c) k = None
      | Some h \<Rightarrow> gm_get (statHandlers c) k \<noteq> None \<and> collectorAddress h = address"
      using readdressed_lookup [OF that, of k] by (cases "gm_get (statHandlers c') k") auto
  qed
  show "if collectorApiAddress c = address then UpdateCollectorAddress ord address (c, p) = Inr (c, p)
      else if \<exists>k h. gm_get (statHandlers c) k = Some h \<and> collectorAddress h \<noteq> address \<and> handlerId h \<in> hanging p
      then UpdateCollectorAddress ord address (c, p) = Inl SendBlocks
      else \<exists>c' p'. UpdateCollectorAddress ord address (c, p) = Inr (c', p') \<and> handlers_inv R (c', p')
        \<and> (\<forall>k. case gm_get (statHandlers c') k of None \<Rightarrow> gm_get (statHandlers c) k = None
            | Some h \<Rightarrow> gm_get (statHandlers c) k \<noteq> None \<and> collectorAddress h = address)"
    by (rule otherwise_mono [OF update_address_outcome [OF assms(2,1), of address, unfolded hangs_def]]) (use new in blast)
qed (use remove_outcome [OF assms(1), of collection] stop_all_outcome [OF assms(2,1)]
    create_or_update_outcome [OF assms(1), of collection key period] in \<open>simp_all only: hangs_def\<close>)

text \<open>A handler of a collector that does not answer: with its goroutine in a POST, the collector can be neither removed nor moved.\<close>

definition one_handler :: stat_handler where
  "one_handler = \<lparr>handlerId = 0, resourceKey = (''default'', ''st''), refreshPeriodMillis = 1000, collectorAddress = ''a'', handlerCollection = ''cid''\<rparr>"

definition one_collector :: collector_handlers where
  "one_collector = (newCollectorStatHandlers (sample_topology_cr []) ''a'')\<lparr>statHandlers := [(''cid'', one_handler)]\<rparr>"

definition one_process :: "nat set \<Rightarrow> procs" where
  "one_process hung = \<lparr>running = {0}, fresh = 1, hanging = hung\<rparr>"

lemma one_collector_inv: "handlers_inv {} (one_collector, one_process hung)"
  by (auto simp: handlers_inv_def one_collector_def one_handler_def one_process_def newCollectorStatHandlers_def hinv_def one_key_def
      handler_ids_def ticker_ok_def word_sless_alt split: if_splits)

theorem operations_block_exactly_on_hung_witness:
  "StopAll (\<lambda>ks. ks) (one_collector, one_process {0}) = Inl SendBlocks
     \<and> UpdateCollectorAddress (\<lambda>ks. ks) ''b'' (one_collector, one_process {0}) = Inl SendBlocks
     \<and> (\<exists>p. StopAll (\<lambda>ks. ks) (one_collector, one_process {}) = Inr (one_collector\<lparr>statHandlers := []\<rparr>, p))"
proof -
  have h: "gm_get (statHandlers one_collector) ''cid'' = Some one_handler" "collectorAddress one_handler \<noteq> ''b''" "handlerId one_handler = 0"
    and p: "hanging (one_process hung) = hung" and c: "collectorApiAddress one_collector \<noteq> ''b''" for hung
    by (simp_all add: one_collector_def one_handler_def one_process_def newCollectorStatHandlers_def)
  from h have "\<exists>k h. gm_get (statHandlers one_collector) k = Some h \<and> handlerId h \<in> hanging (one_process {0})"
    "\<exists>k h. gm_get (statHandlers one_collector) k = Some h \<and> collectorAddress h \<noteq> ''b'' \<and> handlerId h \<in> hanging (one_process {0})"
    unfolding p by (metis insertI1)+
  moreover have "\<not> (\<exists>k h. gm_get (statHandlers one_collector) k = Some h \<and> handlerId h \<in> hanging (one_process {}))" unfolding p by simp
  ultimately show ?thesis
    using operations_block_exactly_on_hung [OF one_collector_inv [of "{0}"] is_order_id(1), where address = "''b''"]
      operations_block_exactly_on_hung [OF one_collector_inv [of "{}"] is_order_id(1)] c by (simp only: if_True if_False) blast
qed

section \<open>The switches of the feasible nodes\<close>

lemma get_fold_put_value: "gm_get (fold (\<lambda>s. gm_put (name s) v) xs m) n = (if n \<in> name ` set xs then Some v else gm_get m n)"
  by (induction xs arbitrary: m) auto

lemma get_pointers:
  "gm_get (pointers_to_loop_variable name items) n = (if n \<in> name ` set items then Some (last items) else None)"
  by (simp add: pointers_to_loop_variable_def get_fold_put_value)

text \<open>C21: of the switches that the operator lists only the last one counts: every name leads to it, so a path has either all its
  switches or none with the required program.\<close>

theorem only_last_switch_counts:
  assumes "apiList (switchObjects env) w = (Inr items, w1)"
  shows "\<exists>sws. LoadSwitches env w = (Inr sws, w1)
    \<and> countIncSwitchesOnPathWithRequiredProgram path sws program =
       (if items \<noteq> [] \<and> switchProgram (last items) = program
        then length (filter (\<lambda>n. n \<in> (objectName \<circ> switchMeta) ` set items) path) else 0)"
proof -
  let ?sws = "pointers_to_loop_variable (objectName \<circ> switchMeta) items"
  have "(case gm_get ?sws node of Some inc \<Rightarrow> switchProgram inc = program | None \<Rightarrow> False) \<longleftrightarrow>
      node \<in> (objectName \<circ> switchMeta) ` set items \<and> switchProgram (last items) = program" for node
    by (simp add: get_pointers)
  then have "countIncSwitchesOnPathWithRequiredProgram path ?sws program =
      length (filter (\<lambda>node. node \<in> (objectName \<circ> switchMeta) ` set items \<and> switchProgram (last items) = program) path)"
    unfolding countIncSwitchesOnPathWithRequiredProgram_def by presburger
  moreover have "LoadSwitches env w = (Inr ?sws, w1)" using assms by (simp add: LoadSwitches_def)
  ultimately show ?thesis by (cases "items = []"; cases "switchProgram (last items) = program") auto
qed

theorem only_last_switch_counts_witness:
  "\<exists>sws. LoadSwitches sample_operator_env () = (Inr sws, ())
    \<and> countIncSwitchesOnPathWithRequiredProgram [''w1'', ''s1'', ''s2''] sws ''telemetry'' = 2"
proof -
  have "apiList (switchObjects sample_operator_env) () = (Inr sample_switches, ())" by (simp add: sample_operator_env_def static_client_def)
  from only_last_switch_counts [OF this, of "[''w1'', ''s1'', ''s2'']" "''telemetry''"]
  show ?thesis by (simp add: sample_switches_def NewMeta_def numeral_2_eq_2)
qed

end
