(* ===== verification/Collectors.thy ===== *)
theory Collectors
  imports Stats
begin

text \<open>
  The controller of collectors (\<open>inc-operator/controllers/collector_controller.go\<close>), which runs a collector as a daemon set behind two
  services and reports in the status of the collector where it can be reached, and the watcher that publishes what the telemetry
  service says of its remaining capacity (\<open>telemetrydeviceresources_controller.go\<close>).
\<close>

section \<open>Objects and environment\<close>

record daemon_set =
  daemonMeta :: object_meta
  daemonLabels :: "(string, string) gomap"
  daemonImages :: "string list"
  daemonPodSpec :: string
  DesiredNumberScheduled :: int32

record device_resource =
  resourceDevice :: string
  CanBeSource :: bool

record device_resources_cr =
  resourcesMeta :: object_meta
  DeviceResources :: "device_resource list"

record 'w collector_env = "'w operator_env" +
  daemonSetObjects :: "(daemon_set, 'w) api_client"
  resourcesObjects :: "(device_resources_cr, 'w) api_client"
  SetCondition :: "status_condition \<Rightarrow> status_condition list \<Rightarrow> status_condition list"

section \<open>The objects of a collector\<close>

text \<open>\<open>strings.Split\<close> of the image at the colons; a collector without containers panics.\<close>

definition image_tag :: "string \<Rightarrow> string" where
  "image_tag img = (case split_str '':'' img of _ # tag # _ \<Rightarrow> tag | _ \<Rightarrow> ''0.0.0'')"

definition labelsForCollector :: "collector_cr \<Rightarrow> (string, string) gomap option" where
  "labelsForCollector collector =
     (case containerImages collector of
        [] \<Rightarrow> None
      | img # _ \<Rightarrow>
          Some [(''app.kubernetes.io/name'', ''int-collector''), (''app.kubernetes.io/instance'', objectName (collectorMeta collector)),
            (''app.kubernetes.io/version'', image_tag img), (''app.kubernetes.io/part-of'', ''project''),
            (''app.kubernetes.io/created-by'', ''controller-manager'')])"

definition objectKeyForNodePortService :: "collector_cr \<Rightarrow> object_key" where
  "objectKeyForNodePortService collector = ObjectKey (collectorMeta collector)"

definition objectKeyForApiService :: "collector_cr \<Rightarrow> object_key" where
  "objectKeyForApiService collector =
     (objectNamespace (collectorMeta collector), objectName (collectorMeta collector) @ ''-api-service'')"

definition createDaemonSetForCollector :: "collector_cr \<Rightarrow> daemon_set option" where
  "createDaemonSetForCollector collector = do {
     labels \<leftarrow> labelsForCollector collector;
     Some \<lparr>daemonMeta = NewMeta (objectName (collectorMeta collector)) (objectNamespace (collectorMeta collector)), daemonLabels = labels,
       daemonImages = containerImages collector, daemonPodSpec = otherPodSpec collector, DesiredNumberScheduled = 0\<rparr>
   }"

definition createNodePortServiceForCollector :: "collector_cr \<Rightarrow> service_cr option" where
  "createNodePortServiceForCollector collector = do {
     labels \<leftarrow> labelsForCollector collector;
     let key = objectKeyForNodePortService collector;
     Some \<lparr>serviceMeta = NewMeta (snd key) (fst key), serviceType = NODE_PORT, clusterIP = '''', serviceSelector = labels,
       servicePorts = [\<lparr>svcProtocol = UDP, svcPort = ReportingContainerPort collector, svcNodePort = 0\<rparr>]\<rparr>
   }"

definition createClusterIpServiceForCollectorAPI :: "collector_cr \<Rightarrow> service_cr option" where
  "createClusterIpServiceForCollectorAPI collector = do {
     labels \<leftarrow> labelsForCollector collector;
     let key = objectKeyForApiService collector;
     Some \<lparr>serviceMeta = NewMeta (snd key) (fst key), serviceType = ''ClusterIP'', clusterIP = '''', serviceSelector = labels,
       servicePorts = [\<lparr>svcProtocol = TCP, svcPort = ApiContainerPort collector, svcNodePort = 0\<rparr>]\<rparr>
   }"

section \<open>Reconcile of a collector\<close>

definition create_owned ::
  "'w collector_env \<Rightarrow> collector_cr \<Rightarrow> ('o, 'w) api_client \<Rightarrow> ('o \<Rightarrow> object_meta) \<Rightarrow> (object_meta \<Rightarrow> 'o \<Rightarrow> 'o) \<Rightarrow> 'o option \<Rightarrow> ('w, 'a) action" where
  "create_owned env collector client meta with_meta object_opt =
     (case object_opt of
        None \<Rightarrow> panic
      | Some obj \<Rightarrow>
          (case setController env (collectorMeta collector) (meta obj) of
             Inl err \<Rightarrow> fail err
           | Inr m \<Rightarrow> seq (attempt (apiCreate client (with_meta m obj)) fail) (\<lambda>_. stop (result_requeue, None))))"

definition init_collector :: "'w collector_env \<Rightarrow> object_key \<Rightarrow> collector_cr \<Rightarrow> ('w, collector_cr) action" where
  "init_collector env key collector =
     (if collectorConditions collector = [] then
        seq (attempt (apiStatusUpdate (collectors env) (collector\<lparr>collectorConditions := SetCondition env
               \<lparr>ConditionType = TypeAvailableCollector, ConditionStatus = ConditionUnknown, ConditionMessage = ''Starting reconciliation''\<rparr> []\<rparr>)) fail)
          (\<lambda>_. attempt (apiGet (collectors env) key) fail)
      else pass collector)"

text \<open>The node of the first running pod of the daemon set. When the labels are no selector, the list is not restricted.\<close>

definition collector_node :: "'w collector_env \<Rightarrow> object_key \<Rightarrow> collector_cr \<Rightarrow> daemon_set \<Rightarrow> ('w, string option) action" where
  "collector_node env key collector daemonSet =
     (if 0 <s DesiredNumberScheduled daemonSet then
        (case labelsForCollector collector of
           None \<Rightarrow> panic
         | Some labels \<Rightarrow>
             (let podSelector = (case asSelector env \<lparr>matchLabels = labels, matchExpressions = []\<rparr> of
                    Inr sel \<Rightarrow> sel | Inl err \<Rightarrow> \<lparr>matchLabels = [], matchExpressions = []\<rparr>)
              in seq (attempt (listPods env podSelector (fst key)) fail)
                   (\<lambda>pods. pass (map_option podNodeName (find (\<lambda>p. podPhase p = PodRunning) pods)))))
      else pass None)"

definition reporting_port :: "service_cr \<Rightarrow> int32 option" where
  "reporting_port svc = (case servicePorts svc of p # _ \<Rightarrow> if svcNodePort p \<noteq> 0 then Some (svcNodePort p) else None | [] \<Rightarrow> None)"

definition collector_status :: "'w collector_env \<Rightarrow> service_cr \<Rightarrow> service_cr \<Rightarrow> string option \<Rightarrow> collector_cr \<Rightarrow> collector_cr" where
  "collector_status env svc apiSvc node collector =
     (let port = reporting_port svc;
          condition = (if node \<noteq> None \<and> port \<noteq> None
            then \<lparr>ConditionType = TypeAvailableCollector, ConditionStatus = ConditionTrue, ConditionMessage = ''Daemonset pod and NodePort are ready''\<rparr>
            else \<lparr>ConditionType = TypeAvailableCollector, ConditionStatus = ConditionFalse, ConditionMessage = ''Daemonset pod or node port not ready''\<rparr>)
      in collector\<lparr>NodeRef := node, ReportingPort := port, ApiServiceRef := Some (objectName (serviceMeta apiSvc)),
           collectorConditions := SetCondition env condition (collectorConditions collector)\<rparr>)"

definition Reconcile_collector :: "'w collector_env \<Rightarrow> object_key \<Rightarrow> 'w \<Rightarrow> outcome \<times> 'w" where
  "Reconcile_collector env key = finish (
     seq (attempt (apiGet (collectors env) key) (\<lambda>err. if err = IsNotFound then stop (result_done, None) else fail err)) (\<lambda>collector0.
     seq (init_collector env key collector0) (\<lambda>collector.
     seq (attempt (apiGet (daemonSetObjects env) key)
            (\<lambda>err. if err = IsNotFound then create_owned env collector (daemonSetObjects env) daemonMeta (\<lambda>m obj. obj\<lparr>daemonMeta := m\<rparr>)
               (createDaemonSetForCollector collector) else fail err)) (\<lambda>daemonSet.
     seq (attempt (apiGet (serviceObjects env) (objectKeyForNodePortService collector))
            (\<lambda>err. if err = IsNotFound then create_owned env collector (serviceObjects env) serviceMeta (\<lambda>m obj. obj\<lparr>serviceMeta := m\<rparr>)
               (createNodePortServiceForCollector collector) else fail err)) (\<lambda>collectorService.
     seq (attempt (apiGet (serviceObjects env) (objectKeyForApiService collector))
            (\<lambda>err. if err = IsNotFound then create_owned env collector (serviceObjects env) serviceMeta (\<lambda>m obj. obj\<lparr>serviceMeta := m\<rparr>)
               (createClusterIpServiceForCollectorAPI collector) else fail err)) (\<lambda>collectorApiService.
     seq (collector_node env key collector daemonSet) (\<lambda>node.
     seq (attempt (apiStatusUpdate (collectors env) (collector_status env collectorService collectorApiService node collector)) fail) (\<lambda>_.
       pass (result_done, None)))))))))"

section \<open>Device resources\<close>

definition CLUSTER_TELEMETRY_DEVICE_RESOURCES_NAME :: string where
  "CLUSTER_TELEMETRY_DEVICE_RESOURCES_NAME = ''telemetry-device-resources''"

abbreviation UPDATE_STATUS_ATTEMPTS :: nat where "UPDATE_STATUS_ATTEMPTS \<equiv> 3"

text \<open>The namespace is that of the connector.\<close>

definition getOrCreateResources :: "'w collector_env \<Rightarrow> string \<Rightarrow> 'w \<Rightarrow> (api_error + device_resources_cr) \<times> 'w" where
  "getOrCreateResources env namespace w =
     (let key = (namespace, CLUSTER_TELEMETRY_DEVICE_RESOURCES_NAME) in
      case apiGet (resourcesObjects env) key w of
        (Inr res, w1) \<Rightarrow> (Inr res, w1)
      | (Inl err, w1) \<Rightarrow>
          (if err \<noteq> IsNotFound then (Inl err, w1)
           else case apiCreate (resourcesObjects env) \<lparr>resourcesMeta = NewMeta (snd key) (fst key), DeviceResources = []\<rparr> w1 of
             (Inl err, w2) \<Rightarrow> (Inl err, w2)
           | (Inr _, w2) \<Rightarrow> apiGet (resourcesObjects env) key w2))"

definition device_resources :: "(string list \<Rightarrow> string list) \<Rightarrow> (string, int32) gomap \<Rightarrow> device_resource list" where
  "device_resources ord update = map (\<lambda>(deviceName, remainingEntries). \<lparr>resourceDevice = deviceName, CanBeSource = 10 <s remainingEntries\<rparr>) (gm_range ord update)"

text \<open>The attempts that are left, and the error of the last one; \<^term>\<open>None\<close> is success. The pause after an object that is not found is left out.\<close>

fun update_attempts :: "'w collector_env \<Rightarrow> string \<Rightarrow> device_resource list \<Rightarrow> nat \<Rightarrow> api_error option \<Rightarrow> 'w \<Rightarrow> api_error option \<times> 'w" where
  "update_attempts env namespace res 0 err w = (err, w)"
| "update_attempts env namespace res (Suc n) err w =
     (case getOrCreateResources env namespace w of
        (Inl er, w1) \<Rightarrow> (Some er, w1)
      | (Inr resources, w1) \<Rightarrow>
          (case apiStatusUpdate (resourcesObjects env) (resources\<lparr>DeviceResources := res\<rparr>) w1 of
             (Inr _, w2) \<Rightarrow> (None, w2)
           | (Inl err1, w2) \<Rightarrow>
               (if err1 = IsNotFound \<or> err1 = IsConflict then update_attempts env namespace res n (Some err1) w2
                else (Some err1, w2))))"

definition updateStatus :: "'w collector_env \<Rightarrow> string \<Rightarrow> (string, int32) gomap \<Rightarrow> 'w \<Rightarrow> api_error option \<times> 'w" where
  "updateStatus env namespace update =
     update_attempts env namespace (device_resources (mapOrder env 4) update) UPDATE_STATUS_ATTEMPTS None"

text \<open>What a watch does with the messages of its stream, until the stream ends or an update fails; then it subscribes again. The result are the messages
  that were not handled.\<close>

fun watch_messages :: "'w collector_env \<Rightarrow> string \<Rightarrow> (string, int32) gomap list \<Rightarrow> 'w \<Rightarrow> (string, int32) gomap list \<times> 'w" where
  "watch_messages env namespace [] w = ([], w)"
| "watch_messages env namespace (update # updates) w =
     (case updateStatus env namespace update w of
        (None, w1) \<Rightarrow> watch_messages env namespace updates w1
      | (Some err, w1) \<Rightarrow> (updates, w1))"

end
