(* ===== verification/CollectorProperties.thy ===== *)
theory CollectorProperties
  imports Collectors Steps OperatorSamples SampleNetwork
begin

text \<open>
  What the other controllers rely on: a collector that is shown as available says where it can be reached, so that the requests that
  name it are built without a panic; and what the device resources show is what the telemetry service said.
\<close>

section \<open>Collectors that are available\<close>

type_synonym status_view = "status_condition list \<times> string option \<times> int32 option \<times> string option"

definition collector_view :: "collector_cr \<Rightarrow> status_view" where
  "collector_view c = (collectorConditions c, NodeRef c, ReportingPort c, ApiServiceRef c)"

definition well_formed_view :: "'w collector_env \<Rightarrow> status_view \<Rightarrow> bool" where
  "well_formed_view env = (\<lambda>(conds, node, port, api).
     isConditionTrue env conds TypeAvailableCollector \<longrightarrow> node \<noteq> None \<and> port \<noteq> None \<and> api \<noteq> None)"

text \<open>What the documentation of the API server says of the calls of this controller, as far as the status of collectors goes: an update
  of a status stores it, unless it fails, and then it may still have stored it; no other call changes a status.\<close>

definition collector_store :: "'w collector_env \<Rightarrow> ('w \<Rightarrow> object_key \<Rightarrow> status_view option) \<Rightarrow> bool" where
  "collector_store env st \<longleftrightarrow>
     (\<forall>k w. st (snd (apiGet (collectors env) k w)) = st w)
   \<and> (\<forall>k w. st (snd (apiGet (daemonSetObjects env) k w)) = st w) \<and> (\<forall>x w. st (snd (apiCreate (daemonSetObjects env) x w)) = st w)
   \<and> (\<forall>k w. st (snd (apiGet (serviceObjects env) k w)) = st w) \<and> (\<forall>x w. st (snd (apiCreate (serviceObjects env) x w)) = st w)
   \<and> (\<forall>sel ns w. st (snd (listPods env sel ns w)) = st w)
   \<and> (\<forall>c w r w'. apiStatusUpdate (collectors env) c w = (r, w') \<longrightarrow>
        st w' = (st w)(ObjectKey (collectorMeta c) \<mapsto> collector_view c) \<or> (\<exists>e. r = Inl e) \<and> st w' = st w)"

text \<open>What the documentation of \<open>meta.SetStatusCondition\<close> and \<open>meta.IsStatusConditionTrue\<close> says of the condition that was set.\<close>

definition conditions_law :: "'w collector_env \<Rightarrow> bool" where
  "conditions_law env \<longleftrightarrow> (\<forall>c cs. isConditionTrue env (SetCondition env c cs) (ConditionType c) \<longleftrightarrow> ConditionStatus c = ConditionTrue)"

definition views_inv :: "'w collector_env \<Rightarrow> ('w \<Rightarrow> object_key \<Rightarrow> status_view option) \<Rightarrow> 'w \<Rightarrow> bool" where
  "views_inv env st w \<longleftrightarrow> (\<forall>view \<in> ran (st w). well_formed_view env view)"

lemma conditions_lawD:
  "conditions_law env \<Longrightarrow>
     isConditionTrue env (SetCondition env \<lparr>ConditionType = t, ConditionStatus = s, ConditionMessage = m\<rparr> cs) t \<longleftrightarrow> s = ConditionTrue"
  unfolding conditions_law_def by (metis status_condition.select_convs(1,2))

lemma collector_status_view:
  assumes "conditions_law env"
  shows "well_formed_view env (collector_view (collector_status env svc apiSvc node collector))"
  by (auto simp: conditions_lawD [OF assms] well_formed_view_def collector_view_def collector_status_def Let_def)

lemma initial_view:
  assumes "conditions_law env" and "s \<noteq> ConditionTrue"
  shows "well_formed_view env (collector_view (c\<lparr>collectorConditions :=
     SetCondition env \<lparr>ConditionType = TypeAvailableCollector, ConditionStatus = s, ConditionMessage = m\<rparr> cs\<rparr>))"
  using assms(2) by (simp add: conditions_lawD [OF assms(1)] well_formed_view_def collector_view_def)

lemma ran_update: "ran (f(k \<mapsto> x)) \<subseteq> insert x (ran f)"
  by (auto simp: ran_def split: if_splits)

lemma store_view:
  assumes "collector_store env st" and "well_formed_view env (collector_view c)" and "views_inv env st w"
    and "apiStatusUpdate (collectors env) c w = (r, w')"
  shows "views_inv env st w'"
proof -
  from assms(1,4) have "st w' = (st w)(ObjectKey (collectorMeta c) \<mapsto> collector_view c) \<or> st w' = st w"
    unfolding collector_store_def by metis
  then have "ran (st w') \<subseteq> insert (collector_view c) (ran (st w))" using ran_update [of "st w"] by (metis subset_insertI)
  with assms(2,3) show ?thesis unfolding views_inv_def by blast
qed

lemma step_quiet:
  assumes "\<And>w. st (snd (m w)) = st w" and "\<And>e. step_keeps (views_inv env st) (views_inv env st) (h e) (\<lambda>_. views_inv env st)"
  shows "step_keeps (views_inv env st) (views_inv env st) (attempt m h) (\<lambda>_. views_inv env st)"
proof -
  have "views_inv env st w'" if "views_inv env st w" "m w = (r, w')" for w r w'
    using that assms(1) [of w] by (simp add: views_inv_def)
  then show ?thesis by (intro step_attempt assms(2))
qed

lemma step_fail: "step_keeps I I (fail e) (\<lambda>_. I)"
  by (rule step_stop)

lemma step_store:
  assumes "collector_store env st" and "well_formed_view env (collector_view c)"
  shows "step_keeps (views_inv env st) (views_inv env st) (attempt (apiStatusUpdate (collectors env) c) fail) (\<lambda>_. views_inv env st)"
  by (rule step_attempt [OF _ _ step_fail]) (rule store_view [OF assms]; assumption)+

lemma step_create_owned:
  assumes "\<And>x w. st (snd (apiCreate client x w)) = st w"
  shows "step_keeps (views_inv env st) (views_inv env st) (create_owned env collector client meta with_meta obj) (\<lambda>_. views_inv env st)"
  unfolding create_owned_def
proof -
  let ?I = "views_inv env st"
  have create: "step_keeps ?I ?I (attempt (apiCreate client x) fail) (\<lambda>_. ?I)" for x
    by (rule step_quiet) (rule assms step_fail)+
  show "step_keeps ?I ?I (case obj of None \<Rightarrow> panic | Some obj \<Rightarrow> (case setController env (collectorMeta collector) (meta obj) of
             Inl err \<Rightarrow> fail err
           | Inr m \<Rightarrow> seq (attempt (apiCreate client (with_meta m obj)) fail) (\<lambda>_. stop (result_requeue, None)))) (\<lambda>_. ?I)"
    by (auto simp: step_stop intro!: step_seq [OF create step_stop] split: option.split sum.split)
qed

lemma reconcile_collector_keeps:
  assumes store: "collector_store env st" and law: "conditions_law env" and inv: "views_inv env st w"
    and run: "Reconcile_collector env key w = (r, w')"
  shows "views_inv env st w'"
proof -
  let ?I = "views_inv env st"
  note laws = store [unfolded collector_store_def]
  note quiet = step_quiet [where env = env and st = st]
  have get: "step_keeps ?I ?I (attempt (apiGet (collectors env) key) h) (\<lambda>_. ?I)" if "\<And>e. step_keeps ?I ?I (h e) (\<lambda>_. ?I)" for h
    by (rule quiet [OF _ that]) (use laws in blast)
  have init: "step_keeps ?I ?I (init_collector env key c) (\<lambda>_. ?I)" for c
    unfolding init_collector_def by (intro step_if step_seq [OF step_store [OF store initial_view [OF law]]] get step_fail step_pass) simp_all
  have owned: "step_keeps ?I ?I (if e = IsNotFound then create_owned env c client meta wm obj else fail e) (\<lambda>_. ?I)"
    if "\<And>x w. st (snd (apiCreate client x w)) = st w" for e c meta wm obj and client :: "('o, 'a) api_client"
    by (intro step_if step_create_owned [OF that] step_fail)
  have ds: "step_keeps ?I ?I (attempt (apiGet (daemonSetObjects env) k)
      (\<lambda>err. if err = IsNotFound then create_owned env c (daemonSetObjects env) meta wm obj else fail err)) (\<lambda>_. ?I)" for k c meta wm obj
    by (rule quiet [OF _ owned]) (use laws in blast)+
  have svc: "step_keeps ?I ?I (attempt (apiGet (serviceObjects env) k)
      (\<lambda>err. if err = IsNotFound then create_owned env c (serviceObjects env) meta wm obj else fail err)) (\<lambda>_. ?I)" for k c meta wm obj
    by (rule quiet [OF _ owned]) (use laws in blast)+
  have pods: "step_keeps ?I ?I (attempt (listPods env sel ns) fail) (\<lambda>_. ?I)" for sel ns
    by (rule quiet [OF _ step_fail]) (use laws in blast)
  have node: "step_keeps ?I ?I (collector_node env key c d) (\<lambda>_. ?I)" for c d
    unfolding collector_node_def Let_def
    by (cases "labelsForCollector c") (auto intro!: step_if step_seq [OF pods] step_pass step_fail)
  have "step_keeps ?I ?I
     (seq (attempt (apiGet (collectors env) key) (\<lambda>err. if err = IsNotFound then stop (result_done, None) else fail err)) (\<lambda>collector0.
      seq (init_collector env key collector0) (\<lambda>collector.
      seq (attempt (apiGet (daemonSetObjects env) key)
             (\<lambda>err. if err = IsNotFound then create_owned env collector (daemonSetObjects env) daemonMeta (\<lambda>m obj. obj\<lparr>daemonMeta := m\<rparr>)
                (createDaemonSetForCollector collector) else fail err)) (\<lambda>daemonSet.
      seq (attempt (apiGet (serviceObjects env) (objectKeyForNodePortService collector))
             (\<lambda>err. if err = IsNotFound then create_owned env collector (serviceObjects env) serviceMeta (\<lambda>m obj. obj\<lparr>serviceMeta := m\<rparr>)
                (createNodePortServiceForCollector collector) else fail err)) (\<lambda>collectorService.
      seq (attempt (apiGet (serviceObjects env) (objectKeyForApiService collector))
             (\<lambda>err. if err = IsNotFound then create_owned env collector (serviceObjects env) serviceMeta (\<lambda>m obj. obj\<lparr>serviceMeta := m\<rparr>)
                (createClusterIpServiceForCollectorAPI collector) else fail err)) (\<lambda>collectorApiService.
      seq (collector_node env key collector daemonSet) (\<lambda>node.
      seq (attempt (apiStatusUpdate (collectors env) (collector_status env collectorService collectorApiService node collector)) fail) (\<lambda>_.
        pass (result_done, None)))))))))
     (\<lambda>_. ?I)"
    by (intro step_seq [OF get] step_seq [OF init] step_seq [OF ds] step_seq [OF svc] step_seq [OF node]
        step_seq [OF step_store [OF store collector_status_view [OF law]]] step_if step_stop step_pass; assumption)
  from step_finish [OF this inv] run show ?thesis unfolding Reconcile_collector_def by blast
qed

text \<open>C9: every collector that is stored as available after a \<open>Reconcile\<close> of a collector, however it returned, can be reached: a request
  for it is built without a panic and names its node and port, and its API service is known.\<close>

theorem available_collectors_are_reachable:
  assumes "collector_store env st" and "conditions_law env" and "views_inv env st w" and "Reconcile_collector env key w = (r, w')"
  shows "views_inv env st w'
    \<and> (st w' k = Some (collector_view c) \<and> isConditionTrue env (collectorConditions c) TypeAvailableCollector \<longrightarrow>
         (\<exists>req. internal_request endpoints c source target entities = Some req
            \<and> NodeRef c = Some (CollectorNodeName req) \<and> ReportingPort c = Some (CollectorPort req)) \<and> ApiServiceRef c \<noteq> None)"
proof -
  have inv: "views_inv env st w'" by (rule reconcile_collector_keeps [OF assms])
  have "well_formed_view env (collector_view c)" if "st w' k = Some (collector_view c)"
    using inv that unfolding views_inv_def by (blast intro: ranI)
  with inv show ?thesis
    by (auto simp: well_formed_view_def collector_view_def internal_request_def)
qed

section \<open>Device resources\<close>

text \<open>What the documentation says of an update of the status of the resources that succeeds; \<open>shown\<close> is the stored list.\<close>

definition resources_store :: "'w collector_env \<Rightarrow> ('w \<Rightarrow> device_resource list) \<Rightarrow> bool" where
  "resources_store env shown \<longleftrightarrow> (\<forall>c w x w'. apiStatusUpdate (resourcesObjects env) c w = (Inr x, w') \<longrightarrow> shown w' = DeviceResources c)"

lemma update_attempts_shown:
  "resources_store env shown \<Longrightarrow> update_attempts env namespace res n err w = (None, w') \<Longrightarrow> 0 < n \<or> err \<noteq> None \<Longrightarrow> shown w' = res"
proof (induction env namespace res n err w rule: update_attempts.induct)
  case (2 env namespace res n err w)
  show ?case
  proof (cases "getOrCreateResources env namespace w")
    case (Pair r w1)
    with "2.prems"(2) obtain resources where r: "r = Inr resources" by (cases r) auto
    let ?put = "apiStatusUpdate (resourcesObjects env) (resources\<lparr>DeviceResources := res\<rparr>) w1"
    obtain q w2 where q: "?put = (q, w2)" by (cases ?put)
    show ?thesis
    proof (cases q)
      case (Inl e)
      with Pair r q "2.prems"(2) have "update_attempts env namespace res n (Some e) w2 = (None, w')" by (auto split: if_splits)
      with "2.IH" [OF Pair [symmetric] r q [symmetric] Inl] Pair r q Inl "2.prems" show ?thesis by (auto split: if_splits)
    next
      case (Inr x)
      with Pair r q "2.prems"(2) have "w2 = w'" by simp
      with q Inr "2.prems"(1) have "shown w' = DeviceResources (resources\<lparr>DeviceResources := res\<rparr>)" unfolding resources_store_def by blast
      then show ?thesis by simp
    qed
  qed
qed auto

lemma free_entries:
  assumes "0 \<le>s n"
  shows "10 <s (127 - n :: int32) \<longleftrightarrow> sint n < 117"
proof -
  have n: "0 \<le> sint n" "sint n < 2 ^ 31" using assms sint_lt [of n] by (simp_all add: word_sle_eq)
  have "sint (127 - n) = sint (127 :: int32) - sint n"
    unfolding sint_word_ariths using n by (simp add: signed_take_bit_int_eq_self)
  then show ?thesis by (simp add: word_sless_alt)
qed

text \<open>C22: when the watcher has published what the SDN controller announced, the cluster shows every device of the controller once, and as a possible source
  exactly if fewer than 117 of its 127 source entries are taken.\<close>

theorem resources_show_free_entries:
  assumes "resources_store env shown" and "is_order (mapOrder env 4)" and "gm_wf (counters t ConfigureSourceCounter)"
    and "\<And>d st. gm_get (counters t ConfigureSourceCounter) d = Some st \<Longrightarrow> 0 \<le>s numEntries st"
    and "updateStatus env namespace (GetSourceCapabilities t) w = (None, w')"
  shows "mset (map resourceDevice (shown w')) = mset (gm_keys (counters t ConfigureSourceCounter))
    \<and> (\<lparr>resourceDevice = d, CanBeSource = b\<rparr> \<in> set (shown w') \<longleftrightarrow>
         (\<exists>st. gm_get (counters t ConfigureSourceCounter) d = Some st \<and> b = (sint (numEntries st) < 117)))"
proof -
  let ?c = "counters t ConfigureSourceCounter" and ?u = "GetSourceCapabilities t"
  have u: "?u = map (\<lambda>(d, st). (d, 127 - numEntries st)) ?c"
    by (simp add: GetSourceCapabilities_def createCapabilityUpdate_def TakePerDeviceNumberOfEntriesSnapshot_def comp_def case_prod_beta)
  have "gm_wf ?u" using assms(3) by (simp add: u comp_def case_prod_beta)
  note range = mset_gm_range [OF assms(2) this]
  have shown: "shown w' = device_resources (mapOrder env 4) ?u"
    using update_attempts_shown [OF assms(1) assms(5) [unfolded updateStatus_def]] by simp
  have "mset (map resourceDevice (shown w')) = image_mset fst (mset (gm_range (mapOrder env 4) ?u))"
    by (simp add: shown device_resources_def case_prod_beta multiset.map_comp comp_def)
  also have "\<dots> = mset (gm_keys ?c)" unfolding range by (simp add: u case_prod_beta multiset.map_comp comp_def)
  finally have keys: "mset (map resourceDevice (shown w')) = mset (gm_keys ?c)" .
  have "set (shown w') = (\<lambda>(d, n). \<lparr>resourceDevice = d, CanBeSource = 10 <s n\<rparr>) ` set ?u"
    using arg_cong [OF range, of set_mset] by (simp add: shown device_resources_def)
  also have "\<dots> = (\<lambda>(d, st). \<lparr>resourceDevice = d, CanBeSource = sint (numEntries st) < 117\<rparr>) ` set ?c"
    unfolding u set_map image_image
    by (rule image_cong [OF refl]) (use assms(3,4) in \<open>auto simp: free_entries\<close>)
  finally have "\<lparr>resourceDevice = d, CanBeSource = b\<rparr> \<in> set (shown w') \<longleftrightarrow> (\<exists>st. (d, st) \<in> set ?c \<and> b = (sint (numEntries st) < 117))"
    by (auto simp: image_def intro!: bexI [rotated])
  with keys assms(3) show ?thesis by simp
qed

section \<open>A collector that becomes available\<close>

definition store_client :: "(collector_cr, object_key \<Rightarrow> collector_cr option) api_client" where
  "store_client =
     \<lparr>apiGet = (\<lambda>k w. (case w k of Some x \<Rightarrow> Inr x | None \<Rightarrow> Inl IsNotFound, w)), apiList = (\<lambda>w. (Inr [], w)),
      apiCreate = (\<lambda>x w. (Inr x, w(ObjectKey (collectorMeta x) \<mapsto> x))), apiUpdate = (\<lambda>x w. (Inr x, w(ObjectKey (collectorMeta x) \<mapsto> x))),
      apiStatusUpdate = (\<lambda>x w. (Inr x, w(ObjectKey (collectorMeta x) \<mapsto> x))),
      apiDelete = (\<lambda>x w. (Inr (), w(ObjectKey (collectorMeta x) := None)))\<rparr>"

definition sample_node_port_service :: service_cr where
  "sample_node_port_service = \<lparr>serviceMeta = NewMeta ''col'' ''default'', serviceType = NODE_PORT, clusterIP = ''10.1.1.2'',
     serviceSelector = [], servicePorts = [\<lparr>svcProtocol = UDP, svcPort = 6000, svcNodePort = 31000\<rparr>]\<rparr>"

definition sample_daemon_set :: daemon_set where
  "sample_daemon_set = \<lparr>daemonMeta = NewMeta ''col'' ''default'', daemonLabels = [], daemonImages = [''collector:1''], daemonPodSpec = [],
     DesiredNumberScheduled = 1\<rparr>"

definition sample_collector_pod :: pod where
  "sample_collector_pod = \<lparr>podMeta = NewMeta ''col-x'' ''default'', podKind = ''Pod'', podAPIVersion = ''v1'', podUID = ''1'', podPhase = PodRunning,
     podNodeName = ''w2'', podIP = ''10.0.0.9''\<rparr>"

definition sample_collector_env :: "(collector_cr, 'w) api_client \<Rightarrow> (device_resources_cr, 'w) api_client \<Rightarrow> 'w collector_env" where
  "sample_collector_env cc rc = operator_env.extend
     (sample_operator_env\<lparr>collectors := cc, serviceObjects := static_client serviceMeta [sample_api_service, sample_node_port_service],
        listPods := (\<lambda>sel ns w. (Inr [sample_collector_pod], w))\<rparr>)
     (collector_env.fields (static_client daemonMeta [sample_daemon_set]) rc
        (\<lambda>c cs. c # filter (\<lambda>d. ConditionType d \<noteq> ConditionType c) cs))"

definition new_collector :: collector_cr where
  "new_collector = sample_collector\<lparr>collectorConditions := [], NodeRef := None, ReportingPort := None, ApiServiceRef := None\<rparr>"

abbreviation "collector_key \<equiv> (''default'', ''col'')"

abbreviation "sample_env \<equiv> sample_collector_env store_client (static_client resourcesMeta [])"

lemmas sample_collector_defs = sample_collector_env_def operator_env.extend_def collector_env.fields_def operator_env.truncate_def sample_operator_env_def

definition stored_views :: "(object_key \<Rightarrow> collector_cr option) \<Rightarrow> object_key \<Rightarrow> status_view option" where
  "stored_views w k = map_option collector_view (w k)"

lemma stored_views_update: "stored_views (w(k \<mapsto> c)) = (stored_views w)(k \<mapsto> collector_view c)"
  by (rule ext) (simp add: stored_views_def)

lemma no_other_condition: "\<not> list_ex (\<lambda>d. ConditionType d = t \<and> P d) (filter (\<lambda>d. ConditionType d \<noteq> t) cs)"
  by (auto simp: list_ex_iff)

lemma sample_collector_laws: "collector_store (sample_env) stored_views" "conditions_law (sample_env)"
proof -
  show "collector_store (sample_env) stored_views"
    by (simp add: collector_store_def sample_collector_defs static_client_def store_client_def stored_views_update)
  show "conditions_law sample_env"
    by (simp add: conditions_law_def sample_collector_defs no_other_condition)
qed

definition sample_internal_endpoints :: internal_endpoints where
  "sample_internal_endpoints = \<lparr>intEpMeta = NewMeta ''ep'' ''default'', DeploymentEndpoints = [], epCollectorRef = ''col'', epCollectionId = ''cid''\<rparr>"

definition available_collector :: collector_cr where
  "available_collector = sample_collector\<lparr>collectorConditions := [\<lparr>ConditionType = TypeAvailableCollector, ConditionStatus = ConditionTrue,
     ConditionMessage = ''Daemonset pod and NodePort are ready''\<rparr>]\<rparr>"

lemma sample_collector_run:
  "snd (Reconcile_collector (sample_env) collector_key [collector_key \<mapsto> new_collector]) collector_key = Some available_collector"
  by (simp add: sample_collector_defs available_collector_def Reconcile_collector_def finish_def seq_def attempt_def static_client_def store_client_def new_collector_def
      sample_collector_def init_collector_def NewMeta_def ObjectKey_def pass_def stop_def sample_daemon_set_def sample_api_service_def
      sample_node_port_service_def objectKeyForNodePortService_def objectKeyForApiService_def collector_node_def labelsForCollector_def
      sample_collector_pod_def collector_status_def reporting_port_def Let_def word_sless_alt)

lemma new_collector_inv: "views_inv (sample_env) stored_views [collector_key \<mapsto> new_collector]"
proof -
  have "well_formed_view (sample_env) (collector_view new_collector)"
    by (simp add: well_formed_view_def collector_view_def new_collector_def sample_collector_defs)
  then show ?thesis by (auto simp: views_inv_def ran_def stored_views_def split: if_splits)
qed

theorem available_collectors_are_reachable_witness:
  "\<exists>req. internal_request (sample_internal_endpoints) available_collector ''a'' ''b'' [] = Some req \<and> CollectorNodeName req = ''w2''"
proof -
  have "isConditionTrue (sample_env) (collectorConditions available_collector) TypeAvailableCollector"
    and "NodeRef available_collector = Some ''w2''"
    by (simp_all add: available_collector_def sample_collector_defs sample_collector_def)
  with available_collectors_are_reachable [OF sample_collector_laws new_collector_inv prod.collapse [symmetric],
      of collector_key collector_key available_collector "sample_internal_endpoints" "''a''" "''b''" "[]"] sample_collector_run
  show ?thesis by (auto simp: stored_views_def)
qed

section \<open>Resources of two devices\<close>

definition resources_client :: "(device_resources_cr, device_resource list) api_client" where
  "resources_client =
     (static_client resourcesMeta [])\<lparr>apiGet := (\<lambda>k w. (Inr \<lparr>resourcesMeta = NewMeta (snd k) (fst k), DeviceResources = w\<rparr>, w)),
       apiStatusUpdate := (\<lambda>x w. (Inr x, DeviceResources x))\<rparr>"

definition busy_counters :: state_counter where
  "busy_counters = [(''s1'', \<lparr>tableState = [], numEntries = 3\<rparr>), (''s2'', \<lparr>tableState = [], numEntries = 120\<rparr>)]"

theorem resources_show_free_entries_witness:
  "let t = (NewService NewRegistry quiet_observers)\<lparr>counters := \<lambda>_. busy_counters\<rparr>;
       w = snd (updateStatus (sample_collector_env (static_client collectorMeta []) resources_client) ''default'' (GetSourceCapabilities t) [])
   in \<lparr>resourceDevice = ''s1'', CanBeSource = True\<rparr> \<in> set w \<and> \<lparr>resourceDevice = ''s2'', CanBeSource = False\<rparr> \<in> set w"
proof -
  let ?t = "(NewService NewRegistry quiet_observers)\<lparr>counters := \<lambda>_. busy_counters\<rparr>"
    and ?env = "sample_collector_env (static_client collectorMeta []) resources_client"
  let ?run = "updateStatus ?env ''default'' (GetSourceCapabilities ?t) []"
  have laws: "resources_store ?env (\<lambda>w. w)" "is_order (mapOrder ?env 4)" "gm_wf (counters ?t ConfigureSourceCounter)"
    by (simp_all add: resources_store_def sample_collector_defs resources_client_def is_order_def busy_counters_def)
  have small: "0 \<le>s numEntries st" if "gm_get (counters ?t ConfigureSourceCounter) d = Some st" for d st
    using that by (auto simp: busy_counters_def word_sle_eq split: if_splits)
  have run: "?run = (None, snd ?run)"
    by (simp add: updateStatus_def numeral_3_eq_3 getOrCreateResources_def sample_collector_defs resources_client_def Let_def)
  show ?thesis
    using resources_show_free_entries [where d = "''s1''" and b = True, OF laws small run] resources_show_free_entries [where d = "''s2''" and b = False, OF laws small run]
    by (simp add: busy_counters_def Let_def)
qed

end
