(* ===== verification/SwitchNames.thy ===== *)
theory SwitchNames
  imports Stats
begin

text \<open>
  The numbers that the switches report and the names that the operator shows: the SDN controller numbers its switches when it writes the
  telemetry entries, the operator numbers the switches of the topology that the shim mirrored, and both count the ports of
  a switch along its links. The two ways agree when all switches are programmable, and not otherwise.
\<close>

section \<open>Numbering\<close>

text \<open>The names of the switches in the order of the topology; a switch has the number of its place.\<close>

definition switch_names :: "topology \<Rightarrow> string list" where
  "switch_names topo = map GetName (filter (\<lambda>d. GetType d = INC_SWITCH) (Devices topo))"

abbreviation mirrored :: "topology \<Rightarrow> topology_cr" where
  "mirrored topo \<equiv> buildClusterTopoCR (TopologyModelToProto topo)"

definition all_programmable :: "topology \<Rightarrow> bool" where
  "all_programmable topo \<longleftrightarrow> (\<forall>sw. IncSwitch sw \<in> set (Devices topo) \<longrightarrow> AllowClientProgrammability sw)"

lemma nat_diff_cases:
  fixes c j :: int
  shows "c \<le> j \<and> nat (j - c) < Suc n \<and> Q (nat (j - c)) \<longleftrightarrow> j = c \<and> Q 0 \<or> c + 1 \<le> j \<and> nat (j - (c + 1)) < n \<and> Q (Suc (nat (j - (c + 1))))"
proof (cases "c + 1 \<le> j")
  case True
  then have "nat (j - c) = Suc (nat (j - (c + 1)))" by linarith
  with True show ?thesis by auto
next
  case False
  then have "c \<le> j \<longleftrightarrow> j = c" by linarith
  with False show ?thesis by auto
qed

lemma ids_numbered:
  assumes "distinct (map f (filter P ds))"
  shows "gm_get (fst (fold (\<lambda>dev (res, counter). if P dev then (gm_put (f dev) counter res, counter + 1) else (res, counter)) ds (m, c :: int))) n = Some j
     \<longleftrightarrow> (c \<le> j \<and> nat (j - c) < length (filter P ds) \<and> f (filter P ds ! nat (j - c)) = n) \<or> n \<notin> f ` set (filter P ds) \<and> gm_get m n = Some j"
  using assms
proof (induction ds arbitrary: m c)
  case (Cons d ds)
  show ?case
  proof (cases "P d")
    case True
    let ?xs = "filter P ds"
    have "f (?xs ! i) \<noteq> f d" if "i < length ?xs" for i
    proof -
      have "f (?xs ! i) \<in> f ` set ?xs" by (intro imageI nth_mem that)
      with Cons.prems True show ?thesis by (auto simp del: set_filter)
    qed
    moreover have "f d \<notin> f ` set ?xs" using Cons.prems True by (simp del: set_filter)
    moreover have "distinct (map f ?xs)" using Cons.prems True by simp
    note IH = Cons.IH [OF this, of "gm_put (f d) c m" "c + 1"]
    ultimately show ?thesis
      using True nat_diff_cases [of c j "length ?xs" "\<lambda>i. f ((d # ?xs) ! i) = n"]
      by (cases "n = f d") (auto simp: IH simp del: set_filter)
  qed (use Cons in simp)
qed simp

lemma getSwitchIds_iff:
  assumes "distinct (map GetName (Devices topo))"
  shows "gm_get (getSwitchIds topo) n = Some j \<longleftrightarrow> 0 \<le> j \<and> nat j < length (switch_names topo) \<and> switch_names topo ! nat j = n"
proof -
  have "distinct (map GetName (filter (\<lambda>d. GetType d = INC_SWITCH) (Devices topo)))" by (rule distinct_map_filter [OF assms])
  from ids_numbered [OF this, of "[]" 0 n j] show ?thesis
    unfolding getSwitchIds_def switch_names_def by auto
qed

lemma names_numbered:
  "gm_get (fst (fold (\<lambda>dev (res, i). if P dev then (gm_put i (f dev) res, i + 1) else (res, i)) ds (m, c :: int))) j = Some n
     \<longleftrightarrow> (c \<le> j \<and> nat (j - c) < length (filter P ds) \<and> f (filter P ds ! nat (j - c)) = n)
       \<or> \<not> (c \<le> j \<and> nat (j - c) < length (filter P ds)) \<and> gm_get m j = Some n"
proof (induction ds arbitrary: m c)
  case (Cons d ds)
  show ?case
  proof (cases "P d")
    case True
    note IH = Cons.IH [of "gm_put c (f d) m" "c + 1"]
    have "j = c \<Longrightarrow> \<not> c + 1 \<le> j" by linarith
    with True nat_diff_cases [of c j "length (filter P ds)" "\<lambda>i. f ((d # filter P ds) ! i) = n"]
      nat_diff_cases [of c j "length (filter P ds)" "\<lambda>i. True"]
    show ?thesis by (simp add: IH)
  qed (use Cons in simp)
qed simp

text \<open>The switches of the mirrored topology are those that a client may program.\<close>

lemma mirrored_switches:
  assumes "all_programmable topo"
  shows "map DevName (filter (\<lambda>dev. DeviceType dev = CRD_INC_SWITCH) (Graph (mirrored topo))) = switch_names topo"
proof -
  have "DeviceType (device_from_proto (DeviceToProto d)) = CRD_INC_SWITCH \<longleftrightarrow> GetType d = INC_SWITCH" if "d \<in> set (Devices topo)" for d
    by (cases d) (use that assms in \<open>auto simp: device_from_proto_def DeviceToProto_def convertDeviceType_def all_programmable_def\<close>)
  then have "map DevName (filter (\<lambda>dev. DeviceType dev = CRD_INC_SWITCH) (map (device_from_proto \<circ> DeviceToProto) (Devices topo))) = switch_names topo"
    unfolding switch_names_def filter_map map_map comp_def
    by (intro map_cong filter_cong) (auto simp: device_from_proto_def DeviceToProto_def)
  then show ?thesis by (simp add: buildClusterTopoCR_def TopologyModelToProto_def)
qed

lemma mirrored_names: "map DevName (Graph (mirrored topo)) = map GetName (Devices topo)"
  by (simp add: buildClusterTopoCR_def TopologyModelToProto_def device_from_proto_def DeviceToProto_def comp_def)

lemma mirrored_graph:
  assumes "distinct (map GetName (Devices topo))" and "d \<in> set (Devices topo)"
  shows "gm_get (crd_TopologyToGraph (mirrored topo)) (GetName d) = Some (device_from_proto (DeviceToProto d))"
proof -
  let ?ds = "Graph (mirrored topo)"
  have dist: "distinct (map DevName ?ds)" unfolding mirrored_names by (rule assms(1))
  have mem: "device_from_proto (DeviceToProto d) \<in> set ?ds"
    using assms(2) by (simp add: buildClusterTopoCR_def TopologyModelToProto_def)
  have name: "DevName (device_from_proto (DeviceToProto d)) = GetName d" by (simp add: device_from_proto_def DeviceToProto_def)
  have "find (\<lambda>x. DevName x = GetName d) (rev ?ds) = Some (device_from_proto (DeviceToProto d))"
  proof (cases "find (\<lambda>x. DevName x = GetName d) (rev ?ds)")
    case None
    with mem name show ?thesis by (auto simp: find_None_iff)
  next
    case (Some x)
    then have "x \<in> set ?ds \<and> DevName x = GetName d" by (auto simp: find_Some_iff) (metis length_rev nth_mem set_rev)
    with mem name dist show ?thesis using Some by (metis distinct_map inj_onD)
  qed
  with gm.get_fold_put [of "[]" DevName id ?ds "GetName d"] show ?thesis by (simp add: crd_TopologyToGraph_def)
qed

lemma mirrored_id:
  assumes "distinct (map GetName (Devices topo))" and "all_programmable topo"
  shows "gm_get (GetSwitchIdToNameMapping (mirrored topo)) j = Some n \<longleftrightarrow> gm_get (getSwitchIds topo) n = Some j"
proof -
  let ?xs = "filter (\<lambda>dev. DeviceType dev = CRD_INC_SWITCH) (Graph (mirrored topo))"
  have names: "map DevName ?xs = switch_names topo" by (rule mirrored_switches [OF assms(2)])
  have len: "length (switch_names topo) = length ?xs" unfolding names [symmetric] by simp
  have nth: "switch_names topo ! i = DevName (?xs ! i)" if "i < length ?xs" for i unfolding names [symmetric] using that by simp
  show ?thesis
    unfolding GetSwitchIdToNameMapping_def names_numbered getSwitchIds_iff [OF assms(1)] len using nth by auto
qed

section \<open>Properties\<close>

text \<open>C12: the metrics that a switch reports under the number the SDN controller gave it, for the port towards a neighbour, are shown
  under the name of that switch and the name of that neighbour, provided every switch is programmable.\<close>

theorem metrics_name_devices:
  assumes "distinct (map GetName (Devices topo))" and "all_programmable topo" and "IncSwitch sw \<in> set (Devices topo)"
    and "gm_get (getSwitchIds topo) (Name sw) = Some i"
    and "MustGetPortNumberTo (IncSwitch sw) nb = Some p" and "EgressPortID pm = int p + 1"
  defines "shown \<equiv> convert_switch (GetSwitchIdToNameMapping (mirrored topo)) (crd_TopologyToGraph (mirrored topo))
    \<lparr>SwitchID = i, collectorPortMetrics = [pm]\<rparr>"
  shows "metricsDeviceName shown = Name sw \<and> map TargetDeviceName (PortMetrics shown) = [nb]"
proof -
  have id: "gm_get (GetSwitchIdToNameMapping (mirrored topo)) i = Some (Name sw)"
    using mirrored_id [OF assms(1,2)] assms(4) by blast
  have node: "gm_get (crd_TopologyToGraph (mirrored topo)) (Name sw) = Some (device_from_proto (DeviceToProto (IncSwitch sw)))"
    using mirrored_graph [OF assms(1,3)] by simp
  have links: "PeerNames (device_from_proto (DeviceToProto (IncSwitch sw))) = map To (Links sw)"
    by (simp add: device_from_proto_def DeviceToProto_def LinkToProto_def)
  from MustGetPortNumberTo_Some [OF assms(5)] have "p < length (Links sw)" "To (Links sw ! p) = nb" by simp_all
  then show ?thesis
    by (simp add: shown_def convert_switch_def id node links convert_port_def assms(6))
qed

definition two_switches :: "bool \<Rightarrow> topology" where
  "two_switches programmable =
     \<lparr>Devices = [IncSwitch (NewIncSwitch ''s1'' [NewLink ''s2'' ''00:00:00:00:00:01'' ''10.0.0.1'' 24] BMv2 ''s1:9560'' ''telemetry'' programmable),
                 IncSwitch (NewIncSwitch ''s2'' [NewLink ''s1'' ''00:00:00:00:00:02'' ''10.0.0.2'' 24] BMv2 ''s2:9560'' ''telemetry'' True)]\<rparr>"

definition port_report :: "int \<Rightarrow> collector_port_metrics" where
  "port_report egress = \<lparr>NumPackets = 1, EgressPortID = egress, AverageLatency = 1, AverageQueueFill = 0, SlowestLatency = 2, LargestQueueFill = 0\<rparr>"

theorem metrics_name_devices_witness:
  "metricsDeviceName (convert_switch (GetSwitchIdToNameMapping (mirrored (two_switches True))) (crd_TopologyToGraph (mirrored (two_switches True)))
     \<lparr>SwitchID = 1, collectorPortMetrics = [port_report 1]\<rparr>) = ''s2''"
  using metrics_name_devices [of "two_switches True"
      "NewIncSwitch ''s2'' [NewLink ''s1'' ''00:00:00:00:00:02'' ''10.0.0.2'' 24] BMv2 ''s2:9560'' ''telemetry'' True" 1 "''s1''" 0 "port_report 1"]
  by (simp add: two_switches_def port_report_def NewIncSwitch_def NewLink_def getSwitchIds_def all_programmable_def MustGetPortNumberTo_def
      GetPortNumberTo_def)

text \<open>With a switch that is not programmable the numbers shift: the operator leaves it out when it counts, so the metrics of the first switch appear under the
  name of the second, and those of the second under no name.\<close>

theorem names_shift:
  "(let topo = two_switches False;
        shown = \<lambda>n. metricsDeviceName (convert_switch (GetSwitchIdToNameMapping (mirrored topo)) (crd_TopologyToGraph (mirrored topo))
          \<lparr>SwitchID = n, collectorPortMetrics = []\<rparr>)
    in gm_get (getSwitchIds topo) ''s1'' = Some 0 \<and> gm_get (getSwitchIds topo) ''s2'' = Some 1
     \<and> shown 0 = ''s2'' \<and> shown 1 = UNKNOWN_SWITCH_ID_DESCRIPTOR)"
  by (simp add: two_switches_def NewIncSwitch_def getSwitchIds_def GetSwitchIdToNameMapping_def buildClusterTopoCR_def TopologyModelToProto_def
      DeviceToProto_def device_from_proto_def convertDeviceType_def convert_switch_def UNKNOWN_SWITCH_ID_DESCRIPTOR_def)

end
