(* ===== verification/P4Stream.thy ===== *)
theory P4Stream
  imports Connector
begin

text \<open>
  The stream between a switch and its P4Runtime client: \<open>Run\<close> with its receiving goroutine and \<open>SendMessage\<close>
  (\<open>libs/p4r/client/client.go\<close>), and \<open>Open\<close> of the connector, which waits until the switch accepts the client as the
  primary one, with its goroutine that watches for that (\<open>libs/p4-connector/connector/connection.go\<close>). Every
  statement of a goroutine that another one can observe is a step; a send on an unbuffered channel happens together
  with its receive.
\<close>

section \<open>Messages\<close>

datatype stream_message =
    PacketIn "byte list"
  | DigestListMessage uint32 uint64
  | IdleTimeoutNotification
  | StreamError string
  | UnknownMessage

text \<open>What \<open>Recv\<close> gives: the answer to an arbitration with the code of its status or with no status, another message, the end or an error.\<close>

datatype stream_event = Arbitration int32 | ArbitrationWithoutStatus | StreamMessage stream_message | StreamEOF | RecvFailed go_error

datatype stream_request = MasterArbitration uint64 "uint64 \<times> uint64" "string option" | DigestAck uint32 uint64 | PacketOut "byte list"

abbreviation Code_OK :: int32 where "Code_OK \<equiv> 0"

definition arbitration_request :: "client \<Rightarrow> stream_request" where
  "arbitration_request c = MasterArbitration (deviceID c) (electionID c) (role c)"

definition ack_digest_list :: "uint32 \<Rightarrow> uint64 \<Rightarrow> stream_request" where
  "ack_digest_list ident listIdent = DigestAck ident listIdent"

text \<open>The lines that \<open>handleStreamMessages\<close> logs for a message.\<close>

fun log_lines :: "stream_message \<Rightarrow> string list" where
  "log_lines (PacketIn payload) = [''Received PacketIn'']"
| "log_lines (DigestListMessage ident listIdent) = [''Received DigestList'']"
| "log_lines IdleTimeoutNotification = [''Received IdleTimeoutNotification'']"
| "log_lines (StreamError message) = [''Received StreamError'', message]"
| "log_lines UnknownMessage = [''Received unknown stream message'']"

section \<open>State\<close>

datatype run_pc = Connecting | Arbitrating | Selecting | RunReturned "go_error option"

datatype recv_pc = NotStarted | Receiving | PuttingMessage stream_message | PuttingVerdict bool | PuttingError go_error | RecvStopped | RecvPanicked

datatype watch_pc = Ranging | PuttingPrimary

datatype open_pc = OpenWaiting | OpenPrimary | OpenCancelled

text \<open>\<open>requested\<close>, \<open>received\<close> and \<open>verdicts\<close> record what was queued by \<open>SendMessage\<close> and what the switch sent; \<open>written\<close> is what \<open>Run\<close> handed to the stream.\<close>

record p4_stream =
  ctxDone :: bool
  runPc :: run_pc
  recvPc :: recv_pc
  watchPc :: watch_pc
  watchSent :: bool
  openPc :: open_pc
  streamSendCh :: "stream_request list"
  messageCh :: "stream_message list"
  streamLog :: "string list"
  requested :: "stream_request list"
  written :: "stream_request list"
  received :: "stream_message list"
  verdicts :: "bool list"

abbreviation CHANNEL_SIZE :: nat where "CHANNEL_SIZE \<equiv> 1000"

text \<open>When \<open>Open\<close> has started the goroutines.\<close>

definition opening_stream :: p4_stream where
  "opening_stream = \<lparr>ctxDone = False, runPc = Connecting, recvPc = NotStarted, watchPc = Ranging, watchSent = False, openPc = OpenWaiting,
     streamSendCh = [], messageCh = [], streamLog = [], requested = [], written = [], received = [], verdicts = []\<rparr>"

section \<open>Steps\<close>

datatype stream_action =
    Cancel
  | SendMessage stream_request
  | Connect "go_error option"
  | SendArbitration "go_error option"
  | SendNext
  | RunFails
  | RunEnds
  | Recv stream_event
  | PutMessage
  | HandleMessage
  | PutVerdict
  | PutPrimary
  | GiveUp

text \<open>What the receiving goroutine does with an event.\<close>

fun receive :: "bool \<Rightarrow> stream_event \<Rightarrow> recv_pc" where
  "receive done (Arbitration code) = PuttingVerdict (code = Code_OK)"
| "receive done ArbitrationWithoutStatus = RecvPanicked"
| "receive done (StreamMessage m) = PuttingMessage m"
| "receive done StreamEOF = RecvStopped"
| "receive done (RecvFailed e) = (if done then RecvStopped else PuttingError e)"

fun record_event :: "stream_event \<Rightarrow> p4_stream \<Rightarrow> p4_stream" where
  "record_event (Arbitration code) s = s\<lparr>verdicts := verdicts s @ [code = Code_OK]\<rparr>"
| "record_event (StreamMessage m) s = s\<lparr>received := received s @ [m]\<rparr>"
| "record_event _ s = s"

text \<open>\<open>Run\<close>: its own goroutine and the one it starts.\<close>

inductive run_step :: "client \<Rightarrow> stream_action \<Rightarrow> p4_stream \<Rightarrow> p4_stream \<Rightarrow> bool" for c where
  connect: "runPc s = Connecting \<Longrightarrow> run_step c (Connect None) s (s\<lparr>runPc := Arbitrating, recvPc := Receiving\<rparr>)"
| connect_fails: "runPc s = Connecting \<Longrightarrow>
    run_step c (Connect (Some e)) s (s\<lparr>runPc := RunReturned (Some (Errorf ''cannot establish stream'' (Some e)))\<rparr>)"
| arbitrate: "runPc s = Arbitrating \<Longrightarrow>
    run_step c (SendArbitration None) s (s\<lparr>runPc := Selecting, written := written s @ [arbitration_request c]\<rparr>)"
| arbitrate_fails: "runPc s = Arbitrating \<Longrightarrow> run_step c (SendArbitration (Some e)) s (s\<lparr>runPc := RunReturned (Some e)\<rparr>)"
| send_next: "runPc s = Selecting \<Longrightarrow> streamSendCh s = q # qs \<Longrightarrow>
    run_step c SendNext s (s\<lparr>streamSendCh := qs, written := written s @ [q]\<rparr>)"
| run_fails: "runPc s = Selecting \<Longrightarrow> recvPc s = PuttingError e \<Longrightarrow>
    run_step c RunFails s (s\<lparr>runPc := RunReturned (Some e), recvPc := RecvStopped\<rparr>)"
| run_ends: "runPc s = Selecting \<Longrightarrow> ctxDone s \<Longrightarrow> run_step c RunEnds s (s\<lparr>runPc := RunReturned None\<rparr>)"
| recv: "recvPc s = Receiving \<Longrightarrow> run_step c (Recv ev) s (record_event ev (s\<lparr>recvPc := receive (ctxDone s) ev\<rparr>))"
| put_message: "recvPc s = PuttingMessage m \<Longrightarrow> length (messageCh s) < CHANNEL_SIZE \<Longrightarrow>
    run_step c PutMessage s (s\<lparr>recvPc := Receiving, messageCh := messageCh s @ [m]\<rparr>)"

text \<open>\<open>Open\<close> and its goroutines; a verdict is taken from the receiving goroutine, as soon as the one that watches is ready.\<close>

inductive open_step :: "stream_action \<Rightarrow> p4_stream \<Rightarrow> p4_stream \<Rightarrow> bool" where
  handle: "messageCh s = m # ms \<Longrightarrow> open_step HandleMessage s (s\<lparr>messageCh := ms, streamLog := streamLog s @ log_lines m\<rparr>)"
| put_verdict: "recvPc s = PuttingVerdict isPrimary \<Longrightarrow> watchPc s = Ranging \<Longrightarrow>
    open_step PutVerdict s (s\<lparr>recvPc := Receiving, watchPc := (if isPrimary \<and> \<not> watchSent s then PuttingPrimary else Ranging)\<rparr>)"
| put_primary: "watchPc s = PuttingPrimary \<Longrightarrow> openPc s = OpenWaiting \<Longrightarrow>
    open_step PutPrimary s (s\<lparr>watchPc := Ranging, watchSent := True, openPc := OpenPrimary\<rparr>)"
| give_up: "openPc s = OpenWaiting \<Longrightarrow> ctxDone s \<Longrightarrow> open_step GiveUp s (s\<lparr>openPc := OpenCancelled\<rparr>)"

text \<open>A caller of \<open>SendMessage\<close>, of \<open>SendPacketOut\<close> or \<open>AckDigestList\<close>, waits while the queue is full; a context that is done refuses the message.\<close>

inductive caller_step :: "stream_action \<Rightarrow> p4_stream \<Rightarrow> p4_stream \<Rightarrow> bool" where
  cancel: "caller_step Cancel s (s\<lparr>ctxDone := True\<rparr>)"
| send_message: "length (streamSendCh s) < CHANNEL_SIZE \<Longrightarrow>
    caller_step (SendMessage q) s (s\<lparr>streamSendCh := streamSendCh s @ [q], requested := requested s @ [q]\<rparr>)"

text \<open>The panic of the receiving goroutine, on a status that is nil, ends the process: nothing takes a step any more.\<close>

definition stream_step :: "client \<Rightarrow> stream_action \<Rightarrow> p4_stream \<Rightarrow> p4_stream \<Rightarrow> bool" where
  "stream_step c a s s' \<longleftrightarrow> recvPc s \<noteq> RecvPanicked \<and> (run_step c a s s' \<or> open_step a s s' \<or> caller_step a s s')"

inductive stream_run :: "client \<Rightarrow> p4_stream \<Rightarrow> stream_action list \<Rightarrow> p4_stream \<Rightarrow> bool" for c where
  no_action: "stream_run c s [] s"
| action: "stream_step c a s s' \<Longrightarrow> stream_run c s' as s'' \<Longrightarrow> stream_run c s (a # as) s''"

inductive_simps stream_run_Nil [simp]: "stream_run c s [] s'"
inductive_simps stream_run_Cons [simp]: "stream_run c s (a # as) s'"
inductive_cases run_stepE: "run_step c a s s'"
inductive_cases open_stepE: "open_step a s s'"
inductive_cases caller_stepE: "caller_step a s s'"

lemma stream_stepE:
  assumes "stream_step c a s s'"
  obtains "run_step c a s s'" | "open_step a s s'" | "caller_step a s s'"
  using assms by (auto simp: stream_step_def)

lemmas stream_step_cases = stream_stepE run_stepE open_stepE caller_stepE

text \<open>An action has at most one result.\<close>

fun stream_next :: "client \<Rightarrow> stream_action \<Rightarrow> p4_stream \<Rightarrow> p4_stream option" where
  "stream_next c Cancel s = Some (s\<lparr>ctxDone := True\<rparr>)"
| "stream_next c (SendMessage q) s = (if length (streamSendCh s) < CHANNEL_SIZE then
     Some (s\<lparr>streamSendCh := streamSendCh s @ [q], requested := requested s @ [q]\<rparr>) else None)"
| "stream_next c (Connect None) s = (if runPc s = Connecting then Some (s\<lparr>runPc := Arbitrating, recvPc := Receiving\<rparr>) else None)"
| "stream_next c (Connect (Some e)) s = (if runPc s = Connecting then
     Some (s\<lparr>runPc := RunReturned (Some (Errorf ''cannot establish stream'' (Some e)))\<rparr>) else None)"
| "stream_next c (SendArbitration None) s = (if runPc s = Arbitrating then
     Some (s\<lparr>runPc := Selecting, written := written s @ [arbitration_request c]\<rparr>) else None)"
| "stream_next c (SendArbitration (Some e)) s = (if runPc s = Arbitrating then Some (s\<lparr>runPc := RunReturned (Some e)\<rparr>) else None)"
| "stream_next c SendNext s = (case (runPc s, streamSendCh s) of
     (Selecting, q # qs) \<Rightarrow> Some (s\<lparr>streamSendCh := qs, written := written s @ [q]\<rparr>) | _ \<Rightarrow> None)"
| "stream_next c RunFails s = (case (runPc s, recvPc s) of
     (Selecting, PuttingError e) \<Rightarrow> Some (s\<lparr>runPc := RunReturned (Some e), recvPc := RecvStopped\<rparr>) | _ \<Rightarrow> None)"
| "stream_next c RunEnds s = (if runPc s = Selecting \<and> ctxDone s then Some (s\<lparr>runPc := RunReturned None\<rparr>) else None)"
| "stream_next c (Recv ev) s = (if recvPc s = Receiving then Some (record_event ev (s\<lparr>recvPc := receive (ctxDone s) ev\<rparr>)) else None)"
| "stream_next c PutMessage s = (case recvPc s of
     PuttingMessage m \<Rightarrow> if length (messageCh s) < CHANNEL_SIZE then Some (s\<lparr>recvPc := Receiving, messageCh := messageCh s @ [m]\<rparr>) else None
   | _ \<Rightarrow> None)"
| "stream_next c HandleMessage s = (case messageCh s of
     m # ms \<Rightarrow> Some (s\<lparr>messageCh := ms, streamLog := streamLog s @ log_lines m\<rparr>) | [] \<Rightarrow> None)"
| "stream_next c PutVerdict s = (case (recvPc s, watchPc s) of
     (PuttingVerdict isPrimary, Ranging) \<Rightarrow>
       Some (s\<lparr>recvPc := Receiving, watchPc := (if isPrimary \<and> \<not> watchSent s then PuttingPrimary else Ranging)\<rparr>)
   | _ \<Rightarrow> None)"
| "stream_next c PutPrimary s = (if watchPc s = PuttingPrimary \<and> openPc s = OpenWaiting then
     Some (s\<lparr>watchPc := Ranging, watchSent := True, openPc := OpenPrimary\<rparr>) else None)"
| "stream_next c GiveUp s = (if openPc s = OpenWaiting \<and> ctxDone s then Some (s\<lparr>openPc := OpenCancelled\<rparr>) else None)"

lemma stream_step_next: "stream_step c a s s' \<longleftrightarrow> recvPc s \<noteq> RecvPanicked \<and> stream_next c a s = Some s'"
proof
  show "stream_step c a s s' \<Longrightarrow> recvPc s \<noteq> RecvPanicked \<and> stream_next c a s = Some s'"
    by (intro conjI, simp add: stream_step_def) (elim stream_step_cases; simp)
  show "recvPc s \<noteq> RecvPanicked \<and> stream_next c a s = Some s' \<Longrightarrow> stream_step c a s s'"
    by (cases "(c, a, s)" rule: stream_next.cases)
      (auto simp: stream_step_def run_step.simps open_step.simps caller_step.simps
        split: if_splits run_pc.splits recv_pc.splits watch_pc.splits list.splits)
qed

lemma stream_run_append: "stream_run c s (as @ bs) s' \<longleftrightarrow> (\<exists>m. stream_run c s as m \<and> stream_run c m bs s')"
  by (induction as arbitrary: s) auto

section \<open>Invariants\<close>

definition pending_messages :: "p4_stream \<Rightarrow> stream_message list" where
  "pending_messages s = (case recvPc s of PuttingMessage m \<Rightarrow> [m] | _ \<Rightarrow> [])"

text \<open>The arbitration request goes first, then what was queued, in order.\<close>

definition requests_inv :: "client \<Rightarrow> p4_stream \<Rightarrow> bool" where
  "requests_inv c s \<longleftrightarrow>
     (written s = [] \<and> streamSendCh s = requested s \<or> (\<exists>sent. written s = arbitration_request c # sent \<and> requested s = sent @ streamSendCh s))
   \<and> (runPc s = Connecting \<or> runPc s = Arbitrating \<longrightarrow> written s = []) \<and> (runPc s = Selecting \<longrightarrow> written s \<noteq> [])
   \<and> length (streamSendCh s) \<le> CHANNEL_SIZE"

text \<open>Messages are logged in the order in which they arrive.\<close>

definition messages_inv :: "p4_stream \<Rightarrow> bool" where
  "messages_inv s \<longleftrightarrow>
     concat (map log_lines (received s)) = streamLog s @ concat (map log_lines (messageCh s @ pending_messages s))
   \<and> length (messageCh s) \<le> CHANNEL_SIZE \<and> (runPc s = Connecting \<longrightarrow> recvPc s = NotStarted)"

text \<open>\<open>Open\<close> returns because of a verdict or of its context.\<close>

definition open_inv :: "p4_stream \<Rightarrow> bool" where
  "open_inv s \<longleftrightarrow>
     (recvPc s = PuttingVerdict True \<longrightarrow> True \<in> set (verdicts s)) \<and> (watchPc s = PuttingPrimary \<longrightarrow> True \<in> set (verdicts s) \<and> \<not> watchSent s)
   \<and> (openPc s = OpenPrimary \<longrightarrow> True \<in> set (verdicts s))
   \<and> (watchSent s \<longleftrightarrow> openPc s = OpenPrimary) \<and> (openPc s = OpenCancelled \<longrightarrow> ctxDone s)"

definition stream_inv :: "client \<Rightarrow> p4_stream \<Rightarrow> bool" where
  "stream_inv c s \<longleftrightarrow> requests_inv c s \<and> messages_inv s \<and> open_inv s"

lemmas stream_inv_defs = stream_inv_def requests_inv_def messages_inv_def open_inv_def

lemma opening_stream_inv: "stream_inv c opening_stream"
  by (simp add: stream_inv_defs opening_stream_def pending_messages_def)

lemma record_event_simps [simp]:
  "written (record_event ev s) = written s" "streamSendCh (record_event ev s) = streamSendCh s" "requested (record_event ev s) = requested s"
  "runPc (record_event ev s) = runPc s" "recvPc (record_event ev s) = recvPc s" "messageCh (record_event ev s) = messageCh s"
  "streamLog (record_event ev s) = streamLog s" "watchPc (record_event ev s) = watchPc s" "watchSent (record_event ev s) = watchSent s"
  "openPc (record_event ev s) = openPc s" "ctxDone (record_event ev s) = ctxDone s"
  by (cases ev; simp)+

lemma step_requests: "stream_step c a s s' \<Longrightarrow> requests_inv c s \<Longrightarrow> requests_inv c s'"
  by (elim stream_step_cases) (auto simp: requests_inv_def)

lemma recv_messages: "recvPc s = Receiving \<Longrightarrow> messages_inv s \<Longrightarrow> messages_inv (record_event ev (s\<lparr>recvPc := receive d ev\<rparr>))"
  by (cases ev) (auto simp: messages_inv_def pending_messages_def)

lemma step_messages: "stream_step c a s s' \<Longrightarrow> messages_inv s \<Longrightarrow> messages_inv s'"
  by (elim stream_step_cases) (auto simp: recv_messages, auto simp: messages_inv_def pending_messages_def)

lemma recv_open: "recvPc s = Receiving \<Longrightarrow> open_inv s \<Longrightarrow> open_inv (record_event ev (s\<lparr>recvPc := receive d ev\<rparr>))"
  by (cases ev) (auto simp: open_inv_def)

lemma step_open: "stream_step c a s s' \<Longrightarrow> open_inv s \<Longrightarrow> open_inv s'"
  by (elim stream_step_cases) (auto simp: recv_open, auto simp: open_inv_def)

lemma stream_run_inv: "stream_run c s as s' \<Longrightarrow> stream_inv c s \<Longrightarrow> stream_inv c s'"
  by (induction rule: stream_run.induct) (auto simp: stream_inv_def intro: step_requests step_messages step_open)

section \<open>What was queued and received\<close>

definition queued_requests :: "stream_action list \<Rightarrow> stream_request list" where
  "queued_requests as = List.map_filter (\<lambda>a. case a of SendMessage q \<Rightarrow> Some q | _ \<Rightarrow> None) as"

definition arrived_messages :: "stream_action list \<Rightarrow> stream_message list" where
  "arrived_messages as = List.map_filter (\<lambda>a. case a of Recv (StreamMessage m) \<Rightarrow> Some m | _ \<Rightarrow> None) as"

lemma record_event_received: "received (record_event ev s) = received s @ arrived_messages [Recv ev]"
  by (cases ev) (simp_all add: arrived_messages_def map_filter_simps)

lemma record_event_requested: "requested (record_event ev s) = requested s"
  by (cases ev) simp_all

lemma step_records:
  "stream_step c a s s' \<Longrightarrow> requested s' = requested s @ queued_requests [a] \<and> received s' = received s @ arrived_messages [a]
     \<and> (True \<in> set (verdicts s') \<longleftrightarrow> True \<in> set (verdicts s) \<or> a = Recv (Arbitration Code_OK)) \<and> (ctxDone s' \<longleftrightarrow> ctxDone s \<or> a = Cancel)"
proof (elim stream_step_cases)
  fix ev
  assume "a = Recv ev" "s' = record_event ev (s\<lparr>recvPc := receive (ctxDone s) ev\<rparr>)"
  then show ?thesis
    by (cases ev) (auto simp: queued_requests_def arrived_messages_def map_filter_simps)
qed (simp_all add: queued_requests_def arrived_messages_def map_filter_simps)

lemma run_records:
  "stream_run c s as s' \<Longrightarrow> requested s' = requested s @ queued_requests as \<and> received s' = received s @ arrived_messages as
     \<and> (True \<in> set (verdicts s') \<longleftrightarrow> True \<in> set (verdicts s) \<or> Recv (Arbitration Code_OK) \<in> set as) \<and> (ctxDone s' \<longleftrightarrow> ctxDone s \<or> Cancel \<in> set as)"
proof (induction rule: stream_run.induct)
  case (action a s s' as s'')
  have "queued_requests (a # as) = queued_requests [a] @ queued_requests as" "arrived_messages (a # as) = arrived_messages [a] @ arrived_messages as"
    by (auto simp: queued_requests_def arrived_messages_def map_filter_simps split: option.split)
  with step_records [OF action.hyps(1)] action.IH show ?case by auto
qed (simp add: queued_requests_def arrived_messages_def map_filter_simps)

section \<open>Properties\<close>

text \<open>C10: \<open>Open\<close> reports success only after the switch answered an arbitration with the code OK, and gives up only when its context is done.\<close>

theorem open_waits_for_primary:
  assumes "stream_run c opening_stream as s"
  shows "(openPc s = OpenPrimary \<longrightarrow> Recv (Arbitration Code_OK) \<in> set as) \<and> (openPc s = OpenCancelled \<longrightarrow> Cancel \<in> set as)"
proof -
  have "open_inv s" using stream_run_inv [OF assms opening_stream_inv] by (simp add: stream_inv_def)
  with run_records [OF assms] show ?thesis by (auto simp: open_inv_def opening_stream_def)
qed


text \<open>The receiving goroutine has not come to its end.\<close>

definition stream_alive :: "p4_stream \<Rightarrow> bool" where
  "stream_alive s \<longleftrightarrow> (case recvPc s of NotStarted \<Rightarrow> runPc s = Connecting | RecvStopped \<Rightarrow> False | RecvPanicked \<Rightarrow> False
     | PuttingError e \<Rightarrow> False | _ \<Rightarrow> True)"

text \<open>The stream works: \<open>Run\<close> has not returned, its receiving goroutine has not come to its end and nobody has cancelled the context.\<close>

definition stream_works :: "p4_stream \<Rightarrow> bool" where
  "stream_works s \<longleftrightarrow> stream_alive s \<and> (\<forall>e. runPc s \<noteq> RunReturned e) \<and> \<not> ctxDone s"

text \<open>What the goroutines of \<open>Run\<close> and \<open>Open\<close> do of themselves when nothing fails: neither a message of the switch nor a call.\<close>

definition own_action :: "stream_action \<Rightarrow> bool" where
  "own_action a \<longleftrightarrow> a \<in> {Connect None, SendArbitration None, HandleMessage, PutMessage, PutVerdict, PutPrimary}"

lemma request_goes_out:
  assumes inv: "stream_inv c s" and works: "stream_works s"
  shows "\<exists>bs s'. stream_run c s bs s' \<and> list_all own_action bs \<and> stream_alive s' \<and> runPc s' = Selecting \<and> openPc s' = openPc s \<and> watchPc s' = watchPc s"
proof (cases "runPc s")
  case Connecting
  with inv have "recvPc s = NotStarted" by (simp add: stream_inv_def messages_inv_def)
  with Connecting show ?thesis
    by (intro exI [of _ "[Connect None, SendArbitration None]"]) (simp add: own_action_def stream_step_next stream_alive_def)
next
  case Arbitrating
  with works show ?thesis
    by (intro exI [of _ "[SendArbitration None]"])
      (auto simp: own_action_def stream_step_next stream_works_def stream_alive_def split: recv_pc.splits)
next
  case Selecting
  with works show ?thesis by (intro exI [of _ "[]"]) (simp add: stream_works_def)
qed (use works in \<open>simp add: stream_works_def\<close>)

lemma ready_to_receive:
  assumes "stream_inv c s" and "stream_alive s" and "runPc s = Selecting" and "openPc s = OpenWaiting" and "watchPc s = Ranging"
  shows "\<exists>bs s'. stream_run c s bs s' \<and> list_all own_action bs \<and> openPc s' = OpenWaiting \<and> recvPc s' \<noteq> RecvPanicked
    \<and> (watchPc s' = PuttingPrimary \<or> recvPc s' = Receiving \<and> watchPc s' = Ranging)"
proof (cases "recvPc s")
  case NotStarted
  with assms show ?thesis by (simp add: stream_alive_def)
next
  case Receiving
  with assms show ?thesis by (intro exI [of _ "[]"] exI [of _ s]) simp
next
  case (PuttingMessage m)
  show ?thesis
  proof (cases "length (messageCh s) < CHANNEL_SIZE")
    case True
    with PuttingMessage assms show ?thesis
      by (intro exI [of _ "[PutMessage]"] exI [of _ "s\<lparr>recvPc := Receiving, messageCh := messageCh s @ [m]\<rparr>"])
        (simp_all add: own_action_def stream_step_next)
  next
    case False
    then obtain m1 ms where q: "messageCh s = m1 # ms" by (cases "messageCh s") auto
    define s1 where "s1 = s\<lparr>messageCh := ms, streamLog := streamLog s @ log_lines m1\<rparr>"
    have "stream_step c HandleMessage s s1" using q PuttingMessage by (simp add: s1_def stream_step_next)
    moreover have "length ms < CHANNEL_SIZE" using assms(1) q by (simp add: stream_inv_defs)
    then have "stream_step c PutMessage s1 (s1\<lparr>recvPc := Receiving, messageCh := messageCh s1 @ [m]\<rparr>)"
      using PuttingMessage by (simp add: stream_step_def s1_def run_step.simps)
    ultimately have "stream_run c s [HandleMessage, PutMessage] (s1\<lparr>recvPc := Receiving, messageCh := messageCh s1 @ [m]\<rparr>)"
      by (blast intro: stream_run.intros)
    moreover have "list_all own_action [HandleMessage, PutMessage]" by (simp add: own_action_def)
    moreover have "openPc s1 = OpenWaiting" "watchPc s1 = Ranging" using assms by (simp_all add: s1_def)
    ultimately show ?thesis
      by (intro exI [of _ "[HandleMessage, PutMessage]"] exI [of _ "s1\<lparr>recvPc := Receiving, messageCh := messageCh s1 @ [m]\<rparr>"] conjI) simp_all
  qed
next
  case (PuttingVerdict b)
  with assms show ?thesis
    by (intro exI [of _ "[PutVerdict]"] exI [of _ "s\<lparr>recvPc := Receiving, watchPc := (if b \<and> \<not> watchSent s then PuttingPrimary else Ranging)\<rparr>"])
      (simp_all add: own_action_def stream_step_next)
qed (use assms in \<open>simp_all add: stream_alive_def\<close>)

lemma accepted_in_time:
  assumes inv: "stream_inv c s" and live: "stream_alive s" "runPc s = Selecting" "openPc s = OpenWaiting"
  shows "\<exists>bs s'. stream_run c s bs s' \<and> list_all (\<lambda>a. own_action a \<or> a = Recv (Arbitration Code_OK)) bs \<and> openPc s' = OpenPrimary"
proof -
  obtain bs1 s1 where s1: "stream_run c s bs1 s1" "list_all own_action bs1" "openPc s1 = OpenWaiting"
      "recvPc s1 \<noteq> RecvPanicked" "watchPc s1 = PuttingPrimary \<or> recvPc s1 = Receiving \<and> watchPc s1 = Ranging"
  proof (cases "watchPc s")
    case PuttingPrimary
    with live show ?thesis by (intro that [of "[]" s]) (auto simp: stream_alive_def)
  qed (use ready_to_receive [OF inv live] that in blast)
  have sent: "\<not> watchSent s1" using stream_run_inv [OF s1(1) inv] s1(3) by (simp add: stream_inv_defs)
  have "\<exists>bs s'. stream_run c s1 bs s' \<and> list_all (\<lambda>a. own_action a \<or> a = Recv (Arbitration Code_OK)) bs \<and> openPc s' = OpenPrimary"
  proof (cases "watchPc s1")
    case PuttingPrimary
    with s1(3,4) show ?thesis
      by (intro exI [of _ "[PutPrimary]"]) (simp add: own_action_def stream_step_next)
  next
    case Ranging
    with s1(5) have "recvPc s1 = Receiving" by simp
    with Ranging sent s1(3) show ?thesis
      by (intro exI [of _ "[Recv (Arbitration Code_OK), PutVerdict, PutPrimary]"])
        (simp add: own_action_def stream_step_next)
  qed
  then obtain bs2 s2 where 2: "stream_run c s1 bs2 s2" "list_all (\<lambda>a. own_action a \<or> a = Recv (Arbitration Code_OK)) bs2" "openPc s2 = OpenPrimary"
    by blast
  have "list_all (\<lambda>a. own_action a \<or> a = Recv (Arbitration Code_OK)) bs1" using s1(2) by (auto simp: list_all_iff)
  with s1(1) 2 show ?thesis by (intro exI [of _ "bs1 @ bs2"] exI [of _ s2]) (auto simp: stream_run_append)
qed

text \<open>C24: \<open>Open\<close> can still succeed as long as the stream works, that is, \<open>Run\<close> has not returned, its receiving goroutine has not come to its
  end and the context is not cancelled: whatever the switch and the callers did before, the goroutines can go on of themselves until the arbitration
  request is the first thing that went out on the stream; and from there the acceptance by the switch is all that is needed from outside: with it the
  goroutines can go on until \<open>Open\<close> reports success.\<close>

theorem open_can_succeed:
  assumes "stream_run c opening_stream as s" and "stream_works s" and "openPc s = OpenWaiting"
  shows "\<exists>bs s1 bs' s2. stream_run c s bs s1 \<and> list_all own_action bs
     \<and> (\<exists>sent. written s1 = arbitration_request c # sent) \<and> openPc s1 = OpenWaiting
     \<and> stream_run c s1 bs' s2 \<and> list_all (\<lambda>a. own_action a \<or> a = Recv (Arbitration Code_OK)) bs' \<and> openPc s2 = OpenPrimary"
proof -
  have inv: "stream_inv c s" by (rule stream_run_inv [OF assms(1) opening_stream_inv])
  from request_goes_out [OF inv assms(2)] assms(3) obtain bs s1 where
    s1: "stream_run c s bs s1" "list_all own_action bs" "stream_alive s1" "runPc s1 = Selecting" "openPc s1 = OpenWaiting" by auto
  have inv1: "stream_inv c s1" by (rule stream_run_inv [OF s1(1) inv])
  then have "\<exists>sent. written s1 = arbitration_request c # sent" using s1(4) by (auto simp: stream_inv_defs)
  with s1 accepted_in_time [OF inv1 s1(3-5)] show ?thesis by blast
qed

text \<open>Once the receiving goroutine has ended, or never started, without a verdict, or waits with its error for a \<open>Run\<close> that has returned.\<close>

definition stream_lost :: "p4_stream \<Rightarrow> bool" where
  "stream_lost s \<longleftrightarrow> recvPc s = RecvStopped \<or> (recvPc s = NotStarted \<or> (\<exists>e. recvPc s = PuttingError e)) \<and> (\<exists>e. runPc s = RunReturned e)"

definition hopeless :: "p4_stream \<Rightarrow> bool" where
  "hopeless s \<longleftrightarrow> stream_lost s \<and> runPc s \<noteq> Connecting \<and> watchPc s = Ranging \<and> openPc s = OpenWaiting \<and> \<not> ctxDone s"

lemma hopeless_step: "stream_step c a s s' \<Longrightarrow> hopeless s \<Longrightarrow> a \<noteq> Cancel \<Longrightarrow> hopeless s'"
  by (elim stream_step_cases) (auto simp: hopeless_def stream_lost_def)

lemma hopeless_run: "stream_run c s as s' \<Longrightarrow> hopeless s \<Longrightarrow> Cancel \<notin> set as \<Longrightarrow> hopeless s'"
  by (induction rule: stream_run.induct) (auto intro: hopeless_step)

text \<open>C23: the error with which \<open>Run\<close> returns reaches nobody: when the stream could not be established, failed or ended before the switch accepted the client,
  \<open>Open\<close> waits for ever unless its context is cancelled; the controller opens its switches with a context that never is.\<close>

theorem lost_stream_blocks_open:
  assumes "stream_run c opening_stream as s" and "stream_lost s" and "Recv (Arbitration Code_OK) \<notin> set as" and "Cancel \<notin> set as"
    and "stream_run c s bs s'" and "Cancel \<notin> set bs"
  shows "openPc s' = OpenWaiting \<and> \<not> stream_alive s'"
proof -
  have "open_inv s" "messages_inv s" using stream_run_inv [OF assms(1) opening_stream_inv] by (simp_all add: stream_inv_def)
  moreover have "True \<notin> set (verdicts s)" "\<not> ctxDone s"
    using run_records [OF assms(1)] assms(3,4) by (simp_all add: opening_stream_def)
  ultimately have "hopeless s"
    using assms(2) by (cases "openPc s"; cases "watchPc s") (auto simp: hopeless_def open_inv_def messages_inv_def stream_lost_def)
  from hopeless_run [OF assms(5) this assms(6)] show ?thesis
    by (auto simp: hopeless_def stream_lost_def stream_alive_def)
qed

section \<open>A switch that accepts late, and one that does not\<close>

definition first_client :: client where
  "first_client = NewClient 0 (0, 1)"

lemmas sample_stream_simps = stream_step_next opening_stream_def

text \<open>The answers come before the request was sent, another controller is the primary one at first, and a packet arrives.\<close>

definition late_opening :: "stream_action list" where
  "late_opening = [Connect None, Recv (Arbitration 6), SendMessage (PacketOut [1]), PutVerdict, SendArbitration None,
     Recv (StreamMessage (PacketIn [7])), SendNext, PutMessage]"


theorem open_waits_for_primary_witness:
  "\<exists>s. stream_run first_client opening_stream (late_opening @ [Recv (Arbitration Code_OK), PutVerdict, PutPrimary]) s \<and> openPc s = OpenPrimary
     \<and> Recv (Arbitration Code_OK) \<in> set (late_opening @ [Recv (Arbitration Code_OK), PutVerdict, PutPrimary])"
proof -
  let ?as = "late_opening @ [Recv (Arbitration Code_OK), PutVerdict, PutPrimary]"
  obtain s where s: "stream_run first_client opening_stream ?as s" "openPc s = OpenPrimary"
    by (simp add: late_opening_def sample_stream_simps)
  with open_waits_for_primary [OF s(1)] show ?thesis by blast
qed


theorem open_can_succeed_witness:
  "\<exists>as s. stream_run first_client opening_stream (late_opening @ as) s \<and> openPc s = OpenPrimary"
proof -
  obtain s where s: "stream_run first_client opening_stream late_opening s" "stream_works s" "openPc s = OpenWaiting"
    by (simp add: late_opening_def sample_stream_simps stream_works_def stream_alive_def)
  from open_can_succeed [OF s] obtain bs s1 bs' s2
    where "stream_run first_client s bs s1" "stream_run first_client s1 bs' s2" "openPc s2 = OpenPrimary" by blast
  then have "stream_run first_client opening_stream (late_opening @ bs @ bs') s2 \<and> openPc s2 = OpenPrimary"
    using s(1) by (auto simp: stream_run_append)
  then show ?thesis by blast
qed

text \<open>The case that the error of the receiving goroutine finds a \<open>Run\<close> that has returned: the send of the arbitration failed.\<close>

lemma failed_send_is_lost:
  "\<exists>s. stream_run first_client opening_stream [Connect None, SendArbitration (Some (ExternalError ''EOF'')), Recv (RecvFailed (ExternalError ''EOF''))] s \<and> stream_lost s"
  by (simp add: sample_stream_simps stream_lost_def)

theorem lost_stream_blocks_open_witness:
  "\<exists>s. stream_run first_client opening_stream ([Connect None, SendArbitration None, Recv StreamEOF] @ [SendMessage (PacketOut [1]), SendNext]) s
     \<and> openPc s = OpenWaiting"
proof -
  let ?as = "[Connect None, SendArbitration None, Recv StreamEOF]" and ?bs = "[SendMessage (PacketOut [1]), SendNext]"
  obtain m where m: "stream_run first_client opening_stream ?as m" "stream_lost m"
    and more: "\<exists>s'. stream_run first_client m ?bs s'"
    by (simp add: sample_stream_simps stream_lost_def)
  from more obtain s' where s': "stream_run first_client m ?bs s'" by blast
  have "openPc s' = OpenWaiting" using lost_stream_blocks_open [OF m _ _ s'] by simp
  with m(1) s' show ?thesis unfolding stream_run_append by blast
qed

end
