(* ===== verification/CapabilityStream.thy ===== *)
theory CapabilityStream
  imports CapabilityMonitor "HOL-Library.Sublist"
begin

text \<open>
  The capability updates between the goroutines: the monitor (\<open>telemetry/sourcecapabilitymonitor.go\<close>) and the streams of
  \<open>SubscribeSourceCapabilities\<close> (\<open>controller/frontend.go\<close>), with the send of the monitor on the unbuffered channel of an observer as what it is, a
  step that waits for its receiver. The theory CapabilityMonitor treats one iteration as one step.
\<close>

section \<open>State and steps\<close>

text \<open>The monitor waits for an update; or it looks at the observer at a position of the copy of the list, with the positions it has removed so far; or it
  sends to that observer.\<close>

datatype 'u monitor_pc = MonIdle | MonVisiting 'u "nat list" nat "nat list" | MonSending 'u "nat list" nat "nat list"

text \<open>A stream sends the present capabilities, ranges over its channel, sends an update to its client, or has failed to and is about to close its stop channel.\<close>

datatype 'u subscriber_pc = Unsubscribed | SendingPresent | Ranging | SendingUpdate 'u | Failing | Finished

text \<open>What a stream sends its client: the present capabilities, or an update that the monitor gave it.\<close>

datatype 'u cap_message = Present 'u | Update 'u

record 'u cap_state =
  capQueue :: "'u option"
  capObservers :: "nat list"
  monitorPc :: "'u monitor_pc"
  subscriberPc :: "nat \<Rightarrow> 'u subscriber_pc"
  stopChanClosed :: "nat \<Rightarrow> bool"
  updateChanClosed :: "nat \<Rightarrow> bool"
  takenUpdates :: "'u list"
  sentTo :: "nat \<Rightarrow> 'u cap_message list"

definition cap_start :: "'u cap_state" where
  "cap_start = \<lparr>capQueue = None, capObservers = [], monitorPc = MonIdle, subscriberPc = (\<lambda>_. Unsubscribed), stopChanClosed = (\<lambda>_. False),
     updateChanClosed = (\<lambda>_. False), takenUpdates = [], sentTo = (\<lambda>_. [])\<rparr>"

datatype 'u cap_action =
    CapNotify 'u
  | Take
  | Visit
  | Deliver
  | FinishRound
  | CapSubscribe nat
  | SendPresent nat 'u
  | PresentFails nat
  | SendUpdate nat
  | SendFails nat
  | CloseStop nat
  | RangeEnds nat

text \<open>\<open>NotifyChanged\<close> replaces an update that was not taken; the rounds of its loop are in the theory CapabilityMonitor.\<close>

inductive monitor_step :: "'u cap_action \<Rightarrow> 'u cap_state \<Rightarrow> 'u cap_state \<Rightarrow> bool" where
  notify: "monitor_step (CapNotify u) s (s\<lparr>capQueue := Some u\<rparr>)"
| take_update: "monitorPc s = MonIdle \<Longrightarrow> capQueue s = Some u \<Longrightarrow>
    monitor_step Take s (s\<lparr>capQueue := None, takenUpdates := takenUpdates s @ [u], monitorPc := MonVisiting u (capObservers s) 0 []\<rparr>)"
| visit_stopped: "monitorPc s = MonVisiting u copy i removed \<Longrightarrow> i < length copy \<Longrightarrow> stopChanClosed s (copy ! i) \<Longrightarrow>
    monitor_step Visit s (s\<lparr>updateChanClosed := (updateChanClosed s)(copy ! i := True), monitorPc := MonVisiting u copy (Suc i) (removed @ [i])\<rparr>)"
| visit_open: "monitorPc s = MonVisiting u copy i removed \<Longrightarrow> i < length copy \<Longrightarrow> \<not> stopChanClosed s (copy ! i) \<Longrightarrow>
    monitor_step Visit s (s\<lparr>monitorPc := MonSending u copy i removed\<rparr>)"
| deliver: "monitorPc s = MonSending u copy i removed \<Longrightarrow> subscriberPc s (copy ! i) = Ranging \<Longrightarrow>
    monitor_step Deliver s (s\<lparr>subscriberPc := (subscriberPc s)(copy ! i := SendingUpdate u), monitorPc := MonVisiting u copy (Suc i) removed\<rparr>)"
| finish_round: "monitorPc s = MonVisiting u copy (length copy) removed \<Longrightarrow>
    monitor_step FinishRound s (s\<lparr>monitorPc := MonIdle, capObservers :=
      (if removed = [] then capObservers s else remaining_observers 0 removed copy @ drop (length copy) (capObservers s))\<rparr>)"

text \<open>
  The first message of a stream holds the capabilities that are present when it is made, any value here; an error of its send is ignored,
  so that the stream goes on without it.
\<close>

inductive subscription_step :: "'u cap_action \<Rightarrow> 'u cap_state \<Rightarrow> 'u cap_state \<Rightarrow> bool" where
  subscribe: "subscriberPc s n = Unsubscribed \<Longrightarrow>
    subscription_step (CapSubscribe n) s (s\<lparr>capObservers := capObservers s @ [n], subscriberPc := (subscriberPc s)(n := SendingPresent)\<rparr>)"
| send_present: "subscriberPc s n = SendingPresent \<Longrightarrow>
    subscription_step (SendPresent n u) s (s\<lparr>subscriberPc := (subscriberPc s)(n := Ranging), sentTo := (sentTo s)(n := sentTo s n @ [Present u])\<rparr>)"
| present_fails: "subscriberPc s n = SendingPresent \<Longrightarrow>
    subscription_step (PresentFails n) s (s\<lparr>subscriberPc := (subscriberPc s)(n := Ranging)\<rparr>)"
| send_update: "subscriberPc s n = SendingUpdate u \<Longrightarrow>
    subscription_step (SendUpdate n) s (s\<lparr>subscriberPc := (subscriberPc s)(n := Ranging), sentTo := (sentTo s)(n := sentTo s n @ [Update u])\<rparr>)"
| send_fails: "subscriberPc s n = SendingUpdate u \<Longrightarrow> subscription_step (SendFails n) s (s\<lparr>subscriberPc := (subscriberPc s)(n := Failing)\<rparr>)"
| close_stop: "subscriberPc s n = Failing \<Longrightarrow>
    subscription_step (CloseStop n) s (s\<lparr>subscriberPc := (subscriberPc s)(n := Finished), stopChanClosed := (stopChanClosed s)(n := True)\<rparr>)"
| range_ends: "subscriberPc s n = Ranging \<Longrightarrow> updateChanClosed s n \<Longrightarrow>
    subscription_step (RangeEnds n) s (s\<lparr>subscriberPc := (subscriberPc s)(n := Finished)\<rparr>)"

definition cap_step :: "'u cap_action \<Rightarrow> 'u cap_state \<Rightarrow> 'u cap_state \<Rightarrow> bool" where
  "cap_step a s s' \<longleftrightarrow> monitor_step a s s' \<or> subscription_step a s s'"

inductive cap_run :: "'u cap_state \<Rightarrow> 'u cap_action list \<Rightarrow> 'u cap_state \<Rightarrow> bool" where
  cap_stop: "cap_run s [] s"
| cap_more: "cap_step a s s' \<Longrightarrow> cap_run s' as s'' \<Longrightarrow> cap_run s (a # as) s''"

inductive_simps cap_run_Nil [simp]: "cap_run s [] s'"
inductive_simps cap_run_Cons [simp]: "cap_run s (a # as) s'"
inductive_cases monitor_stepE: "monitor_step a s s'"
inductive_cases subscription_stepE: "subscription_step a s s'"

lemma cap_stepE:
  assumes "cap_step a s s'"
  obtains "monitor_step a s s'" | "subscription_step a s s'"
  using assms by (auto simp: cap_step_def)

lemmas cap_step_cases = cap_stepE monitor_stepE subscription_stepE
lemmas cap_step_simps = cap_step_def monitor_step.simps subscription_step.simps

lemma cap_run_append: "cap_run s (as @ bs) s' \<longleftrightarrow> (\<exists>m. cap_run s as m \<and> cap_run m bs s')"
  by (induction as arbitrary: s) auto

section \<open>What a stream gets\<close>

text \<open>The updates among the messages of a stream, and with the one it holds.\<close>

fun updates_in :: "'u cap_message list \<Rightarrow> 'u list" where
  "updates_in [] = []"
| "updates_in (Update u # ms) = u # updates_in ms"
| "updates_in (Present u # ms) = updates_in ms"

lemma updates_in_append [simp]: "updates_in (ms @ ms') = updates_in ms @ updates_in ms'"
  by (induction ms rule: updates_in.induct) auto

definition deliveredTo :: "'u cap_state \<Rightarrow> nat \<Rightarrow> 'u list" where
  "deliveredTo s n = updates_in (sentTo s n)"

definition got :: "'u cap_state \<Rightarrow> nat \<Rightarrow> 'u list" where
  "got s n = deliveredTo s n @ (case subscriberPc s n of SendingUpdate u \<Rightarrow> [u] | _ \<Rightarrow> [])"

definition round_inv :: "'u cap_state \<Rightarrow> 'u \<Rightarrow> nat list \<Rightarrow> nat \<Rightarrow> bool" where
  "round_inv s u copy i \<longleftrightarrow> distinct copy \<and> prefix copy (capObservers s) \<and> i \<le> length copy
     \<and> (\<exists>ts. takenUpdates s = ts @ [u] \<and> (\<forall>n. subseq (got s n) (if n \<in> set (drop i copy) then ts else ts @ [u])))"

definition cap_inv :: "'u cap_state \<Rightarrow> bool" where
  "cap_inv s \<longleftrightarrow> distinct (capObservers s) \<and> (\<forall>n \<in> set (capObservers s). subscriberPc s n \<noteq> Unsubscribed)
     \<and> (case monitorPc s of
          MonIdle \<Rightarrow> \<forall>n. subseq (got s n) (takenUpdates s)
        | MonVisiting u copy i removed \<Rightarrow> round_inv s u copy i
        | MonSending u copy i removed \<Rightarrow> round_inv s u copy i \<and> i < length copy)"

lemma remaining_subset: "set (remaining_observers n removed copy) \<subseteq> set copy"
  by (induction n removed copy rule: remaining_observers.induct) (auto split: list.split)

lemma remaining_distinct: "distinct copy \<Longrightarrow> distinct (remaining_observers n removed copy)"
proof (induction n removed copy rule: remaining_observers.induct)
  case (2 i removed obs rest)
  have "obs \<notin> set (remaining_observers k rs rest)" for k rs using "2.prems" remaining_subset by fastforce
  with 2 show ?case by (auto split: list.split)
qed simp

lemma round_inv_cong:
  assumes "round_inv s u copy i" and "prefix (capObservers s) (capObservers s')" and "takenUpdates s' = takenUpdates s"
    and "\<And>n. subseq (got s' n) (got s n)"
  shows "round_inv s' u copy i"
proof -
  from assms(1) obtain ts where ts: "takenUpdates s = ts @ [u]" "\<And>n. subseq (got s n) (if n \<in> set (drop i copy) then ts else ts @ [u])"
    and copy: "distinct copy" "prefix copy (capObservers s)" "i \<le> length copy"
    by (auto simp: round_inv_def)
  have "subseq (got s' n) (if n \<in> set (drop i copy) then ts else ts @ [u])" for n
    by (rule subseq_order.trans [OF assms(4) ts(2)])
  moreover have "prefix copy (capObservers s')" by (rule prefix_order.trans [OF copy(2) assms(2)])
  ultimately show ?thesis using copy ts(1) assms(3) by (auto simp: round_inv_def)
qed

lemma round_inv_next:
  assumes "round_inv s u copy i" and "i < length copy" and "capObservers s' = capObservers s" and "takenUpdates s' = takenUpdates s"
    and "\<And>n. n \<noteq> copy ! i \<Longrightarrow> got s' n = got s n" and "got s' (copy ! i) = got s (copy ! i) \<or> got s' (copy ! i) = got s (copy ! i) @ [u]"
  shows "round_inv s' u copy (Suc i)"
proof -
  from assms(1) obtain ts where ts: "takenUpdates s = ts @ [u]" "\<And>n. subseq (got s n) (if n \<in> set (drop i copy) then ts else ts @ [u])"
    by (auto simp: round_inv_def)
  have split: "drop i copy = copy ! i # drop (Suc i) copy" using assms(2) by (simp add: Cons_nth_drop_Suc)
  have "distinct (drop i copy)" using assms(1) by (simp add: round_inv_def)
  then have out: "copy ! i \<notin> set (drop (Suc i) copy)" by (simp add: split)
  have "subseq (got s' n) (if n \<in> set (drop (Suc i) copy) then ts else ts @ [u])" for n
  proof (cases "n = copy ! i")
    case True
    have "subseq (got s n) ts" using ts(2) [of n] by (simp add: split True)
    with assms(6) have "subseq (got s' n) (ts @ [u])" unfolding True by (auto intro: list_emb_append_mono subseq_order.trans)
    then show ?thesis using out True by simp
  next
    case False
    with ts(2) [of n] assms(5) [OF False] show ?thesis by (simp add: split split: if_splits)
  qed
  with assms(1-4) ts(1) show ?thesis by (auto simp: round_inv_def)
qed

lemma subscription_step_got: "subscription_step a s s' \<Longrightarrow> subseq (got s' n) (got s n)"
  by (cases rule: subscription_step.cases) (auto simp: got_def deliveredTo_def)

lemma subscription_step_frame:
  "subscription_step a s s' \<Longrightarrow> takenUpdates s' = takenUpdates s \<and> monitorPc s' = monitorPc s \<and> prefix (capObservers s) (capObservers s')"
  by (cases rule: subscription_step.cases) auto

lemma subscription_step_observers:
  "subscription_step a s s' \<Longrightarrow> distinct (capObservers s) \<Longrightarrow> \<forall>n \<in> set (capObservers s). subscriberPc s n \<noteq> Unsubscribed \<Longrightarrow>
     distinct (capObservers s') \<and> (\<forall>n \<in> set (capObservers s'). subscriberPc s' n \<noteq> Unsubscribed)"
  by (cases rule: subscription_step.cases) (auto split: if_splits)

lemma subscription_step_inv:
  assumes step: "subscription_step a s s'" and inv: "cap_inv s"
  shows "cap_inv s'"
proof -
  note frame = subscription_step_frame [OF step]
  have "distinct (capObservers s') \<and> (\<forall>n \<in> set (capObservers s'). subscriberPc s' n \<noteq> Unsubscribed)"
    by (rule subscription_step_observers [OF step]) (use inv in \<open>simp_all add: cap_inv_def\<close>)
  moreover have "round_inv s u copy i \<Longrightarrow> round_inv s' u copy i" for u copy i
    using frame by (intro round_inv_cong [OF _ _ _ subscription_step_got [OF step]]) simp_all
  moreover have "subseq (got s n) ts \<Longrightarrow> subseq (got s' n) ts" for n ts
    by (rule subseq_order.trans [OF subscription_step_got [OF step]])
  ultimately show ?thesis using inv frame by (cases "monitorPc s") (simp_all add: cap_inv_def)
qed

lemma monitor_step_inv:
  assumes "monitor_step a s s'" and inv: "cap_inv s"
  shows "cap_inv s'"
  using assms(1)
proof (cases rule: monitor_step.cases)
  case (notify u)
  with inv show ?thesis by (cases "monitorPc s") (auto simp: cap_inv_def round_inv_def got_def deliveredTo_def)
next
  case (take_update u)
  with inv show ?thesis
    by (auto simp: cap_inv_def round_inv_def got_def deliveredTo_def intro: list_emb_append2)
next
  case (visit_stopped u copy i removed)
  with inv have "round_inv s u copy i" by (simp add: cap_inv_def)
  moreover have "got s' = got s" by (rule ext) (simp add: got_def deliveredTo_def visit_stopped)
  ultimately have "round_inv s' u copy (Suc i)" using visit_stopped by (intro round_inv_next disjI1) simp_all
  with inv visit_stopped show ?thesis by (simp add: cap_inv_def)
next
  case (visit_open u copy i removed)
  with inv have round: "round_inv s u copy i" by (simp add: cap_inv_def)
  have "got s' = got s" by (rule ext) (simp add: got_def deliveredTo_def visit_open)
  then have "round_inv s' u copy i" by (intro round_inv_cong [OF round]) (simp_all add: visit_open(2))
  with inv visit_open show ?thesis by (simp add: cap_inv_def)
next
  case (deliver u copy i removed)
  with inv have "round_inv s u copy i" "i < length copy" by (simp_all add: cap_inv_def)
  moreover have "got s' n = got s n" if "n \<noteq> copy ! i" for n using that by (simp add: got_def deliveredTo_def deliver(2))
  moreover have "got s' (copy ! i) = got s (copy ! i) @ [u]" by (simp add: got_def deliveredTo_def deliver(2) deliver(4))
  ultimately have "round_inv s' u copy (Suc i)" by (intro round_inv_next [of s] disjI2) (simp_all add: deliver(2))
  with inv deliver show ?thesis by (auto simp: cap_inv_def)
next
  case (finish_round u copy removed)
  with inv have round: "round_inv s u copy (length copy)" by (simp add: cap_inv_def)
  then obtain more where more: "capObservers s = copy @ more" by (auto simp: round_inv_def prefix_def)
  have "set (remaining_observers 0 removed copy) \<subseteq> set copy" "distinct copy \<Longrightarrow> distinct (remaining_observers 0 removed copy)"
    by (rule remaining_subset) (rule remaining_distinct)
  with inv more have "distinct (capObservers s') \<and> set (capObservers s') \<subseteq> set (capObservers s)" using finish_round by (auto simp: cap_inv_def)
  with inv round finish_round show ?thesis by (auto simp: cap_inv_def round_inv_def got_def deliveredTo_def)
qed

lemma cap_run_inv: "cap_run s as s' \<Longrightarrow> cap_inv s \<Longrightarrow> cap_inv s'"
  by (induction rule: cap_run.induct) (auto elim!: cap_stepE intro: monitor_step_inv subscription_step_inv)

lemma cap_start_inv: "cap_inv cap_start"
  by (simp add: cap_inv_def cap_start_def got_def deliveredTo_def)

definition notified_updates :: "'u cap_action list \<Rightarrow> 'u list" where
  "notified_updates as = List.map_filter (\<lambda>a. case a of CapNotify u \<Rightarrow> Some u | _ \<Rightarrow> None) as"

lemma notified_updates_Cons: "notified_updates (a # as) = (case a of CapNotify u \<Rightarrow> [u] | _ \<Rightarrow> []) @ notified_updates as"
  by (cases a) (simp_all add: notified_updates_def map_filter_simps)

definition in_queue :: "'u cap_state \<Rightarrow> 'u list" where
  "in_queue s = (case capQueue s of Some u \<Rightarrow> [u] | None \<Rightarrow> [])"

lemma subseq_skip: "subseq (xs @ ys) (xs @ x # ys)"
  by (induction xs) (simp_all add: list_emb_Cons)

lemma cap_step_taken:
  "cap_step a s s' \<Longrightarrow> subseq (takenUpdates s' @ in_queue s' @ us) (takenUpdates s @ in_queue s @ (case a of CapNotify u \<Rightarrow> [u] | _ \<Rightarrow> []) @ us)"
  by (elim cap_step_cases) (auto simp: in_queue_def subseq_skip split: option.split)

lemma cap_run_taken: "cap_run s as s' \<Longrightarrow> subseq (takenUpdates s' @ in_queue s') (takenUpdates s @ in_queue s @ notified_updates as)"
proof (induction rule: cap_run.induct)
  case (cap_more a s s' as s'')
  from subseq_order.trans [OF cap_more.IH cap_step_taken [OF cap_more.hyps(1)]] show ?case by (simp add: notified_updates_Cons)
qed (simp add: notified_updates_def map_filter_simps)

text \<open>The messages of a stream in the order it sent them: first the present capabilities, unless that send failed, then updates.\<close>

definition sent_inv :: "'u cap_action list \<Rightarrow> 'u cap_state \<Rightarrow> nat \<Rightarrow> bool" where
  "sent_inv as s n \<longleftrightarrow> (\<exists>present. sentTo s n = map Present present @ map Update (deliveredTo s n) \<and> length present \<le> 1
     \<and> (\<forall>u \<in> set present. SendPresent n u \<in> set as)
     \<and> (if subscriberPc s n = Unsubscribed \<or> subscriberPc s n = SendingPresent then sentTo s n = []
        else present = [] \<longrightarrow> PresentFails n \<in> set as))"

lemma updates_in_map [simp]: "updates_in (map Update us) = us" "updates_in (map Present us) = []"
  by (induction us) auto

lemma sent_inv_same:
  assumes "sent_inv as s n" and "sentTo s' n = sentTo s n"
    and "subscriberPc s' n = subscriberPc s n \<or> subscriberPc s n \<notin> {Unsubscribed, SendingPresent} \<and> subscriberPc s' n \<notin> {Unsubscribed, SendingPresent}
      \<or> subscriberPc s n = Unsubscribed \<and> subscriberPc s' n = SendingPresent
      \<or> subscriberPc s n = SendingPresent \<and> a = PresentFails n"
  shows "sent_inv (as @ [a]) s' n"
  using assms unfolding sent_inv_def deliveredTo_def by (auto split: if_splits)

lemma sent_inv_step:
  assumes "cap_step a s s'" and "sent_inv as s n"
  shows "sent_inv (as @ [a]) s' n"
  using assms(1)
proof (cases rule: cap_stepE)
  case 1
  then show ?thesis
    by (cases rule: monitor_step.cases) (auto intro!: sent_inv_same [OF assms(2)] split: if_splits)
next
  case 2
  then show ?thesis
  proof (cases rule: subscription_step.cases)
    case (send_present m u)
    show ?thesis
    proof (cases "m = n")
      case True
      then have "sentTo s n = []" using send_present assms(2) by (auto simp: sent_inv_def)
      with True send_present show ?thesis
        unfolding sent_inv_def by (intro exI [of _ "[u]"]) (simp add: deliveredTo_def)
    next
      case False
      with send_present show ?thesis by (auto intro!: sent_inv_same [OF assms(2)] split: if_splits)
    qed
  next
    case (send_update m u)
    show ?thesis
    proof (cases "m = n")
      case True
      from assms(2) obtain present where p: "sentTo s n = map Present present @ map Update (deliveredTo s n)"
          "length present \<le> 1" "\<forall>u \<in> set present. SendPresent n u \<in> set as"
          "present = [] \<longrightarrow> PresentFails n \<in> set as"
        using True send_update by (auto simp: sent_inv_def)
      have "deliveredTo s' n = deliveredTo s n @ [u]" using True send_update by (simp add: deliveredTo_def)
      with p True send_update show ?thesis
        unfolding sent_inv_def by (intro exI [of _ present]) auto
    next
      case False
      with send_update show ?thesis by (auto intro!: sent_inv_same [OF assms(2)] split: if_splits)
    qed
  qed (auto intro!: sent_inv_same [OF assms(2)] split: if_splits)
qed

lemma cap_run_sent: "cap_run cap_start as s \<Longrightarrow> sent_inv as s n"
proof (induction as arbitrary: s rule: rev_induct)
  case Nil
  then show ?case by (simp add: sent_inv_def cap_start_def deliveredTo_def)
next
  case (snoc a as)
  then obtain m where "cap_run cap_start as m" "cap_step a m s" by (auto simp: cap_run_append)
  with snoc.IH sent_inv_step show ?case by blast
qed

section \<open>A stream that is lost\<close>

definition monitor_stuck :: "nat \<Rightarrow> 'u cap_state \<Rightarrow> bool" where
  "monitor_stuck n s \<longleftrightarrow> (case monitorPc s of MonSending u copy i removed \<Rightarrow> copy ! i = n | _ \<Rightarrow> False) \<and> subscriberPc s n \<in> {Failing, Finished}"

lemma stuck_step:
  "cap_step a s s' \<Longrightarrow> monitor_stuck k s \<Longrightarrow>
     monitor_stuck k s' \<and> monitorPc s' = monitorPc s \<and> takenUpdates s' = takenUpdates s \<and> (\<forall>n. prefix (got s' n) (got s n))"
  by (elim cap_step_cases) (auto simp: monitor_stuck_def got_def deliveredTo_def)

lemma stuck_run:
  "cap_run s as s' \<Longrightarrow> monitor_stuck k s \<Longrightarrow>
     monitor_stuck k s' \<and> monitorPc s' = monitorPc s \<and> takenUpdates s' = takenUpdates s \<and> (\<forall>n. prefix (got s' n) (got s n))"
proof (induction rule: cap_run.induct)
  case (cap_more a s s' as s'')
  from stuck_step [OF cap_more.hyps(1) cap_more.prems] cap_more.IH show ?case by (auto intro: prefix_order.trans)
qed simp

section \<open>Properties\<close>

text \<open>C11: in every interleaving the messages that a stream has sent its client are, in this order, at most one message with the
  capabilities present when the stream began, which is missing only when its send failed, and then updates: the updates were
  notified and taken by the monitor, and come in their order and each at most once for each time it was notified. Updates may be skipped.
  The first message is made from the service's state and is no notified update itself: an update that follows may repeat it.\<close>

theorem streams_skip_only:
  assumes "cap_run cap_start as s"
  shows "\<exists>present updates. sentTo s n = map Present present @ map Update updates
     \<and> length present \<le> 1 \<and> (\<forall>u \<in> set present. SendPresent n u \<in> set as)
     \<and> (present = [] \<and> updates \<noteq> [] \<longrightarrow> PresentFails n \<in> set as)
     \<and> subseq updates (notified_updates as) \<and> subseq updates (takenUpdates s)"
proof -
  have inv: "cap_inv s" by (rule cap_run_inv [OF assms cap_start_inv])
  have "round_inv s u copy i \<Longrightarrow> subseq (got s n) (takenUpdates s)" for u copy i
    by (auto simp: round_inv_def intro: list_emb_prefix split: if_splits)
  with inv have "subseq (got s n) (takenUpdates s)" by (cases "monitorPc s") (auto simp: cap_inv_def)
  then have taken: "subseq (deliveredTo s n) (takenUpdates s)" by (auto simp: got_def intro: subseq_order.trans)
  have "subseq (takenUpdates s) (takenUpdates s @ in_queue s)" by (rule list_emb_prefix) simp
  also have "subseq (takenUpdates s @ in_queue s) (notified_updates as)"
    using cap_run_taken [OF assms] by (simp add: cap_start_def in_queue_def)
  finally have notified: "subseq (deliveredTo s n) (notified_updates as)" by (rule subseq_order.trans [OF taken])
  from cap_run_sent [OF assms, of n] obtain present where "sentTo s n = map Present present @ map Update (deliveredTo s n)"
      "length present \<le> 1" "\<forall>u \<in> set present. SendPresent n u \<in> set as"
      "present = [] \<and> deliveredTo s n \<noteq> [] \<longrightarrow> PresentFails n \<in> set as"
    unfolding sent_inv_def by (auto simp: deliveredTo_def split: if_splits)
  with taken notified show ?thesis by blast
qed

text \<open>C26: when the send of a stream to its client fails while the monitor has already decided to send the stream the next update, nobody receives that update and the
  monitor waits for ever: it takes no other update, and no stream gets another one, whatever anybody does
  (only a new stream still sends its client the present capabilities).\<close>

theorem lost_stream_stops_monitor:
  assumes "monitorPc s = MonSending u copy i removed" and "subscriberPc s (copy ! i) = SendingUpdate v"
    and "cap_run s (SendFails (copy ! i) # as) s'"
  shows "monitorPc s' = MonSending u copy i removed \<and> takenUpdates s' = takenUpdates s \<and> (\<forall>n. prefix (deliveredTo s' n) (got s n))"
proof -
  from assms(3) obtain s1 where s1: "cap_step (SendFails (copy ! i)) s s1" "cap_run s1 as s'" by auto
  then have eq: "s1 = s\<lparr>subscriberPc := (subscriberPc s)(copy ! i := Failing)\<rparr>" using assms(2) by (auto simp: cap_step_simps)
  with assms(1) have "monitor_stuck (copy ! i) s1" by (simp add: monitor_stuck_def)
  note stuck = stuck_run [OF s1(2) this]
  have "prefix (got s1 n) (got s n)" for n using assms(2) by (simp add: eq got_def deliveredTo_def)
  moreover have "prefix (deliveredTo s' n) (got s' n)" for n by (simp add: got_def deliveredTo_def)
  ultimately have "prefix (deliveredTo s' n) (got s n)" for n using stuck by (blast intro: prefix_order.trans)
  with stuck assms(1) show ?thesis by (simp add: eq)
qed

text \<open>Two streams; the client of the first goes away between two updates.\<close>

definition two_streams :: "nat cap_action list" where
  "two_streams = [CapSubscribe 1, CapSubscribe 2, CapNotify 5, PresentFails 1, SendPresent 2 5, Take, Visit, Deliver, Visit, Deliver, FinishRound,
     SendUpdate 2, CapNotify 6, CapNotify 7, Take, Visit]"

lemma two_streams_run:
  "\<exists>s. cap_run cap_start two_streams s \<and> monitorPc s = MonSending 7 [1, 2] 0 [] \<and> subscriberPc s 1 = SendingUpdate 5
     \<and> sentTo s 2 = [Present 5, Update 5] \<and> subscriberPc s 3 = Unsubscribed"
  by (simp add: two_streams_def cap_step_simps cap_start_def)

text \<open>The second stream sends an update that its first message has told its client already.\<close>

theorem streams_skip_only_witness:
  "\<exists>s. cap_run cap_start two_streams s \<and> subseq [5] (notified_updates two_streams) \<and> sentTo s 2 = [Present 5, Update 5]"
proof -
  obtain s where s: "cap_run cap_start two_streams s" "sentTo s 2 = [Present 5, Update 5]" using two_streams_run by blast
  from streams_skip_only [OF s(1), of 2] obtain present updates
    where "sentTo s 2 = map Present present @ map Update updates" and u: "subseq updates (notified_updates two_streams)"
    by blast
  then have "updates_in [Present 5, Update 5] = updates" using s(2) by (metis append_Nil updates_in_append updates_in_map)
  with u have "subseq [5] (notified_updates two_streams)" by simp
  with s show ?thesis by blast
qed

theorem lost_stream_stops_monitor_witness:
  "\<exists>s'. cap_run cap_start (two_streams @ [SendFails 1, CloseStop 1, CapNotify 8, CapSubscribe 3]) s' \<and> monitorPc s' = MonSending 7 [1, 2] 0 []
     \<and> deliveredTo s' 2 = [5]"
proof -
  obtain s where s: "cap_run cap_start two_streams s" "monitorPc s = MonSending 7 [1, 2] 0 []" "subscriberPc s 1 = SendingUpdate 5"
      "sentTo s 2 = [Present 5, Update 5]" "subscriberPc s 3 = Unsubscribed"
    using two_streams_run by blast
  have "\<exists>s'. cap_run s [SendFails 1, CloseStop 1, CapNotify 8, CapSubscribe 3] s' \<and> deliveredTo s' 2 = [5]"
    using s by (simp add: cap_step_simps deliveredTo_def)
  then obtain s' where s': "cap_run s [SendFails 1, CloseStop 1, CapNotify 8, CapSubscribe 3] s'" "deliveredTo s' 2 = [5]" by blast
  have "monitorPc s' = MonSending 7 [1, 2] 0 []"
    using lost_stream_stops_monitor [OF s(2), of 5 "[CloseStop 1, CapNotify 8, CapSubscribe 3]" s'] s(3) s'(1) by simp
  with s(1) s' show ?thesis unfolding cap_run_append by blast
qed

end
