(* ===== verification/PoolConcurrent.thy ===== *)
theory PoolConcurrent
  imports Pool
begin

text \<open>
  The pool of collection identifiers (\<open>telemetry/pool.go\<close>) as concurrent calls run it. A call is a
  thread with a program counter; the pool is shared. A thread locks one item at a time, so what it does
  between \<open>Lock\<close> and \<open>Unlock\<close> of an item is one step, except in \<open>Free\<close>, which keeps the
  item's lock while it decrements the allocation counter: reading and swapping the counter are steps
  of their own there, as in \<open>AllocOrGet\<close>, and until the swap succeeds the item stays locked and
  other threads wait for it. Calls start at any time and any thread may take the next step.
\<close>

section \<open>Threads\<close>

datatype pool_call =
  CallAlloc string string
| CallFree string string
| CallGet string string
| CallGetAny string

datatype pool_thread =
  Searching string string nat       \<comment> \<open>first loop of \<open>AllocOrGet\<close>, before item \<open>i\<close>\<close>
| Reserving string string           \<comment> \<open>before the counter is read\<close>
| Swapping string string int        \<comment> \<open>the counter was read, before it is swapped\<close>
| Placing string string nat         \<comment> \<open>last loop, before item \<open>i\<close>\<close>
| Got nat
| PoolFull
| PlacePanicked
| Freeing string string nat         \<comment> \<open>loop of \<open>Free\<close>, before item \<open>i\<close>\<close>
| Releasing nat                     \<comment> \<open>item \<open>i\<close> is locked and emptied, before the counter is read\<close>
| ReleaseSwapping nat int           \<comment> \<open>item \<open>i\<close> is locked, the counter was read\<close>
| Freed
| Looking string string nat         \<comment> \<open>loop of \<open>GetIfAllocated\<close>\<close>
| LookingAny string nat             \<comment> \<open>loop of \<open>GetIfAnyAllocated\<close>\<close>
| Looked "nat option"

fun call_start :: "pool_call \<Rightarrow> pool_thread" where
  "call_start (CallAlloc i c) = Searching i c 0"
| "call_start (CallFree i c) = Freeing i c 0"
| "call_start (CallGet i c) = Looking i c 0"
| "call_start (CallGetAny c) = LookingAny c 0"

fun returned :: "pool_thread \<Rightarrow> bool" where
  "returned (Got k) = True"
| "returned PoolFull = True"
| "returned PlacePanicked = True"
| "returned Freed = True"
| "returned (Looked r) = True"
| "returned t = False"

text \<open>The item that a thread keeps locked between its steps, and the one it locks next.\<close>

fun keeps_locked :: "pool_thread \<Rightarrow> nat option" where
  "keeps_locked (Releasing k) = Some k"
| "keeps_locked (ReleaseSwapping k n) = Some k"
| "keeps_locked t = None"

fun locks_next :: "pool_thread \<Rightarrow> nat option" where
  "locks_next (Searching i c k) = Some k"
| "locks_next (Placing i c k) = Some k"
| "locks_next (Freeing i c k) = Some k"
| "locks_next (Looking i c k) = Some k"
| "locks_next (LookingAny c k) = Some k"
| "locks_next t = None"

text \<open>The next step of a thread.\<close>

fun advance :: "pool_thread \<Rightarrow> id_pool \<Rightarrow> pool_thread \<times> id_pool" where
  "advance (Searching i c k) p =
     (if \<not> k < maxSize p then (Reserving i c, p)
      else if itemCollectionId (pool p ! k) = c
      then (Got k, p\<lparr>pool := (pool p)[k := item_join i (pool p ! k)]\<rparr>)
      else (Searching i c (k + 1), p))"
| "advance (Reserving i c) p =
     (if int (maxSize p) \<le> allocCounter p then (PoolFull, p) else (Swapping i c (allocCounter p), p))"
| "advance (Swapping i c old) p =
     (if allocCounter p = old then (Placing i c 0, p\<lparr>allocCounter := old + 1\<rparr>) else (Reserving i c, p))"
| "advance (Placing i c k) p =
     (if \<not> k < maxSize p then (PlacePanicked, p)
      else if intents (pool p ! k) = []
      then (Got k, p\<lparr>pool := (pool p)[k := item_take i c (pool p ! k)]\<rparr>)
      else (Placing i c (k + 1), p))"
| "advance (Freeing i c k) p =
     (if \<not> k < maxSize p then (Freed, p)
      else if item_owned i c (pool p ! k)
      then (let it = item_leave i (pool p ! k)
            in (if intents it = [] then Releasing k else Freed, p\<lparr>pool := (pool p)[k := it]\<rparr>))
      else (Freeing i c (k + 1), p))"
| "advance (Releasing k) p = (ReleaseSwapping k (allocCounter p), p)"
| "advance (ReleaseSwapping k old) p =
     (if allocCounter p = old then (Freed, p\<lparr>allocCounter := old - 1\<rparr>) else (Releasing k, p))"
| "advance (Looking i c k) p =
     (if \<not> k < maxSize p then (Looked None, p)
      else if item_owned i c (pool p ! k) then (Looked (Some k), p)
      else (Looking i c (k + 1), p))"
| "advance (LookingAny c k) p =
     (if \<not> k < maxSize p then (Looked None, p)
      else if 0 < length (intents (pool p ! k)) \<and> itemCollectionId (pool p ! k) = c then (Looked (Some k), p)
      else (LookingAny c (k + 1), p))"
| "advance t p = (t, p)"

section \<open>Interleavings\<close>

record shared_pool =
  sharedPool :: id_pool
  calls :: "pool_thread list"

datatype pool_event = StartCall pool_call | Advance nat

definition item_locked :: "shared_pool \<Rightarrow> nat \<Rightarrow> bool" where
  "item_locked s k \<longleftrightarrow> (\<exists>t \<in> set (calls s). keeps_locked t = Some k)"

definition can_advance :: "shared_pool \<Rightarrow> nat \<Rightarrow> bool" where
  "can_advance s j \<longleftrightarrow> j < length (calls s) \<and> \<not> returned (calls s ! j)
     \<and> (case locks_next (calls s ! j) of None \<Rightarrow> True | Some k \<Rightarrow> \<not> item_locked s k)"

definition advance_call :: "nat \<Rightarrow> shared_pool \<Rightarrow> shared_pool" where
  "advance_call j s = (let (t, p) = advance (calls s ! j) (sharedPool s)
     in s\<lparr>sharedPool := p, calls := (calls s)[j := t]\<rparr>)"

fun take_event :: "pool_event \<Rightarrow> shared_pool \<Rightarrow> shared_pool option" where
  "take_event (StartCall call) s = Some (s\<lparr>calls := calls s @ [call_start call]\<rparr>)"
| "take_event (Advance j) s = (if can_advance s j then Some (advance_call j s) else None)"

definition pool_start :: "nat \<Rightarrow> shared_pool" where
  "pool_start n = \<lparr>sharedPool = newPool n, calls = []\<rparr>"

fun names_id :: "pool_event \<Rightarrow> bool" where
  "names_id (StartCall (CallAlloc i c)) \<longleftrightarrow> c \<noteq> []"
| "names_id e \<longleftrightarrow> True"

section \<open>The invariant\<close>

text \<open>
  A thread that increased the counter still has to find an empty item, and one that emptied an item
  still has to decrease the counter: each has a claim on an empty item at its position or behind it.
  There are always enough empty items behind every position for the claims there; the counter is
  the number of items that are not empty, plus the claims.
\<close>

fun claims :: "nat \<Rightarrow> pool_thread \<Rightarrow> bool" where
  "claims k (Placing i c q) \<longleftrightarrow> k \<le> q"
| "claims k (Releasing q) \<longleftrightarrow> k \<le> q"
| "claims k (ReleaseSwapping q n) \<longleftrightarrow> k \<le> q"
| "claims k t \<longleftrightarrow> False"

definition empties :: "nat \<Rightarrow> pool_item list \<Rightarrow> nat" where
  "empties k its = count_if (\<lambda>it. intents it = []) (drop k its)"

fun thread_ok :: "nat \<Rightarrow> pool_thread \<Rightarrow> bool" where
  "thread_ok n (Searching i c k) \<longleftrightarrow> c \<noteq> []"
| "thread_ok n (Reserving i c) \<longleftrightarrow> c \<noteq> []"
| "thread_ok n (Swapping i c old) \<longleftrightarrow> c \<noteq> [] \<and> old < int n"
| "thread_ok n (Placing i c k) \<longleftrightarrow> c \<noteq> [] \<and> k \<le> n"
| "thread_ok n (Got k) \<longleftrightarrow> k < n"
| "thread_ok n (Looked (Some k)) \<longleftrightarrow> k < n"
| "thread_ok n PlacePanicked \<longleftrightarrow> False"
| "thread_ok n t \<longleftrightarrow> True"

definition shared_inv :: "nat \<Rightarrow> shared_pool \<Rightarrow> bool" where
  "shared_inv n s \<longleftrightarrow>
     maxSize (sharedPool s) = n \<and> length (pool (sharedPool s)) = n
     \<and> list_all item_ok (pool (sharedPool s)) \<and> list_all (thread_ok n) (calls s)
     \<and> allocCounter (sharedPool s) + int (empties 0 (pool (sharedPool s))) = int n + int (count_if (claims 0) (calls s))
     \<and> (\<forall>k \<le> n. count_if (claims k) (calls s) \<le> empties k (pool (sharedPool s)))"

lemma empties_update:
  assumes "q < length its"
  shows "empties k (its[q := it]) + (if k \<le> q \<and> intents (its ! q) = [] then 1 else 0)
       = empties k its + (if k \<le> q \<and> intents it = [] then 1 else 0)"
proof (cases "k \<le> q")
  case True
  with assms count_if_update [of "q - k" "drop k its" "\<lambda>it. intents it = []" it] show ?thesis
    by (simp add: empties_def drop_update_swap)
next
  case False
  then show ?thesis by (simp add: empties_def)
qed

lemma empties_next: "q < length its \<Longrightarrow> intents (its ! q) \<noteq> [] \<Longrightarrow> empties q its = empties (Suc q) its"
  by (simp add: empties_def Cons_nth_drop_Suc [symmetric])

lemma empties_end: "empties (length its) its = 0"
  by (simp add: empties_def)

text \<open>A step that changes the claims and the empty items at and before one position alike.\<close>

lemma shared_inv_step:
  assumes inv: "shared_inv n s" and j: "j < length (calls s)"
    and adv: "advance (calls s ! j) (sharedPool s) = (t, p)" and t: "thread_ok n t"
    and p: "maxSize p = n" "length (pool p) = n" "list_all item_ok (pool p)"
    and counter: "allocCounter p + int (empties 0 (pool p)) + int (of_bool (claims 0 (calls s ! j)))
      = allocCounter (sharedPool s) + int (empties 0 (pool (sharedPool s))) + int (of_bool (claims 0 t))"
    and behind: "\<And>k. k \<le> n \<Longrightarrow>
      count_if (claims k) (calls s) + of_bool (claims k t) \<le> empties k (pool p) + of_bool (claims k (calls s ! j))"
  shows "shared_inv n (advance_call j s)"
proof -
  have counted: "count_if (claims k) ((calls s)[j := t]) + of_bool (claims k (calls s ! j))
      = count_if (claims k) (calls s) + of_bool (claims k t)" for k
    using count_if_update [OF j, of "claims k" t] by auto
  have "count_if (claims k) ((calls s)[j := t]) \<le> empties k (pool p)" if "k \<le> n" for k
    using counted [of k] behind [OF that] by linarith
  moreover have "allocCounter p + int (empties 0 (pool p)) = int n + int (count_if (claims 0) ((calls s)[j := t]))"
    using arg_cong [OF counted [of 0], of int] counter inv unfolding shared_inv_def of_nat_add by linarith
  moreover have "list_all (thread_ok n) ((calls s)[j := t])"
    using inv t j by (auto simp: shared_inv_def list_all_length nth_list_update)
  ultimately show ?thesis
    using p by (simp add: shared_inv_def advance_call_def adv)
qed

text \<open>Steps that change neither the claims nor which items are empty.\<close>

lemma shared_inv_quiet:
  assumes inv: "shared_inv n s" and j: "j < length (calls s)"
    and adv: "advance (calls s ! j) (sharedPool s) = (t, p)" and t: "thread_ok n t"
    and same: "\<And>k. claims k t = claims k (calls s ! j)"
    and p: "maxSize p = n" "length (pool p) = n" "list_all item_ok (pool p)"
      "allocCounter p = allocCounter (sharedPool s)" "\<And>k. empties k (pool p) = empties k (pool (sharedPool s))"
  shows "shared_inv n (advance_call j s)"
  by (rule shared_inv_step [OF inv j adv t p(1-3)]) (use inv same p(4,5) in \<open>auto simp: shared_inv_def\<close>)

lemma shared_inv_same_pool:
  assumes "shared_inv n s" and "j < length (calls s)"
    and "advance (calls s ! j) (sharedPool s) = (t, sharedPool s)" and "thread_ok n t"
    and "\<And>k. claims k t = claims k (calls s ! j)"
  shows "shared_inv n (advance_call j s)"
  by (rule shared_inv_quiet [OF assms]) (use assms(1) in \<open>auto simp: shared_inv_def\<close>)

lemma items_ok_update:
  "list_all item_ok its \<Longrightarrow> item_ok it \<Longrightarrow> list_all item_ok (its[q := it])"
  by (auto simp: list_all_iff dest!: set_update_subset_insert [THEN subsetD])

lemma shared_inv_searching:
  assumes inv: "shared_inv n s" and j: "j < length (calls s)" and t: "calls s ! j = Searching i c q"
  shows "shared_inv n (advance_call j s)"
proof -
  let ?its = "pool (sharedPool s)"
  note i = inv [unfolded shared_inv_def]
  have c: "c \<noteq> []" using i j t by (auto simp: list_all_length)
  show ?thesis
  proof (cases "q < n \<and> itemCollectionId (?its ! q) = c")
    case True
    have ok: "item_ok (?its ! q)" using i True by (simp add: list_all_length)
    then have ne: "intents (?its ! q) \<noteq> []" using True c by (auto simp: item_ok_def)
    have "empties k (?its[q := item_join i (?its ! q)]) = empties k ?its" for k
      using empties_update [of q ?its k "item_join i (?its ! q)"] ne True i
      by (auto simp: item_join_def split: if_splits)
    moreover have "item_ok (item_join i (?its ! q))" using item_ok_ops(2) [OF ok] True c by simp
    ultimately show ?thesis
      using i True t
      by (intro shared_inv_quiet [OF inv j, of "Got q" "(sharedPool s)\<lparr>pool := ?its[q := item_join i (?its ! q)]\<rparr>"])
        (auto simp: items_ok_update)
  next
    case False
    then have "advance (calls s ! j) (sharedPool s)
        = (if q < n then Searching i c (q + 1) else Reserving i c, sharedPool s)"
      using t i by auto
    then show ?thesis
      by (rule shared_inv_same_pool [OF inv j]) (use t c in \<open>auto split: if_splits\<close>)
  qed
qed

lemma shared_inv_reserving:
  assumes inv: "shared_inv n s" and j: "j < length (calls s)" and t: "calls s ! j = Reserving i c"
  shows "shared_inv n (advance_call j s)"
proof -
  note i = inv [unfolded shared_inv_def]
  have c: "c \<noteq> []" using i j t by (auto simp: list_all_length)
  have "advance (calls s ! j) (sharedPool s) = (if int n \<le> allocCounter (sharedPool s) then PoolFull
      else Swapping i c (allocCounter (sharedPool s)), sharedPool s)"
    using t i by auto
  then show ?thesis
    by (rule shared_inv_same_pool [OF inv j]) (use t c in \<open>auto split: if_splits\<close>)
qed

lemma shared_inv_swapping:
  assumes inv: "shared_inv n s" and j: "j < length (calls s)" and t: "calls s ! j = Swapping i c old"
  shows "shared_inv n (advance_call j s)"
proof (cases "allocCounter (sharedPool s) = old")
  case True
  let ?its = "pool (sharedPool s)"
  note i = inv [unfolded shared_inv_def]
  have c: "c \<noteq> []" "old < int n" using i j t by (auto simp: list_all_length)
  have "count_if (claims 0) (calls s) < empties 0 ?its" using i True c(2) by linarith
  moreover have "count_if (claims k) (calls s) \<le> empties k ?its" if "k \<le> n" for k using i that by blast
  ultimately have "count_if (claims k) (calls s) + of_bool (claims k (Placing i c 0)) \<le> empties k ?its" if "k \<le> n" for k
    using that by (cases k) auto
  then show ?thesis
    using i True t c by (intro shared_inv_step [OF inv j, of "Placing i c 0" "(sharedPool s)\<lparr>allocCounter := old + 1\<rparr>"]) auto
next
  case False
  have "c \<noteq> []" using inv j t by (auto simp: shared_inv_def list_all_length)
  with False t show ?thesis
    by (intro shared_inv_same_pool [OF inv j, of "Reserving i c"]) auto
qed

lemma shared_inv_placing:
  assumes inv: "shared_inv n s" and j: "j < length (calls s)" and t: "calls s ! j = Placing i c q"
  shows "shared_inv n (advance_call j s)"
proof -
  let ?its = "pool (sharedPool s)"
  note i = inv [unfolded shared_inv_def]
  have c: "c \<noteq> []" "q \<le> n" using i j t by (auto simp: list_all_length)
  have enough: "\<And>k. k \<le> n \<Longrightarrow> count_if (claims k) (calls s) \<le> empties k ?its" using i by blast
  have "0 < count_if (claims q) (calls s)" using count_if_pos [OF j, of "claims q"] t by simp
  with enough [OF c(2)] empties_end [of ?its] i have q: "q < n" using c(2) by (cases "q = n") auto
  show ?thesis
  proof (cases "intents (?its ! q) = []")
    case True
    let ?it = "item_take i c (?its ! q)"
    have e: "empties k (?its[q := ?it]) + of_bool (k \<le> q) = empties k ?its" for k
      using empties_update [of q ?its k ?it] True q i by (auto simp: item_take_def)
    show ?thesis
    proof (rule shared_inv_step [OF inv j, of "Got q" "(sharedPool s)\<lparr>pool := ?its[q := ?it]\<rparr>"])
      show "list_all item_ok (pool ((sharedPool s)\<lparr>pool := ?its[q := ?it]\<rparr>))"
        using i c(1) by (simp add: items_ok_update item_ok_ops(1))
      fix k assume "k \<le> n"
      from enough [OF this] e [of k] show "count_if (claims k) (calls s) + of_bool (claims k (Got q))
          \<le> empties k (pool ((sharedPool s)\<lparr>pool := ?its[q := ?it]\<rparr>)) + of_bool (claims k (calls s ! j))"
        using t by auto
    qed (use e [of 0] q True t i in auto)
  next
    case False
    have strict: "count_if (claims (Suc q)) (calls s) < count_if (claims q) (calls s)"
    proof -
      have "count_if (claims (Suc q)) ((calls s)[j := Got 0]) = count_if (claims (Suc q)) (calls s)"
        "count_if (claims q) ((calls s)[j := Got 0]) + 1 = count_if (claims q) (calls s)"
        using count_if_update [OF j, of "claims (Suc q)" "Got 0"] count_if_update [OF j, of "claims q" "Got 0"] t
        by simp_all
      moreover have "claims (Suc q) x \<Longrightarrow> claims q x" for x by (cases x) auto
      ultimately show ?thesis
        using count_if_mono [of "(calls s)[j := Got 0]" "claims (Suc q)" "claims q"] by fastforce
    qed
    have next_k: "empties q ?its = empties (Suc q) ?its" using empties_next [OF _ False] q i by simp
    have "count_if (claims k) (calls s) + of_bool (claims k (Placing i c (q + 1)))
        \<le> empties k ?its + of_bool (claims k (calls s ! j))" if "k \<le> n" for k
      using enough [OF that] enough [OF c(2)] strict next_k t by (cases "k = Suc q") auto
    then show ?thesis
      using False q t i c(1) by (intro shared_inv_step [OF inv j, of "Placing i c (q + 1)" "sharedPool s"]) auto
  qed
qed

lemma shared_inv_freeing:
  assumes inv: "shared_inv n s" and j: "j < length (calls s)" and t: "calls s ! j = Freeing i c q"
  shows "shared_inv n (advance_call j s)"
proof (cases "q < n \<and> item_owned i c (pool (sharedPool s) ! q)")
  case True
  let ?its = "pool (sharedPool s)" and ?it = "item_leave i (pool (sharedPool s) ! q)"
  let ?t = "if intents ?it = [] then Releasing q else Freed"
  note i = inv [unfolded shared_inv_def]
  have ne: "intents (?its ! q) \<noteq> []" using True by (auto simp: item_owned_def)
  have e: "empties k (?its[q := ?it]) = empties k ?its + of_bool (claims k ?t)" for k
    using empties_update [of q ?its k ?it] ne True i by auto
  have "list_all item_ok (?its[q := ?it])"
    using i True by (intro items_ok_update item_ok_ops(3)) (auto simp: list_all_length)
  then show ?thesis
    using i True t e by (intro shared_inv_step [OF inv j, of ?t "(sharedPool s)\<lparr>pool := ?its[q := ?it]\<rparr>"]) (auto simp: Let_def)
next
  case False
  then have "advance (calls s ! j) (sharedPool s) = (if q < n then Freeing i c (q + 1) else Freed, sharedPool s)"
    using t inv by (auto simp: shared_inv_def)
  then show ?thesis
    by (rule shared_inv_same_pool [OF inv j]) (use t in \<open>auto split: if_splits\<close>)
qed

lemma shared_inv_releasing:
  assumes inv: "shared_inv n s" and j: "j < length (calls s)" and t: "calls s ! j = ReleaseSwapping q old"
  shows "shared_inv n (advance_call j s)"
proof (cases "allocCounter (sharedPool s) = old")
  case True
  with inv t show ?thesis
    by (intro shared_inv_step [OF inv j, of Freed "(sharedPool s)\<lparr>allocCounter := old - 1\<rparr>"])
      (auto simp: shared_inv_def)
next
  case False
  with t show ?thesis by (intro shared_inv_same_pool [OF inv j, of "Releasing q"]) auto
qed

lemma shared_inv_advance:
  assumes inv: "shared_inv n s" and can: "can_advance s j"
  shows "shared_inv n (advance_call j s)"
proof -
  have j: "j < length (calls s)" and live: "\<not> returned (calls s ! j)" using can by (auto simp: can_advance_def)
  note same = shared_inv_same_pool [OF inv j]
  have n: "maxSize (sharedPool s) = n" using inv by (simp add: shared_inv_def)
  show ?thesis
  proof (cases "calls s ! j")
    case (Looking i c k)
    then show ?thesis
      by (cases "k < n"; cases "item_owned i c (pool (sharedPool s) ! k)") (auto intro!: same simp: n)
  next
    case (LookingAny c k)
    then show ?thesis
      by (cases "k < n"; cases "intents (pool (sharedPool s) ! k) \<noteq> [] \<and> itemCollectionId (pool (sharedPool s) ! k) = c")
        (auto intro!: same simp: n)
  next
    case (Releasing k)
    then show ?thesis by (auto intro!: same)
  qed (use live in \<open>auto intro: shared_inv_searching shared_inv_reserving shared_inv_swapping shared_inv_placing
      shared_inv_freeing shared_inv_releasing inv j\<close>)
qed

lemma shared_inv_start: "shared_inv n (pool_start n)"
  by (simp add: shared_inv_def pool_start_def newPool_def empties_def count_if_def list_all_iff item_ok_def free_item_def)

lemma claims_call_start: "\<not> claims k (call_start call)"
  by (cases call) auto

lemma shared_inv_event:
  assumes "take_event e s = Some s'" and "names_id e" and "shared_inv n s"
  shows "shared_inv n s'"
proof (cases e)
  case (StartCall call)
  have "thread_ok n (call_start call)" using assms(2) StartCall by (cases call) auto
  then show ?thesis
    using assms(1,3) StartCall claims_call_start by (auto simp: shared_inv_def)
next
  case (Advance j)
  then show ?thesis using assms shared_inv_advance by (auto split: if_splits)
qed

lemma shared_inv_run:
  "\<lbrakk>fold_opt take_event evs s = Some s'; list_all names_id evs; shared_inv n s\<rbrakk> \<Longrightarrow> shared_inv n s'"
  by (erule fold_opt_inv) (auto intro: shared_inv_event simp: list_all_iff)

text \<open>Nobody waits for ever for a lock: a thread that keeps an item locked never waits itself.\<close>

lemma keeper_advances: "keeps_locked t \<noteq> None \<Longrightarrow> \<not> returned t \<and> locks_next t = None"
  by (cases t) auto

lemma some_call_advances:
  assumes "t \<in> set (calls s)" and "\<not> returned t"
  shows "\<exists>j. can_advance s j"
proof (cases "\<exists>u \<in> set (calls s). keeps_locked u \<noteq> None")
  case True
  then show ?thesis
    using keeper_advances by (fastforce simp: can_advance_def in_set_conv_nth)
next
  case False
  then have "\<not> item_locked s k" for k by (force simp: item_locked_def)
  with assms show ?thesis by (auto simp: can_advance_def in_set_conv_nth split: option.splits)
qed

section \<open>Without interference\<close>

text \<open>A call whose steps nothing interrupts does what the operations of theory \<open>Pool\<close> say.\<close>

inductive runs_alone :: "pool_thread \<Rightarrow> id_pool \<Rightarrow> pool_thread \<Rightarrow> id_pool \<Rightarrow> bool" where
  done_alone: "runs_alone t p t p"
| step_alone: "\<lbrakk>advance t p = (t1, p1); runs_alone t1 p1 t' p'\<rbrakk> \<Longrightarrow> runs_alone t p t' p'"

lemma runs_alone_trans: "\<lbrakk>runs_alone t p t1 p1; runs_alone t1 p1 t2 p2\<rbrakk> \<Longrightarrow> runs_alone t p t2 p2"
  by (induction rule: runs_alone.induct) (auto intro: step_alone)

lemma last_alone: "advance t p = (t', p') \<Longrightarrow> runs_alone t p t' p'"
  by (blast intro: step_alone done_alone)

lemma runs_alone_scan:
  "(\<And>q. q < k \<Longrightarrow> advance (T q) p = (T (Suc q), p)) \<Longrightarrow> runs_alone (T 0) p (T k) p"
proof (induction k)
  case (Suc k)
  then have "runs_alone (T 0) p (T k) p" and "advance (T k) p = (T (Suc k), p)" by simp_all
  then show ?case by (blast intro: runs_alone_trans last_alone)
qed (simp add: done_alone)

text \<open>A loop over the items: it reaches the first item that satisfies its test, or the end.\<close>

lemma runs_alone_first:
  assumes "length (pool p) = maxSize p"
    and "\<And>q. q < maxSize p \<Longrightarrow> \<not> P (pool p ! q) \<Longrightarrow> advance (T q) p = (T (Suc q), p)"
  obtains
    (found) k where "first_index P (pool p) = Some k" "runs_alone (T 0) p (T k) p" "k < maxSize p" "P (pool p ! k)"
  | (absent) "first_index P (pool p) = None" "runs_alone (T 0) p (T (maxSize p)) p"
proof (cases "first_index P (pool p)")
  case None
  then have "\<not> P (pool p ! q)" if "q < maxSize p" for q using assms(1) that by (simp add: first_index_None)
  then have "runs_alone (T 0) p (T (maxSize p)) p" by (intro runs_alone_scan assms(2))
  with None show thesis by (rule absent)
next
  case (Some k)
  note k = first_index_Some [OF Some]
  then have "runs_alone (T 0) p (T k) p" using assms(1) by (intro runs_alone_scan assms(2)) auto
  with Some k assms(1) show thesis by (auto intro: found)
qed

fun alloc_outcome :: "id_pool \<Rightarrow> ((err + nat) \<times> id_pool) option \<Rightarrow> pool_thread \<times> id_pool" where
  "alloc_outcome p (Some (Inr k, p')) = (Got k, p')"
| "alloc_outcome p (Some (Inl e, p')) = (PoolFull, p')"
| "alloc_outcome p None = (PlacePanicked, p\<lparr>allocCounter := allocCounter p + 1\<rparr>)"

lemma alone_AllocOrGet:
  assumes "length (pool p) = maxSize p" and "alloc_outcome p (AllocOrGet i c p) = (t, p')"
  shows "runs_alone (call_start (CallAlloc i c)) p t p'"
proof (rule runs_alone_first [OF assms(1), of "\<lambda>it. itemCollectionId it = c" "Searching i c"])
  fix k assume k: "first_index (\<lambda>it. itemCollectionId it = c) (pool p) = Some k"
    "runs_alone (Searching i c 0) p (Searching i c k) p" "k < maxSize p" "itemCollectionId (pool p ! k) = c"
  then have "advance (Searching i c k) p = (t, p')" using assms(2) by (auto simp: AllocOrGet_def)
  then show ?thesis using runs_alone_trans [OF k(2) last_alone] by simp
next
  assume none: "first_index (\<lambda>it. itemCollectionId it = c) (pool p) = None"
    "runs_alone (Searching i c 0) p (Searching i c (maxSize p)) p"
  have reserve: "runs_alone (call_start (CallAlloc i c)) p (Reserving i c) p"
    using runs_alone_trans [OF none(2) last_alone] by simp
  show ?thesis
  proof (cases "int (maxSize p) \<le> allocCounter p")
    case True
    with none(1) assms(2) have "advance (Reserving i c) p = (t, p')" by (auto simp: AllocOrGet_def)
    with reserve show ?thesis by (blast intro: runs_alone_trans last_alone)
  next
    case False
    let ?p = "p\<lparr>allocCounter := allocCounter p + 1\<rparr>"
    have "runs_alone (Reserving i c) p (Placing i c 0) ?p"
      using False by (intro step_alone [OF _ last_alone]) auto
    with reserve have placing: "runs_alone (call_start (CallAlloc i c)) p (Placing i c 0) ?p"
      by (rule runs_alone_trans)
    show ?thesis
    proof (rule runs_alone_first [of ?p "\<lambda>it. intents it = []" "Placing i c"])
      fix k assume k: "first_index (\<lambda>it. intents it = []) (pool ?p) = Some k"
        "runs_alone (Placing i c 0) ?p (Placing i c k) ?p" "k < maxSize ?p" "intents (pool ?p ! k) = []"
      then have "advance (Placing i c k) ?p = (t, p')"
        using assms(2) none(1) False by (auto simp: AllocOrGet_def Let_def)
      with placing k(2) show ?thesis by (blast intro: runs_alone_trans last_alone)
    next
      assume k: "first_index (\<lambda>it. intents it = []) (pool ?p) = None"
        "runs_alone (Placing i c 0) ?p (Placing i c (maxSize ?p)) ?p"
      then have "advance (Placing i c (maxSize ?p)) ?p = (t, p')"
        using assms(2) none(1) False by (auto simp: AllocOrGet_def Let_def)
      with placing k(2) show ?thesis by (blast intro: runs_alone_trans last_alone)
    qed (use assms(1) in auto)
  qed
qed auto

lemma alone_Free:
  assumes "length (pool p) = maxSize p"
  shows "runs_alone (call_start (CallFree i c)) p Freed (Free i c p)"
proof (rule runs_alone_first [OF assms, of "item_owned i c" "Freeing i c"])
  fix k assume k: "first_index (item_owned i c) (pool p) = Some k"
    "runs_alone (Freeing i c 0) p (Freeing i c k) p" "k < maxSize p" "item_owned i c (pool p ! k)"
  let ?it = "item_leave i (pool p ! k)" and ?p = "p\<lparr>pool := (pool p)[k := item_leave i (pool p ! k)]\<rparr>"
  have "runs_alone (Freeing i c k) p Freed (Free i c p)"
  proof (cases "intents ?it = []")
    case True
    have "advance (Freeing i c k) p = (Releasing k, ?p)" using k True by (simp add: Let_def)
    moreover have "advance (ReleaseSwapping k (allocCounter ?p)) ?p = (Freed, Free i c p)"
      using k(1) True by (simp add: Free_def Let_def)
    ultimately show ?thesis by (intro step_alone [OF _ step_alone [OF _ last_alone]]) auto
  next
    case False
    then show ?thesis using k by (intro last_alone) (simp add: Free_def Let_def)
  qed
  with k(2) show ?thesis by (auto intro: runs_alone_trans)
next
  assume none: "first_index (item_owned i c) (pool p) = None"
    "runs_alone (Freeing i c 0) p (Freeing i c (maxSize p)) p"
  have "advance (Freeing i c (maxSize p)) p = (Freed, Free i c p)" using none(1) by (simp add: Free_def)
  then show ?thesis using runs_alone_trans [OF none(2) last_alone] by simp
qed auto

lemma alone_lookups:
  assumes "length (pool p) = maxSize p"
  shows "runs_alone (call_start (CallGet i c)) p (Looked (GetIfAllocated i c p)) p"
    and "runs_alone (call_start (CallGetAny c)) p (Looked (GetIfAnyAllocated c p)) p"
proof -
  show "runs_alone (call_start (CallGet i c)) p (Looked (GetIfAllocated i c p)) p"
    by (rule runs_alone_first [OF assms, of "item_owned i c" "Looking i c"])
      (auto simp: GetIfAllocated_def intro: runs_alone_trans [OF _ last_alone])
  show "runs_alone (call_start (CallGetAny c)) p (Looked (GetIfAnyAllocated c p)) p"
    by (rule runs_alone_first [OF assms, of "\<lambda>it. 0 < length (intents it) \<and> itemCollectionId it = c" "LookingAny c"])
      (auto simp: GetIfAnyAllocated_def intro: runs_alone_trans [OF _ last_alone])
qed

section \<open>Properties\<close>

text \<open>C8: however the calls of several threads interleave, as long as every allocation names a
  collection id that is not empty, no \<open>AllocOrGet\<close> reaches its panic: a thread that increased the
  allocation counter always finds an empty item at or behind the one it looks at. The numbers
  returned are below the size; the counter is the number of items in use, plus the calls that
  have increased it and not yet taken their item, or emptied an item and not yet decreased it, and
  never exceeds the size, so once all calls have returned it is exact. The locks cause no
  deadlock: while a call has not returned, some call can go on.\<close>

theorem interleaved_calls_never_panic:
  assumes "list_all names_id evs" and "fold_opt take_event evs (pool_start n) = Some s"
  shows "PlacePanicked \<notin> set (calls s)
     \<and> (\<forall>k. Got k \<in> set (calls s) \<or> Looked (Some k) \<in> set (calls s) \<longrightarrow> k < n)
     \<and> allocCounter (sharedPool s) = int (count_if occupied (pool (sharedPool s))) + int (count_if (claims 0) (calls s))
     \<and> allocCounter (sharedPool s) \<le> int n
     \<and> (list_all returned (calls s) \<longrightarrow> allocCounter (sharedPool s) = int (count_if occupied (pool (sharedPool s))))
     \<and> (\<not> list_all returned (calls s) \<longrightarrow> (\<exists>j. can_advance s j))"
proof -
  note i = shared_inv_run [OF assms(2,1) shared_inv_start, unfolded shared_inv_def]
  let ?its = "pool (sharedPool s)"
  have ok: "thread_ok n t" if "t \<in> set (calls s)" for t using i that by (auto simp: list_all_iff)
  have "count_if occupied ?its + empties 0 ?its = n"
    using count_if_compl [of occupied ?its] i by (simp add: empties_def occupied_def)
  with i have counter: "allocCounter (sharedPool s) = int (count_if occupied ?its) + int (count_if (claims 0) (calls s))"
    by linarith
  have "count_if (claims 0) (calls s) \<le> empties 0 ?its" using i by blast
  with \<open>count_if occupied ?its + empties 0 ?its = n\<close> counter have bound: "allocCounter (sharedPool s) \<le> int n"
    by linarith
  have "\<not> claims 0 t" if "returned t" for t using that by (cases t) auto
  then have none: "count_if (claims 0) (calls s) = 0" if "list_all returned (calls s)"
    using that by (auto simp: count_if_def filter_empty_conv list_all_iff)
  have "\<exists>j. can_advance s j" if "\<not> list_all returned (calls s)"
    using that some_call_advances by (auto simp: list_all_iff)
  then show ?thesis
    using counter bound none ok [of PlacePanicked] ok [of "Got _"] ok [of "Looked (Some _)"] by auto
qed

text \<open>Two intents that allocate one new collection id at the same time: both look for the id before
  either has taken an item.\<close>

definition both_search :: "pool_event list" where
  "both_search = [StartCall (CallAlloc ''a'' ''x''), StartCall (CallAlloc ''b'' ''x'')]
     @ map Advance [0, 0, 0, 1, 1, 1, 0, 0, 0, 1, 1, 1, 1]"

theorem interleaved_calls_never_panic_witness:
  "\<exists>s. fold_opt take_event both_search (pool_start 2) = Some s \<and> PlacePanicked \<notin> set (calls s)
     \<and> allocCounter (sharedPool s) = 2 \<and> calls s = [Got 0, Got 1]"
proof -
  have "map_option (\<lambda>s. (allocCounter (sharedPool s), calls s)) (fold_opt take_event both_search (pool_start 2))
      = Some (2, [Got 0, Got 1])"
    by code_simp
  then obtain s where s: "fold_opt take_event both_search (pool_start 2) = Some s"
    "allocCounter (sharedPool s) = 2" "calls s = [Got 0, Got 1]" by auto
  have "list_all names_id both_search" by code_simp
  from interleaved_calls_never_panic [OF this s(1)] s show ?thesis by blast
qed

text \<open>The two intents then hold two numbers for the one collection id, against the purpose of the
  pool. The second intent is given the other number when it is updated, and freeing both leaves the second
  item taken: it has no owner left to free it.\<close>

definition both_freed :: "pool_event list" where
  "both_freed = [StartCall (CallAlloc ''b'' ''x''), Advance 2,
      StartCall (CallFree ''a'' ''x''), Advance 3, StartCall (CallFree ''b'' ''x'')]
     @ map Advance [4, 4, 4] @ [StartCall (CallGetAny ''x'')] @ map Advance [5, 5]"

theorem same_id_two_numbers:
  "map_option (\<lambda>s. (calls s, allocCounter (sharedPool s))) (fold_opt take_event (both_search @ both_freed) (pool_start 2))
   = Some ([Got 0, Got 1, Got 0, Freed, Freed, Looked (Some 1)], 1)"
  by code_simp

end
