(* ===== verification/Spec2Isabelle.thy ===== *)
theory Spec2Isabelle
  imports ServiceProperties FatTree Bmv2Properties NetworkUpdates ShimProperties OperatorProperties
    CollectorProperties SwitchNames P4Stream CapabilityStream PoolConcurrent
begin

text \<open>
  A verification development for k8s-inc, which runs in-band network telemetry on the P4 switches below a Kubernetes
  cluster. The program is three processes and two libraries; paths below are relative to \<open>src/src\<close>.

  \<^bold>\<open>The SDN controller\<close> (\<open>kinda-sdn\<close>) knows the network, writes forwarding entries into the switches when it starts, and configures
  telemetry for an intent: which switches insert telemetry data (sources), pass it on (transits) and report it to a
  collector (sinks). It talks to the switches through \<^bold>\<open>the P4Runtime client\<close> (\<open>libs/p4r\<close>) and \<^bold>\<open>the P4 connector\<close>
  (\<open>libs/p4-connector\<close>), and serves gRPC calls. \<^bold>\<open>The SDN shim\<close> (\<open>sdn-shim\<close>) is a Kubernetes controller that asks it for the network and
  stores that in the cluster. \<^bold>\<open>The telemetry operator\<close> (\<open>inc-operator\<close>) is a set of Kubernetes controllers that read what the
  shim stored, place pods, keep lists of the endpoints that want telemetry, send the requests for them to the SDN controller, run the
  collectors and show their statistics.

  \<^bold>\<open>Conventions.\<close> A struct is a record, an enumeration or an interface with known implementations a datatype, an
  integer of a fixed width a word and \<open>int\<close> of Go \<open>int\<close> where no overflow is in reach. A Go map is an association list with
  distinct keys, and a \<open>range\<close> over it goes in any order: the order is an argument, and theorems hold for every \<open>is_order\<close>. Errors are
  values of a sum or an option; a panic is \<^term>\<open>None\<close>, in the Kubernetes controllers the outcome with the error
  \<^term>\<open>Panicked\<close>. What is outside of the program (switches behind P4Runtime, the API server, gRPC and HTTP peers) is a record of
  operations on a world of any type; what a theorem needs of its documentation is a named predicate, and a witness of the theorem
  satisfies it with concrete functions. A mutex makes an operation one step; where goroutines
  interleave in a way that others observe, they are a step relation, with three exceptions named below. Times and log messages are left out, except where code decides on them.

  \<^bold>\<open>Shared theories.\<close>
  \<^item> \<open>GoPrelude\<close>: maps with their laws as a locale, \<open>range\<close> orders, formatting of numbers; \<open>GoStrings\<close>: the parts of \<open>strconv\<close>, \<open>strings\<close>, \<open>net\<close>
    and \<open>regexp\<close> that the code uses.
  \<^item> \<open>Cluster\<close>: objects, the client of the API server and the control flow of a \<open>Reconcile\<close> with its early returns; \<open>Steps\<close>: rules for
    invariants of such functions at every return. (\<open>after\<close> of Cluster speaks of the runs that do not return early.)

  \<^bold>\<open>The SDN controller.\<close>
  \<^item> \<open>Devices\<close> (\<open>model/devices.go\<close>, \<open>network.go\<close>, \<open>utils.go\<close>), \<open>Programs\<close> (\<open>model/program.go\<close>, \<open>programs/\<close>; the registry is a locale
    interpretation), \<open>Entries\<close> (\<open>telemetry/config.go\<close>).
  \<^item> \<open>Traversals\<close>, \<open>TelemetryEntities\<close>, \<open>EntityPaths\<close>, \<open>EntityDiff\<close> (\<open>telemetry/traversals.go\<close>, \<open>util.go\<close>): the depth-first search is correct, the
    entities of a request lie on its paths, and the difference of two versions is a set difference.
  \<^item> \<open>Counter\<close>, \<open>ChangeLog\<close>, \<open>Pool\<close>, \<open>CapabilityMonitor\<close> (the files of those names in \<open>telemetry/\<close>): reference counts of entries, commit and
    rollback over any applier that satisfies a locale, the collection identifiers, and the distribution of updates. \<open>PoolConcurrent\<close> has the steps of
    concurrent calls of the pool: no interleaving reaches its panic, a call that runs alone does what \<open>Pool\<close> says, and two calls at the
    same time can give one id two numbers.
  \<^item> \<open>Service\<close> with \<open>ServiceProofs\<close>, \<open>ServiceSystem\<close>, \<open>ServiceTotal\<close>, \<open>ServiceProperties\<close> (\<open>telemetry/service.go\<close>): configuring and disabling an intent.
    The user counts are the abstract state: a configuration adds the demand of its entities, an update moves it, disabling takes it
    back, a failure changes nothing; the discipline of locks, states and identifiers is an invariant of all
    sequences of calls and of the goroutines of disable calls, as long as the requests name a collection id; and nothing panics on a sound network.
  \<^item> \<open>GraphUtils\<close> (\<open>graphutils/traversals.go\<close>), \<open>Forwarding\<close> (\<open>controller/tree.go\<close>, \<open>util.go\<close>, \<open>p4dispatch.go\<close>): paths are shortest, and
    every switch has a route to every neighbour and to every network. \<open>MeasureTopo\<close>, \<open>FatTree\<close> (\<open>generated/\<close>): the built-in networks are sound.
  \<^item> \<open>Controller\<close>, \<open>ControllerProofs\<close> (\<open>controller/controller.go\<close>, \<open>frontend.go\<close>, \<open>mapping.go\<close>, \<open>networkchanger.go\<close>): changes of the network at run time, where they
    keep it sound and where not. \<open>NetworkUpdates\<close>, \<open>CapabilityStream\<close>: the channels of both subscriptions as step relations,
    with invariants, what can be delivered and where they block.

  \<^bold>\<open>P4Runtime.\<close>
  \<^item> \<open>P4Conversion\<close> (\<open>p4r/util/conversion\<close>), \<open>P4Client\<close>, \<open>P4Runtime\<close> (\<open>p4r/client\<close>): byte strings, matches, every request.
  \<^item> \<open>Connector\<close>, \<open>ConnectorProofs\<close> (\<open>p4-connector/connector\<close>), \<open>Bmv2\<close>, \<open>Bmv2Properties\<close> (\<open>kinda-sdn/device\<close>): the builders of entries against a
    reference encoding, and that a deletion addresses what was written.
  \<^item> \<open>P4Stream\<close> (\<open>p4r/client/client.go\<close>, \<open>p4-connector/connector/connection.go\<close>): the stream and its goroutines as a step relation.

  \<^bold>\<open>The shim and the operator.\<close>
  \<^item> \<open>Shim\<close>, \<open>ShimProofs\<close>, \<open>ShimProperties\<close> (\<open>sdn-shim/controllers/sdnshim_controller.go\<close>): a \<open>Reconcile\<close> that completes leaves the network of the SDN controller in
    the cluster, if no switch and no program is stored outside of the namespace \<open>default\<close>.
  \<^item> \<open>Operator\<close> (\<open>inc-operator/api\<close>, \<open>shimutils\<close>, \<open>controllers/utils\<close>), \<open>Feasible\<close> and \<open>Deployments\<close> (the deployment controllers), \<open>Endpoints\<close> (the
    endpoints controllers), \<open>Stats\<close>, \<open>Collectors\<close> (statistics, collectors and device resources).
  \<^item> \<open>FeasibleProofs\<close>: the nodes that are picked, and that the traversal ends. \<open>EndpointProofs\<close>: entries follow the pods and settle, or do not.
    \<open>StatsProofs\<close>, \<open>OperatorProperties\<close>: the goroutines are those of the handlers, and what makes an operation on them block. \<open>CollectorProperties\<close>: available collectors are reachable, and
    the device resources show the free entries of the SDN controller. \<open>SwitchNames\<close>: the metrics carry the names that the SDN controller meant.
  \<^item> \<open>SampleNetwork\<close> and \<open>OperatorSamples\<close> hold the networks and clusters of the witnesses.

  \<^bold>\<open>Coarser than the code.\<close> A call of the telemetry service and the goroutine of a disable call are one step each (\<open>ServiceSystem\<close>), while the code
  only locks the intent, so that calls for different intents may overlap. A tick of a statistics goroutine is one step (\<open>stat_tick\<close>); whether the
  goroutine comes back from it when it is told to stop is up to the environment (\<open>hanging\<close>). The reset of the shared connection after an error comes at
  the end of the call (\<open>WithTelemetryClient\<close>). When an operation on statistics handlers panics or blocks for ever, the model keeps the state from before it: a panic
  ends the operator, and after a block the reconciler handles nothing more.

  \<^bold>\<open>Bounds and fuel.\<close> \<open>NotifyChanged\<close> runs its loop with fuel two, which \<open>notify_rounds_latest\<close> shows to be enough, since nobody
  else sends while the lock is held. The walk up a map of parents takes the length of the map as fuel, more than a path without repetition
  needs. The searches terminate by measures, the devices not visited yet and the length of the queue, and \<open>update_attempts\<close> by the number of attempts, as in the code. Channels of the
  P4Runtime stream hold 1000 messages as in the code.

  \<^bold>\<open>Not modelled.\<close> The wiring in the \<open>main.go\<close> files and \<open>SetupWithManager\<close>, which only register things with libraries; the endless loop
  around the watch of device resources and its pauses; decoding of HTTP bodies and of JSON, the resolution of addresses and the IPv6
  parser, which are arguments; the comparison of 32-bit floating-point quotients for percentages, an argument that no path
  reaches, as \<open>requirement_meaning\<close> shows; files written for the evaluation; generated code (deep copies, protocol stubs), since
  values of HOL have no aliases; the empty controller of P4 programs; tests and the program that measures reconciliations.
\<close>

end
